(* ===== verification/Prelude.thy ===== *)
theory Prelude
  imports Main "HOL-Library.Word" "HOL-Library.AList" "HOL-Library.Multiset"
begin

text \<open>
  Shared vocabulary of the development: the widths of the Rust integers, the standard
  library's checked and saturating arithmetic on them, hash maps as association lists,
  the result type, and the locales that say what a reducer of the runtime promises.
  The lemmas here are the only place where words are turned into naturals: the
  components use the collection \<open>word_arith\<close> and never unfold the arithmetic again.
\<close>

section \<open>Collections\<close>

named_theorems word_arith \<open>checked and saturating machine arithmetic, read as naturals\<close>
named_theorems table \<open>lookups, updates and totals of association lists\<close>

section \<open>Machine integers\<close>

type_synonym u8 = "8 word"
type_synonym u16 = "16 word"
type_synonym u32 = "32 word"
type_synonym u64 = "64 word"
type_synonym usize = "64 word"

text \<open>Rust's \<open>checked_add\<close>, \<open>saturating_add\<close> and \<open>saturating_sub\<close> at any width.\<close>

definition checked_add :: "'a::len word \<Rightarrow> 'a word \<Rightarrow> 'a word option" where
  "checked_add a b = (if unat a + unat b < 2 ^ LENGTH('a) then Some (a + b) else None)"

definition saturating_add :: "'a::len word \<Rightarrow> 'a word \<Rightarrow> 'a word" where
  "saturating_add a b = (case checked_add a b of Some c \<Rightarrow> c | None \<Rightarrow> - 1)"

definition saturating_sub :: "'a::len word \<Rightarrow> 'a word \<Rightarrow> 'a word" where
  "saturating_sub a b = (if b \<le> a then a - b else 0)"

text \<open>Rust's widening \<open>u32::from\<close> and \<open>u64::from\<close> on narrower integers.\<close>

abbreviation u16_to_u32 :: "u16 \<Rightarrow> u32" where "u16_to_u32 \<equiv> ucast"
abbreviation u16_to_u64 :: "u16 \<Rightarrow> u64" where "u16_to_u64 \<equiv> ucast"

lemma unat_max_word [word_arith]: "unat (- 1 :: 'a::len word) = 2 ^ LENGTH('a) - 1"
  by transfer (simp add: take_bit_minus_one_eq_mask mask_eq_exp_minus_1 nat_diff_distrib nat_power_eq)

lemma checked_add_Some_iff [word_arith]:
  "checked_add (a :: 'a::len word) b = Some c \<longleftrightarrow> unat a + unat b < 2 ^ LENGTH('a) \<and> c = a + b"
  by (auto simp: checked_add_def)

lemma checked_add_None_iff [word_arith]:
  "checked_add (a :: 'a::len word) b = None \<longleftrightarrow> 2 ^ LENGTH('a) \<le> unat a + unat b"
  by (auto simp: checked_add_def)

lemma checked_add_unat:
  "checked_add a b = Some c \<Longrightarrow> unat c = unat a + unat b"
  by (auto simp: checked_add_def unat_word_ariths split: if_splits)

lemma unat_saturating_add [word_arith]:
  "unat (saturating_add (a :: 'a::len word) b) = min (unat a + unat b) (2 ^ LENGTH('a) - 1)"
proof (cases "unat a + unat b < 2 ^ LENGTH('a)")
  case True
  then have "saturating_add a b = a + b"
    by (simp add: saturating_add_def checked_add_def)
  moreover from True have "unat (a + b) = unat a + unat b"
    by (simp add: unat_word_ariths)
  moreover from True have "unat a + unat b \<le> 2 ^ LENGTH('a) - 1"
    by linarith
  ultimately show ?thesis by simp
next
  case False
  then have "saturating_add a b = - 1"
    by (simp add: saturating_add_def checked_add_def)
  moreover from False have "2 ^ LENGTH('a) - 1 \<le> unat a + unat b"
    by linarith
  ultimately show ?thesis by (simp only: unat_max_word min.absorb2)
qed

lemma unat_saturating_sub [word_arith]:
  "unat (saturating_sub a b) = unat a - unat b"
  by (auto simp: saturating_sub_def unat_sub word_le_nat_alt)

lemma unat_min_word: "unat (min a b) = min (unat a) (unat b)"
  by (simp add: min_def word_le_nat_alt)

lemma unat_add_fits:
  "unat (a :: 'a::len word) + unat b < 2 ^ LENGTH('a) \<Longrightarrow> unat (a + b) = unat a + unat b"
  by (simp add: unat_word_ariths)

lemma unat_sub_fits: "unat b \<le> unat a \<Longrightarrow> unat (a - b) = unat a - unat b"
  by (simp add: unat_sub word_le_nat_alt)

lemma unat_u16_to_u32 [word_arith]: "unat (u16_to_u32 c) = unat c"
  using unsigned_less [of c, where ?'a = nat] by (simp add: unsigned_ucast_eq take_bit_nat_eq_self_iff)

lemma unat_u16_to_u64 [word_arith]: "unat (u16_to_u64 c) = unat c"
  using unsigned_less [of c, where ?'a = nat] by (simp add: unsigned_ucast_eq take_bit_nat_eq_self_iff)

abbreviation u32_to_u64 :: "u32 \<Rightarrow> u64" where "u32_to_u64 \<equiv> ucast"

lemma unat_u32_to_u64 [word_arith]: "unat (u32_to_u64 c) = unat c"
  using unsigned_less [of c, where ?'a = nat] by (simp add: unsigned_ucast_eq take_bit_nat_eq_self_iff)

section \<open>Results\<close>

text \<open>A fallible operation returns \<open>Inl\<close> of its error or \<open>Inr\<close> of its value.\<close>

definition is_ok :: "'e + 'a \<Rightarrow> bool" where
  "is_ok r = (case r of Inl _ \<Rightarrow> False | Inr _ \<Rightarrow> True)"

lemma is_ok_simps [simp]: "is_ok (Inl e) = False" "is_ok (Inr a) = True"
  by (simp_all add: is_ok_def)

lemma is_ok_iff: "is_ok r \<longleftrightarrow> (\<exists>a. r = Inr a)"
  by (cases r) auto

section \<open>Hash maps\<close>

text \<open>
  A \<open>HashMap\<close> is an association list with distinct keys, read by \<open>map_of\<close> and written by
  \<open>AList.update\<close> and \<open>AList.delete\<close>. The order of the list is the order in which the
  model iterates; Rust leaves that order open, so a property of an iterated result never
  depends on it. \<open>tally f m\<close> adds up a quantity over the stored values: it is how the
  ledgers of the runtime are related to the records they summarise.
\<close>

type_synonym ('k, 'v) table = "('k \<times> 'v) list"

abbreviation keys_distinct :: "('k, 'v) table \<Rightarrow> bool" where
  "keys_distinct m \<equiv> distinct (map fst m)"

definition tally :: "('v \<Rightarrow> nat) \<Rightarrow> ('k, 'v) table \<Rightarrow> nat" where
  "tally f m = (\<Sum>(k, v) \<leftarrow> m. f v)"

lemma tally_simps [simp]:
  "tally f [] = 0"
  "tally f ((k, v) # m) = f v + tally f m"
  by (simp_all add: tally_def)

lemma lookup_update [table]: "map_of (AList.update k v m) = (map_of m)(k \<mapsto> v)"
  by (rule AList.update_conv')

lemma lookup_delete [table]: "map_of (AList.delete k m) = (map_of m)(k := None)"
  by (rule AList.delete_conv')

lemma update_keys_distinct [table]: "keys_distinct m \<Longrightarrow> keys_distinct (AList.update k v m)"
  by (rule AList.distinct_update)

lemma tally_update_fresh [table]: "map_of m k = None \<Longrightarrow> tally f (AList.update k v m) = tally f m + f v"
  by (induction m) (auto split: if_splits)

lemma tally_update_old:
  assumes "keys_distinct m" and "map_of m k = Some u"
  shows "tally f (AList.update k v m) + f u = tally f m + f v"
  using assms by (induction m) (auto split: if_splits)

lemma tally_ge: "map_of m k = Some v \<Longrightarrow> f v \<le> tally f m"
  by (induction m) (auto split: if_splits)

lemma tally_update_same [table]:
  assumes "keys_distinct m" and "map_of m k = Some u" and "f v = f u"
  shows "tally f (AList.update k v m) = tally f m"
  using tally_update_old [OF assms(1,2), of f v] assms(3) by simp

lemma tally_zero_iff: "tally f m = 0 \<longleftrightarrow> (\<forall>(k, v) \<in> set m. f v = 0)"
  by (induction m) auto

lemma tally_mono: "(\<And>k v. (k, v) \<in> set m \<Longrightarrow> f v \<le> g v) \<Longrightarrow> tally f m \<le> tally g m"
  by (induction m) (force intro: add_mono)+

section \<open>Counting\<close>

definition occurrences :: "('a \<Rightarrow> bool) \<Rightarrow> 'a list \<Rightarrow> nat" where
  "occurrences P xs = length (filter P xs)"

lemma occurrences_simps [simp]:
  "occurrences P [] = 0"
  "occurrences P (x # xs) = (if P x then Suc (occurrences P xs) else occurrences P xs)"
  "occurrences P (xs @ ys) = occurrences P xs + occurrences P ys"
  by (simp_all add: occurrences_def)

lemma occurrences_zero_iff: "occurrences P xs = 0 \<longleftrightarrow> (\<forall>x \<in> set xs. \<not> P x)"
  by (induction xs) auto

section \<open>Reducers\<close>

text \<open>
  The runtime is built from reducers: a state, an event, a new state and the effects the
  caller has to apply. \<open>run_reducer\<close> feeds a sequence of events to a reducer and collects
  the effects in the order in which they are emitted.
\<close>

fun run_reducer :: "('s \<Rightarrow> 'e \<Rightarrow> 's \<times> 'f list) \<Rightarrow> 's \<Rightarrow> 'e list \<Rightarrow> 's \<times> 'f list" where
  "run_reducer step s [] = (s, [])"
| "run_reducer step s (e # es) =
     (let (s', fs) = step s e; (s'', gs) = run_reducer step s' es in (s'', fs @ gs))"

lemma run_reducer_Cons:
  "fst (run_reducer step s (e # es)) = fst (run_reducer step (fst (step s e)) es)"
  "snd (run_reducer step s (e # es)) = snd (step s e) @ snd (run_reducer step (fst (step s e)) es)"
  by (simp_all add: Let_def split: prod.splits)

lemma run_reducer_append:
  "fst (run_reducer step s (es @ es')) = fst (run_reducer step (fst (run_reducer step s es)) es')"
  "snd (run_reducer step s (es @ es')) =
     snd (run_reducer step s es) @ snd (run_reducer step (fst (run_reducer step s es)) es')"
  by (induction es arbitrary: s) (simp_all add: run_reducer_Cons del: run_reducer.simps(2))

declare run_reducer.simps(2) [simp del]

text \<open>The contract of a reducer: every event keeps the invariant of its state.\<close>

locale reducer =
  fixes step :: "'s \<Rightarrow> 'e \<Rightarrow> 's \<times> 'f list"
    and inv :: "'s \<Rightarrow> bool"
  assumes step_inv: "inv s \<Longrightarrow> inv (fst (step s e))"
begin

lemma run_inv: "inv s \<Longrightarrow> inv (fst (run_reducer step s es))"
  by (induction es arbitrary: s) (simp_all add: run_reducer_Cons step_inv)

end

text \<open>
  The contract of a reducer that owes its caller one answer: once it has settled it stays
  settled and publishes nothing, and the event that settles it publishes exactly one effect.
\<close>

locale publishing_reducer = reducer step inv
  for step :: "'s \<Rightarrow> 'e \<Rightarrow> 's \<times> 'f list" and inv :: "'s \<Rightarrow> bool" +
  fixes settled :: "'s \<Rightarrow> bool"
    and publishes :: "'f \<Rightarrow> bool"
  assumes settled_step: "inv s \<Longrightarrow> settled s \<Longrightarrow> settled (fst (step s e))"
    and publications_step: "inv s \<Longrightarrow>
      occurrences publishes (snd (step s e)) =
        (if \<not> settled s \<and> settled (fst (step s e)) then 1 else 0)"
begin

lemma settled_run: "inv s \<Longrightarrow> settled s \<Longrightarrow> settled (fst (run_reducer step s es))"
  by (induction es arbitrary: s) (simp_all add: run_reducer_Cons settled_step step_inv)

lemma publications_run:
  "inv s \<Longrightarrow>
     occurrences publishes (snd (run_reducer step s es)) =
       (if \<not> settled s \<and> settled (fst (run_reducer step s es)) then 1 else 0)"
proof (induction es arbitrary: s)
  case Nil
  then show ?case by simp
next
  case (Cons e es)
  let ?t = "fst (step s e)"
  from Cons.prems have t: "inv ?t" by (rule step_inv)
  note now = publications_step [OF Cons.prems, of e] and later = Cons.IH [OF t]
  show ?case
  proof (cases "settled s")
    case True
    then have "settled ?t" by (rule settled_step [OF Cons.prems])
    with True now later show ?thesis by (simp add: run_reducer_Cons)
  next
    case False
    with now later settled_run [OF t, of es] show ?thesis
      by (cases "settled ?t") (simp_all add: run_reducer_Cons)
  qed
qed

lemma publishes_at_most_once:
  "inv s \<Longrightarrow> occurrences publishes (snd (run_reducer step s es)) \<le> 1"
  by (simp add: publications_run)

end

text \<open>
  The contract of a reducer whose state remembers the answer it gave: an answer is never
  changed, and the effects of a step tell the answer exactly when the step finds it.
\<close>

definition tells :: "('s \<Rightarrow> 'o option) \<Rightarrow> ('f \<Rightarrow> 'o option) \<Rightarrow> 's \<Rightarrow> 's \<times> 'f list \<Rightarrow> bool" where
  "tells answer told s p \<longleftrightarrow>
     (answer s \<noteq> None \<longrightarrow> answer (fst p) = answer s) \<and>
     List.map_filter told (snd p) =
       (if answer s = None then (case answer (fst p) of None \<Rightarrow> [] | Some x \<Rightarrow> [x]) else [])"

lemma map_filter_append [simp]: "List.map_filter f (xs @ ys) = List.map_filter f xs @ List.map_filter f ys"
  by (simp add: List.map_filter_def)

lemma occurrences_map_filter: "occurrences (\<lambda>x. f x \<noteq> None) xs = length (List.map_filter f xs)"
  by (simp add: occurrences_def List.map_filter_def)

lemma tells_refl [simp]: "tells answer told s (s, [])"
  by (simp add: tells_def List.map_filter_def split: option.split)

lemma tells_trans:
  assumes "tells answer told s (s', fs)" and "tells answer told s' (s'', fs')"
  shows "tells answer told s (s'', fs @ fs')"
  using assms by (cases "answer s") (auto simp: tells_def split: option.splits)

locale answering_reducer = reducer step inv
  for step :: "'s \<Rightarrow> 'e \<Rightarrow> 's \<times> 'f list" and inv :: "'s \<Rightarrow> bool" +
  fixes answer :: "'s \<Rightarrow> 'o option"
    and told :: "'f \<Rightarrow> 'o option"
  assumes tells_step: "inv s \<Longrightarrow> tells answer told s (step s e)"
begin

lemma tells_run: "inv s \<Longrightarrow> tells answer told s (run_reducer step s es)"
proof (induction es arbitrary: s)
  case (Cons e es)
  have "tells answer told s (fst (step s e), snd (step s e))"
    using Cons.prems by (simp add: tells_step)
  moreover have "tells answer told (fst (step s e))
      (fst (run_reducer step (fst (step s e)) es), snd (run_reducer step (fst (step s e)) es))"
    using Cons by (simp add: step_inv)
  ultimately have "tells answer told s (fst (run_reducer step s (e # es)), snd (run_reducer step s (e # es)))"
    unfolding run_reducer_Cons by (rule tells_trans)
  then show ?case by simp
qed simp

lemma told_run:
  "inv s \<Longrightarrow> answer s = None \<Longrightarrow>
     List.map_filter told (snd (run_reducer step s es)) =
       (case answer (fst (run_reducer step s es)) of None \<Rightarrow> [] | Some x \<Rightarrow> [x])"
  using tells_run [of s es] by (simp add: tells_def)

end

sublocale answering_reducer \<subseteq> publications: publishing_reducer step inv
  "\<lambda>s. answer s \<noteq> None" "\<lambda>f. told f \<noteq> None"
proof
  fix s e
  assume "inv s"
  note now = tells_step [OF this, of e, unfolded tells_def]
  show "answer s \<noteq> None \<Longrightarrow> answer (fst (step s e)) \<noteq> None"
    using now by simp
  show "occurrences (\<lambda>f. told f \<noteq> None) (snd (step s e)) =
      (if \<not> answer s \<noteq> None \<and> answer (fst (step s e)) \<noteq> None then 1 else 0)"
    unfolding occurrences_map_filter using now by (cases "answer (fst (step s e))") simp_all
qed

end
