(* ===== verification/Reducer.thy ===== *)
theory Reducer
  imports Prelude "HOL-Library.Product_Lexorder"
begin

text \<open>
  \<open>crates/smb/src/runtime/reducer.rs\<close>: the lifecycle of one request. A record keeps four
  orthogonal facts (what the caller was told, how far the frame was sent, which response was
  seen, whether a tombstone waits for a late response) and \<open>request_reduce\<close> is the only
  transition. The lemmas show that a caller is answered exactly once, that a terminal outcome
  tells the truth about whether the request may have reached the wire, and that a tombstone
  stands exactly for an unanswered request on the wire.
\<close>

section \<open>Model\<close>

type_synonym generation_id = u64

definition generation_checked_next :: "generation_id \<Rightarrow> generation_id option" where
  "generation_checked_next g = checked_add g 1"

datatype request_key = RequestKey (key_generation: generation_id) (key_message_id: u64)

text \<open>The derived \<open>Ord\<close> of \<open>RequestKey\<close> compares its fields in order.\<close>

instantiation request_key :: linorder
begin

definition less_eq_request_key :: "request_key \<Rightarrow> request_key \<Rightarrow> bool" where
  "a \<le> b \<longleftrightarrow> (key_generation a, key_message_id a) \<le> (key_generation b, key_message_id b)"

definition less_request_key :: "request_key \<Rightarrow> request_key \<Rightarrow> bool" where
  "a < b \<longleftrightarrow> (key_generation a, key_message_id a) < (key_generation b, key_message_id b)"

instance
proof
  fix a b c :: request_key
  show "a < b \<longleftrightarrow> a \<le> b \<and> \<not> b \<le> a" "a \<le> a" "a \<le> b \<or> b \<le> a"
    by (auto simp: less_eq_request_key_def less_request_key_def)
  show "a \<le> b \<Longrightarrow> b \<le> c \<Longrightarrow> a \<le> c"
    by (auto simp: less_eq_request_key_def)
  show "a \<le> b \<Longrightarrow> b \<le> a \<Longrightarrow> a = b"
    by (cases a; cases b) (auto simp: less_eq_request_key_def)
qed

end

datatype network_failure = ConnectionLost | NetworkTimedOut | NetworkSessionInvalidated

datatype send_progress = NotQueued | SendQueued | Partial usize | Complete

fun committed :: "send_progress \<Rightarrow> bool" where
  "committed (Partial _) = True"
| "committed Complete = True"
| "committed NotQueued = False"
| "committed SendQueued = False"

datatype response_progress = NoResponse | AsyncPending u64 | FinalResponse

datatype terminal_outcome =
    Response
  | SessionInvalidated
  | Cancelled
  | TimedOut
  | OutcomeUnknown
  | NetworkOutcomeUnknown network_failure
  | PreparationFailed
  | GenerationLost
  | GenerationClosed

datatype caller_outcome = Open | Terminal terminal_outcome

datatype request_event =
    EvQueued
  | EvWriteProgress usize
  | EvWriteComplete
  | EvAsyncPending request_key u64
  | EvFinalResponse request_key
  | EvRecoveryHint request_key
  | EvCancel
  | EvDeadline
  | EvDisconnect "network_failure option"

datatype reduce_effect = NoEffect | Publish terminal_outcome | BookkeepingOnly | IgnoredForeignGeneration

record request_record =
  rec_key :: request_key
  rec_caller :: caller_outcome
  rec_send :: send_progress
  rec_response :: response_progress
  rec_tombstone :: bool

definition request_new :: "request_key \<Rightarrow> request_record" where
  "request_new k = \<lparr>rec_key = k, rec_caller = Open, rec_send = NotQueued,
     rec_response = NoResponse, rec_tombstone = False\<rparr>"

definition caller_is_open :: "request_record \<Rightarrow> bool" where
  "caller_is_open r \<longleftrightarrow> rec_caller r = Open"

definition wire_committed :: "request_record \<Rightarrow> bool" where
  "wire_committed r = committed (rec_send r)"

definition observe_response_commitment :: "request_record \<Rightarrow> request_record" where
  "observe_response_commitment r = (if \<not> committed (rec_send r) then r\<lparr>rec_send := Complete\<rparr> else r)"

definition publish_once :: "request_record \<Rightarrow> terminal_outcome \<Rightarrow> request_record \<times> reduce_effect" where
  "publish_once r outcome =
     (if rec_caller r \<noteq> Open then (r, BookkeepingOnly)
      else (r\<lparr>rec_caller := Terminal outcome\<rparr>, Publish outcome))"

definition publish_terminal :: "request_record \<Rightarrow> terminal_outcome \<Rightarrow> request_record \<times> reduce_effect" where
  "publish_terminal r outcome = publish_once r outcome"

definition finish_without_response ::
  "request_record \<Rightarrow> terminal_outcome \<Rightarrow> request_record \<times> reduce_effect" where
  "finish_without_response r uncommitted =
     (if committed (rec_send r) then
        publish_once (r\<lparr>rec_tombstone := (rec_response r \<noteq> FinalResponse)\<rparr>)
          (if uncommitted = TimedOut then NetworkOutcomeUnknown NetworkTimedOut else OutcomeUnknown)
      else publish_once r uncommitted)"

definition disconnect_outcome :: "bool \<Rightarrow> network_failure option \<Rightarrow> terminal_outcome" where
  "disconnect_outcome sent network =
     (if sent then (case network of None \<Rightarrow> OutcomeUnknown | Some f \<Rightarrow> NetworkOutcomeUnknown f)
      else (case network of
              Some ConnectionLost \<Rightarrow> GenerationLost
            | Some NetworkTimedOut \<Rightarrow> TimedOut
            | Some NetworkSessionInvalidated \<Rightarrow> SessionInvalidated
            | None \<Rightarrow> GenerationClosed))"

fun request_reduce :: "request_record \<Rightarrow> request_event \<Rightarrow> request_record \<times> reduce_effect" where
  "request_reduce r EvQueued =
     (if rec_send r = NotQueued then r\<lparr>rec_send := SendQueued\<rparr> else r, NoEffect)"
| "request_reduce r (EvWriteProgress bytes) =
     (if bytes > 0 \<and> rec_send r \<noteq> Complete
      then r\<lparr>rec_send := Partial (saturating_add (case rec_send r of Partial b \<Rightarrow> b | _ \<Rightarrow> 0) bytes)\<rparr>
      else r, NoEffect)"
| "request_reduce r EvWriteComplete = (r\<lparr>rec_send := Complete\<rparr>, NoEffect)"
| "request_reduce r (EvAsyncPending key async_id) =
     (if key_generation key \<noteq> key_generation (rec_key r) then (r, IgnoredForeignGeneration)
      else if key \<noteq> rec_key r \<or> rec_response r = FinalResponse then (r, BookkeepingOnly)
      else (r\<lparr>rec_response := AsyncPending async_id\<rparr>, BookkeepingOnly))"
| "request_reduce r (EvFinalResponse key) =
     (if key_generation key \<noteq> key_generation (rec_key r) then (r, IgnoredForeignGeneration)
      else if key \<noteq> rec_key r then (r, BookkeepingOnly)
      else publish_once (r\<lparr>rec_response := FinalResponse, rec_tombstone := False\<rparr>) Response)"
| "request_reduce r (EvRecoveryHint key) =
     (if key_generation key \<noteq> key_generation (rec_key r) then (r, IgnoredForeignGeneration)
      else if key \<noteq> rec_key r then (r, BookkeepingOnly)
      else publish_once (r\<lparr>rec_tombstone := False\<rparr>) SessionInvalidated)"
| "request_reduce r EvCancel = finish_without_response r Cancelled"
| "request_reduce r EvDeadline = finish_without_response r TimedOut"
| "request_reduce r (EvDisconnect network) =
     publish_once (r\<lparr>rec_tombstone := False\<rparr>) (disconnect_outcome (committed (rec_send r)) network)"

section \<open>One step of the lifecycle\<close>

definition request_step :: "request_record \<Rightarrow> request_event \<Rightarrow> request_record \<times> reduce_effect list" where
  "request_step r e = (let (r', f) = request_reduce r e in (r', [f]))"

fun is_publish :: "reduce_effect \<Rightarrow> bool" where
  "is_publish (Publish _) = True"
| "is_publish _ = False"

text \<open>
  The invariant of a record: an open caller has no final response, and a tombstone stands
  only where the caller was answered, the request is on the wire and no final response came.
\<close>

definition request_inv :: "request_record \<Rightarrow> bool" where
  "request_inv r \<longleftrightarrow>
     (rec_caller r = Open \<longrightarrow> rec_response r \<noteq> FinalResponse) \<and>
     (rec_tombstone r \<longrightarrow> rec_caller r \<noteq> Open \<and> committed (rec_send r) \<and> rec_response r \<noteq> FinalResponse)"

lemmas request_defs = publish_once_def finish_without_response_def publish_terminal_def

lemma request_inv_new [simp]: "request_inv (request_new k)"
  by (simp add: request_inv_def request_new_def)

lemma request_reduce_inv: "request_inv r \<Longrightarrow> request_inv (fst (request_reduce r e))"
  by (cases e) (auto simp: request_inv_def request_defs)

lemma request_reduce_key [simp]: "rec_key (fst (request_reduce r e)) = rec_key r"
  by (cases e) (auto simp: request_defs)

lemma request_reduce_committed:
  "committed (rec_send r) \<Longrightarrow> committed (rec_send (fst (request_reduce r e)))"
  by (cases e) (auto simp: request_defs)

lemma request_reduce_terminal:
  "rec_caller r = Terminal outcome \<Longrightarrow>
     rec_caller (fst (request_reduce r e)) = Terminal outcome \<and> \<not> is_publish (snd (request_reduce r e))"
  by (cases e) (auto simp: request_defs)

lemma request_reduce_open:
  "rec_caller r = Open \<Longrightarrow>
     (case rec_caller (fst (request_reduce r e)) of
        Open \<Rightarrow> \<not> is_publish (snd (request_reduce r e))
      | Terminal outcome \<Rightarrow> snd (request_reduce r e) = Publish outcome)"
  by (cases e) (auto simp: request_defs)

lemma observe_response_commitment_simps [simp]:
  "rec_key (observe_response_commitment r) = rec_key r"
  "rec_caller (observe_response_commitment r) = rec_caller r"
  "rec_response (observe_response_commitment r) = rec_response r"
  "rec_tombstone (observe_response_commitment r) = rec_tombstone r"
  "committed (rec_send (observe_response_commitment r))"
  by (auto simp: observe_response_commitment_def)

lemma observe_response_commitment_inv: "request_inv r \<Longrightarrow> request_inv (observe_response_commitment r)"
  by (simp add: request_inv_def)

interpretation lifecycle: publishing_reducer request_step request_inv
  "\<lambda>r. rec_caller r \<noteq> Open" is_publish
proof unfold_locales
  fix r e
  show "request_inv r \<Longrightarrow> request_inv (fst (request_step r e))"
    by (simp add: request_step_def request_reduce_inv split_beta)
  show "rec_caller r \<noteq> Open \<Longrightarrow> rec_caller (fst (request_step r e)) \<noteq> Open"
    using request_reduce_terminal [of r _ e]
    by (cases "rec_caller r") (auto simp: request_step_def split_beta)
  show "occurrences is_publish (snd (request_step r e)) =
      (if \<not> rec_caller r \<noteq> Open \<and> rec_caller (fst (request_step r e)) \<noteq> Open then 1 else 0)"
    using request_reduce_terminal [of r _ e] request_reduce_open [of r e]
    by (cases "rec_caller r") (auto simp: request_step_def split_beta split: caller_outcome.splits)
qed

section \<open>Whole lifecycles\<close>

text \<open>The events that end the lifecycle of the request with key \<open>k\<close>, and what each of them
  tells the caller, given whether the request was committed to the wire.\<close>

fun ends_request :: "request_key \<Rightarrow> request_event \<Rightarrow> bool" where
  "ends_request k (EvFinalResponse k') = (k' = k)"
| "ends_request k (EvRecoveryHint k') = (k' = k)"
| "ends_request k EvCancel = True"
| "ends_request k EvDeadline = True"
| "ends_request k (EvDisconnect _) = True"
| "ends_request k _ = False"

fun outcome_of :: "bool \<Rightarrow> request_event \<Rightarrow> terminal_outcome" where
  "outcome_of sent (EvFinalResponse _) = Response"
| "outcome_of sent (EvRecoveryHint _) = SessionInvalidated"
| "outcome_of sent EvCancel = (if sent then OutcomeUnknown else Cancelled)"
| "outcome_of sent EvDeadline = (if sent then NetworkOutcomeUnknown NetworkTimedOut else TimedOut)"
| "outcome_of sent (EvDisconnect network) = disconnect_outcome sent network"
| "outcome_of sent _ = Response"

fun outcome_unknown :: "terminal_outcome \<Rightarrow> bool" where
  "outcome_unknown OutcomeUnknown = True"
| "outcome_unknown (NetworkOutcomeUnknown _) = True"
| "outcome_unknown _ = False"

fun server_spoke :: "request_event \<Rightarrow> bool" where
  "server_spoke (EvFinalResponse _) = True"
| "server_spoke (EvRecoveryHint _) = True"
| "server_spoke _ = False"

abbreviation request_run :: "request_record \<Rightarrow> request_event list \<Rightarrow> request_record" where
  "request_run r es \<equiv> fst (run_reducer request_step r es)"

lemma request_run_Cons [simp]:
  "request_run r (e # es) = request_run (fst (request_reduce r e)) es"
  by (simp add: run_reducer_Cons request_step_def split_beta)

lemma request_run_append:
  "request_run r (es @ es') = request_run (request_run r es) es'"
  by (rule run_reducer_append)

lemma request_run_key [simp]: "rec_key (request_run r es) = rec_key r"
  by (induction es arbitrary: r) auto

lemma request_reduce_caller:
  "rec_caller (fst (request_reduce r e)) =
     (if rec_caller r = Open \<and> ends_request (rec_key r) e
      then Terminal (outcome_of (committed (rec_send r)) e) else rec_caller r)"
  by (cases e) (auto simp: request_defs)

lemma request_run_open:
  "rec_caller (request_run r es) = Open \<longleftrightarrow>
     rec_caller r = Open \<and> \<not> list_ex (ends_request (rec_key r)) es"
  by (induction es arbitrary: r) (auto simp: request_reduce_caller)

lemma request_run_terminal:
  "rec_caller r = Terminal outcome \<Longrightarrow> rec_caller (request_run r es) = Terminal outcome"
  by (induction es arbitrary: r) (auto simp: request_reduce_caller)

text \<open>
  Over every sequence of lifecycle events (responses, cancellations, deadlines, recovery
  hints, disconnects and write progress in any order), a fresh request publishes exactly one
  terminal outcome if some event ends it, and none otherwise.
\<close>

theorem caller_answered_exactly_once:
  "occurrences is_publish (snd (run_reducer request_step (request_new k) es)) =
     (if list_ex (ends_request k) es then 1 else 0)"
  using lifecycle.publications_run [of "request_new k" es] request_run_open [of "request_new k" es]
  by (simp add: request_new_def request_inv_def)

text \<open>
  The first event that ends a request decides what its caller is told, whatever follows:
  the outcome is the one of that event at the commitment the request had reached by then.
\<close>

theorem first_ending_event_decides:
  assumes "list_all (\<lambda>e. \<not> ends_request k e) before" and "ends_request k e"
  shows "rec_caller (request_run (request_new k) (before @ e # after)) =
    Terminal (outcome_of (wire_committed (request_run (request_new k) before)) e)"
proof -
  let ?r = "request_run (request_new k) before"
  have "rec_caller ?r = Open" and "rec_key ?r = k"
    using assms(1) request_run_open [of "request_new k" before]
    by (auto simp: request_new_def list_all_iff list_ex_iff)
  with assms(2) show ?thesis
    by (simp add: request_run_append request_run_terminal request_reduce_caller wire_committed_def)
qed

theorem first_ending_event_decides_witness:
  "rec_caller (request_run (request_new (RequestKey 7 41))
     ([EvQueued, EvWriteProgress 1] @ EvDeadline # [EvFinalResponse (RequestKey 7 41)])) =
   Terminal (NetworkOutcomeUnknown NetworkTimedOut)"
  by (subst first_ending_event_decides)
    (simp_all add: request_new_def wire_committed_def saturating_add_def checked_add_def)

text \<open>
  A published outcome tells the truth about the wire: it is one of the ``outcome unknown''
  outcomes exactly when the request had bytes on the wire and the server did not speak, so a
  definite failure is only ever reported for a request that was never sent.
\<close>

theorem published_outcome_reports_commitment:
  assumes "snd (request_reduce r e) = Publish outcome"
  shows "outcome_unknown outcome \<longleftrightarrow> wire_committed r \<and> \<not> server_spoke e"
  using assms
  by (cases e)
    (auto simp: request_defs disconnect_outcome_def wire_committed_def
      split: if_splits option.splits network_failure.splits)

theorem published_outcome_reports_commitment_witness:
  "let r = (request_new (RequestKey 7 41))\<lparr>rec_send := Complete\<rparr> in
     snd (request_reduce r EvCancel) = Publish OutcomeUnknown \<and>
     (outcome_unknown OutcomeUnknown \<longleftrightarrow> wire_committed r \<and> \<not> server_spoke EvCancel)"
  using published_outcome_reports_commitment
    [of "(request_new (RequestKey 7 41))\<lparr>rec_send := Complete\<rparr>" EvCancel OutcomeUnknown]
  by (simp add: request_new_def request_defs wire_committed_def)

text \<open>
  In every state a request can reach, a tombstone stands only where the caller was
  answered, the request is on the wire and no final response has arrived, and a caller that is
  still waiting has not been passed over by a final response.
\<close>

theorem reachable_request_inv: "request_inv (request_run (request_new k) es)"
  by (rule lifecycle.run_inv) simp

text \<open>From here on a step of the lifecycle is used through the lemmas above.\<close>

declare request_reduce.simps [simp del]

end
