(* ===== verification/Clock.thy ===== *)
theory Clock
  imports Prelude
begin

text \<open>
  \<open>crates/smb/src/clock.rs\<close>: the monotonic time line of the runtime, a \<open>u64\<close> count of
  nanoseconds, and the part of \<open>std::time::Duration\<close> the runtime computes with. A duration
  is its number of nanoseconds; the standard library bounds it by \<open>duration_max\<close>.
\<close>

type_synonym monotonic_time = u64
type_synonym duration = nat

definition duration_max :: duration where
  "duration_max = (2 ^ 64 - 1) * 10 ^ 9 + 999999999"

definition time_zero :: monotonic_time where
  "time_zero = 0"

text \<open>\<open>u64::try_from(duration.as_nanos()).unwrap_or(u64::MAX)\<close>.\<close>

definition duration_nanoseconds :: "duration \<Rightarrow> u64" where
  "duration_nanoseconds d = (if d < 2 ^ 64 then of_nat d else - 1)"

definition time_saturating_add :: "monotonic_time \<Rightarrow> duration \<Rightarrow> monotonic_time" where
  "time_saturating_add t d = saturating_add t (duration_nanoseconds d)"

text \<open>\<open>Duration::saturating_mul(u32)\<close>.\<close>

definition duration_saturating_mul :: "duration \<Rightarrow> u32 \<Rightarrow> duration" where
  "duration_saturating_mul d n = min (d * unat n) duration_max"

lemma unat_duration_nanoseconds: "unat (duration_nanoseconds d) = min d (2 ^ 64 - 1)"
  by (auto simp: duration_nanoseconds_def unat_of_nat unat_max_word)

lemma unat_time_saturating_add [word_arith]:
  "unat (time_saturating_add t d) = min (unat t + d) (2 ^ 64 - 1)"
  by (simp add: time_saturating_add_def unat_saturating_add unat_duration_nanoseconds)

lemma time_saturating_add_ge [simp, intro]: "t \<le> time_saturating_add t d"
proof -
  have "unat t < 2 ^ 64" using unsigned_less [of t, where ?'a = nat] by simp
  then show ?thesis by (simp add: word_le_nat_alt unat_time_saturating_add)
qed

lemma time_saturating_add_mono: "t \<le> t' \<Longrightarrow> time_saturating_add t d \<le> time_saturating_add t' d"
  by (simp add: word_le_nat_alt unat_time_saturating_add)

end
