(* ===== verification/Deadline_Heap.thy ===== *)
theory Deadline_Heap
  imports Reducer Clock
begin

text \<open>
  The deadline queue of a generation: the \<open>DeadlineEntry\<close> of
  \<open>crates/smb/src/runtime/state.rs\<close> with its derived order, and the interface of
  \<open>BinaryHeap<Reverse<_>>\<close> (a bag whose smallest element is visible). The model keeps the
  bag as an ascending list; the clients use only the laws of the locale \<open>min_heap\<close>.
\<close>

section \<open>Entries and their order\<close>

datatype deadline_kind = CallerDeadline | TombstoneDeadline

datatype deadline_entry =
  DeadlineEntry (entry_at: monotonic_time) (entry_sequence: u64) (entry_key: request_key)
    (entry_kind: deadline_kind) (entry_version: u64)

text \<open>The derived \<open>Ord\<close> of an enum follows the order of its variants, that of a struct the
  order of its fields.\<close>

definition kind_rank :: "deadline_kind \<Rightarrow> nat" where
  "kind_rank k = (case k of CallerDeadline \<Rightarrow> 0 | TombstoneDeadline \<Rightarrow> 1)"

definition entry_rank :: "deadline_entry \<Rightarrow> monotonic_time \<times> u64 \<times> request_key \<times> nat \<times> u64" where
  "entry_rank e = (entry_at e, entry_sequence e, entry_key e, kind_rank (entry_kind e), entry_version e)"

lemma entry_rank_inj: "entry_rank a = entry_rank b \<Longrightarrow> a = b"
  by (cases a; cases b) (auto simp: entry_rank_def kind_rank_def split: deadline_kind.splits)

instantiation deadline_entry :: linorder
begin

definition less_eq_deadline_entry :: "deadline_entry \<Rightarrow> deadline_entry \<Rightarrow> bool" where
  "a \<le> b \<longleftrightarrow> entry_rank a \<le> entry_rank b"

definition less_deadline_entry :: "deadline_entry \<Rightarrow> deadline_entry \<Rightarrow> bool" where
  "a < b \<longleftrightarrow> entry_rank a < entry_rank b"

instance
proof
  fix a b c :: deadline_entry
  show "a < b \<longleftrightarrow> a \<le> b \<and> \<not> b \<le> a" "a \<le> a" "a \<le> b \<or> b \<le> a"
    unfolding less_eq_deadline_entry_def less_deadline_entry_def by auto
  show "a \<le> b \<Longrightarrow> b \<le> c \<Longrightarrow> a \<le> c"
    unfolding less_eq_deadline_entry_def by (rule order_trans)
  show "a \<le> b \<Longrightarrow> b \<le> a \<Longrightarrow> a = b"
    unfolding less_eq_deadline_entry_def by (rule entry_rank_inj) (rule antisym)
qed

end

lemma entry_le_at: "a \<le> b \<Longrightarrow> entry_at a \<le> entry_at b"
  by (auto simp: less_eq_deadline_entry_def entry_rank_def)

section \<open>The heap interface\<close>

locale min_heap =
  fixes push :: "'a::linorder \<Rightarrow> 'h \<Rightarrow> 'h"
    and peek :: "'h \<Rightarrow> 'a option"
    and pop :: "'h \<Rightarrow> 'h"
    and entries :: "'h \<Rightarrow> 'a multiset"
    and heap_inv :: "'h \<Rightarrow> bool"
  assumes push_inv: "heap_inv h \<Longrightarrow> heap_inv (push x h)"
    and pop_inv: "heap_inv h \<Longrightarrow> heap_inv (pop h)"
    and push_entries: "heap_inv h \<Longrightarrow> entries (push x h) = add_mset x (entries h)"
    and peek_None: "heap_inv h \<Longrightarrow> peek h = None \<longleftrightarrow> entries h = {#}"
    and peek_least: "heap_inv h \<Longrightarrow> peek h = Some x \<Longrightarrow> y \<in># entries h \<Longrightarrow> x \<le> y"
    and pop_entries: "heap_inv h \<Longrightarrow> peek h = Some x \<Longrightarrow> entries h = add_mset x (entries (pop h))"
begin

lemma nothing_due:
  assumes "heap_inv h" and "\<And>x. peek h = Some x \<Longrightarrow> \<not> due x"
    and downward: "\<And>x y. x \<le> y \<Longrightarrow> due y \<Longrightarrow> due x"
    and "y \<in># entries h"
  shows "\<not> due y"
proof (cases "peek h")
  case None
  with assms(1,4) show ?thesis by (simp add: peek_None)
next
  case (Some x)
  with assms show ?thesis using peek_least [OF assms(1) Some assms(4)] by blast
qed

lemma pop_subset: "heap_inv h \<Longrightarrow> peek h = Some x \<Longrightarrow> set_mset (entries (pop h)) \<subseteq> set_mset (entries h)"
  by (auto simp: pop_entries [of h x])

end

section \<open>The heap as an ascending list\<close>

definition heap_push :: "'a::linorder \<Rightarrow> 'a list \<Rightarrow> 'a list" where
  "heap_push x h = insort x h"

definition heap_peek :: "'a list \<Rightarrow> 'a option" where
  "heap_peek h = (case h of [] \<Rightarrow> None | x # _ \<Rightarrow> Some x)"

definition heap_pop :: "'a list \<Rightarrow> 'a list" where
  "heap_pop h = tl h"

interpretation deadlines: min_heap heap_push heap_peek heap_pop mset "sorted :: 'a::linorder list \<Rightarrow> bool"
proof unfold_locales
  fix h :: "'a list" and x y :: 'a
  assume h: "sorted h"
  show "sorted (heap_push x h)" by (simp add: heap_push_def h sorted_insort)
  show "sorted (heap_pop h)" by (simp add: heap_pop_def h sorted_tl)
  show "mset (heap_push x h) = add_mset x (mset h)" by (simp add: heap_push_def)
  show "heap_peek h = None \<longleftrightarrow> mset h = {#}" by (simp add: heap_peek_def split: list.splits)
  show "heap_peek h = Some x \<Longrightarrow> y \<in># mset h \<Longrightarrow> x \<le> y"
    using h by (auto simp: heap_peek_def split: list.splits)
  show "heap_peek h = Some x \<Longrightarrow> mset h = add_mset x (mset (heap_pop h))"
    by (auto simp: heap_peek_def heap_pop_def split: list.splits)
qed

lemma set_heap_push [simp]: "set (heap_push x h) = insert x (set h)"
  by (simp add: heap_push_def set_insort_key)

lemma heap_peek_simps [simp]: "heap_peek [] = None" "heap_peek (x # h) = Some x"
  by (simp_all add: heap_peek_def)

lemma heap_pop_simps [simp]: "heap_pop [] = []" "heap_pop (x # h) = h"
  by (simp_all add: heap_pop_def)

end
