(* ===== verification/Generation_State.thy ===== *)
theory Generation_State
  imports Deadline_Heap
begin

text \<open>
  \<open>crates/smb/src/runtime/state.rs\<close>: the sole owner of the requests of one connection
  generation. \<open>generation_reduce\<close> takes one \<open>OwnerEvent\<close> and returns the new state and the
  effects; every handler of the source is one definition here, in the source's order of
  checks. \<open>get_mut\<close> followed by a mutation is a lookup followed by \<open>put_request\<close>. The
  unchecked \<open>+=\<close> and \<open>-=\<close> of the source are word operations; the ledger invariant of
  \<open>Generation_Ledger\<close> shows that none of them wraps.
\<close>

section \<open>Data\<close>

record admission_limits =
  max_operations :: usize
  max_payload_bytes :: u64

datatype admission_error =
    OperationsExhausted
  | PayloadBytesExhausted
  | CreditsExhausted u32 u16
  | MessageIdExhausted
  | InvalidCreditCharge

record preparation_plan =
  plan_key :: request_key
  plan_payload_bytes :: u64
  plan_credit_charge :: u16
  plan_credit_request :: u16
  plan_caller_deadline :: "monotonic_time option"

datatype response_event = PendingResponse u64 | LastResponse

datatype request_progress = ProgressQueued | ProgressWritten usize | ProgressWriteComplete

datatype owner_event =
    Admit u64 u16 "monotonic_time option"
  | RequestProgressed request_key request_progress
  | PrepareFailed request_key
  | CancelRequest request_key monotonic_time
  | ResponseArrived request_key response_event u16
  | RecoveryHint request_key
  | AdvanceTime monotonic_time
  | Disconnect "network_failure option"

datatype owner_effect =
    Admitted preparation_plan
  | AdmissionRejected admission_error
  | RequestEffect request_key reduce_effect
  | ReservationRolledBack request_key
  | CreditGrantApplied request_key u16 u32
  | DuplicateResponse request_key
  | CancelControlQueued request_key
  | DuplicateCancel request_key
  | BestEffortWireCancel request_key
  | StaleDeadlineIgnored request_key
  | GenerationUnhealthy request_key
  | AsyncIdConflict u64 request_key request_key
  | AsyncIdChanged request_key u64 u64
  | CreditLedgerOverflow request_key u32 u16
  | UnknownRequest request_key

record owned_request =
  lifecycle :: request_record
  payload_bytes :: u64
  credit_charge :: u16
  requested_extra_credits :: u32
  credit_response_seen :: bool
  admission_held :: bool
  payload_held :: bool
  credit_obligation :: bool
  cancel_seen :: bool
  deadline_version :: u64

record generation_state =
  generation :: generation_id
  limits :: admission_limits
  next_message_id :: "u64 option"
  available_credits :: u32
  total_credits :: u32
  pending_extra_credits :: u32
  target_credits :: u32
  admitted_operations :: usize
  retained_payload_bytes :: u64
  requests :: "(request_key, owned_request) table"
  async_index :: "(u64, request_key) table"
  deadlines :: "deadline_entry list"
  next_deadline_sequence :: u64
  tombstone_drain_timeout :: duration
  unhealthy :: bool

definition generation_new ::
  "generation_id \<Rightarrow> u64 \<Rightarrow> u32 \<Rightarrow> u32 \<Rightarrow> admission_limits \<Rightarrow> duration \<Rightarrow> generation_state" where
  "generation_new g initial_message_id initial_credits target lim drain =
     \<lparr>generation = g, limits = lim, next_message_id = Some initial_message_id,
      available_credits = initial_credits, total_credits = initial_credits,
      pending_extra_credits = 0, target_credits = target, admitted_operations = 0,
      retained_payload_bytes = 0, requests = [], async_index = [], deadlines = [],
      next_deadline_sequence = 0, tombstone_drain_timeout = drain, unhealthy = False\<rparr>"

definition set_target_credits :: "generation_state \<Rightarrow> u32 \<Rightarrow> generation_state" where
  "set_target_credits s target = s\<lparr>target_credits := max target 1\<rparr>"

abbreviation get_request :: "generation_state \<Rightarrow> request_key \<Rightarrow> owned_request option" where
  "get_request s k \<equiv> map_of (requests s) k"

definition put_request :: "generation_state \<Rightarrow> request_key \<Rightarrow> owned_request \<Rightarrow> generation_state" where
  "put_request s k r = s\<lparr>requests := AList.update k r (requests s)\<rparr>"

section \<open>Shared steps\<close>

definition schedule_deadline ::
  "generation_state \<Rightarrow> request_key \<Rightarrow> monotonic_time \<Rightarrow> deadline_kind \<Rightarrow> generation_state \<times> bool" where
  "schedule_deadline s key at kind =
     (case get_request s key of
        None \<Rightarrow> (s, False)
      | Some r \<Rightarrow>
          (case checked_add (deadline_version r) 1 of
             None \<Rightarrow> (s\<lparr>unhealthy := True\<rparr>, False)
           | Some version \<Rightarrow>
               ((put_request s key (r\<lparr>deadline_version := version\<rparr>))
                  \<lparr>next_deadline_sequence := saturating_add (next_deadline_sequence s) 1,
                   deadlines := heap_push
                     (DeadlineEntry at (next_deadline_sequence s) key kind version) (deadlines s)\<rparr>,
                True)))"

definition release_payload :: "generation_state \<Rightarrow> request_key \<Rightarrow> generation_state" where
  "release_payload s key =
     (case get_request s key of
        None \<Rightarrow> s
      | Some r \<Rightarrow>
          if payload_held r then
            (put_request s key (r\<lparr>payload_held := False\<rparr>))
              \<lparr>retained_payload_bytes := retained_payload_bytes s - payload_bytes r\<rparr>
          else s)"

definition release_request_ownership :: "generation_state \<Rightarrow> request_key \<Rightarrow> generation_state" where
  "release_request_ownership s0 key =
     (let s = release_payload s0 key in
      case get_request s key of
        None \<Rightarrow> s
      | Some r \<Rightarrow>
          if admission_held r then
            (put_request s key (r\<lparr>admission_held := False\<rparr>))
              \<lparr>admitted_operations := admitted_operations s - 1\<rparr>
          else s)"

definition rollback :: "generation_state \<Rightarrow> request_key \<Rightarrow> generation_state \<times> bool" where
  "rollback s key =
     (case get_request s key of
        None \<Rightarrow> (s, False)
      | Some r \<Rightarrow>
          if \<not> credit_obligation r \<and> \<not> admission_held r then (s, False)
          else if credit_obligation r then
            (case checked_add (available_credits s) (u16_to_u32 (credit_charge r)) of
               None \<Rightarrow> (s, False)
             | Some available \<Rightarrow>
                 (release_request_ownership
                    ((put_request s key (r\<lparr>credit_obligation := False\<rparr>))
                       \<lparr>available_credits := available,
                        pending_extra_credits :=
                          saturating_sub (pending_extra_credits s) (requested_extra_credits r)\<rparr>) key,
                  True))
          else (release_request_ownership s key, True))"

section \<open>Handlers\<close>

definition admission_rejection :: "generation_state \<Rightarrow> u64 \<Rightarrow> u16 \<Rightarrow> admission_error option" where
  "admission_rejection s bytes charge =
     (if charge = 0 then Some InvalidCreditCharge
      else if max_operations (limits s) \<le> admitted_operations s then Some OperationsExhausted
      else if (case checked_add (retained_payload_bytes s) bytes of
                 None \<Rightarrow> True | Some retained \<Rightarrow> max_payload_bytes (limits s) < retained)
        then Some PayloadBytesExhausted
      else if available_credits s < u16_to_u32 charge
        then Some (CreditsExhausted (available_credits s) charge)
      else if next_message_id s = None then Some MessageIdExhausted
      else None)"

text \<open>\<open>u32::from(u16::MAX)\<close> bounds the credit request before it is narrowed to \<open>u16\<close>.\<close>

definition admission_credit_request :: "generation_state \<Rightarrow> u16 \<Rightarrow> u16" where
  "admission_credit_request s charge =
     (let projected_total = saturating_add (total_credits s) (pending_extra_credits s);
          extra = saturating_sub (target_credits s) projected_total
      in ucast (min (saturating_add (u16_to_u32 charge) extra) (u16_to_u32 (- 1))))"

definition admit ::
  "generation_state \<Rightarrow> u64 \<Rightarrow> u16 \<Rightarrow> monotonic_time option \<Rightarrow> generation_state \<times> owner_effect" where
  "admit s bytes charge caller_deadline =
     (case admission_rejection s bytes charge of
        Some e \<Rightarrow> (s, AdmissionRejected e)
      | None \<Rightarrow>
     (case next_message_id s of
        None \<Rightarrow> (s, AdmissionRejected MessageIdExhausted)
      | Some message_id \<Rightarrow>
          let credit_request = admission_credit_request s charge;
              extra = u16_to_u32 credit_request - u16_to_u32 charge;
              key = RequestKey (generation s) message_id;
              plan = \<lparr>plan_key = key, plan_payload_bytes = bytes, plan_credit_charge = charge,
                      plan_credit_request = credit_request, plan_caller_deadline = caller_deadline\<rparr>;
              s1 = s\<lparr>next_message_id := checked_add message_id (u16_to_u64 charge),
                     available_credits := available_credits s - u16_to_u32 charge,
                     pending_extra_credits := saturating_add (pending_extra_credits s) extra,
                     admitted_operations := admitted_operations s + 1,
                     retained_payload_bytes := retained_payload_bytes s + bytes\<rparr>;
              s2 = put_request s1 key
                     \<lparr>lifecycle = request_new key, payload_bytes = bytes, credit_charge = charge,
                      requested_extra_credits = extra, credit_response_seen = False,
                      admission_held = True, payload_held = True, credit_obligation = True,
                      cancel_seen = False, deadline_version = 0\<rparr>;
              s3 = (case caller_deadline of
                      None \<Rightarrow> s2
                    | Some at \<Rightarrow> fst (schedule_deadline s2 key at CallerDeadline))
          in (s3, Admitted plan)))"

fun progress_event :: "request_progress \<Rightarrow> request_event" where
  "progress_event ProgressQueued = EvQueued"
| "progress_event (ProgressWritten bytes) = EvWriteProgress bytes"
| "progress_event ProgressWriteComplete = EvWriteComplete"

definition on_request_event ::
  "generation_state \<Rightarrow> request_key \<Rightarrow> request_progress \<Rightarrow> generation_state \<times> owner_effect list" where
  "on_request_event s key event =
     (if key_generation key \<noteq> generation s then (s, [RequestEffect key IgnoredForeignGeneration])
      else case get_request s key of
        None \<Rightarrow> (s, [UnknownRequest key])
      | Some r \<Rightarrow>
          let (l, effect) = request_reduce (lifecycle r) (progress_event event);
              s1 = put_request s key (r\<lparr>lifecycle := l\<rparr>)
          in (if event = ProgressWriteComplete then release_payload s1 key else s1,
              [RequestEffect key effect]))"

text \<open>What cancellation and an expired caller deadline share: a request on the wire keeps a
  tombstone with a drain deadline, a request that never left is rolled back.\<close>

definition settle_unanswered ::
  "generation_state \<Rightarrow> request_key \<Rightarrow> bool \<Rightarrow> monotonic_time \<Rightarrow> generation_state \<times> owner_effect list" where
  "settle_unanswered s key sent now =
     (if sent then
        (let (s1, ok) = schedule_deadline s key
               (time_saturating_add now (tombstone_drain_timeout s)) TombstoneDeadline
         in (s1, BestEffortWireCancel key # (if ok then [] else [GenerationUnhealthy key])))
      else
        (let (s1, ok) = rollback s key
         in (s1, if ok then [ReservationRolledBack key] else [])))"

definition on_cancel ::
  "generation_state \<Rightarrow> request_key \<Rightarrow> monotonic_time \<Rightarrow> generation_state \<times> owner_effect list" where
  "on_cancel s key now =
     (if key_generation key \<noteq> generation s then (s, [RequestEffect key IgnoredForeignGeneration])
      else case get_request s key of
        None \<Rightarrow> (s, [UnknownRequest key])
      | Some r \<Rightarrow>
          if cancel_seen r then (s, [DuplicateCancel key])
          else if \<not> caller_is_open (lifecycle r)
            then (put_request s key (r\<lparr>cancel_seen := True\<rparr>), [DuplicateCancel key])
          else
            let sent = wire_committed (lifecycle r);
                (l, effect) = request_reduce (lifecycle r) EvCancel;
                s1 = put_request s key (r\<lparr>cancel_seen := True, lifecycle := l\<rparr>);
                (s2, effects) = settle_unanswered s1 key sent now
            in (s2, CancelControlQueued key # RequestEffect key effect # effects))"

definition expire_deadline ::
  "generation_state \<Rightarrow> monotonic_time \<Rightarrow> deadline_entry \<Rightarrow> generation_state \<times> owner_effect list" where
  "expire_deadline s now entry =
     (let key = entry_key entry in
      case get_request s key of
        None \<Rightarrow> (s, [StaleDeadlineIgnored key])
      | Some r \<Rightarrow>
          if deadline_version r \<noteq> entry_version entry then (s, [StaleDeadlineIgnored key])
          else (case entry_kind entry of
             CallerDeadline \<Rightarrow>
               if \<not> caller_is_open (lifecycle r) then (s, [StaleDeadlineIgnored key])
               else
                 let sent = wire_committed (lifecycle r);
                     (l, effect) = request_reduce (lifecycle r) EvDeadline;
                     (s1, effects) = settle_unanswered (put_request s key (r\<lparr>lifecycle := l\<rparr>)) key sent now
                 in (s1, RequestEffect key effect # effects)
           | TombstoneDeadline \<Rightarrow>
               if rec_tombstone (lifecycle r) \<and> rec_response (lifecycle r) \<noteq> FinalResponse
               then (s\<lparr>unhealthy := True\<rparr>, [GenerationUnhealthy key])
               else (s, [StaleDeadlineIgnored key])))"

text \<open>
  The loop of \<open>advance_time\<close> pops every entry that is due. Expiring a caller deadline may
  push one tombstone deadline, which may itself be due at once; a tombstone deadline pushes
  nothing. So the number of entries, caller deadlines counted twice, decreases.
\<close>

definition entry_weight :: "deadline_entry \<Rightarrow> nat" where
  "entry_weight e = (case entry_kind e of CallerDeadline \<Rightarrow> 2 | TombstoneDeadline \<Rightarrow> 1)"

definition deadline_weight :: "generation_state \<Rightarrow> nat" where
  "deadline_weight s = (\<Sum>e \<in># mset (deadlines s). entry_weight e)"

lemma put_request_fields [simp]:
  "requests (put_request s k r) = AList.update k r (requests s)"
  "deadlines (put_request s k r) = deadlines s"
  "generation (put_request s k r) = generation s"
  "limits (put_request s k r) = limits s"
  "next_message_id (put_request s k r) = next_message_id s"
  "available_credits (put_request s k r) = available_credits s"
  "total_credits (put_request s k r) = total_credits s"
  "pending_extra_credits (put_request s k r) = pending_extra_credits s"
  "target_credits (put_request s k r) = target_credits s"
  "admitted_operations (put_request s k r) = admitted_operations s"
  "retained_payload_bytes (put_request s k r) = retained_payload_bytes s"
  "async_index (put_request s k r) = async_index s"
  "next_deadline_sequence (put_request s k r) = next_deadline_sequence s"
  "tombstone_drain_timeout (put_request s k r) = tombstone_drain_timeout s"
  "unhealthy (put_request s k r) = unhealthy s"
  by (simp_all add: put_request_def)

lemma release_payload_deadlines [simp]: "deadlines (release_payload s k) = deadlines s"
  by (simp add: release_payload_def split: option.splits)

lemma release_request_ownership_deadlines [simp]: "deadlines (release_request_ownership s k) = deadlines s"
  by (simp add: release_request_ownership_def Let_def split: option.splits)

lemma rollback_deadlines [simp]: "deadlines (fst (rollback s k)) = deadlines s"
  by (simp add: rollback_def split: option.splits)

lemma schedule_deadline_deadlines:
  "\<exists>es. mset (deadlines (fst (schedule_deadline s k at kind))) = mset (deadlines s) + es \<and>
     (es = {#} \<or> (\<exists>e. es = {#e#} \<and> entry_kind e = kind \<and> entry_at e = at \<and> entry_key e = k))"
  by (auto simp: schedule_deadline_def heap_push_def split: option.splits)

lemma settle_unanswered_deadlines:
  "\<exists>es. mset (deadlines (fst (settle_unanswered s k sent now))) = mset (deadlines s) + es \<and>
     (es = {#} \<or> (\<exists>e. es = {#e#} \<and> entry_kind e = TombstoneDeadline \<and>
        entry_at e = time_saturating_add now (tombstone_drain_timeout s) \<and> entry_key e = k))"
  using schedule_deadline_deadlines [of s k "time_saturating_add now (tombstone_drain_timeout s)"
    TombstoneDeadline]
  by (simp add: settle_unanswered_def split_beta)

lemma expire_deadline_deadlines:
  "\<exists>es. mset (deadlines (fst (expire_deadline s now entry))) = mset (deadlines s) + es \<and>
     (es = {#} \<or> (\<exists>e. es = {#e#} \<and> entry_kind e = TombstoneDeadline \<and> entry_kind entry = CallerDeadline))"
proof (cases "get_request s (entry_key entry)")
  case None
  then show ?thesis by (simp add: expire_deadline_def)
next
  case (Some r)
  let ?s = "put_request s (entry_key entry) (r\<lparr>lifecycle := fst (request_reduce (lifecycle r) EvDeadline)\<rparr>)"
  show ?thesis
    using Some settle_unanswered_deadlines [of ?s "entry_key entry" "wire_committed (lifecycle r)" now]
    by (auto simp: expire_deadline_def Let_def split_beta split: deadline_kind.splits)
qed

lemma expire_deadline_weight:
  assumes "heap_peek (deadlines s) = Some entry"
  shows "deadline_weight (fst (expire_deadline (s\<lparr>deadlines := heap_pop (deadlines s)\<rparr>) now entry)) < deadline_weight s"
proof -
  let ?s = "s\<lparr>deadlines := heap_pop (deadlines s)\<rparr>"
  from assms have "mset (deadlines s) = add_mset entry (mset (deadlines ?s))"
    by (auto simp: heap_peek_def heap_pop_def split: list.splits)
  moreover obtain es where
    "mset (deadlines (fst (expire_deadline ?s now entry))) = mset (deadlines ?s) + es"
    "es = {#} \<or> (\<exists>e. es = {#e#} \<and> entry_kind e = TombstoneDeadline \<and> entry_kind entry = CallerDeadline)"
    using expire_deadline_deadlines [of ?s now entry] by blast
  ultimately show ?thesis
    by (auto simp: deadline_weight_def entry_weight_def split: deadline_kind.splits)
qed

function on_advance_time :: "generation_state \<Rightarrow> monotonic_time \<Rightarrow> generation_state \<times> owner_effect list" where
  "on_advance_time s now =
     (case heap_peek (deadlines s) of
        None \<Rightarrow> (s, [])
      | Some entry \<Rightarrow>
          if entry_at entry \<le> now then
            (let (s1, effects) = expire_deadline (s\<lparr>deadlines := heap_pop (deadlines s)\<rparr>) now entry;
                 (s2, effects') = on_advance_time s1 now
             in (s2, effects @ effects'))
          else (s, []))"
  by pat_completeness auto
termination
proof (relation "measure (\<lambda>(s, now). deadline_weight s)", goal_cases)
  case 1
  show ?case by simp
next
  case (2 s now entry x s1 effects)
  then show ?case
    using expire_deadline_weight [of s entry now] by (auto dest: arg_cong [of _ _ fst])
qed

declare on_advance_time.simps [simp del]

lemma advance_time_induct [case_names idle due]:
  assumes idle: "\<And>s. (\<And>e. heap_peek (deadlines s) = Some e \<Longrightarrow> now < entry_at e) \<Longrightarrow> P s (s, [])"
    and due: "\<And>s e s1 fs1 s2 fs2. heap_peek (deadlines s) = Some e \<Longrightarrow> entry_at e \<le> now \<Longrightarrow>
      expire_deadline (s\<lparr>deadlines := heap_pop (deadlines s)\<rparr>) now e = (s1, fs1) \<Longrightarrow>
      P s1 (s2, fs2) \<Longrightarrow> P s (s2, fs1 @ fs2)"
  shows "P s (on_advance_time s now)"
proof (induction s now' \<equiv> now rule: on_advance_time.induct)
  case (1 s)
  show ?case
  proof (cases "\<exists>e. heap_peek (deadlines s) = Some e \<and> entry_at e \<le> now")
    case False
    then have "P s (s, [])" by (intro idle) (auto simp: not_le)
    with False show ?thesis by (subst on_advance_time.simps) (auto split: option.split)
  next
    case True
    then obtain e where e: "heap_peek (deadlines s) = Some e" "entry_at e \<le> now" by blast
    obtain s1 fs1 where step: "expire_deadline (s\<lparr>deadlines := heap_pop (deadlines s)\<rparr>) now e = (s1, fs1)"
      by fastforce
    obtain s2 fs2 where rest: "on_advance_time s1 now = (s2, fs2)" by fastforce
    have "P s1 (s2, fs2)" using 1 [OF e step [symmetric]] rest by simp
    then have "P s (s2, fs1 @ fs2)" by (rule due [OF e step])
    moreover have "on_advance_time s now = (s2, fs1 @ fs2)"
      using e step rest by (subst on_advance_time.simps) simp
    ultimately show ?thesis by simp
  qed
qed

definition on_prepare_failed ::
  "generation_state \<Rightarrow> request_key \<Rightarrow> generation_state \<times> owner_effect list" where
  "on_prepare_failed s key =
     (if key_generation key \<noteq> generation s then (s, [RequestEffect key IgnoredForeignGeneration])
      else case get_request s key of
        None \<Rightarrow> (s, [UnknownRequest key])
      | Some r \<Rightarrow>
          if wire_committed (lifecycle r) then (s, [RequestEffect key BookkeepingOnly])
          else
            let (l, effect) = publish_terminal (lifecycle r) PreparationFailed;
                (s1, ok) = rollback (put_request s key (r\<lparr>lifecycle := l\<rparr>)) key
            in (s1, RequestEffect key effect # (if ok then [ReservationRolledBack key] else [])))"

text \<open>The async id of a pending response that belongs to another request, or that differs from
  the one this request already has.\<close>

definition conflicting_async :: "generation_state \<Rightarrow> request_key \<Rightarrow> response_event \<Rightarrow> (u64 \<times> request_key) option" where
  "conflicting_async s key event =
     (case event of
        LastResponse \<Rightarrow> None
      | PendingResponse async_id \<Rightarrow>
          (case map_of (async_index s) async_id of
             None \<Rightarrow> None
           | Some existing \<Rightarrow> if existing \<noteq> key then Some (async_id, existing) else None))"

definition changed_async :: "owned_request \<Rightarrow> response_event \<Rightarrow> (u64 \<times> u64) option" where
  "changed_async r event =
     (case (event, rec_response (lifecycle r)) of
        (PendingResponse async_id, AsyncPending existing) \<Rightarrow>
          if existing \<noteq> async_id then Some (existing, async_id) else None
      | _ \<Rightarrow> None)"

text \<open>The credit ledger and the payload are settled before the caller is answered.\<close>

definition account_response :: "generation_state \<Rightarrow> owned_request \<Rightarrow> u16 \<Rightarrow> generation_state \<times> owned_request" where
  "account_response s r grant =
     (let s1 = (if \<not> credit_response_seen r then
                  s\<lparr>pending_extra_credits :=
                      saturating_sub (pending_extra_credits s) (requested_extra_credits r),
                    total_credits := saturating_add
                      (saturating_sub (total_credits s) (u16_to_u32 (credit_charge r)))
                      (u16_to_u32 grant)\<rparr>
                else s\<lparr>total_credits := saturating_add (total_credits s) (u16_to_u32 grant)\<rparr>);
          r1 = r\<lparr>credit_response_seen := True,
                 lifecycle := observe_response_commitment (lifecycle r)\<rparr>
      in if payload_held r1
         then (s1\<lparr>retained_payload_bytes := retained_payload_bytes s1 - payload_bytes r1\<rparr>,
               r1\<lparr>payload_held := False\<rparr>)
         else (s1, r1))"

fun response_lifecycle_event :: "request_key \<Rightarrow> response_event \<Rightarrow> request_event" where
  "response_lifecycle_event key (PendingResponse async_id) = EvAsyncPending key async_id"
| "response_lifecycle_event key LastResponse = EvFinalResponse key"

definition on_response ::
  "generation_state \<Rightarrow> request_key \<Rightarrow> response_event \<Rightarrow> u16 \<Rightarrow> generation_state \<times> owner_effect list" where
  "on_response s key event grant =
     (if key_generation key \<noteq> generation s then (s, [RequestEffect key IgnoredForeignGeneration])
      else case conflicting_async s key event of
        Some (async_id, existing) \<Rightarrow>
          (s\<lparr>unhealthy := True\<rparr>, [AsyncIdConflict async_id existing key, GenerationUnhealthy key])
      | None \<Rightarrow>
     (case get_request s key of
        None \<Rightarrow> (s, [UnknownRequest key])
      | Some r \<Rightarrow>
     (case changed_async r event of
        Some (existing, incoming) \<Rightarrow>
          (s\<lparr>unhealthy := True\<rparr>, [AsyncIdChanged key existing incoming, GenerationUnhealthy key])
      | None \<Rightarrow>
      if rec_response (lifecycle r) = FinalResponse then (s, [DuplicateResponse key])
      else
        let previous = rec_response (lifecycle r);
            (s1, r1) = account_response s r grant
        in case checked_add (available_credits s1) (u16_to_u32 grant) of
          None \<Rightarrow>
            ((put_request s1 key r1)\<lparr>unhealthy := True\<rparr>,
             [CreditLedgerOverflow key (available_credits s1) grant, GenerationUnhealthy key])
        | Some available \<Rightarrow>
            let (l, effect) = request_reduce (lifecycle r1) (response_lifecycle_event key event);
                r2 = r1\<lparr>lifecycle := l\<rparr>;
                s2 = s1\<lparr>available_credits := available\<rparr>;
                effects = [CreditGrantApplied key grant available, RequestEffect key effect]
            in case event of
              PendingResponse async_id \<Rightarrow>
                ((put_request s2 key r2)\<lparr>async_index := AList.update async_id key (async_index s2)\<rparr>, effects)
            | LastResponse \<Rightarrow>
                let s3 = (case previous of
                            AsyncPending async_id \<Rightarrow> s2\<lparr>async_index := AList.delete async_id (async_index s2)\<rparr>
                          | _ \<Rightarrow> s2);
                    r3 = r2\<lparr>credit_obligation := False\<rparr>;
                    (s4, r4, effects4) =
                      (case checked_add (deadline_version r3) 1 of
                         Some version \<Rightarrow> (s3, r3\<lparr>deadline_version := version\<rparr>, effects)
                       | None \<Rightarrow> (s3\<lparr>unhealthy := True\<rparr>, r3, effects @ [GenerationUnhealthy key]))
                in (release_request_ownership (put_request s4 key r4) key, effects4))))"

definition on_recovery_hint ::
  "generation_state \<Rightarrow> request_key \<Rightarrow> generation_state \<times> owner_effect list" where
  "on_recovery_hint s key =
     (if key_generation key \<noteq> generation s then (s, [RequestEffect key IgnoredForeignGeneration])
      else case get_request s key of
        None \<Rightarrow> (s, [UnknownRequest key])
      | Some r \<Rightarrow>
          let (l, effect) = request_reduce (lifecycle r) (EvRecoveryHint key)
          in (release_request_ownership (put_request s key (r\<lparr>lifecycle := l\<rparr>)) key,
              [RequestEffect key effect]))"

text \<open>The loop of \<open>disconnect\<close>, over the keys of the table in any order.\<close>

fun disconnect_keys ::
  "network_failure option \<Rightarrow> request_key list \<Rightarrow> generation_state \<Rightarrow> generation_state \<times> owner_effect list" where
  "disconnect_keys network [] s = (s, [])"
| "disconnect_keys network (key # keys) s =
     (let (s1, effects) =
            (case get_request s key of
               None \<Rightarrow> (s, [])
             | Some r \<Rightarrow>
                 let (l, effect) = request_reduce (lifecycle r) (EvDisconnect network)
                 in (put_request s key (r\<lparr>lifecycle := l\<rparr>), [RequestEffect key effect]));
          (s2, effects') = disconnect_keys network keys (release_request_ownership s1 key)
      in (s2, effects @ effects'))"

definition on_disconnect ::
  "generation_state \<Rightarrow> network_failure option \<Rightarrow> generation_state \<times> owner_effect list" where
  "on_disconnect s network = disconnect_keys network (map fst (requests s)) s"

fun generation_reduce :: "generation_state \<Rightarrow> owner_event \<Rightarrow> generation_state \<times> owner_effect list" where
  "generation_reduce s (Admit bytes charge caller_deadline) =
     (let (s', effect) = admit s bytes charge caller_deadline in (s', [effect]))"
| "generation_reduce s (RequestProgressed key event) = on_request_event s key event"
| "generation_reduce s (PrepareFailed key) = on_prepare_failed s key"
| "generation_reduce s (CancelRequest key now) = on_cancel s key now"
| "generation_reduce s (ResponseArrived key event grant) = on_response s key event grant"
| "generation_reduce s (RecoveryHint key) = on_recovery_hint s key"
| "generation_reduce s (AdvanceTime now) = on_advance_time s now"
| "generation_reduce s (Disconnect network) = on_disconnect s network"

section \<open>Observers\<close>

definition next_deadline :: "generation_state \<Rightarrow> monotonic_time option" where
  "next_deadline s = map_option entry_at (heap_peek (deadlines s))"

definition unresolved_callers :: "generation_state \<Rightarrow> nat" where
  "unresolved_callers s = tally (\<lambda>r. if rec_caller (lifecycle r) = Open then 1 else 0) (requests s)"

definition request_terminal_outcome :: "generation_state \<Rightarrow> request_key \<Rightarrow> terminal_outcome option" where
  "request_terminal_outcome s key =
     (case get_request s key of
        None \<Rightarrow> None
      | Some r \<Rightarrow> (case rec_caller (lifecycle r) of Open \<Rightarrow> None | Terminal outcome \<Rightarrow> Some outcome))"

definition request_for_async_id :: "generation_state \<Rightarrow> u64 \<Rightarrow> request_key option" where
  "request_for_async_id s async_id = map_of (async_index s) async_id"

end
