(* ===== verification/Generation_Ledger.thy ===== *)
theory Generation_Ledger
  imports Generation_State
begin

text \<open>
  The ledger of a generation. The counters of \<open>GenerationState\<close> are totals over its table of
  requests: the retained bytes are the payloads still held, the admitted operations are the
  slots still held. Every handler keeps the totals exact and within the limits, so the
  unchecked additions and subtractions of the source never wrap; every record in the table
  keeps the lifecycle invariant; and a caller that waits holds its slot and its credits.
\<close>

named_theorems lookup \<open>the request table after a shared step\<close>

section \<open>The invariant\<close>

definition held_payload :: "owned_request \<Rightarrow> nat" where
  "held_payload r = (if payload_held r then unat (payload_bytes r) else 0)"

definition held_slot :: "owned_request \<Rightarrow> nat" where
  "held_slot r = (if admission_held r then 1 else 0)"

definition owned_ok :: "generation_id \<Rightarrow> request_key \<Rightarrow> owned_request \<Rightarrow> bool" where
  "owned_ok g k r \<longleftrightarrow>
     rec_key (lifecycle r) = k \<and> key_generation k = g \<and> request_inv (lifecycle r) \<and>
     (payload_held r \<longrightarrow> admission_held r) \<and>
     (rec_caller (lifecycle r) = Open \<longrightarrow> admission_held r \<and> credit_obligation r)"

text \<open>A request with credit charge \<open>c\<close> owns the message ids of its window, \<open>c\<close> of them from
  its own id on. Windows never overlap and the next id lies beyond all of them.\<close>

definition charge_of :: "generation_state \<Rightarrow> request_key \<Rightarrow> u16 option" where
  "charge_of s k = map_option credit_charge (get_request s k)"

definition message_window :: "request_key \<Rightarrow> u16 \<Rightarrow> nat set" where
  "message_window k c = {unat (key_message_id k) ..< unat (key_message_id k) + unat c}"

definition windows_ok :: "generation_state \<Rightarrow> bool" where
  "windows_ok s \<longleftrightarrow>
     (\<forall>k c. charge_of s k = Some c \<longrightarrow>
        c \<noteq> 0 \<and> (\<forall>n. next_message_id s = Some n \<longrightarrow> unat (key_message_id k) + unat c \<le> unat n)) \<and>
     (\<forall>k c k' c'. charge_of s k = Some c \<longrightarrow> charge_of s k' = Some c' \<longrightarrow> k \<noteq> k' \<longrightarrow>
        message_window k c \<inter> message_window k' c' = {})"

definition generation_inv :: "generation_state \<Rightarrow> bool" where
  "generation_inv s \<longleftrightarrow>
     keys_distinct (requests s) \<and> sorted (deadlines s) \<and> windows_ok s \<and>
     (\<forall>k r. get_request s k = Some r \<longrightarrow> owned_ok (generation s) k r) \<and>
     unat (retained_payload_bytes s) = tally held_payload (requests s) \<and>
     unat (admitted_operations s) = tally held_slot (requests s) \<and>
     retained_payload_bytes s \<le> max_payload_bytes (limits s) \<and>
     admitted_operations s \<le> max_operations (limits s)"

lemma windows_ok_frame:
  "next_message_id s' = next_message_id s \<Longrightarrow> charge_of s' = charge_of s \<Longrightarrow> windows_ok s' = windows_ok s"
  by (simp add: windows_ok_def)

lemma windows_ok_update [simp]:
  "windows_ok (s\<lparr>unhealthy := b\<rparr>) = windows_ok s"
  "windows_ok (s\<lparr>available_credits := c\<rparr>) = windows_ok s"
  "windows_ok (s\<lparr>total_credits := c\<rparr>) = windows_ok s"
  "windows_ok (s\<lparr>pending_extra_credits := c\<rparr>) = windows_ok s"
  "windows_ok (s\<lparr>target_credits := c\<rparr>) = windows_ok s"
  "windows_ok (s\<lparr>async_index := i\<rparr>) = windows_ok s"
  "windows_ok (s\<lparr>next_deadline_sequence := n\<rparr>) = windows_ok s"
  "windows_ok (s\<lparr>deadlines := ds\<rparr>) = windows_ok s"
  "windows_ok (s\<lparr>admitted_operations := a\<rparr>) = windows_ok s"
  "windows_ok (s\<lparr>retained_payload_bytes := a\<rparr>) = windows_ok s"
  by (rule windows_ok_frame; simp add: charge_of_def fun_eq_iff)+

lemma put_request_windows:
  "get_request s k = Some r \<Longrightarrow> credit_charge r' = credit_charge r \<Longrightarrow>
     windows_ok (put_request s k r') = windows_ok s"
  by (rule windows_ok_frame) (auto simp: table charge_of_def)

lemma generation_inv_frame [simp]:
  "generation_inv (s\<lparr>unhealthy := b\<rparr>) = generation_inv s"
  "generation_inv (s\<lparr>available_credits := c\<rparr>) = generation_inv s"
  "generation_inv (s\<lparr>total_credits := c\<rparr>) = generation_inv s"
  "generation_inv (s\<lparr>pending_extra_credits := c\<rparr>) = generation_inv s"
  "generation_inv (s\<lparr>target_credits := c\<rparr>) = generation_inv s"
  "generation_inv (s\<lparr>async_index := i\<rparr>) = generation_inv s"
  "generation_inv (s\<lparr>next_deadline_sequence := n\<rparr>) = generation_inv s"
  by (simp_all add: generation_inv_def)

lemma generation_inv_deadlines:
  "generation_inv s \<Longrightarrow> sorted ds \<Longrightarrow> generation_inv (s\<lparr>deadlines := ds\<rparr>)"
  by (simp add: generation_inv_def)

lemma generation_invD:
  assumes "generation_inv s" and "get_request s k = Some r"
  shows "owned_ok (generation s) k r"
  using assms by (simp add: generation_inv_def)

lemma generation_inv_new: "generation_inv (generation_new g m c t lim drain)"
  by (simp add: generation_inv_def generation_new_def windows_ok_def charge_of_def)

section \<open>Shared steps keep it\<close>

lemma put_request_inv:
  assumes "generation_inv s" and "get_request s k = Some r" and "owned_ok (generation s) k r'"
    and "payload_held r' = payload_held r" and "payload_bytes r' = payload_bytes r"
    and "admission_held r' = admission_held r" and "credit_charge r' = credit_charge r"
  shows "generation_inv (put_request s k r')"
proof -
  have "held_payload r' = held_payload r" "held_slot r' = held_slot r"
    using assms(4-6) by (simp_all add: held_payload_def held_slot_def)
  with assms show ?thesis
    by (auto simp: generation_inv_def table put_request_windows)
qed

lemma release_payload_lookup [lookup]:
  "get_request (release_payload s k) k' =
     (if k' = k then map_option (\<lambda>r. r\<lparr>payload_held := False\<rparr>) (get_request s k) else get_request s k')"
  by (auto simp: release_payload_def table split: option.splits)

lemma release_payload_inv: "generation_inv s \<Longrightarrow> generation_inv (release_payload s k)"
proof -
  assume inv: "generation_inv s"
  show ?thesis
  proof (cases "\<exists>r. get_request s k = Some r \<and> payload_held r")
    case False
    then have "release_payload s k = s"
      by (auto simp: release_payload_def split: option.splits)
    with inv show ?thesis by simp
  next
    case True
    then obtain r where r: "get_request s k = Some r" and held: "payload_held r" by blast
    let ?r = "r\<lparr>payload_held := False\<rparr>"
    have d: "keys_distinct (requests s)" using inv by (simp add: generation_inv_def)
    have "tally held_payload (AList.update k ?r (requests s)) + unat (payload_bytes r) =
        unat (retained_payload_bytes s)"
      using tally_update_old [OF d r, of held_payload ?r] inv held
      by (simp add: held_payload_def generation_inv_def)
    moreover have "tally held_slot (AList.update k ?r (requests s)) = tally held_slot (requests s)"
      by (rule tally_update_same [OF d r]) (simp add: held_slot_def)
    moreover have "owned_ok (generation s) k ?r"
      using generation_invD [OF inv r] by (simp add: owned_ok_def)
    moreover have "release_payload s k = (put_request s k ?r)
        \<lparr>retained_payload_bytes := retained_payload_bytes s - payload_bytes r\<rparr>"
      using r held by (simp add: release_payload_def)
    ultimately show ?thesis
      using inv r
      by (auto simp: generation_inv_def table unat_sub_fits word_le_nat_alt put_request_windows)
  qed
qed

lemma release_request_ownership_lookup [lookup]:
  "get_request (release_request_ownership s k) k' =
     (if k' = k then map_option (\<lambda>r. r\<lparr>payload_held := False, admission_held := False\<rparr>) (get_request s k)
      else get_request s k')"
  by (auto simp: release_request_ownership_def Let_def table release_payload_lookup split: option.splits)

definition caller_settled :: "generation_state \<Rightarrow> request_key \<Rightarrow> bool" where
  "caller_settled s k \<longleftrightarrow> (\<forall>r. get_request s k = Some r \<longrightarrow> rec_caller (lifecycle r) \<noteq> Open)"

lemma release_slot_inv:
  assumes inv: "generation_inv s" and r: "get_request s k = Some r" and held: "admission_held r"
    and no_payload: "\<not> payload_held r" and settled: "rec_caller (lifecycle r) \<noteq> Open"
  shows "generation_inv ((put_request s k (r\<lparr>admission_held := False\<rparr>))
    \<lparr>admitted_operations := admitted_operations s - 1\<rparr>)"
proof -
  let ?r = "r\<lparr>admission_held := False\<rparr>"
  have d: "keys_distinct (requests s)" using inv by (simp add: generation_inv_def)
  have "tally held_slot (AList.update k ?r (requests s)) + 1 = unat (admitted_operations s)"
    using tally_update_old [OF d r, of held_slot ?r] inv held
    by (simp add: held_slot_def generation_inv_def)
  moreover from this have "unat (admitted_operations s - 1) = unat (admitted_operations s) - 1"
    by (simp add: unat_sub_fits)
  moreover have "tally held_payload (AList.update k ?r (requests s)) = tally held_payload (requests s)"
    by (rule tally_update_same [OF d r]) (simp add: held_payload_def)
  moreover have "owned_ok (generation s) k ?r"
    using generation_invD [OF inv r] no_payload settled by (simp add: owned_ok_def)
  ultimately show ?thesis
    using inv r by (auto simp: generation_inv_def table word_le_nat_alt put_request_windows)
qed

lemma release_request_ownership_inv:
  assumes "generation_inv s" and "caller_settled s k"
  shows "generation_inv (release_request_ownership s k)"
proof -
  let ?s = "release_payload s k"
  have inv: "generation_inv ?s" using assms(1) by (rule release_payload_inv)
  show ?thesis
  proof (cases "get_request ?s k")
    case None
    with inv show ?thesis by (simp add: release_request_ownership_def)
  next
    case (Some r)
    then have "\<not> payload_held r" and "rec_caller (lifecycle r) \<noteq> Open"
      using assms(2) by (auto simp: release_payload_lookup caller_settled_def)
    with Some inv show ?thesis
      by (cases "admission_held r") (simp_all add: release_request_ownership_def Let_def release_slot_inv)
  qed
qed

lemma schedule_deadline_inv:
  assumes "generation_inv s"
  shows "generation_inv (fst (schedule_deadline s k at kind))"
proof (cases "get_request s k")
  case None
  with assms show ?thesis by (simp add: schedule_deadline_def)
next
  case (Some r)
  show ?thesis
  proof (cases "checked_add (deadline_version r) 1")
    case None
    with Some assms show ?thesis by (simp add: schedule_deadline_def)
  next
    case (Some version)
    have "generation_inv (put_request s k (r\<lparr>deadline_version := version\<rparr>))"
      using generation_invD [OF assms \<open>get_request s k = Some r\<close>]
      by (intro put_request_inv [OF assms \<open>get_request s k = Some r\<close>]) (simp_all add: owned_ok_def)
    moreover have "sorted (heap_push e (deadlines s))" for e
      using assms by (simp add: generation_inv_def deadlines.push_inv)
    ultimately show ?thesis
      using Some \<open>get_request s k = Some r\<close>
      by (simp add: schedule_deadline_def generation_inv_deadlines)
  qed
qed

lemma schedule_deadline_lookup [lookup]:
  "map_option lifecycle (get_request (fst (schedule_deadline s k at kind)) k') =
     map_option lifecycle (get_request s k')"
  by (auto simp: schedule_deadline_def table split: option.splits)

lemma rollback_inv:
  assumes inv: "generation_inv s" and settled: "caller_settled s k"
  shows "generation_inv (fst (rollback s k))"
proof (cases "get_request s k")
  case None
  with inv show ?thesis by (simp add: rollback_def)
next
  case (Some r)
  let ?r = "r\<lparr>credit_obligation := False\<rparr>"
  have "owned_ok (generation s) k ?r"
    using generation_invD [OF inv Some] settled Some by (simp add: owned_ok_def caller_settled_def)
  then have "generation_inv (put_request s k ?r)"
    by (intro put_request_inv [OF inv Some]) simp_all
  then have "generation_inv (release_request_ownership
      ((put_request s k ?r)\<lparr>available_credits := a, pending_extra_credits := p\<rparr>) k)" for a p
    using settled Some by (intro release_request_ownership_inv) (auto simp: caller_settled_def table)
  with inv settled Some show ?thesis
    by (auto simp: rollback_def release_request_ownership_inv split: option.splits)
qed

lemma settle_unanswered_inv:
  "generation_inv s \<Longrightarrow> caller_settled s k \<Longrightarrow> generation_inv (fst (settle_unanswered s k sent now))"
  by (simp add: settle_unanswered_def split_beta schedule_deadline_inv rollback_inv)

section \<open>Handlers keep it\<close>

text \<open>Feeding an event to the lifecycle of a stored request keeps its record well formed.\<close>

lemma owned_ok_reduce:
  "owned_ok g k r \<Longrightarrow> owned_ok g k (r\<lparr>lifecycle := fst (request_reduce (lifecycle r) e)\<rparr>)"
  by (auto simp: owned_ok_def request_reduce_inv request_reduce_caller split: if_splits)

lemma put_reduced_inv:
  assumes "generation_inv s" and "get_request s k = Some r"
  shows "generation_inv (put_request s k (r\<lparr>lifecycle := fst (request_reduce (lifecycle r) e)\<rparr>))"
  using assms by (intro put_request_inv) (auto intro: owned_ok_reduce generation_invD)

lemma put_reduced_settled:
  assumes "generation_inv s" and "get_request s k = Some r" and "ends_request k e"
  shows "caller_settled (put_request s k (r\<lparr>lifecycle := fst (request_reduce (lifecycle r) e)\<rparr>)) k"
  using assms(3) generation_invD [OF assms(1,2)]
  by (auto simp: caller_settled_def table request_reduce_caller owned_ok_def)

lemma on_request_event_inv: "generation_inv s \<Longrightarrow> generation_inv (fst (on_request_event s k e))"
  by (auto simp: on_request_event_def Let_def split_beta put_reduced_inv release_payload_inv
      split: option.splits)

lemma on_cancel_inv:
  assumes inv: "generation_inv s"
  shows "generation_inv (fst (on_cancel s k now))"
proof (cases "get_request s k")
  case None
  with inv show ?thesis by (simp add: on_cancel_def)
next
  case (Some r)
  let ?r = "r\<lparr>lifecycle := fst (request_reduce (lifecycle r) EvCancel)\<rparr>"
  let ?s = "put_request s k ?r"
  have seen: "generation_inv (put_request s k (r\<lparr>cancel_seen := True\<rparr>))"
    using generation_invD [OF inv Some]
    by (intro put_request_inv [OF inv Some]) (simp_all add: owned_ok_def)
  have "generation_inv (put_request s k (r\<lparr>cancel_seen := True, lifecycle := fst (request_reduce (lifecycle r) EvCancel)\<rparr>))"
    using owned_ok_reduce [OF generation_invD [OF inv Some], of EvCancel]
    by (intro put_request_inv [OF inv Some]) (simp_all add: owned_ok_def)
  moreover have "caller_settled (put_request s k
      (r\<lparr>cancel_seen := True, lifecycle := fst (request_reduce (lifecycle r) EvCancel)\<rparr>)) k"
    using put_reduced_settled [OF inv Some, of EvCancel] by (simp add: caller_settled_def table)
  ultimately show ?thesis
    using inv Some seen by (simp add: on_cancel_def Let_def split_beta settle_unanswered_inv)
qed

lemma expire_deadline_inv:
  assumes inv: "generation_inv s"
  shows "generation_inv (fst (expire_deadline s now e))"
proof (cases "get_request s (entry_key e)")
  case None
  with inv show ?thesis by (simp add: expire_deadline_def)
next
  case (Some r)
  with inv show ?thesis
    by (simp add: expire_deadline_def Let_def split_beta settle_unanswered_inv put_reduced_inv
        put_reduced_settled split: deadline_kind.splits)
qed

lemma on_advance_time_inv: "generation_inv s \<Longrightarrow> generation_inv (fst (on_advance_time s now))"
proof -
  have "generation_inv s \<longrightarrow> generation_inv (fst (on_advance_time s now))"
  proof (induct rule: advance_time_induct [where now = now
        and P = "\<lambda>s p. generation_inv s \<longrightarrow> generation_inv (fst p)"])
    case (due s e s1 fs1 s2 fs2)
    have "generation_inv (fst (expire_deadline (s\<lparr>deadlines := heap_pop (deadlines s)\<rparr>) now e))"
      if "generation_inv s"
      using that by (intro expire_deadline_inv generation_inv_deadlines deadlines.pop_inv)
        (simp_all add: generation_inv_def)
    with due show ?case by simp
  qed simp
  then show "generation_inv s \<Longrightarrow> ?thesis" by simp
qed

lemma on_prepare_failed_inv:
  assumes inv: "generation_inv s"
  shows "generation_inv (fst (on_prepare_failed s k))"
proof (cases "get_request s k")
  case None
  with inv show ?thesis by (simp add: on_prepare_failed_def)
next
  case (Some r)
  let ?r = "r\<lparr>lifecycle := fst (publish_terminal (lifecycle r) PreparationFailed)\<rparr>"
  have "owned_ok (generation s) k ?r"
    using generation_invD [OF inv Some] by (auto simp: owned_ok_def request_defs request_inv_def)
  then have "generation_inv (put_request s k ?r)"
    by (intro put_request_inv [OF inv Some]) simp_all
  moreover have "caller_settled (put_request s k ?r) k"
    by (auto simp: caller_settled_def table request_defs)
  ultimately show ?thesis
    using inv Some by (simp add: on_prepare_failed_def Let_def split_beta rollback_inv)
qed

lemma on_recovery_hint_inv:
  assumes inv: "generation_inv s"
  shows "generation_inv (fst (on_recovery_hint s k))"
  using inv
  by (auto simp: on_recovery_hint_def Let_def split_beta release_request_ownership_inv
      put_reduced_inv put_reduced_settled split: option.splits)

lemma disconnect_keys_inv: "generation_inv s \<Longrightarrow> generation_inv (fst (disconnect_keys network ks s))"
proof (induction ks arbitrary: s)
  case Nil
  then show ?case by simp
next
  case (Cons k ks)
  show ?case
  proof (cases "get_request s k")
    case None
    with Cons show ?thesis
      by (simp add: Let_def split_beta release_request_ownership_inv caller_settled_def)
  next
    case (Some r)
    with Cons show ?thesis
      by (simp add: Let_def split_beta release_request_ownership_inv put_reduced_inv put_reduced_settled)
  qed
qed

lemma on_disconnect_inv: "generation_inv s \<Longrightarrow> generation_inv (fst (on_disconnect s network))"
  by (simp add: on_disconnect_def disconnect_keys_inv)

section \<open>Responses\<close>

lemma put_request_twice [simp]: "put_request (put_request s k a) k b = put_request s k b"
  by (simp add: put_request_def AList.update_last)

lemma put_request_pull [simp]:
  "put_request (s\<lparr>available_credits := c\<rparr>) k r = (put_request s k r)\<lparr>available_credits := c\<rparr>"
  "put_request (s\<lparr>async_index := i\<rparr>) k r = (put_request s k r)\<lparr>async_index := i\<rparr>"
  "put_request (s\<lparr>unhealthy := u\<rparr>) k r = (put_request s k r)\<lparr>unhealthy := u\<rparr>"
  by (simp_all add: put_request_def)

lemma account_response_put:
  assumes "get_request s k = Some r" and "account_response s r grant = (s1, r1)"
  obtains s0 where "put_request s1 k r1 = release_payload (put_request s0 k
      (r\<lparr>credit_response_seen := True, lifecycle := observe_response_commitment (lifecycle r)\<rparr>)) k"
    and "\<exists>p t. s0 = s\<lparr>pending_extra_credits := p, total_credits := t\<rparr>"
proof -
  let ?r = "r\<lparr>credit_response_seen := True, lifecycle := observe_response_commitment (lifecycle r)\<rparr>"
  define s0 where "s0 = (if \<not> credit_response_seen r then
      s\<lparr>pending_extra_credits := saturating_sub (pending_extra_credits s) (requested_extra_credits r),
        total_credits := saturating_add
          (saturating_sub (total_credits s) (u16_to_u32 (credit_charge r))) (u16_to_u32 grant)\<rparr>
    else s\<lparr>total_credits := saturating_add (total_credits s) (u16_to_u32 grant)\<rparr>)"
  have "account_response s r grant =
      (if payload_held r
       then (s0\<lparr>retained_payload_bytes := retained_payload_bytes s0 - payload_bytes r\<rparr>, ?r\<lparr>payload_held := False\<rparr>)
       else (s0, ?r))"
    by (simp add: account_response_def s0_def Let_def)
  with assms(2) have "put_request s1 k r1 = release_payload (put_request s0 k ?r) k"
    by (auto simp: release_payload_def table put_request_def AList.update_last split: if_splits)
  moreover have "\<exists>p t. s0 = s\<lparr>pending_extra_credits := p, total_credits := t\<rparr>"
    by (rule exI [of _ "pending_extra_credits s0"], rule exI [of _ "total_credits s0"]) (simp add: s0_def)
  ultimately show ?thesis by (rule that)
qed

lemma account_response_inv:
  assumes inv: "generation_inv s" and r: "get_request s k = Some r"
    and acc: "account_response s r grant = (s1, r1)"
  shows "generation_inv (put_request s1 k r1)"
proof -
  let ?r = "r\<lparr>credit_response_seen := True, lifecycle := observe_response_commitment (lifecycle r)\<rparr>"
  obtain s0 p t where eq: "put_request s1 k r1 = release_payload (put_request s0 k ?r) k"
    and s0: "s0 = s\<lparr>pending_extra_credits := p, total_credits := t\<rparr>"
    using account_response_put [OF r acc] by blast
  have "owned_ok (generation s0) k ?r"
    using generation_invD [OF inv r] s0 by (auto simp: owned_ok_def observe_response_commitment_inv)
  moreover have "generation_inv s0" and "get_request s0 k = Some r"
    using inv r s0 by simp_all
  ultimately have "generation_inv (put_request s0 k ?r)"
    by (intro put_request_inv) simp_all
  then show ?thesis unfolding eq by (rule release_payload_inv)
qed

lemma on_response_inv:
  assumes inv: "generation_inv s"
  shows "generation_inv (fst (on_response s k event grant))"
proof (cases "get_request s k")
  case None
  with inv show ?thesis by (simp add: on_response_def split: option.splits)
next
  case (Some r)
  obtain s1 r1 where acc: "account_response s r grant = (s1, r1)" by (cases "account_response s r grant")
  have P: "generation_inv (put_request s1 k r1)"
    by (rule account_response_inv [OF inv Some acc])
  let ?l = "fst (request_reduce (lifecycle r1) (response_lifecycle_event k event))"
  have L: "get_request (put_request s1 k r1) k = Some r1" by (simp add: table)
  have reduced: "generation_inv (put_request s1 k (r1\<lparr>lifecycle := ?l\<rparr>))"
    using put_reduced_inv [OF P L, of "response_lifecycle_event k event"] by simp
  have frame: "generation_inv ((put_request (s1\<lparr>available_credits := a\<rparr>) k (r1\<lparr>lifecycle := ?l\<rparr>))\<lparr>async_index := i\<rparr>)" for a i
    using reduced by simp
  have last: "generation_inv (release_request_ownership (put_request
      (s1\<lparr>available_credits := a, async_index := i, unhealthy := u\<rparr>) k
      (r1\<lparr>lifecycle := ?l, credit_obligation := False, deadline_version := v\<rparr>)) k)"
    if ev: "event = LastResponse" for a i u v
  proof -
    have settled: "rec_caller ?l \<noteq> Open"
      using put_reduced_settled [OF P L, of "response_lifecycle_event k event"] ev
      by (simp add: caller_settled_def table)
    then have "owned_ok (generation s1) k
        (r1\<lparr>lifecycle := ?l, credit_obligation := False, deadline_version := v\<rparr>)"
      using owned_ok_reduce [OF generation_invD [OF P L], of "response_lifecycle_event k event"]
      by (simp add: owned_ok_def)
    then have "generation_inv (put_request (put_request s1 k r1) k
        (r1\<lparr>lifecycle := ?l, credit_obligation := False, deadline_version := v\<rparr>))"
      by (intro put_request_inv [OF P L]) simp_all
    with settled show ?thesis
      by (intro release_request_ownership_inv) (simp_all add: caller_settled_def table)
  qed
  show ?thesis
    using inv Some P frame last [where i = "async_index s1" and u = "unhealthy s1"]
      last [where i = "async_index s1" and v = "deadline_version r1"]
      last [where u = "unhealthy s1"] last [where v = "deadline_version r1"] acc
    by (auto simp: on_response_def Let_def split_beta split: option.splits response_event.splits response_progress.splits)
qed

section \<open>Admission\<close>

lemma admission_rejection_None:
  "admission_rejection s bytes charge = None \<longleftrightarrow>
     charge \<noteq> 0 \<and> admitted_operations s < max_operations (limits s) \<and>
     unat (retained_payload_bytes s) + unat bytes \<le> unat (max_payload_bytes (limits s)) \<and>
     unat charge \<le> unat (available_credits s) \<and> next_message_id s \<noteq> None"
proof -
  have "(case checked_add (retained_payload_bytes s) bytes of
      None \<Rightarrow> True | Some retained \<Rightarrow> max_payload_bytes (limits s) < retained) \<longleftrightarrow>
    unat (max_payload_bytes (limits s)) < unat (retained_payload_bytes s) + unat bytes"
    using unsigned_less [of "max_payload_bytes (limits s)", where ?'a = nat]
    by (auto simp: word_less_nat_alt checked_add_None_iff dest: checked_add_unat split: option.splits)
  then show ?thesis
    by (auto simp: admission_rejection_def word_less_nat_alt word_le_nat_alt word_arith)
qed

definition admission_extra :: "generation_state \<Rightarrow> u16 \<Rightarrow> u32" where
  "admission_extra s charge = u16_to_u32 (admission_credit_request s charge) - u16_to_u32 charge"

definition admitted_request :: "generation_state \<Rightarrow> request_key \<Rightarrow> u64 \<Rightarrow> u16 \<Rightarrow> owned_request" where
  "admitted_request s key bytes charge =
     \<lparr>lifecycle = request_new key, payload_bytes = bytes, credit_charge = charge,
      requested_extra_credits = admission_extra s charge, credit_response_seen = False,
      admission_held = True, payload_held = True, credit_obligation = True,
      cancel_seen = False, deadline_version = 0\<rparr>"

definition admitted_state :: "generation_state \<Rightarrow> u64 \<Rightarrow> u16 \<Rightarrow> u64 \<Rightarrow> generation_state" where
  "admitted_state s bytes charge m =
     put_request (s\<lparr>next_message_id := checked_add m (u16_to_u64 charge),
         available_credits := available_credits s - u16_to_u32 charge,
         pending_extra_credits := saturating_add (pending_extra_credits s) (admission_extra s charge),
         admitted_operations := admitted_operations s + 1,
         retained_payload_bytes := retained_payload_bytes s + bytes\<rparr>)
       (RequestKey (generation s) m) (admitted_request s (RequestKey (generation s) m) bytes charge)"

lemma admit_Some:
  assumes "admission_rejection s bytes charge = None" and "next_message_id s = Some m"
  shows "admit s bytes charge dl =
    (case dl of None \<Rightarrow> admitted_state s bytes charge m
      | Some at \<Rightarrow> fst (schedule_deadline (admitted_state s bytes charge m)
          (RequestKey (generation s) m) at CallerDeadline),
     Admitted \<lparr>plan_key = RequestKey (generation s) m, plan_payload_bytes = bytes,
       plan_credit_charge = charge, plan_credit_request = admission_credit_request s charge,
       plan_caller_deadline = dl\<rparr>)"
  using assms
  by (cases dl) (simp_all add: admit_def admitted_state_def admitted_request_def admission_extra_def Let_def)

lemma admit_rejected:
  "admission_rejection s bytes charge = Some e \<Longrightarrow> admit s bytes charge dl = (s, AdmissionRejected e)"
  by (simp add: admit_def)

lemma fresh_key:
  assumes "generation_inv s" and "next_message_id s = Some m"
  shows "get_request s (RequestKey g m) = None"
proof (rule ccontr)
  assume "get_request s (RequestKey g m) \<noteq> None"
  then obtain c where c: "charge_of s (RequestKey g m) = Some c"
    by (auto simp: charge_of_def)
  then have "c \<noteq> 0" and "unat m + unat c \<le> unat m"
    using assms by (fastforce simp: generation_inv_def windows_ok_def)+
  then show False by (simp add: unat_eq_zero)
qed

lemma admitted_windows:
  assumes inv: "generation_inv s" and m: "next_message_id s = Some m" and c: "charge \<noteq> 0"
  shows "windows_ok (admitted_state s bytes charge m)"
proof -
  let ?s = "admitted_state s bytes charge m" and ?k = "RequestKey (generation s) m"
  have charge: "charge_of ?s = (charge_of s)(?k := Some charge)"
    by (auto simp: charge_of_def admitted_state_def admitted_request_def table)
  have old: "charge_of s k = Some d \<Longrightarrow> d \<noteq> 0 \<and> unat (key_message_id k) + unat d \<le> unat m" for k d
    using inv m by (auto simp: generation_inv_def windows_ok_def)
  have next_id: "next_message_id ?s = Some n \<Longrightarrow> unat n = unat m + unat charge" for n
    using checked_add_unat [of m "u16_to_u64 charge" n] by (simp add: admitted_state_def word_arith)
  have apart: "message_window k d \<inter> message_window ?k charge = {}" if "charge_of s k = Some d" for k d
    using old [OF that] by (auto simp: message_window_def)
  show ?thesis
    unfolding windows_ok_def charge
  proof (intro conjI allI impI)
    fix k d n
    assume d: "((charge_of s)(?k := Some charge)) k = Some d"
    show "d \<noteq> 0" using d c old [of k d] by (auto split: if_splits)
    assume "next_message_id ?s = Some n"
    with d old [of k d] next_id show "unat (key_message_id k) + unat d \<le> unat n"
      by (fastforce split: if_splits)
  next
    fix k d k' d'
    assume "((charge_of s)(?k := Some charge)) k = Some d" "((charge_of s)(?k := Some charge)) k' = Some d'"
      and "k \<noteq> k'"
    with inv apart [of k d] apart [of k' d'] show "message_window k d \<inter> message_window k' d' = {}"
      by (auto simp: generation_inv_def windows_ok_def split: if_splits)
  qed
qed

lemma admitted_state_inv:
  assumes inv: "generation_inv s" and ok: "admission_rejection s bytes charge = None"
    and m: "next_message_id s = Some m"
  shows "generation_inv (admitted_state s bytes charge m)"
proof -
  let ?k = "RequestKey (generation s) m"
  note accepted = ok [unfolded admission_rejection_None]
  have fresh: "get_request s ?k = None" using inv m by (rule fresh_key)
  have "unat (admitted_operations s + 1) = unat (admitted_operations s) + 1"
    using accepted unsigned_less [of "max_operations (limits s)", where ?'a = nat]
    by (subst unat_add_fits) (simp_all add: word_less_nat_alt)
  moreover have "unat (retained_payload_bytes s + bytes) = unat (retained_payload_bytes s) + unat bytes"
    using accepted unsigned_less [of "max_payload_bytes (limits s)", where ?'a = nat]
    by (intro unat_add_fits) simp
  moreover have "owned_ok (generation s) ?k (admitted_request s ?k bytes charge)"
    by (simp add: owned_ok_def admitted_request_def) (simp add: request_new_def)
  moreover have "windows_ok (admitted_state s bytes charge m)"
    using accepted by (intro admitted_windows [OF inv m]) simp
  ultimately show ?thesis
    using inv fresh accepted
    by (auto simp: generation_inv_def admitted_state_def table held_payload_def held_slot_def
        admitted_request_def word_le_nat_alt word_less_nat_alt)
qed

lemma admit_inv: "generation_inv s \<Longrightarrow> generation_inv (fst (admit s bytes charge dl))"
proof (cases "admission_rejection s bytes charge")
  case None
  then obtain m where "next_message_id s = Some m" by (auto simp: admission_rejection_None)
  with None show "generation_inv s \<Longrightarrow> ?thesis"
    by (auto simp: admit_Some admitted_state_inv schedule_deadline_inv split: option.splits)
next
  case (Some e)
  then show "generation_inv s \<Longrightarrow> ?thesis" by (simp add: admit_rejected)
qed

section \<open>The generation as a reducer\<close>

lemma generation_reduce_inv: "generation_inv s \<Longrightarrow> generation_inv (fst (generation_reduce s e))"
  by (cases e)
    (simp_all add: admit_inv on_request_event_inv on_prepare_failed_inv on_cancel_inv on_response_inv
      on_recovery_hint_inv on_advance_time_inv on_disconnect_inv split_beta)

interpretation owner: reducer generation_reduce generation_inv
  by unfold_locales (rule generation_reduce_inv)

abbreviation generation_run :: "generation_state \<Rightarrow> owner_event list \<Rightarrow> generation_state" where
  "generation_run s es \<equiv> fst (run_reducer generation_reduce s es)"

lemma generation_run_inv: "generation_inv (generation_run (generation_new g m c t lim drain) es)"
  by (rule owner.run_inv) (rule generation_inv_new)

end
