(* ===== verification/Generation_Callers.thy ===== *)
theory Generation_Callers
  imports Generation_Ledger
begin

text \<open>
  What the callers of a connection generation are told. The state remembers the outcome of
  every request; the effects of the reducer publish it. The two agree over every sequence of
  owner events, for every request key at once.
\<close>

section \<open>Outcomes and publications\<close>

definition request_outcome :: "request_record \<Rightarrow> terminal_outcome option" where
  "request_outcome l = (case rec_caller l of Open \<Rightarrow> None | Terminal outcome \<Rightarrow> Some outcome)"

definition lifecycle_at :: "generation_state \<Rightarrow> request_key \<Rightarrow> request_record option" where
  "lifecycle_at s k = map_option lifecycle (get_request s k)"

fun told_to :: "request_key \<Rightarrow> owner_effect \<Rightarrow> terminal_outcome option" where
  "told_to k (RequestEffect k' (Publish outcome)) = (if k' = k then Some outcome else None)"
| "told_to k _ = None"

abbreviation tells_caller :: "request_key \<Rightarrow> generation_state \<Rightarrow> generation_state \<times> owner_effect list \<Rightarrow> bool" where
  "tells_caller k \<equiv> tells (\<lambda>s. request_terminal_outcome s k) (told_to k)"

lemma request_terminal_outcome_bind:
  "request_terminal_outcome s k = Option.bind (lifecycle_at s k) request_outcome"
  by (simp add: request_terminal_outcome_def request_outcome_def lifecycle_at_def split: option.splits)

lemma lifecycle_at_Some: "get_request s k = Some r \<Longrightarrow> lifecycle_at s k = Some (lifecycle r)"
  by (simp add: lifecycle_at_def)

lemma lifecycle_at_cong: "requests s' = requests s \<Longrightarrow> lifecycle_at s' = lifecycle_at s"
  by (simp add: lifecycle_at_def fun_eq_iff)

lemma told_to_simps [simp]:
  "told_to k (RequestEffect k' NoEffect) = None"
  "told_to k (RequestEffect k' BookkeepingOnly) = None"
  "told_to k (RequestEffect k' IgnoredForeignGeneration) = None"
  by simp_all

text \<open>A step of one lifecycle, from \<open>l\<close> to the record and effect \<open>p\<close>, that keeps an outcome once
  found and publishes it when it finds it.\<close>

definition driven :: "request_record \<Rightarrow> request_record \<times> reduce_effect \<Rightarrow> bool" where
  "driven l p \<longleftrightarrow>
     (case request_outcome l of
        Some outcome \<Rightarrow> request_outcome (fst p) = Some outcome \<and> \<not> is_publish (snd p)
      | None \<Rightarrow> (case request_outcome (fst p) of
          None \<Rightarrow> \<not> is_publish (snd p) | Some outcome \<Rightarrow> snd p = Publish outcome))"

lemma driven_reduce: "driven l (request_reduce l e)"
  using request_reduce_terminal [of l _ e] request_reduce_open [of l e]
  by (cases "rec_caller l") (auto simp: driven_def request_outcome_def split: caller_outcome.splits)

lemma driven_reduce_observed: "driven l (request_reduce (observe_response_commitment l) e)"
  using driven_reduce [of "observe_response_commitment l" e] by (simp add: driven_def request_outcome_def)

lemma driven_publish_terminal: "driven l (publish_terminal l outcome)"
  by (auto simp: driven_def request_outcome_def publish_terminal_def publish_once_def split: caller_outcome.splits)

lemma told_to_unpublished: "\<not> is_publish f \<Longrightarrow> told_to k (RequestEffect k' f) = None"
  by (cases f) simp_all

section \<open>Shared steps tell nobody anything\<close>

lemma lifecycle_at_put [simp]:
  "lifecycle_at (put_request s k r) k' = (if k' = k then Some (lifecycle r) else lifecycle_at s k')"
  by (simp add: lifecycle_at_def table)

lemma lifecycle_at_release_payload [simp]: "lifecycle_at (release_payload s k) k' = lifecycle_at s k'"
  by (simp add: lifecycle_at_def release_payload_lookup option.map_comp o_def)

lemma lifecycle_at_release [simp]: "lifecycle_at (release_request_ownership s k) k' = lifecycle_at s k'"
  by (simp add: lifecycle_at_def release_request_ownership_lookup option.map_comp o_def)

lemma lifecycle_at_schedule [simp]: "lifecycle_at (fst (schedule_deadline s k at kind)) k' = lifecycle_at s k'"
  by (simp add: lifecycle_at_def schedule_deadline_lookup)

lemma lifecycle_at_rollback [simp]: "lifecycle_at (fst (rollback s k)) k' = lifecycle_at s k'"
  by (auto simp: rollback_def lifecycle_at_def release_request_ownership_lookup table split: option.splits)

lemma lifecycle_at_settle [simp]: "lifecycle_at (fst (settle_unanswered s k sent now)) k' = lifecycle_at s k'"
  by (simp add: settle_unanswered_def split_beta)

lemma settle_unanswered_told [simp]: "List.map_filter (told_to k) (snd (settle_unanswered s k' sent now)) = []"
  by (simp add: settle_unanswered_def split_beta List.map_filter_def)

text \<open>A handler that changes no lifecycle and publishes nothing, and one that drives the
  lifecycle of one request.\<close>

lemma tells_quiet:
  assumes "lifecycle_at s' k = lifecycle_at s k" and "List.map_filter (told_to k) fs = []"
  shows "tells_caller k s (s', fs)"
  using assms by (simp add: tells_def request_terminal_outcome_bind split: option.split)

lemma tells_driven:
  assumes "lifecycle_at s key = Some l" and "driven l p"
    and "lifecycle_at s' = (lifecycle_at s)(key := Some (fst p))"
    and "List.map_filter (told_to k) fs = List.map_filter (told_to k) [RequestEffect key (snd p)]"
  shows "tells_caller k s (s', fs)"
proof (cases "k = key")
  case True
  then show ?thesis
    using assms
    by (cases "request_outcome l"; cases "request_outcome (fst p)")
      (simp_all add: tells_def driven_def request_terminal_outcome_bind told_to_unpublished map_filter_simps)
next
  case False
  have "told_to k (RequestEffect key f) = None" for f using False by (cases f) simp_all
  with False assms(3,4) show ?thesis by (intro tells_quiet) (simp_all add: map_filter_simps)
qed

lemma lifecycle_at_update [simp]:
  "lifecycle_at (put_request s k r) = (lifecycle_at s)(k := Some (lifecycle r))"
  "lifecycle_at (release_payload s k) = lifecycle_at s"
  "lifecycle_at (release_request_ownership s k) = lifecycle_at s"
  "lifecycle_at (fst (schedule_deadline s k at kind)) = lifecycle_at s"
  "lifecycle_at (fst (rollback s k)) = lifecycle_at s"
  "lifecycle_at (fst (settle_unanswered s k sent now)) = lifecycle_at s"
  "lifecycle_at (s\<lparr>deadlines := ds\<rparr>) = lifecycle_at s"
  "lifecycle_at (s\<lparr>unhealthy := u\<rparr>) = lifecycle_at s"
  "lifecycle_at (s\<lparr>async_index := i\<rparr>) = lifecycle_at s"
  "lifecycle_at (s\<lparr>available_credits := c\<rparr>) = lifecycle_at s"
  by (auto simp: fun_eq_iff intro: lifecycle_at_cong [THEN fun_cong])

section \<open>Every handler tells each caller the recorded outcome\<close>

lemma tells_on_request_event: "tells_caller k s (on_request_event s key event)"
  by (auto simp: on_request_event_def Let_def split_beta tells_quiet map_filter_simps split: option.splits
      intro!: tells_driven [OF lifecycle_at_Some driven_reduce])

lemma tells_on_cancel: "tells_caller k s (on_cancel s key now)"
  by (auto simp: on_cancel_def Let_def split_beta tells_quiet map_filter_simps lifecycle_at_Some split: option.splits
      intro!: tells_driven [OF lifecycle_at_Some driven_reduce])

lemma tells_on_prepare_failed: "tells_caller k s (on_prepare_failed s key)"
  by (auto simp: on_prepare_failed_def Let_def split_beta tells_quiet map_filter_simps split: option.splits
      intro!: tells_driven [OF lifecycle_at_Some driven_publish_terminal])

lemma tells_on_recovery_hint: "tells_caller k s (on_recovery_hint s key)"
  by (auto simp: on_recovery_hint_def Let_def split_beta tells_quiet map_filter_simps split: option.splits
      intro!: tells_driven [OF lifecycle_at_Some driven_reduce])

lemma tells_expire_deadline: "tells_caller k s (expire_deadline s now entry)"
  by (auto simp: expire_deadline_def Let_def split_beta tells_quiet map_filter_simps
      split: option.splits deadline_kind.splits
      intro!: tells_driven [OF lifecycle_at_Some driven_reduce])

lemma tells_on_advance_time: "tells_caller k s (on_advance_time s now)"
proof (induct rule: advance_time_induct [where now = now and P = "tells_caller k"])
  case (due s e s1 fs1 s2 fs2)
  let ?s0 = "s\<lparr>deadlines := heap_pop (deadlines s)\<rparr>"
  have "tells_caller k s (?s0, [])" by (rule tells_quiet) (simp_all add: map_filter_simps)
  moreover have "tells_caller k ?s0 (s1, fs1)" using tells_expire_deadline due(3) by metis
  ultimately have "tells_caller k s (s1, fs1)" by (metis tells_trans append_Nil)
  then show ?case using due(4) by (rule tells_trans)
qed simp

lemma tells_disconnect_keys: "tells_caller k s (disconnect_keys network keys s)"
proof (induction keys arbitrary: s)
  case (Cons key keys)
  show ?case
  proof (cases "get_request s key")
    case None
    let ?s = "release_request_ownership s key"
    have "tells_caller k s (?s, [])" by (rule tells_quiet) (simp_all add: map_filter_simps)
    from tells_trans [OF this, of "fst (disconnect_keys network keys ?s)" "snd (disconnect_keys network keys ?s)"]
    show ?thesis using None Cons [of ?s] by (simp add: split_beta)
  next
    case (Some r)
    let ?p = "request_reduce (lifecycle r) (EvDisconnect network)"
    let ?s = "release_request_ownership (put_request s key (r\<lparr>lifecycle := fst ?p\<rparr>)) key"
    have "tells_caller k s (?s, [RequestEffect key (snd ?p)])"
      using Some by (intro tells_driven [OF lifecycle_at_Some driven_reduce]) simp_all
    from tells_trans [OF this, of "fst (disconnect_keys network keys ?s)" "snd (disconnect_keys network keys ?s)"]
    show ?thesis using Some Cons [of ?s] by (simp add: split_beta)
  qed
qed simp

lemma account_response_lifecycle:
  assumes "account_response s r grant = (s1, r1)"
  shows "lifecycle r1 = observe_response_commitment (lifecycle r)" and "lifecycle_at s1 = lifecycle_at s"
proof -
  show "lifecycle r1 = observe_response_commitment (lifecycle r)"
    using assms by (auto simp: account_response_def Let_def split: if_splits)
  have "requests s1 = requests s"
    using assms by (auto simp: account_response_def Let_def split: if_splits)
  then show "lifecycle_at s1 = lifecycle_at s" by (rule lifecycle_at_cong)
qed

lemma tells_on_response: "tells_caller k s (on_response s key event grant)"
proof (cases "get_request s key")
  case None
  then show ?thesis
    by (auto simp: on_response_def tells_quiet map_filter_simps split: option.splits)
next
  case (Some r)
  obtain s1 r1 where acc: "account_response s r grant = (s1, r1)" by fastforce
  note same = account_response_lifecycle [OF acc]
  have "tells_caller k s ((put_request s1 key r1)\<lparr>unhealthy := True\<rparr>,
      [CreditLedgerOverflow key available grant, GenerationUnhealthy key])" for available
    using lifecycle_at_Some [OF Some]
    by (simp add: tells_def request_terminal_outcome_bind same request_outcome_def map_filter_simps
        split: option.split)
  then show ?thesis
    using Some
    by (auto simp: on_response_def Let_def acc same split_beta tells_quiet map_filter_simps
        split: option.splits response_event.splits response_progress.splits
        intro!: tells_driven [OF lifecycle_at_Some driven_reduce_observed])
qed

lemma admitted_state_lifecycle:
  "lifecycle_at (admitted_state s bytes charge m) =
     (lifecycle_at s)(RequestKey (generation s) m := Some (request_new (RequestKey (generation s) m)))"
  by (auto simp: admitted_state_def admitted_request_def fun_eq_iff lifecycle_at_def table)

lemma tells_admit:
  assumes inv: "generation_inv s"
  shows "tells_caller k s (fst (admit s bytes charge dl), [snd (admit s bytes charge dl)])"
proof (cases "admission_rejection s bytes charge")
  case None
  then obtain m where m: "next_message_id s = Some m" by (auto simp: admission_rejection_None)
  let ?key = "RequestKey (generation s) m"
  have "lifecycle_at s ?key = None"
    using fresh_key [OF inv m] by (simp add: lifecycle_at_def)
  then have "request_terminal_outcome (fst (admit s bytes charge dl)) k = request_terminal_outcome s k"
    using None m
    by (auto simp: request_terminal_outcome_bind admit_Some admitted_state_lifecycle request_outcome_def
        request_new_def split: option.splits)
  then show ?thesis
    using None m by (simp add: tells_def admit_Some map_filter_simps split: option.split)
qed (simp add: admit_rejected tells_quiet map_filter_simps)

lemma tells_generation_reduce: "generation_inv s \<Longrightarrow> tells_caller k s (generation_reduce s e)"
  by (cases e)
    (simp_all add: tells_admit tells_on_request_event tells_on_prepare_failed tells_on_cancel tells_on_response
      tells_on_recovery_hint tells_on_advance_time on_disconnect_def tells_disconnect_keys split_beta)

interpretation caller: answering_reducer generation_reduce generation_inv
  "\<lambda>s. request_terminal_outcome s k" "told_to k" for k
  by unfold_locales (rule tells_generation_reduce)

text \<open>
  C5. What a caller is told: over every sequence of owner events from a fresh generation, the
  outcomes published for a request are exactly the outcome the state records for it: one when
  the request has been settled, none while its caller is waiting or before it exists.
\<close>

theorem published_outcomes_are_the_recorded_ones:
  "List.map_filter (told_to k) (snd (run_reducer generation_reduce (generation_new g m c t lim drain) es)) =
     (case request_terminal_outcome (generation_run (generation_new g m c t lim drain) es) k of
        None \<Rightarrow> [] | Some outcome \<Rightarrow> [outcome])"
  by (rule caller.told_run [OF generation_inv_new]) (simp add: request_terminal_outcome_def generation_new_def)

end
