(* ===== verification/Generation_Credits.thy ===== *)
theory Generation_Credits
  imports Generation_Callers
begin

text \<open>
  The fields a generation never changes and the two indexes the server drives: the credits it
  grants and the async ids it assigns. Every handler is shown to keep the constants, to spend
  no more credits than were granted, and to keep the async index in step with the requests.
\<close>

section \<open>Constants of a generation\<close>

definition same_constants :: "generation_state \<Rightarrow> generation_state \<Rightarrow> bool" where
  "same_constants s s' \<longleftrightarrow> generation s' = generation s \<and> limits s' = limits s \<and>
     tombstone_drain_timeout s' = tombstone_drain_timeout s"

lemma same_constants_refl [simp]: "same_constants s s"
  by (simp add: same_constants_def)

lemma same_constants_trans: "same_constants s s' \<Longrightarrow> same_constants s' s'' \<Longrightarrow> same_constants s s''"
  by (simp add: same_constants_def)

lemma same_constants_update [simp]:
  "same_constants s (put_request s' k r) = same_constants s s'"
  "same_constants s (s'\<lparr>deadlines := ds\<rparr>) = same_constants s s'"
  "same_constants s (s'\<lparr>next_deadline_sequence := n\<rparr>) = same_constants s s'"
  "same_constants s (s'\<lparr>unhealthy := u\<rparr>) = same_constants s s'"
  "same_constants s (s'\<lparr>async_index := i\<rparr>) = same_constants s s'"
  "same_constants s (s'\<lparr>available_credits := c\<rparr>) = same_constants s s'"
  "same_constants s (s'\<lparr>total_credits := c\<rparr>) = same_constants s s'"
  "same_constants s (s'\<lparr>pending_extra_credits := c\<rparr>) = same_constants s s'"
  "same_constants s (s'\<lparr>admitted_operations := a\<rparr>) = same_constants s s'"
  "same_constants s (s'\<lparr>retained_payload_bytes := b\<rparr>) = same_constants s s'"
  "same_constants s (s'\<lparr>next_message_id := m\<rparr>) = same_constants s s'"
  by (simp_all add: same_constants_def put_request_def)

lemma same_constants_steps [simp]:
  "same_constants s (release_payload s' k) = same_constants s s'"
  "same_constants s (release_request_ownership s' k) = same_constants s s'"
  "same_constants s (fst (schedule_deadline s' k at kind)) = same_constants s s'"
  "same_constants s (fst (rollback s' k)) = same_constants s s'"
  "same_constants s (fst (settle_unanswered s' k sent now)) = same_constants s s'"
proof -
  show payload: "same_constants s (release_payload s' k) = same_constants s s'" for s' k
    by (simp add: release_payload_def split: option.split)
  show release: "same_constants s (release_request_ownership s' k) = same_constants s s'" for s' k
    by (simp add: release_request_ownership_def Let_def payload split: option.split)
  show deadline: "same_constants s (fst (schedule_deadline s' k at kind)) = same_constants s s'" for s' k at kind
    by (simp add: schedule_deadline_def split: option.split)
  show rollback: "same_constants s (fst (rollback s' k)) = same_constants s s'" for s' k
    by (simp add: rollback_def release split: option.split)
  show "same_constants s (fst (settle_unanswered s' k sent now)) = same_constants s s'"
    by (simp add: settle_unanswered_def split_beta deadline rollback)
qed

lemma same_constants_expire: "same_constants s (fst (expire_deadline s now e))"
  by (auto simp: expire_deadline_def Let_def split_beta split: option.split deadline_kind.split)

lemma same_constants_advance: "same_constants s (fst (on_advance_time s now))"
proof (induct rule: advance_time_induct [where now = now and P = "\<lambda>s p. same_constants s (fst p)"])
  case (due s e s1 fs1 s2 fs2)
  then show ?case
    using same_constants_expire [of "s\<lparr>deadlines := heap_pop (deadlines s)\<rparr>" now e]
    by (auto simp: same_constants_def)
qed simp

lemma same_constants_disconnect: "same_constants s (fst (disconnect_keys network ks s))"
proof (induction ks arbitrary: s)
  case (Cons k ks)
  show ?case
    by (auto simp: split_beta split: option.split intro: same_constants_trans [OF _ Cons])
qed simp

lemma same_constants_account: "same_constants s (fst (account_response s r grant))"
  by (simp add: account_response_def Let_def)

lemma same_constants_reduce: "same_constants s (fst (generation_reduce s e))"
proof (cases e)
  case (ResponseArrived key event grant)
  then show ?thesis
    using same_constants_account
    by (auto simp: on_response_def Let_def split_beta split: option.split response_event.split response_progress.split)
qed (auto simp: admit_def Let_def split_beta on_request_event_def on_prepare_failed_def on_cancel_def
    on_recovery_hint_def same_constants_advance on_disconnect_def same_constants_disconnect split: option.split)

lemma same_constants_run: "same_constants s (generation_run s es)"
  by (induction es arbitrary: s)
    (auto simp: run_reducer_Cons intro: same_constants_trans same_constants_reduce)

section \<open>Credits are spent only when granted\<close>

definition owed :: "owned_request \<Rightarrow> nat" where
  "owed r = (if credit_obligation r then unat (credit_charge r) else 0)"

definition credit_level :: "generation_state \<Rightarrow> nat" where
  "credit_level s = unat (available_credits s) + tally owed (requests s)"

fun grant_of :: "owner_effect \<Rightarrow> nat" where
  "grant_of (CreditGrantApplied _ grant _) = unat grant"
| "grant_of _ = 0"

definition granted :: "owner_effect list \<Rightarrow> nat" where
  "granted fs = sum_list (map grant_of fs)"

definition spends :: "generation_state \<Rightarrow> generation_state \<times> owner_effect list \<Rightarrow> bool" where
  "spends s p \<longleftrightarrow> keys_distinct (requests s) \<longrightarrow>
     keys_distinct (requests (fst p)) \<and> credit_level (fst p) \<le> credit_level s + granted (snd p)"

lemma spends_trans: "spends s (s', fs) \<Longrightarrow> spends s' (s'', fs') \<Longrightarrow> spends s (s'', fs @ fs')"
  by (auto simp: spends_def granted_def)

lemma spends_frame [simp]:
  "spends s (s'\<lparr>async_index := i\<rparr>, fs) = spends s (s', fs)"
  "spends s (s'\<lparr>unhealthy := u\<rparr>, fs) = spends s (s', fs)"
  "spends s (s'\<lparr>available_credits := c, async_index := i\<rparr>, fs) = spends s (s'\<lparr>available_credits := c\<rparr>, fs)"
  "spends s (s'\<lparr>available_credits := c, unhealthy := u\<rparr>, fs) = spends s (s'\<lparr>available_credits := c\<rparr>, fs)"
  "spends s (s'\<lparr>available_credits := c, async_index := i, unhealthy := u\<rparr>, fs) =
     spends s (s'\<lparr>available_credits := c\<rparr>, fs)"
  by (simp_all add: spends_def credit_level_def)

text \<open>A step that leaves the credits as they are.\<close>

definition keeps_credits :: "generation_state \<Rightarrow> generation_state \<Rightarrow> bool" where
  "keeps_credits s s' \<longleftrightarrow> keys_distinct (requests s) \<longrightarrow>
     keys_distinct (requests s') \<and> credit_level s' = credit_level s"

lemma keeps_refl [simp]: "keeps_credits s s"
  by (simp add: keeps_credits_def)

lemma keeps_trans: "keeps_credits s s' \<Longrightarrow> keeps_credits s' s'' \<Longrightarrow> keeps_credits s s''"
  by (simp add: keeps_credits_def)

lemma keeps_spends: "keeps_credits s s' \<Longrightarrow> spends s (s', fs)"
  by (simp add: keeps_credits_def spends_def)

lemma keeps_frame [simp]:
  "keeps_credits s (s'\<lparr>deadlines := ds\<rparr>) = keeps_credits s s'"
  "keeps_credits s (s'\<lparr>next_deadline_sequence := n\<rparr>) = keeps_credits s s'"
  "keeps_credits s (s'\<lparr>unhealthy := u\<rparr>) = keeps_credits s s'"
  "keeps_credits s (s'\<lparr>async_index := i\<rparr>) = keeps_credits s s'"
  "keeps_credits s (s'\<lparr>total_credits := c\<rparr>) = keeps_credits s s'"
  "keeps_credits s (s'\<lparr>pending_extra_credits := c\<rparr>) = keeps_credits s s'"
  "keeps_credits s (s'\<lparr>admitted_operations := a\<rparr>) = keeps_credits s s'"
  "keeps_credits s (s'\<lparr>retained_payload_bytes := b\<rparr>) = keeps_credits s s'"
  by (simp_all add: keeps_credits_def credit_level_def)

lemma keeps_put:
  assumes "get_request s k = Some r" and "owed r' = owed r"
  shows "keeps_credits s (put_request s k r')"
  using assms tally_update_same [of "requests s" k r owed r']
  by (simp add: keeps_credits_def credit_level_def put_request_def update_keys_distinct)

lemma keeps_release_payload: "keeps_credits s (release_payload s k)"
  by (auto simp: release_payload_def owed_def intro!: keeps_put split: option.split)

lemma keeps_release: "keeps_credits s (release_request_ownership s k)"
  using keeps_release_payload [of s k]
  by (auto simp: release_request_ownership_def Let_def owed_def split: option.split
      elim!: keeps_trans intro!: keeps_put)

lemma keeps_schedule: "keeps_credits s (fst (schedule_deadline s k at kind))"
  by (auto simp: schedule_deadline_def owed_def intro!: keeps_put split: option.split)

lemma credit_level_drop:
  assumes "keys_distinct (requests s)" and "get_request s k = Some r" and "owed r' = 0"
  shows "credit_level (put_request s k r') + owed r = credit_level s"
  using assms tally_update_old [of "requests s" k r owed r']
  by (simp add: credit_level_def put_request_def)

lemma keeps_rollback: "keeps_credits s (fst (rollback s k))"
proof (cases "get_request s k")
  case (Some r)
  have "keeps_credits s ((put_request s k (r\<lparr>credit_obligation := False\<rparr>))\<lparr>available_credits := available\<rparr>)"
    if "credit_obligation r" and "checked_add (available_credits s) (u16_to_u32 (credit_charge r)) = Some available"
    for available
    using credit_level_drop [OF _ Some, of "r\<lparr>credit_obligation := False\<rparr>"] that checked_add_unat [OF that(2)]
    by (auto simp: keeps_credits_def owed_def credit_level_def put_request_def update_keys_distinct word_arith)
  with Some show ?thesis
    by (auto simp: rollback_def keeps_release split: option.split
        intro!: keeps_trans [OF _ keeps_release])
qed (simp add: rollback_def)

lemma keeps_settle: "keeps_credits s (fst (settle_unanswered s k sent now))"
  by (simp add: settle_unanswered_def split_beta keeps_schedule keeps_rollback)

lemma keeps_lifecycle: "get_request s k = Some r \<Longrightarrow> keeps_credits s (put_request s k (r\<lparr>lifecycle := l\<rparr>))"
  by (erule keeps_put) (simp add: owed_def)

lemma keeps_expire: "keeps_credits s (fst (expire_deadline s now e))"
  by (auto simp: expire_deadline_def Let_def split_beta keeps_lifecycle split: option.split deadline_kind.split
      intro!: keeps_trans [OF _ keeps_settle])

lemma keeps_advance: "keeps_credits s (fst (on_advance_time s now))"
proof (induct rule: advance_time_induct [where now = now and P = "\<lambda>s p. keeps_credits s (fst p)"])
  case (due s e s1 fs1 s2 fs2)
  then have "keeps_credits (s\<lparr>deadlines := heap_pop (deadlines s)\<rparr>) s1"
    using keeps_expire [of "s\<lparr>deadlines := heap_pop (deadlines s)\<rparr>" now e] by simp
  then have "keeps_credits s s1" by (rule keeps_trans [rotated]) simp
  with due show ?case by (auto intro: keeps_trans)
qed simp

lemma keeps_disconnect: "keeps_credits s (fst (disconnect_keys network ks s))"
proof (induction ks arbitrary: s)
  case (Cons k ks)
  show ?case
    by (auto simp: split_beta keeps_lifecycle split: option.split
        intro!: keeps_trans [OF _ Cons] keeps_trans [OF _ keeps_release])
qed simp

lemma keeps_handlers:
  "keeps_credits s (fst (on_request_event s key event))"
  "keeps_credits s (fst (on_prepare_failed s key))"
  "keeps_credits s (fst (on_cancel s key now))"
  "keeps_credits s (fst (on_recovery_hint s key))"
proof -
  have cancelled: "get_request s key = Some r \<Longrightarrow>
      keeps_credits s (put_request s key (r\<lparr>cancel_seen := True, lifecycle := l\<rparr>))" for r l
    by (erule keeps_put) (simp add: owed_def)
  have seen: "get_request s key = Some r \<Longrightarrow>
      keeps_credits s (put_request s key (r\<lparr>cancel_seen := True\<rparr>))" for r
    by (erule keeps_put) (simp add: owed_def)
  show "keeps_credits s (fst (on_request_event s key event))"
    by (auto simp: on_request_event_def Let_def split_beta keeps_lifecycle split: option.split
        intro!: keeps_trans [OF _ keeps_release_payload])
  show "keeps_credits s (fst (on_prepare_failed s key))"
    by (auto simp: on_prepare_failed_def Let_def split_beta keeps_lifecycle split: option.split
        intro!: keeps_trans [OF _ keeps_rollback])
  show "keeps_credits s (fst (on_cancel s key now))"
    by (auto simp: on_cancel_def Let_def split_beta cancelled seen split: option.split
        intro!: keeps_trans [OF _ keeps_settle])
  show "keeps_credits s (fst (on_recovery_hint s key))"
    by (auto simp: on_recovery_hint_def Let_def split_beta keeps_lifecycle split: option.split
        intro!: keeps_trans [OF _ keeps_release])
qed

lemma spends_admit:
  assumes inv: "generation_inv s"
  shows "spends s (fst (admit s bytes charge dl), [snd (admit s bytes charge dl)])"
proof (cases "admission_rejection s bytes charge")
  case None
  then obtain m where m: "next_message_id s = Some m" by (auto simp: admission_rejection_None)
  let ?s = "admitted_state s bytes charge m" and ?k = "RequestKey (generation s) m"
  have "unat charge \<le> unat (available_credits s)" using None by (simp add: admission_rejection_None)
  then have "unat (available_credits s - u16_to_u32 charge) + unat charge = unat (available_credits s)"
    by (subst unat_sub_fits) (simp_all add: word_arith)
  moreover have "tally owed (requests ?s) = tally owed (requests s) + unat charge"
    using fresh_key [OF inv m] tally_update_fresh [of "requests s" ?k owed]
    by (simp add: admitted_state_def put_request_def admitted_request_def owed_def)
  ultimately have "keeps_credits s ?s"
    by (simp add: keeps_credits_def credit_level_def)
      (simp add: admitted_state_def put_request_def update_keys_distinct)
  with None m show ?thesis
    by (auto simp: admit_Some intro!: keeps_spends split: option.split intro: keeps_trans keeps_schedule)
qed (simp add: admit_rejected keeps_spends)

lemma account_response_keeps:
  assumes "get_request s k = Some r" and "account_response s r grant = (s1, r1)"
  shows "keeps_credits s (put_request s1 k r1)" and "available_credits s1 = available_credits s"
    and "requests s1 = requests s" and "owed r1 = owed r"
  using assms keeps_put [OF assms(1), of r1]
  by (auto simp: account_response_def Let_def owed_def put_request_def keeps_credits_def credit_level_def
      split: if_splits)

lemma spends_granted:
  assumes r: "get_request s k = Some r" and same: "requests s1 = requests s" "available_credits s1 = available_credits s"
    and grant: "checked_add (available_credits s1) (u16_to_u32 grant) = Some available"
    and owed: "owed r' \<le> owed r"
    and s': "requests s' = requests (put_request s1 k r')" "available_credits s' = available"
    and fs: "granted fs = unat grant"
  shows "spends s (s', fs)"
proof -
  have "tally owed (AList.update k r' (requests s)) + owed r = tally owed (requests s) + owed r'"
    if "keys_distinct (requests s)" using tally_update_old [OF that r, of owed r'] by simp
  moreover have "unat available = unat (available_credits s) + unat grant"
    using checked_add_unat [OF grant] same by (simp add: word_arith)
  ultimately show ?thesis
    using assms by (auto simp: spends_def credit_level_def put_request_def update_keys_distinct)
qed

lemma spends_on_response: "spends s (on_response s k event grant)"
proof (cases "get_request s k")
  case None
  then show ?thesis by (auto simp: on_response_def keeps_spends split: option.split)
next
  case (Some r)
  obtain s1 r1 where acc: "account_response s r grant = (s1, r1)" by fastforce
  note account = account_response_keeps [OF Some acc]
  show ?thesis
  proof (cases "checked_add (available_credits s1) (u16_to_u32 grant)")
    case None
    then show ?thesis
      using Some account by (auto simp: on_response_def acc Let_def keeps_spends split: option.split)
  next
    case (Some available)
    note grant = spends_granted [OF \<open>get_request s k = Some r\<close> account(3,2) Some]
    have keep: "spends s (release_request_ownership s' k, fs)" if "spends s (s', fs)" for s' fs
      using that keeps_release [of s' k] by (auto simp: spends_def keeps_credits_def)
    have answered: "spends s ((put_request s1 k r')\<lparr>available_credits := available\<rparr>,
        CreditGrantApplied k grant available # RequestEffect k f # fs)"
      if "owed r' \<le> owed r1" and "granted fs = 0" for r' f fs
      by (rule grant [of r'])
        (use that account(4) in \<open>simp_all add: granted_def put_request_def\<close>)
    have "owed (r1\<lparr>lifecycle := l\<rparr>) = owed r1" "owed (r1\<lparr>lifecycle := l, credit_obligation := False\<rparr>) = 0"
      "owed (r1\<lparr>lifecycle := l, credit_obligation := False, deadline_version := v\<rparr>) = 0" for l v
      by (simp_all add: owed_def)
    then show ?thesis
      using Some \<open>get_request s k = Some r\<close>
      by (auto simp: on_response_def acc Let_def split_beta keeps_spends answered granted_def
          split: option.split response_event.split response_progress.split intro!: keep)
  qed
qed

lemma spends_reduce: "generation_inv s \<Longrightarrow> spends s (generation_reduce s e)"
proof -
  have keeps: "keeps_credits s (fst p) \<Longrightarrow> spends s p" for p
    by (cases p) (simp add: keeps_spends)
  show "generation_inv s \<Longrightarrow> ?thesis"
    by (cases e)
      (simp_all add: spends_admit spends_on_response split_beta keeps keeps_handlers keeps_advance
        on_disconnect_def keeps_disconnect)
qed

lemma credit_level_run:
  "generation_inv s \<Longrightarrow>
     credit_level (generation_run s es) \<le> credit_level s + granted (snd (run_reducer generation_reduce s es))"
proof (induction es arbitrary: s)
  case (Cons e es)
  have "keys_distinct (requests s)" using Cons.prems by (simp add: generation_inv_def)
  then have "credit_level (fst (generation_reduce s e)) \<le> credit_level s + granted (snd (generation_reduce s e))"
    using spends_reduce [OF Cons.prems, of e] by (simp add: spends_def)
  moreover note Cons.IH [OF generation_reduce_inv [OF Cons.prems, of e]]
  ultimately show ?case by (simp add: run_reducer_Cons granted_def)
qed (simp add: granted_def)

text \<open>
  C18. Credits: over every sequence of owner events, the credits still available and the charges
  of the requests that have not been finally answered or rolled back never exceed the initial
  credits and the grants the server made, so the client never spends a credit it was not given.
\<close>

theorem credits_never_overspent:
  "unat (available_credits (generation_run (generation_new g m c t lim drain) es)) +
     tally owed (requests (generation_run (generation_new g m c t lim drain) es)) \<le>
   unat c + granted (snd (run_reducer generation_reduce (generation_new g m c t lim drain) es))"
  using credit_level_run [OF generation_inv_new, of g m c t lim drain es]
  by (simp add: credit_level_def generation_new_def)

end
