(* ===== verification/Generation_Contract.thy ===== *)
theory Generation_Contract
  imports Generation_Credits
begin

text \<open>
  What a connection generation promises its owner: exact ledgers within the admission limits,
  disjoint message-id windows, admission that either reserves everything or changes nothing,
  deadlines that are all fired once their time has come, an async index that identifies one
  request, and a disconnect that leaves nobody waiting.
\<close>

abbreviation generation_start :: "generation_id \<Rightarrow> u64 \<Rightarrow> u32 \<Rightarrow> u32 \<Rightarrow> admission_limits \<Rightarrow> duration \<Rightarrow>
    owner_event list \<Rightarrow> generation_state" where
  "generation_start g m c t lim drain es \<equiv> generation_run (generation_new g m c t lim drain) es"

lemma generation_start_limits [simp]: "limits (generation_start g m c t lim drain es) = lim"
  using same_constants_run [of "generation_new g m c t lim drain" es]
  by (simp add: same_constants_def generation_new_def)

lemma generation_start_generation [simp]: "generation (generation_start g m c t lim drain es) = g"
  using same_constants_run [of "generation_new g m c t lim drain" es]
  by (simp add: same_constants_def generation_new_def)

section \<open>Ledgers\<close>

text \<open>
  C19. The two admission ledgers are exact: after any events the retained-byte counter is the sum
  of the payloads still held and the operation counter the number of admission slots still
  held, with no wrap-around and within the configured limits.
\<close>

theorem admission_ledgers_exact:
  "let s = generation_start g m c t lim drain es in
     unat (retained_payload_bytes s) = tally held_payload (requests s) \<and>
     unat (admitted_operations s) = tally held_slot (requests s) \<and>
     retained_payload_bytes s \<le> max_payload_bytes lim \<and> admitted_operations s \<le> max_operations lim"
  using generation_run_inv [of g m c t lim drain es] by (simp add: generation_inv_def Let_def)

lemma unresolved_le_admitted:
  assumes "generation_inv s"
  shows "unresolved_callers s \<le> unat (admitted_operations s)"
proof -
  have "(if rec_caller (lifecycle r) = Open then 1 else 0) \<le> held_slot r" if "(k, r) \<in> set (requests s)" for k r
  proof -
    have "get_request s k = Some r" using assms that by (simp add: generation_inv_def)
    from generation_invD [OF assms this] show ?thesis by (simp add: owned_ok_def held_slot_def)
  qed
  then have "unresolved_callers s \<le> tally held_slot (requests s)"
    unfolding unresolved_callers_def by (intro tally_mono) blast
  with assms show ?thesis by (simp add: generation_inv_def)
qed

text \<open>
  Back pressure: the callers that are still waiting never outnumber the operations that hold
  an admission slot, so there are never more of them than the configured maximum.
\<close>

theorem waiting_callers_bounded:
  "unresolved_callers (generation_start g m c t lim drain es) \<le> unat (max_operations lim)"
  using unresolved_le_admitted [OF generation_run_inv, of g m c t lim drain es]
    generation_run_inv [of g m c t lim drain es]
  by (simp add: generation_inv_def word_le_nat_alt)

text \<open>
  C30. Message ids: two different requests of a generation never share a message id, where a
  request owns as many consecutive ids as it is charged credits.
\<close>

theorem message_id_windows_disjoint:
  assumes "get_request (generation_start g m c t lim drain es) k = Some r"
    and "get_request (generation_start g m c t lim drain es) k' = Some r'" and "k \<noteq> k'"
  shows "{unat (key_message_id k) ..< unat (key_message_id k) + unat (credit_charge r)} \<inter>
    {unat (key_message_id k') ..< unat (key_message_id k') + unat (credit_charge r')} = {}"
proof -
  let ?s = "generation_start g m c t lim drain es"
  have "windows_ok ?s" using generation_run_inv by (simp add: generation_inv_def)
  moreover have "charge_of ?s k = Some (credit_charge r)" "charge_of ?s k' = Some (credit_charge r')"
    using assms by (simp_all add: charge_of_def)
  ultimately have "message_window k (credit_charge r) \<inter> message_window k' (credit_charge r') = {}"
    using assms(3) by (simp add: windows_ok_def)
  then show ?thesis by (simp add: message_window_def)
qed

text \<open>A small generation for the examples: four operations, a hundred bytes, ten credits.\<close>

abbreviation sample :: "owner_event list \<Rightarrow> generation_state" where
  "sample es \<equiv> generation_start 1 0 10 10 \<lparr>max_operations = 4, max_payload_bytes = 100\<rparr> 50 es"

lemma u16_max_to_u32: "u16_to_u32 (- 1) = 65535"
  by code_simp

lemmas evaluate = run_reducer_Cons generation_new_def admit_def admission_rejection_def
  admission_credit_request_def checked_add_def saturating_add_def saturating_sub_def put_request_def
  Let_def u16_max_to_u32 min_def word_le_nat_alt word_less_nat_alt

theorem message_id_windows_disjoint_witness:
  "map_option credit_charge (get_request (sample [Admit 5 2 None, Admit 5 3 None]) (RequestKey 1 0)) = Some 2 \<and>
   map_option credit_charge (get_request (sample [Admit 5 2 None, Admit 5 3 None]) (RequestKey 1 2)) = Some 3 \<and>
   {0 ..< 0 + unat (2 :: u16)} \<inter> {2 ..< 2 + unat (3 :: u16)} = {}"
proof -
  have "map_option credit_charge (get_request (sample [Admit 5 2 None, Admit 5 3 None]) (RequestKey 1 0)) = Some 2"
    and "map_option credit_charge (get_request (sample [Admit 5 2 None, Admit 5 3 None]) (RequestKey 1 2)) = Some 3"
    by (simp_all add: evaluate)
  then show ?thesis
    using message_id_windows_disjoint [of 1 0 10 10 "\<lparr>max_operations = 4, max_payload_bytes = 100\<rparr>" 50
        "[Admit 5 2 None, Admit 5 3 None]" "RequestKey 1 0" _ "RequestKey 1 2"]
    by auto
qed

section \<open>Admission\<close>

lemma unat_admission_credit_request:
  "unat (admission_credit_request s charge) =
     min (unat charge + (unat (target_credits s) - min (unat (total_credits s) + unat (pending_extra_credits s)) (2 ^ 32 - 1)))
       65535"
proof -
  let ?extra = "saturating_sub (target_credits s) (saturating_add (total_credits s) (pending_extra_credits s))"
  have "unat (min (saturating_add (u16_to_u32 charge) ?extra) (u16_to_u32 (- 1))) =
      min (unat charge + unat ?extra) 65535"
    by (simp add: unat_min_word u16_max_to_u32 word_arith min.assoc)
  moreover have "unat (ucast w :: u16) = unat w" if "unat w \<le> 65535" for w :: u32
    using that by (simp add: unsigned_ucast_eq take_bit_nat_eq_self_iff)
  moreover have "unat ?extra = unat (target_credits s) -
      min (unat (total_credits s) + unat (pending_extra_credits s)) (2 ^ 32 - 1)"
    by (simp only: word_arith) simp
  ultimately show ?thesis by (simp add: admission_credit_request_def Let_def)
qed

lemma admission_credit_request_ge: "unat charge \<le> unat (admission_credit_request s charge)"
  using unsigned_less [of charge, where ?'a = nat] by (simp add: unat_admission_credit_request)

lemma schedule_deadline_fields [simp]:
  "next_message_id (fst (schedule_deadline s k at kind)) = next_message_id s"
  "available_credits (fst (schedule_deadline s k at kind)) = available_credits s"
  "pending_extra_credits (fst (schedule_deadline s k at kind)) = pending_extra_credits s"
  "retained_payload_bytes (fst (schedule_deadline s k at kind)) = retained_payload_bytes s"
  "admitted_operations (fst (schedule_deadline s k at kind)) = admitted_operations s"
  by (simp_all add: schedule_deadline_def split: option.split)

text \<open>
  C32. Admission is atomic: it is refused exactly when one of the five guards fails, and then
  nothing of the state changes; otherwise it takes one slot, the payload bytes and the credit
  charge, and hands out the next message id.
\<close>

theorem admission_all_or_nothing:
  "case snd (admit s bytes charge dl) of
     AdmissionRejected e \<Rightarrow> admission_rejection s bytes charge = Some e \<and> fst (admit s bytes charge dl) = s \<and>
       \<not> (charge \<noteq> 0 \<and> unat (admitted_operations s) < unat (max_operations (limits s)) \<and>
          unat (retained_payload_bytes s) + unat bytes \<le> unat (max_payload_bytes (limits s)) \<and>
          unat charge \<le> unat (available_credits s) \<and> next_message_id s \<noteq> None)
   | Admitted plan \<Rightarrow>
       let s' = fst (admit s bytes charge dl) in
       admission_rejection s bytes charge = None \<and>
       charge \<noteq> 0 \<and> unat (admitted_operations s) < unat (max_operations (limits s)) \<and>
       unat (retained_payload_bytes s) + unat bytes \<le> unat (max_payload_bytes (limits s)) \<and>
       next_message_id s = Some (key_message_id (plan_key plan)) \<and>
       next_message_id s' = checked_add (key_message_id (plan_key plan)) (u16_to_u64 charge) \<and>
       unat (available_credits s') + unat charge = unat (available_credits s) \<and>
       unat (retained_payload_bytes s') = unat (retained_payload_bytes s) + unat bytes \<and>
       unat (admitted_operations s') = unat (admitted_operations s) + 1 \<and>
       unat charge \<le> unat (plan_credit_request plan)
   | _ \<Rightarrow> False"
proof (cases "admission_rejection s bytes charge")
  case None
  note accepted = None [unfolded admission_rejection_None]
  then obtain m where m: "next_message_id s = Some m" by blast
  let ?s = "admitted_state s bytes charge m"
  have fields: "next_message_id ?s = checked_add m (u16_to_u64 charge)"
    "available_credits ?s = available_credits s - u16_to_u32 charge"
    "retained_payload_bytes ?s = retained_payload_bytes s + bytes"
    "admitted_operations ?s = admitted_operations s + 1"
    by (simp_all add: admitted_state_def)
  have "unat (available_credits s - u16_to_u32 charge) + unat charge = unat (available_credits s)"
    using accepted by (subst unat_sub_fits) (simp_all add: word_arith)
  moreover have "unat (retained_payload_bytes s + bytes) = unat (retained_payload_bytes s) + unat bytes"
    using accepted unsigned_less [of "max_payload_bytes (limits s)", where ?'a = nat]
    by (intro unat_add_fits) simp
  moreover have "unat (admitted_operations s + 1) = unat (admitted_operations s) + 1"
    using accepted unsigned_less [of "max_operations (limits s)", where ?'a = nat]
    by (subst unat_add_fits) (simp_all add: word_less_nat_alt)
  moreover have "unat charge \<le> unat (admission_credit_request s charge)"
    by (rule admission_credit_request_ge)
  ultimately show ?thesis
    using None m fields accepted
    by (simp add: admit_Some Let_def schedule_deadline_fields word_less_nat_alt split: option.split)
next
  case (Some e)
  then have "admission_rejection s bytes charge \<noteq> None" by simp
  then have "\<not> (charge \<noteq> 0 \<and> unat (admitted_operations s) < unat (max_operations (limits s)) \<and>
      unat (retained_payload_bytes s) + unat bytes \<le> unat (max_payload_bytes (limits s)) \<and>
      unat charge \<le> unat (available_credits s) \<and> next_message_id s \<noteq> None)"
    unfolding admission_rejection_None word_less_nat_alt .
  with Some show ?thesis by (simp add: admit_rejected)
qed

lemma release_request_ownership_fields:
  assumes "get_request s k = Some r" and "payload_held r" and "admission_held r"
  shows "retained_payload_bytes (release_request_ownership s k) = retained_payload_bytes s - payload_bytes r"
    and "admitted_operations (release_request_ownership s k) = admitted_operations s - 1"
    and "available_credits (release_request_ownership s k) = available_credits s"
    and "pending_extra_credits (release_request_ownership s k) = pending_extra_credits s"
    and "total_credits (release_request_ownership s k) = total_credits s"
    and "next_message_id (release_request_ownership s k) = next_message_id s"
  using assms by (simp_all add: release_request_ownership_def release_payload_def Let_def table)

lemma prepare_failed_restores:
  assumes "key_generation k = generation s" and r: "get_request s k = Some r"
    and "rec_send (lifecycle r) = NotQueued" and held: "payload_held r" "admission_held r" "credit_obligation r"
    and sum: "checked_add (available_credits s) (u16_to_u32 (credit_charge r)) = Some available"
  shows "available_credits (fst (on_prepare_failed s k)) = available"
    and "pending_extra_credits (fst (on_prepare_failed s k)) =
      saturating_sub (pending_extra_credits s) (requested_extra_credits r)"
    and "retained_payload_bytes (fst (on_prepare_failed s k)) = retained_payload_bytes s - payload_bytes r"
    and "admitted_operations (fst (on_prepare_failed s k)) = admitted_operations s - 1"
    and "next_message_id (fst (on_prepare_failed s k)) = next_message_id s"
  using assms
  by (simp_all add: on_prepare_failed_def wire_committed_def Let_def split_beta rollback_def table
      release_request_ownership_fields [where r = "r\<lparr>lifecycle := fst (publish_terminal (lifecycle r) PreparationFailed),
        credit_obligation := False\<rparr>"])

lemma admit_lookup:
  assumes "admission_rejection s bytes charge = None" and "next_message_id s = Some m"
  obtains v where "get_request (fst (admit s bytes charge dl)) (RequestKey (generation s) m) =
    Some ((admitted_request s (RequestKey (generation s) m) bytes charge)\<lparr>deadline_version := v\<rparr>)"
proof -
  let ?k = "RequestKey (generation s) m"
  have "get_request (admitted_state s bytes charge m) ?k = Some (admitted_request s ?k bytes charge)"
    by (simp add: admitted_state_def table)
  moreover have "admitted_request s ?k bytes charge = (admitted_request s ?k bytes charge)\<lparr>deadline_version := 0\<rparr>"
    by (simp add: admitted_request_def)
  ultimately show ?thesis
    using assms that [of 0] that [of 1]
    by (cases dl) (auto simp: admit_Some schedule_deadline_def checked_add_def table admitted_request_def)
qed

lemma pending_extra_restored:
  "saturating_sub (saturating_add (pending_extra_credits s) (admission_extra s charge)) (admission_extra s charge) =
     pending_extra_credits s"
proof -
  let ?p = "unat (pending_extra_credits s)" and ?e = "unat (admission_extra s charge)"
  have e: "?e = unat (admission_credit_request s charge) - unat charge"
    unfolding admission_extra_def
    by (subst unat_sub_fits) (simp_all add: admission_credit_request_ge word_arith)
  have "?p + ?e < 2 ^ 32"
    using unsigned_less [of "target_credits s", where ?'a = nat] unsigned_less [of "pending_extra_credits s", where ?'a = nat]
    unfolding e unat_admission_credit_request by (simp add: min_def) arith
  then show ?thesis
    by (simp add: word_eq_iff_unsigned [where ?'a = nat] unat_saturating_sub unat_saturating_add)
qed

text \<open>
  C34. Admitting a request and failing to prepare it gives back the credits, the requested extra
  credits, the payload bytes and the operation slot that the admission took. The message ids it
  took stay spent: the next one to be handed out is still the one behind them.
\<close>

theorem failed_preparation_undoes_admission:
  assumes "snd (admit s bytes charge dl) = Admitted plan"
  shows "let s' = fst (on_prepare_failed (fst (admit s bytes charge dl)) (plan_key plan)) in
    available_credits s' = available_credits s \<and> pending_extra_credits s' = pending_extra_credits s \<and>
    retained_payload_bytes s' = retained_payload_bytes s \<and> admitted_operations s' = admitted_operations s \<and>
    next_message_id s' = checked_add (key_message_id (plan_key plan)) (u16_to_u64 charge)"
proof -
  have ok: "admission_rejection s bytes charge = None"
    using assms by (cases "admission_rejection s bytes charge") (simp_all add: admit_rejected)
  then obtain m where m: "next_message_id s = Some m" by (auto simp: admission_rejection_None)
  let ?k = "RequestKey (generation s) m" and ?s = "fst (admit s bytes charge dl)"
  have k: "plan_key plan = ?k" using assms by (auto simp: admit_Some [OF ok m])
  obtain v where r: "get_request ?s ?k = Some ((admitted_request s ?k bytes charge)\<lparr>deadline_version := v\<rparr>)"
    by (rule admit_lookup [OF ok m])
  have fields: "available_credits ?s = available_credits s - u16_to_u32 charge"
    "pending_extra_credits ?s = saturating_add (pending_extra_credits s) (admission_extra s charge)"
    "retained_payload_bytes ?s = retained_payload_bytes s + bytes"
    "admitted_operations ?s = admitted_operations s + 1" "generation ?s = generation s"
    "next_message_id ?s = checked_add m (u16_to_u64 charge)"
    using same_constants_steps(3) [of "admitted_state s bytes charge m" "admitted_state s bytes charge m"]
    by (auto simp: admit_Some [OF ok m] admitted_state_def same_constants_def split: option.split)
  have "unat charge \<le> unat (available_credits s)" using ok by (simp add: admission_rejection_None)
  then have "checked_add (available_credits ?s) (u16_to_u32 charge) = Some (available_credits s)"
    unfolding fields checked_add_def
    using unsigned_less [of "available_credits s", where ?'a = nat]
    by (subst unat_sub_fits) (simp_all add: word_arith)
  from prepare_failed_restores [OF _ r, of "available_credits s"] this show ?thesis
    unfolding k Let_def
    by (simp add: fields admitted_request_def request_new_def pending_extra_restored)
qed

theorem failed_preparation_undoes_admission_witness:
  "snd (admit (sample []) 5 2 (Some 7)) =
     Admitted \<lparr>plan_key = RequestKey 1 0, plan_payload_bytes = 5, plan_credit_charge = 2,
       plan_credit_request = 2, plan_caller_deadline = Some 7\<rparr> \<and>
   available_credits (fst (on_prepare_failed (fst (admit (sample []) 5 2 (Some 7))) (RequestKey 1 0))) = 10 \<and>
   next_message_id (fst (on_prepare_failed (fst (admit (sample []) 5 2 (Some 7))) (RequestKey 1 0))) = Some 2"
proof -
  have "snd (admit (sample []) 5 2 (Some 7)) =
     Admitted \<lparr>plan_key = RequestKey 1 0, plan_payload_bytes = 5, plan_credit_charge = 2,
       plan_credit_request = 2, plan_caller_deadline = Some 7\<rparr>"
    by (simp add: evaluate)
  from this failed_preparation_undoes_admission [OF this] show ?thesis
    by (simp add: Let_def generation_new_def checked_add_def word_arith)
qed

section \<open>Deadlines\<close>

text \<open>
  Advancing the clock always returns and leaves no deadline due: afterwards the earliest
  deadline still scheduled, tombstone deadlines pushed on the way included, lies in the future.
\<close>

theorem advance_time_fires_everything_due:
  "case next_deadline (fst (on_advance_time s now)) of None \<Rightarrow> True | Some at \<Rightarrow> now < at"
proof (induct rule: advance_time_induct [where now = now
      and P = "\<lambda>s p. case next_deadline (fst p) of None \<Rightarrow> True | Some at \<Rightarrow> now < at"])
  case (idle s)
  then show ?case by (simp add: next_deadline_def split: option.split)
qed simp

section \<open>Foreign generations\<close>

fun event_key :: "owner_event \<Rightarrow> request_key option" where
  "event_key (RequestProgressed key _) = Some key"
| "event_key (PrepareFailed key) = Some key"
| "event_key (CancelRequest key _) = Some key"
| "event_key (ResponseArrived key _ _) = Some key"
| "event_key (RecoveryHint key) = Some key"
| "event_key _ = None"

text \<open>
  Isolation of generations: an event for a request of another generation, such as a late
  response on a replaced connection, changes nothing and is reported as ignored.
\<close>

theorem foreign_generation_ignored:
  assumes "event_key e = Some key" and "key_generation key \<noteq> generation s"
  shows "generation_reduce s e = (s, [RequestEffect key IgnoredForeignGeneration])"
  using assms
  by (cases e) (auto simp: on_request_event_def on_prepare_failed_def on_cancel_def on_response_def on_recovery_hint_def)

theorem foreign_generation_ignored_witness:
  "generation_reduce (sample [Admit 5 2 None]) (ResponseArrived (RequestKey 2 0) LastResponse 5) =
     (sample [Admit 5 2 None], [RequestEffect (RequestKey 2 0) IgnoredForeignGeneration])"
  by (rule foreign_generation_ignored) simp_all

section \<open>Disconnect\<close>

text \<open>What disconnecting a request leaves of it, if it exists.\<close>

definition released_at :: "generation_state \<Rightarrow> request_key \<Rightarrow> bool" where
  "released_at s k \<longleftrightarrow> (\<forall>r. get_request s k = Some r \<longrightarrow>
     \<not> payload_held r \<and> \<not> admission_held r \<and> rec_caller (lifecycle r) \<noteq> Open)"

lemma disconnect_keys_released:
  "k \<in> set ks \<or> released_at s k \<Longrightarrow> released_at (fst (disconnect_keys network ks s)) k"
proof (induction ks arbitrary: s)
  case (Cons key ks)
  let ?s1 = "case get_request s key of None \<Rightarrow> s
    | Some r \<Rightarrow> put_request s key (r\<lparr>lifecycle := fst (request_reduce (lifecycle r) (EvDisconnect network))\<rparr>)"
  have "fst (disconnect_keys network (key # ks) s) =
      fst (disconnect_keys network ks (release_request_ownership ?s1 key))"
    by (simp add: split_beta split: option.split)
  moreover have "k = key \<or> released_at s k \<Longrightarrow> released_at (release_request_ownership ?s1 key) k"
    by (auto simp: released_at_def release_request_ownership_lookup table request_reduce_caller
        split: option.splits if_splits)
  ultimately show ?case using Cons by auto
qed simp

lemma on_disconnect_released: "released_at (fst (on_disconnect s network)) k"
proof (cases "k \<in> set (map fst (requests s))")
  case False
  then have "get_request s k = None" by (simp add: map_of_eq_None_iff)
  then have "released_at s k" by (simp add: released_at_def)
  then show ?thesis by (simp add: on_disconnect_def disconnect_keys_released)
qed (simp add: on_disconnect_def disconnect_keys_released)

lemma tally_released:
  assumes "generation_inv s" and "\<And>k. released_at s k"
  shows "unresolved_callers s = 0" and "admitted_operations s = 0" and "retained_payload_bytes s = 0"
proof -
  have r: "(k, r) \<in> set (requests s) \<Longrightarrow>
      \<not> payload_held r \<and> \<not> admission_held r \<and> rec_caller (lifecycle r) \<noteq> Open" for k r
    using assms by (auto simp: released_at_def generation_inv_def)
  have "tally held_slot (requests s) = 0" and "tally held_payload (requests s) = 0"
    and "unresolved_callers s = 0"
    using r by (auto simp: tally_zero_iff held_slot_def held_payload_def unresolved_callers_def)
  with assms(1) show "unresolved_callers s = 0" "admitted_operations s = 0" "retained_payload_bytes s = 0"
    by (simp_all add: generation_inv_def unat_eq_zero)
qed

text \<open>
  C23. Losing the connection leaves nobody waiting and nothing held: whatever happened before,
  after a disconnect every caller has its outcome, every admission slot is free and no payload
  byte is retained.
\<close>

theorem disconnect_settles_everyone:
  "let s = fst (on_disconnect (generation_start g m c t lim drain es) network) in
     unresolved_callers s = 0 \<and> admitted_operations s = 0 \<and> retained_payload_bytes s = 0"
  using tally_released [OF on_disconnect_inv [OF generation_run_inv] on_disconnect_released] by (simp add: Let_def)

section \<open>The async index\<close>

definition response_at :: "generation_state \<Rightarrow> request_key \<Rightarrow> response_progress option" where
  "response_at s k = map_option rec_response (lifecycle_at s k)"

definition async_ok :: "generation_state \<Rightarrow> bool" where
  "async_ok s \<longleftrightarrow> (\<forall>a k. request_for_async_id s a = Some k \<longleftrightarrow> response_at s k = Some (AsyncPending a))"

fun response_free :: "request_event \<Rightarrow> bool" where
  "response_free (EvAsyncPending _ _) = False"
| "response_free (EvFinalResponse _) = False"
| "response_free _ = True"

lemma response_free_reduce: "response_free e \<Longrightarrow> rec_response (fst (request_reduce l e)) = rec_response l"
  by (cases e) (auto simp: request_reduce.simps publish_once_def finish_without_response_def)

text \<open>A step that leaves the index and the responses as they are.\<close>

definition keeps_async :: "generation_state \<Rightarrow> generation_state \<Rightarrow> bool" where
  "keeps_async s s' \<longleftrightarrow> async_index s' = async_index s \<and> response_at s' = response_at s"

lemma keeps_async_ok: "keeps_async s s' \<Longrightarrow> async_ok s \<Longrightarrow> async_ok s'"
  by (simp add: keeps_async_def async_ok_def request_for_async_id_def)

lemma async_index_steps [simp]:
  "async_index (put_request s k r) = async_index s"
  "async_index (release_payload s k) = async_index s"
  "async_index (release_request_ownership s k) = async_index s"
  "async_index (fst (schedule_deadline s k at kind)) = async_index s"
  "async_index (fst (rollback s k)) = async_index s"
  "async_index (fst (settle_unanswered s k sent now)) = async_index s"
proof -
  show put: "async_index (put_request s k r) = async_index s" for s k r by (simp add: put_request_def)
  show payload: "async_index (release_payload s k) = async_index s" for s k
    by (simp add: release_payload_def put split: option.split)
  show release: "async_index (release_request_ownership s k) = async_index s" for s k
    by (simp add: release_request_ownership_def Let_def payload put split: option.split)
  show deadline: "async_index (fst (schedule_deadline s k at kind)) = async_index s" for s k at kind
    by (simp add: schedule_deadline_def put split: option.split)
  show rollback: "async_index (fst (rollback s k)) = async_index s" for s k
    by (simp add: rollback_def release put split: option.split)
  show "async_index (fst (settle_unanswered s k sent now)) = async_index s"
    by (simp add: settle_unanswered_def split_beta deadline rollback)
qed

lemma keeps_async_iff:
  "keeps_async s s' \<longleftrightarrow> async_index s' = async_index s \<and>
     (\<forall>k. map_option rec_response (lifecycle_at s' k) = map_option rec_response (lifecycle_at s k))"
  by (simp add: keeps_async_def response_at_def fun_eq_iff)

lemmas async_simps = Let_def split_beta keeps_async_iff response_free_reduce lifecycle_at_Some

lemma keeps_async_quiet: "async_index s' = async_index s \<Longrightarrow> lifecycle_at s' = lifecycle_at s \<Longrightarrow> keeps_async s s'"
  by (simp add: keeps_async_def response_at_def fun_eq_iff)

lemma keeps_async_trans: "keeps_async s s' \<Longrightarrow> keeps_async s' s'' \<Longrightarrow> keeps_async s s''"
  by (simp add: keeps_async_def)

lemma progress_response_free [simp]: "response_free (progress_event event)"
  by (cases event) simp_all

lemma publish_terminal_response [simp]: "rec_response (fst (publish_terminal l outcome)) = rec_response l"
  by (simp add: publish_terminal_def publish_once_def)

lemma keeps_async_expire: "keeps_async s (fst (expire_deadline s now e))"
  by (auto simp: expire_deadline_def async_simps split: option.split deadline_kind.split)

lemma keeps_async_advance: "keeps_async s (fst (on_advance_time s now))"
proof (induct rule: advance_time_induct [where now = now and P = "\<lambda>s p. keeps_async s (fst p)"])
  case (due s e s1 fs1 s2 fs2)
  then have "keeps_async (s\<lparr>deadlines := heap_pop (deadlines s)\<rparr>) s1"
    using keeps_async_expire [of "s\<lparr>deadlines := heap_pop (deadlines s)\<rparr>" now e] by simp
  then have "keeps_async s s1" by (rule keeps_async_trans [rotated]) (simp add: keeps_async_quiet)
  with due show ?case by (auto intro: keeps_async_trans)
qed (simp add: keeps_async_quiet)

lemma keeps_async_disconnect: "keeps_async s (fst (disconnect_keys network ks s))"
proof (induction ks arbitrary: s)
  case (Cons k ks)
  show ?case
    using Cons by (auto simp: async_simps split: option.split)
qed (simp add: keeps_async_quiet)

lemma keeps_async_handlers:
  "keeps_async s (fst (on_request_event s key event))"
  "keeps_async s (fst (on_prepare_failed s key))"
  "keeps_async s (fst (on_cancel s key now))"
  "keeps_async s (fst (on_recovery_hint s key))"
  by (auto simp: on_request_event_def on_prepare_failed_def on_cancel_def on_recovery_hint_def async_simps
      split: option.split)

lemma keeps_async_admit:
  assumes "generation_inv s" and "async_ok s"
  shows "async_ok (fst (admit s bytes charge dl))"
proof (cases "admission_rejection s bytes charge")
  case None
  then obtain m where m: "next_message_id s = Some m" by (auto simp: admission_rejection_None)
  let ?k = "RequestKey (generation s) m" and ?s = "fst (admit s bytes charge dl)"
  have "async_index ?s = async_index s"
    using None m by (simp add: admit_Some admitted_state_def split: option.split)
  moreover have "response_at ?s = (response_at s)(?k := Some NoResponse)"
    using None m by (auto simp: admit_Some response_at_def admitted_state_lifecycle fun_eq_iff request_new_def
        split: option.split)
  moreover have "response_at s ?k = None"
    using fresh_key [OF assms(1) m] by (simp add: response_at_def lifecycle_at_def)
  ultimately show ?thesis
    using assms(2) by (auto simp: async_ok_def request_for_async_id_def)
qed (simp add: admit_rejected assms)

lemma request_reduce_async:
  "rec_key l = k \<Longrightarrow> rec_response l \<noteq> FinalResponse \<Longrightarrow>
     rec_response (fst (request_reduce l (response_lifecycle_event k event))) =
       (case event of PendingResponse a \<Rightarrow> AsyncPending a | LastResponse \<Rightarrow> FinalResponse)"
  by (cases event) (auto simp: request_reduce.simps publish_once_def)

text \<open>The two updates of the index: an interim response registers its id, the last one removes it.\<close>

lemma async_ok_pending:
  assumes ok: "async_ok s" and fresh: "conflicting_async s k (PendingResponse a) = None"
    and kept: "\<And>a'. response_at s k = Some (AsyncPending a') \<Longrightarrow> a' = a"
    and index: "async_index s' = AList.update a k (async_index s)"
    and response: "response_at s' = (response_at s)(k := Some (AsyncPending a))"
  shows "async_ok s'"
proof -
  have owner: "map_of (async_index s) b = Some k' \<longleftrightarrow> response_at s k' = Some (AsyncPending b)" for b k'
    using ok by (simp add: async_ok_def request_for_async_id_def)
  have "k' = k" if "map_of (async_index s) a = Some k'" for k'
    using fresh that by (simp add: conflicting_async_def split: if_splits)
  then show ?thesis
    using kept owner
    by (auto simp: async_ok_def request_for_async_id_def index response table)
qed

lemma async_ok_last:
  assumes ok: "async_ok s" and x: "response_at s k = Some x"
    and index: "async_index s' = (case x of AsyncPending a \<Rightarrow> AList.delete a (async_index s) | _ \<Rightarrow> async_index s)"
    and response: "response_at s' = (response_at s)(k := Some FinalResponse)"
  shows "async_ok s'"
proof -
  have owner: "map_of (async_index s) b = Some k' \<longleftrightarrow> response_at s k' = Some (AsyncPending b)" for b k'
    using ok by (simp add: async_ok_def request_for_async_id_def)
  have only: "k' = k" if "x = AsyncPending b" "response_at s k' = Some (AsyncPending b)" for b k'
    using that x owner [of b k] owner [of b k'] by simp
  show ?thesis
    using x owner only
    by (auto simp: async_ok_def request_for_async_id_def index response table split: response_progress.splits)
qed

lemma response_at_update: "response_at s = (\<lambda>k. map_option rec_response (lifecycle_at s k))"
  by (simp add: response_at_def fun_eq_iff)

lemma async_ok_unhealthy [simp]: "async_ok (s\<lparr>unhealthy := u\<rparr>) = async_ok s"
  by (simp add: async_ok_def request_for_async_id_def response_at_def)

lemma on_response_async:
  assumes inv: "generation_inv s" and ok: "async_ok s"
  shows "async_ok (fst (on_response s k event grant))"
proof (cases "get_request s k")
  case None
  then show ?thesis
    using ok by (auto simp: on_response_def async_ok_def request_for_async_id_def response_at_def
        split: option.splits)
next
  case (Some r)
  obtain s1 r1 where acc: "account_response s r grant = (s1, r1)" by fastforce
  note same = account_response_lifecycle [OF acc]
  have index: "async_index s1 = async_index s"
    using acc by (auto simp: account_response_def Let_def split: if_splits)
  have key: "rec_key (lifecycle r) = k" using generation_invD [OF inv Some] by (simp add: owned_ok_def)
  have response: "response_at s k = Some (rec_response (lifecycle r))"
    using lifecycle_at_Some [OF Some] by (simp add: response_at_def)
  have quiet: "async_ok ((put_request s1 k r1)\<lparr>unhealthy := True\<rparr>)"
    by (rule keeps_async_ok [OF _ ok]) (use lifecycle_at_Some [OF Some] in \<open>simp add: keeps_async_iff same index\<close>)
  have settled: "(\<lambda>k'. map_option rec_response (((lifecycle_at s)(k := Some l)) k')) =
      (response_at s)(k := Some (rec_response l))" for l
    by (auto simp: fun_eq_iff response_at_def)
  have reduced: "rec_response (fst (request_reduce (observe_response_commitment (lifecycle r)) (response_lifecycle_event k event))) =
      (case event of PendingResponse a \<Rightarrow> AsyncPending a | LastResponse \<Rightarrow> FinalResponse)"
    if "rec_response (lifecycle r) \<noteq> FinalResponse"
    using that key by (intro request_reduce_async) simp_all
  show ?thesis
  proof (cases event)
    case (PendingResponse a)
    have kept: "a' = a" if "changed_async r (PendingResponse a) = None" "response_at s k = Some (AsyncPending a')" for a'
      using that response by (simp add: changed_async_def split: if_splits)
    show ?thesis
      using PendingResponse Some ok quiet kept reduced
      by (auto simp: on_response_def acc Let_def split_beta same index response_at_update settled split: option.split
          intro!: async_ok_pending [OF ok, of k a])
  next
    case LastResponse
    show ?thesis
      using LastResponse Some ok quiet reduced
      by (auto simp: on_response_def acc Let_def split_beta same index response_at_update settled
          split: option.split response_progress.split
          intro!: async_ok_last [OF ok response])
  qed
qed

lemma generation_reduce_async:
  assumes "generation_inv s \<and> async_ok s"
  shows "generation_inv (fst (generation_reduce s e)) \<and> async_ok (fst (generation_reduce s e))"
proof
  show "generation_inv (fst (generation_reduce s e))" using assms by (simp add: generation_reduce_inv)
  show "async_ok (fst (generation_reduce s e))"
    using assms keeps_async_ok [OF keeps_async_handlers(1)] keeps_async_ok [OF keeps_async_handlers(2)]
      keeps_async_ok [OF keeps_async_handlers(3)] keeps_async_ok [OF keeps_async_handlers(4)]
      keeps_async_ok [OF keeps_async_advance] keeps_async_ok [OF keeps_async_disconnect]
    by (cases e) (simp_all add: keeps_async_admit on_response_async split_beta on_disconnect_def)
qed

interpretation async_owner: reducer generation_reduce "\<lambda>s. generation_inv s \<and> async_ok s"
  by unfold_locales (rule generation_reduce_async)

text \<open>
  Async ids: after any events an async id leads to a request exactly when that request's
  last response was the interim response carrying the id, so an id never leads to two requests
  and never to one that has been answered.
\<close>

theorem async_index_matches_requests:
  "request_for_async_id (generation_start g m c t lim drain es) a = Some k \<longleftrightarrow>
     (\<exists>r. get_request (generation_start g m c t lim drain es) k = Some r \<and> rec_response (lifecycle r) = AsyncPending a)"
proof -
  have "async_ok (generation_new g m c t lim drain)"
    by (simp add: async_ok_def generation_new_def request_for_async_id_def response_at_def lifecycle_at_def)
  then have "async_ok (generation_start g m c t lim drain es)"
    using async_owner.run_inv [of "generation_new g m c t lim drain" es] by (simp add: generation_inv_new)
  then show ?thesis by (auto simp: async_ok_def response_at_def lifecycle_at_def)
qed

end
