(* ===== verification/Object_Registry.thy ===== *)
theory Object_Registry
  imports Reducer
begin

text \<open>
  The registry of domain objects (runtime/object_state.rs): connection, session, share and
  resource tokens with their epochs, the hierarchy between them and its revocation. The two
  walks up the hierarchy are loops that need not return on an arbitrary registry, so they are
  option-valued here; on a well-formed registry they are shown to return.
\<close>

section \<open>Data\<close>

datatype object_token = ObjectToken (tok_generation: generation_id) (tok_id: u64) (tok_epoch: u64)

datatype object_kind = Connection | Session | Share | Resource

fun accepts_parent :: "object_kind \<Rightarrow> object_kind \<Rightarrow> bool" where
  "accepts_parent Session Connection = True"
| "accepts_parent Share Session = True"
| "accepts_parent Resource Share = True"
| "accepts_parent _ _ = False"

datatype object_phase = Active | Recovering | Revoked | Closing | Closed

datatype object_error = ForeignGeneration | Unknown | Stale | ParentNotActive | InvalidParent | ObjectIdExhausted

datatype close_decision = OwnProtocolClose | AwaitExistingClose | AlreadyClosed

datatype object_effect =
    ObjectRevoked object_token
  | ReplacementPublished (effect_previous: object_token) (effect_replacement: object_token)

record object_record =
  obj_token :: object_token
  obj_kind :: object_kind
  obj_parent :: "object_token option"
  obj_phase :: object_phase

record object_registry =
  reg_generation :: generation_id
  reg_next_id :: "u64 option"
  reg_records :: "(u64, object_record) table"
  reg_connection :: object_token

section \<open>Operations\<close>

definition registry_new :: "generation_id \<Rightarrow> object_registry" where
  "registry_new g =
     (let connection = ObjectToken g 0 0 in
      \<lparr>reg_generation = g, reg_next_id = Some 1,
       reg_records = [(0, \<lparr>obj_token = connection, obj_kind = Connection, obj_parent = None, obj_phase = Active\<rparr>)],
       reg_connection = connection\<rparr>)"

abbreviation get_object :: "object_registry \<Rightarrow> u64 \<Rightarrow> object_record option" where
  "get_object s i \<equiv> map_of (reg_records s) i"

definition put_object :: "object_registry \<Rightarrow> u64 \<Rightarrow> object_record \<Rightarrow> object_registry" where
  "put_object s i r = s\<lparr>reg_records := AList.update i r (reg_records s)\<rparr>"

definition object_at :: "object_registry \<Rightarrow> object_token \<Rightarrow> object_error + object_record" where
  "object_at s t =
     (if tok_generation t \<noteq> reg_generation s then Inl ForeignGeneration
      else case get_object s (tok_id t) of
        None \<Rightarrow> Inl Unknown
      | Some r \<Rightarrow> if obj_token r \<noteq> t then Inl Stale else Inr r)"

definition create_child ::
  "object_registry \<Rightarrow> object_token \<Rightarrow> object_kind \<Rightarrow> object_registry \<times> (object_error + object_token)" where
  "create_child s parent kind =
     (case object_at s parent of
        Inl e \<Rightarrow> (s, Inl e)
      | Inr parent_record \<Rightarrow>
          if \<not> accepts_parent kind (obj_kind parent_record) then (s, Inl InvalidParent)
          else if obj_phase parent_record \<noteq> Active then (s, Inl ParentNotActive)
          else (case reg_next_id s of
             None \<Rightarrow> (s, Inl ObjectIdExhausted)
           | Some i \<Rightarrow>
               let token = ObjectToken (reg_generation s) i 0 in
               (put_object (s\<lparr>reg_next_id := checked_add i 1\<rparr>) i
                  \<lparr>obj_token = token, obj_kind = kind, obj_parent = Some parent, obj_phase = Active\<rparr>,
                Inr token)))"

partial_function (option) validate_loop ::
  "object_registry \<Rightarrow> object_token option \<Rightarrow> (object_error + unit) option" where
  "validate_loop s current =
     (case current of
        None \<Rightarrow> Some (Inr ())
      | Some token \<Rightarrow>
          (case object_at s token of
             Inl e \<Rightarrow> Some (Inl e)
           | Inr r \<Rightarrow> if obj_phase r \<noteq> Active then Some (Inl ParentNotActive)
                      else validate_loop s (obj_parent r)))"

definition validate_active :: "object_registry \<Rightarrow> object_token \<Rightarrow> (object_error + unit) option" where
  "validate_active s token = validate_loop s (Some token)"

definition begin_recovery ::
  "object_registry \<Rightarrow> object_token \<Rightarrow> (object_registry \<times> (object_error + unit)) option" where
  "begin_recovery s token =
     (case validate_active s token of
        None \<Rightarrow> None
      | Some (Inl e) \<Rightarrow> Some (s, Inl e)
      | Some (Inr _) \<Rightarrow>
          Some (case object_at s token of
                  Inl e \<Rightarrow> (s, Inl e)
                | Inr r \<Rightarrow> (put_object s (tok_id token) (r\<lparr>obj_phase := Recovering\<rparr>), Inr ())))"

definition reparent :: "object_token \<Rightarrow> object_token \<Rightarrow> object_record \<Rightarrow> object_record" where
  "reparent previous replacement child =
     (if obj_parent child = Some previous then child\<lparr>obj_parent := Some replacement\<rparr> else child)"

definition publish_replacement ::
  "object_registry \<Rightarrow> object_token \<Rightarrow> object_registry \<times> (object_error + object_effect)" where
  "publish_replacement s token =
     (case object_at s token of
        Inl e \<Rightarrow> (s, Inl e)
      | Inr r \<Rightarrow>
          if obj_phase r \<noteq> Recovering then (s, Inl ParentNotActive)
          else (case checked_add (tok_epoch (obj_token r)) 1 of
             None \<Rightarrow> (s, Inl ObjectIdExhausted)
           | Some epoch \<Rightarrow>
               let previous = obj_token r;
                   replacement = ObjectToken (tok_generation previous) (tok_id previous) epoch;
                   s1 = put_object s (tok_id token) (r\<lparr>obj_token := replacement, obj_phase := Active\<rparr>)
               in (s1\<lparr>reg_records := map (\<lambda>(i, child). (i, reparent previous replacement child)) (reg_records s1)\<rparr>,
                   Inr (ReplacementPublished previous replacement))))"

definition parent_of :: "object_registry \<Rightarrow> object_token \<Rightarrow> object_token option" where
  "parent_of s token = Option.bind (get_object s (tok_id token)) obj_parent"

partial_function (option) descendant_loop ::
  "object_registry \<Rightarrow> object_token \<Rightarrow> object_token option \<Rightarrow> bool option" where
  "descendant_loop s ancestor parent =
     (case parent of
        None \<Rightarrow> Some False
      | Some token \<Rightarrow> if token = ancestor then Some True else descendant_loop s ancestor (parent_of s token))"

definition is_descendant :: "object_registry \<Rightarrow> object_token \<Rightarrow> object_token \<Rightarrow> bool option" where
  "is_descendant s candidate ancestor = descendant_loop s ancestor (parent_of s candidate)"

text \<open>\<open>filter\<close> with a predicate that may not return.\<close>

fun filter_opt :: "('a \<Rightarrow> bool option) \<Rightarrow> 'a list \<Rightarrow> 'a list option" where
  "filter_opt P [] = Some []"
| "filter_opt P (x # xs) =
     (case P x of None \<Rightarrow> None
      | Some b \<Rightarrow> map_option (\<lambda>ys. if b then x # ys else ys) (filter_opt P xs))"

definition ended :: "object_phase \<Rightarrow> bool" where
  "ended p \<longleftrightarrow> p = Revoked \<or> p = Closed"

fun revoke_ids :: "u64 list \<Rightarrow> object_registry \<Rightarrow> object_registry \<times> object_effect list" where
  "revoke_ids [] s = (s, [])"
| "revoke_ids (i # is) s =
     (case get_object s i of
        None \<Rightarrow> revoke_ids is s
      | Some r \<Rightarrow>
          if ended (obj_phase r) then revoke_ids is s
          else (let (s', effects) = revoke_ids is (put_object s i (r\<lparr>obj_phase := Revoked\<rparr>))
                in (s', ObjectRevoked (obj_token r) # effects)))"

definition revoke_descendants ::
  "object_registry \<Rightarrow> object_token \<Rightarrow> (object_registry \<times> object_effect list) option" where
  "revoke_descendants s ancestor =
     map_option (\<lambda>rs. revoke_ids (map (tok_id \<circ> obj_token) rs) s)
       (filter_opt (\<lambda>r. is_descendant s (obj_token r) ancestor) (map snd (reg_records s)))"

fun effect_id :: "object_effect \<Rightarrow> u64" where
  "effect_id (ObjectRevoked token) = tok_id token"
| "effect_id (ReplacementPublished _ replacement) = tok_id replacement"

definition publish_replacement_revoking_descendants ::
  "object_registry \<Rightarrow> object_token \<Rightarrow> (object_registry \<times> (object_error + object_effect \<times> object_effect list)) option" where
  "publish_replacement_revoking_descendants s token =
     (case object_at s token of
        Inl e \<Rightarrow> Some (s, Inl e)
      | Inr r \<Rightarrow>
          if obj_phase r \<noteq> Recovering then Some (s, Inl ParentNotActive)
          else map_option (\<lambda>(s1, revoked).
                 case publish_replacement s1 token of
                   (s2, Inl e) \<Rightarrow> (s2, Inl e)
                 | (s2, Inr replacement) \<Rightarrow> (s2, Inr (replacement, sort_key effect_id revoked)))
               (revoke_descendants s token))"

definition fail_recovery ::
  "object_registry \<Rightarrow> object_token \<Rightarrow> (object_registry \<times> (object_error + object_effect list)) option" where
  "fail_recovery s token =
     (case object_at s token of
        Inl e \<Rightarrow> Some (s, Inl e)
      | Inr r \<Rightarrow>
          if obj_phase r \<noteq> Recovering then Some (s, Inl ParentNotActive)
          else map_option (\<lambda>(s1, effects).
                 case object_at s1 token of
                   Inl e \<Rightarrow> (s1, Inl e)
                 | Inr r1 \<Rightarrow> (put_object s1 (tok_id token) (r1\<lparr>obj_phase := Revoked\<rparr>),
                              Inr (effects @ [ObjectRevoked token])))
               (revoke_descendants s token))"

definition begin_close ::
  "object_registry \<Rightarrow> object_token \<Rightarrow> object_registry \<times> (object_error + close_decision)" where
  "begin_close s token =
     (case object_at s token of
        Inl e \<Rightarrow> (s, Inl e)
      | Inr r \<Rightarrow>
          (case obj_phase r of
             Active \<Rightarrow> (put_object s (tok_id token) (r\<lparr>obj_phase := Closing\<rparr>), Inr OwnProtocolClose)
           | Recovering \<Rightarrow> (put_object s (tok_id token) (r\<lparr>obj_phase := Closing\<rparr>), Inr OwnProtocolClose)
           | Closing \<Rightarrow> (s, Inr AwaitExistingClose)
           | Revoked \<Rightarrow> (s, Inr AlreadyClosed)
           | Closed \<Rightarrow> (s, Inr AlreadyClosed)))"

definition complete_close ::
  "object_registry \<Rightarrow> object_token \<Rightarrow> (object_registry \<times> (object_error + object_effect list)) option" where
  "complete_close s token =
     (case object_at s token of
        Inl e \<Rightarrow> Some (s, Inl e)
      | Inr r \<Rightarrow>
          map_option (\<lambda>(s1, effects).
            case object_at s1 token of
              Inl e \<Rightarrow> (s1, Inl e)
            | Inr r1 \<Rightarrow> (put_object s1 (tok_id token) (r1\<lparr>obj_phase := Closed\<rparr>), Inr (sort_key effect_id effects)))
          (revoke_descendants s token))"

definition lose_generation :: "object_registry \<Rightarrow> object_registry \<times> object_effect list" where
  "lose_generation s =
     (s\<lparr>reg_records := map (\<lambda>(i, r). (i, if ended (obj_phase r) then r else r\<lparr>obj_phase := Revoked\<rparr>)) (reg_records s)\<rparr>,
      sort_key effect_id
        (map (ObjectRevoked \<circ> obj_token) (filter (\<lambda>r. \<not> ended (obj_phase r)) (map snd (reg_records s)))))"

end
