(* ===== verification/Object_Hierarchy.thy ===== *)
theory Object_Hierarchy
  imports Object_Registry
begin

text \<open>
  The hierarchy of domain objects: the well-formedness every operation keeps, the chain of
  ancestors it makes finite, and through it the results of the two walks of the registry.
\<close>

named_theorems registry

lemma object_at_Inr [registry]:
  "object_at s t = Inr r \<longleftrightarrow>
     tok_generation t = reg_generation s \<and> get_object s (tok_id t) = Some r \<and> obj_token r = t"
  by (auto simp: object_at_def split: option.splits)

lemma object_at_inj: "object_at s p = Inr pr \<Longrightarrow> object_at s t = Inr r \<Longrightarrow> tok_id p = tok_id t \<Longrightarrow> p = t"
  by (metis object_at_Inr option.inject)

lemma object_at_generation: "object_at s t = Inr r \<Longrightarrow> tok_generation t = reg_generation s"
  by (simp add: object_at_Inr)

lemma put_object_simps [simp]:
  "reg_generation (put_object s i r) = reg_generation s"
  "reg_next_id (put_object s i r) = reg_next_id s"
  "reg_connection (put_object s i r) = reg_connection s"
  "get_object (put_object s i r) j = (if j = i then Some r else get_object s j)"
  by (simp_all add: put_object_def table)

section \<open>Well-formed registries\<close>

fun kind_depth :: "object_kind \<Rightarrow> nat" where
  "kind_depth Connection = 0"
| "kind_depth Session = 1"
| "kind_depth Share = 2"
| "kind_depth Resource = 3"

lemma accepts_parent_depth: "accepts_parent k p \<longleftrightarrow> kind_depth k = Suc (kind_depth p)"
  by (cases k; cases p) simp_all

lemma kind_depth_bound: "kind_depth k < 4"
  by (cases k) simp_all

definition object_ok :: "object_registry \<Rightarrow> u64 \<Rightarrow> object_record \<Rightarrow> bool" where
  "object_ok s i r \<longleftrightarrow> tok_id (obj_token r) = i \<and> tok_generation (obj_token r) = reg_generation s \<and>
     (case obj_parent r of
        None \<Rightarrow> obj_kind r = Connection
      | Some p \<Rightarrow> (\<exists>pr. object_at s p = Inr pr \<and> accepts_parent (obj_kind r) (obj_kind pr)))"

definition registry_wf :: "object_registry \<Rightarrow> bool" where
  "registry_wf s \<longleftrightarrow> keys_distinct (reg_records s) \<and>
     (\<forall>i r. get_object s i = Some r \<longrightarrow> object_ok s i r) \<and>
     (\<forall>n i. reg_next_id s = Some n \<longrightarrow> get_object s i \<noteq> None \<longrightarrow> unat i < unat n)"

lemma registry_wf_new: "registry_wf (registry_new g)"
  by (auto simp: registry_wf_def registry_new_def object_ok_def Let_def split: if_splits)

lemma registry_wfD: "registry_wf s \<Longrightarrow> get_object s i = Some r \<Longrightarrow> object_ok s i r"
  by (simp add: registry_wf_def)

section \<open>The ancestors of an object\<close>

fun chain :: "nat \<Rightarrow> object_registry \<Rightarrow> object_token option \<Rightarrow> object_token list" where
  "chain (Suc n) s (Some t) = t # chain n s (parent_of s t)"
| "chain _ s _ = []"

definition ancestors :: "object_registry \<Rightarrow> object_token \<Rightarrow> object_token list" where
  "ancestors s t = chain 4 s (parent_of s t)"

definition active_at :: "object_registry \<Rightarrow> object_token \<Rightarrow> bool" where
  "active_at s t \<longleftrightarrow> (\<exists>r. object_at s t = Inr r \<and> obj_phase r = Active)"

text \<open>A token that names a current object less than \<open>n\<close> levels below the connection.\<close>

definition linked :: "object_registry \<Rightarrow> nat \<Rightarrow> object_token option \<Rightarrow> bool" where
  "linked s n p \<longleftrightarrow> (\<forall>t. p = Some t \<longrightarrow> (\<exists>r. object_at s t = Inr r \<and> kind_depth (obj_kind r) < n))"

lemma linked_parent:
  assumes "registry_wf s" and "get_object s (tok_id t) = Some r" and "kind_depth (obj_kind r) \<le> n"
  shows "linked s n (parent_of s t)"
  using registry_wfD [OF assms(1,2)] assms(2,3)
  by (auto simp: linked_def parent_of_def object_ok_def accepts_parent_depth split: option.splits)

lemma linked_step: "registry_wf s \<Longrightarrow> linked s (Suc n) (Some t) \<Longrightarrow> linked s n (parent_of s t)"
  by (auto simp: linked_def [of s "Suc n"] registry intro: linked_parent)

lemma linked_ancestors: "registry_wf s \<Longrightarrow> linked s 4 (parent_of s t)"
proof (cases "get_object s (tok_id t)")
  case None
  then show ?thesis by (simp add: linked_def parent_of_def)
next
  case (Some r)
  then show "registry_wf s \<Longrightarrow> ?thesis"
    using kind_depth_bound [of "obj_kind r"] by (auto intro: linked_parent)
qed

lemma descendant_loop_chain:
  "registry_wf s \<Longrightarrow> linked s n p \<Longrightarrow> descendant_loop s a p = Some (a \<in> set (chain n s p))"
proof (induction n arbitrary: p)
  case 0
  then show ?case by (cases p) (simp_all add: linked_def descendant_loop.simps)
next
  case (Suc n)
  then show ?case
    by (cases p) (auto simp: descendant_loop.simps [of s a] linked_step)
qed

lemma validate_loop_chain:
  "registry_wf s \<Longrightarrow> linked s n p \<Longrightarrow>
     validate_loop s p = Some (if \<forall>t \<in> set (chain n s p). active_at s t then Inr () else Inl ParentNotActive)"
proof (induction n arbitrary: p)
  case 0
  then show ?case by (cases p) (simp_all add: linked_def validate_loop.simps)
next
  case (Suc n)
  show ?case
  proof (cases p)
    case None
    then show ?thesis by (simp add: validate_loop.simps)
  next
    case (Some t)
    then obtain r where r: "object_at s t = Inr r" using Suc.prems by (auto simp: linked_def)
    then have parent: "parent_of s t = obj_parent r" by (auto simp: registry parent_of_def)
    have "linked s n (obj_parent r)" using Suc.prems Some linked_step [of s n t] parent by simp
    with Suc r parent Some show ?thesis
      by (auto simp: validate_loop.simps [of s "Some t"] active_at_def)
  qed
qed

lemma is_descendant_ancestors [registry]:
  "registry_wf s \<Longrightarrow> is_descendant s c a = Some (a \<in> set (ancestors s c))"
  by (simp add: is_descendant_def ancestors_def descendant_loop_chain linked_ancestors)

lemma validate_active_ancestors [registry]:
  assumes "registry_wf s"
  shows "validate_active s t = Some (case object_at s t of Inl e \<Rightarrow> Inl e
    | Inr r \<Rightarrow> if \<forall>u \<in> set (t # ancestors s t). active_at s u then Inr () else Inl ParentNotActive)"
proof (cases "object_at s t")
  case (Inl e)
  then show ?thesis by (simp add: validate_active_def validate_loop.simps)
next
  case (Inr r)
  then have "parent_of s t = obj_parent r" by (auto simp: registry parent_of_def)
  then have "validate_loop s (obj_parent r) =
      Some (if \<forall>u \<in> set (ancestors s t). active_at s u then Inr () else Inl ParentNotActive)"
    using validate_loop_chain [OF assms linked_ancestors [OF assms, of t]] by (simp add: ancestors_def)
  with Inr show ?thesis
    by (auto simp: validate_active_def validate_loop.simps [of s "Some t"] active_at_def)
qed

section \<open>Steps that change phases only\<close>

definition without_phase :: "object_record \<Rightarrow> object_record" where
  "without_phase r = r\<lparr>obj_phase := Active\<rparr>"

definition same_shape :: "object_registry \<Rightarrow> object_registry \<Rightarrow> bool" where
  "same_shape s s' \<longleftrightarrow> reg_generation s' = reg_generation s \<and> reg_next_id s' = reg_next_id s \<and>
     (keys_distinct (reg_records s) \<longrightarrow> keys_distinct (reg_records s')) \<and>
     (\<forall>i. map_option without_phase (get_object s' i) = map_option without_phase (get_object s i))"

lemma same_shape_refl [simp]: "same_shape s s"
  by (simp add: same_shape_def)

lemma same_shape_trans: "same_shape s s' \<Longrightarrow> same_shape s' s'' \<Longrightarrow> same_shape s s''"
  by (simp add: same_shape_def)

lemma without_phase_fields:
  "without_phase r' = without_phase r \<Longrightarrow>
     obj_token r' = obj_token r \<and> obj_kind r' = obj_kind r \<and> obj_parent r' = obj_parent r"
  by (cases r; cases r') (simp add: without_phase_def)

lemma same_shape_lookup:
  assumes "same_shape s s'" and "get_object s' i = Some r'"
  obtains r where "get_object s i = Some r" "obj_token r' = obj_token r" "obj_kind r' = obj_kind r"
    "obj_parent r' = obj_parent r"
proof -
  have "map_option without_phase (get_object s i) = Some (without_phase r')"
    using assms by (metis same_shape_def option.map(2))
  then obtain r where "get_object s i = Some r" and "without_phase r' = without_phase r"
    by (auto simp: map_option_eq_Some)
  with without_phase_fields [of r' r] that show ?thesis by blast
qed

lemma same_shape_sym_lookup:
  assumes "same_shape s s'" and "get_object s i = Some r"
  obtains r' where "get_object s' i = Some r'" "obj_token r' = obj_token r" "obj_kind r' = obj_kind r"
    "obj_parent r' = obj_parent r"
proof -
  have "map_option without_phase (get_object s' i) = Some (without_phase r)"
    using assms by (metis same_shape_def option.map(2))
  then obtain r' where "get_object s' i = Some r'" and "without_phase r' = without_phase r"
    by (auto simp: map_option_eq_Some)
  with without_phase_fields [of r' r] that show ?thesis by blast
qed

lemma same_shape_object_at:
  assumes "same_shape s s'" and "object_at s t = Inr r"
  obtains r' where "object_at s' t = Inr r'" "obj_kind r' = obj_kind r" "obj_parent r' = obj_parent r"
proof -
  have r: "get_object s (tok_id t) = Some r" and gen: "tok_generation t = reg_generation s'" and tok: "obj_token r = t"
    using assms by (auto simp: registry same_shape_def)
  from same_shape_sym_lookup [OF assms(1) r] gen tok that show ?thesis by (auto simp: registry)
qed

lemma same_shape_wf:
  assumes shape: "same_shape s s'" and wf: "registry_wf s"
  shows "registry_wf s'"
proof -
  have "object_ok s' i r'" if r': "get_object s' i = Some r'" for i r'
  proof -
    from same_shape_lookup [OF shape r'] obtain r where r: "get_object s i = Some r" "obj_token r' = obj_token r"
      "obj_kind r' = obj_kind r" "obj_parent r' = obj_parent r" by blast
    have "object_ok s i r" using wf r(1) by (rule registry_wfD)
    then show ?thesis
      using r shape
      by (auto simp: object_ok_def same_shape_def split: option.splits elim!: same_shape_object_at [OF shape])
  qed
  moreover have "get_object s' i \<noteq> None \<Longrightarrow> get_object s i \<noteq> None" for i
    using shape by (auto elim: same_shape_lookup)
  ultimately show ?thesis using wf shape by (auto simp: registry_wf_def same_shape_def)
qed

lemma same_shape_parent: "same_shape s s' \<Longrightarrow> parent_of s' t = parent_of s t"
  by (cases "get_object s' (tok_id t)"; cases "get_object s (tok_id t)")
    (auto simp: parent_of_def elim: same_shape_lookup same_shape_sym_lookup)

lemma same_shape_chain: "same_shape s s' \<Longrightarrow> chain n s' p = chain n s p"
proof (induction n arbitrary: p)
  case (Suc n)
  then show ?case by (cases p) (simp_all add: same_shape_parent)
qed simp

lemma same_shape_ancestors: "same_shape s s' \<Longrightarrow> ancestors s' t = ancestors s t"
  by (simp add: ancestors_def same_shape_parent same_shape_chain)

lemma same_shape_put:
  "get_object s i = Some r \<Longrightarrow> same_shape s (put_object s i (r\<lparr>obj_phase := p\<rparr>))"
  by (simp add: same_shape_def without_phase_def) (simp add: put_object_def update_keys_distinct)

end
