(* ===== verification/Object_Revocation.thy ===== *)
theory Object_Revocation
  imports Object_Hierarchy
begin

text \<open>
  What the operations of the object registry do to the hierarchy: which objects a close, a
  failed recovery or a lost generation revokes, what a replacement keeps, and that every
  operation returns and keeps the registry well formed.
\<close>

section \<open>Revoking the descendants of an object\<close>

definition revoke_record :: "object_record \<Rightarrow> object_record" where
  "revoke_record r = (if ended (obj_phase r) then r else r\<lparr>obj_phase := Revoked\<rparr>)"

lemma revoke_record_fields [simp]:
  "obj_token (revoke_record r) = obj_token r" "obj_kind (revoke_record r) = obj_kind r"
  "obj_parent (revoke_record r) = obj_parent r" "ended (obj_phase (revoke_record r))"
  "revoke_record (revoke_record r) = revoke_record r" "without_phase (revoke_record r) = without_phase r"
  by (simp_all add: revoke_record_def ended_def without_phase_def)

lemma revoke_record_active [simp]: "obj_phase (revoke_record r) \<noteq> Active"
  by (auto simp: revoke_record_def ended_def)

lemma revoke_ids_step:
  "revoke_ids (i # is) s =
     (case get_object s i of
        None \<Rightarrow> revoke_ids is s
      | Some r \<Rightarrow> (fst (revoke_ids is (put_object s i (revoke_record r))),
          (if ended (obj_phase r) then [] else [ObjectRevoked (obj_token r)]) @
            snd (revoke_ids is (put_object s i (revoke_record r)))))"
proof -
  have "put_object s i r = s\<lparr>reg_records := reg_records s\<rparr>" if "get_object s i = Some r" for r
    using that by (simp add: put_object_def AList.update_triv)
  then show ?thesis
    by (auto simp: revoke_record_def split_beta split: option.split)
qed

declare revoke_ids.simps(2) [simp del]

lemma revoke_ids_shape: "same_shape s (fst (revoke_ids is s))"
proof (induction "is" arbitrary: s)
  case (Cons i "is")
  have "same_shape s (put_object s i (revoke_record r))" if "get_object s i = Some r" for r
    using same_shape_put [OF that, of Revoked] that
    by (auto simp: revoke_record_def same_shape_def put_object_def table)
  then show ?case
    using Cons by (auto simp: revoke_ids_step split: option.split intro: same_shape_trans)
qed simp

lemma revoke_ids_lookup:
  "get_object (fst (revoke_ids is s)) i =
     (if i \<in> set is then map_option revoke_record (get_object s i) else get_object s i)"
proof (induction "is" arbitrary: s)
  case (Cons j "is")
  show ?case
    using Cons [of s] Cons [of "put_object s j (revoke_record (the (get_object s j)))"]
    by (cases "get_object s j") (auto simp: revoke_ids_step split: if_splits)
qed simp

lemma revoke_ids_effects:
  "distinct is \<Longrightarrow> (\<And>i. i \<in> set is \<Longrightarrow> get_object s i \<noteq> None) \<Longrightarrow>
     snd (revoke_ids is s) =
       map (ObjectRevoked \<circ> obj_token) (filter (\<lambda>r. \<not> ended (obj_phase r)) (map (the \<circ> get_object s) is))"
proof (induction "is" arbitrary: s)
  case (Cons i "is")
  then obtain r where r: "get_object s i = Some r" by fastforce
  let ?s = "put_object s i (revoke_record r)"
  have "map (the \<circ> get_object ?s) is = map (the \<circ> get_object s) is"
    using Cons.prems(1) by auto
  moreover have "snd (revoke_ids is ?s) =
      map (ObjectRevoked \<circ> obj_token) (filter (\<lambda>r. \<not> ended (obj_phase r)) (map (the \<circ> get_object ?s) is))"
    using Cons.prems by (intro Cons.IH) auto
  ultimately have "snd (revoke_ids is ?s) =
      map (ObjectRevoked \<circ> obj_token) (filter (\<lambda>r. \<not> ended (obj_phase r)) (map (the \<circ> get_object s) is))"
    by (simp only:)
  then show ?case using r by (simp add: revoke_ids_step o_def)
qed simp

lemma filter_opt_total: "(\<And>x. x \<in> set xs \<Longrightarrow> P x = Some (Q x)) \<Longrightarrow> filter_opt P xs = Some (filter Q xs)"
  by (induction xs) auto

definition below :: "object_registry \<Rightarrow> object_token \<Rightarrow> object_record \<Rightarrow> bool" where
  "below s a r \<longleftrightarrow> a \<in> set (ancestors s (obj_token r))"

definition descendant_ids :: "object_registry \<Rightarrow> object_token \<Rightarrow> u64 list" where
  "descendant_ids s a = map (tok_id \<circ> obj_token) (filter (below s a) (map snd (reg_records s)))"

lemma revoke_descendants_total:
  "registry_wf s \<Longrightarrow> revoke_descendants s a = Some (revoke_ids (descendant_ids s a) s)"
  by (simp add: revoke_descendants_def descendant_ids_def below_def [abs_def] registry
      filter_opt_total [where Q = "\<lambda>r. a \<in> set (ancestors s (obj_token r))"])

lemma record_id: "registry_wf s \<Longrightarrow> (i, r) \<in> set (reg_records s) \<Longrightarrow> tok_id (obj_token r) = i \<and> get_object s i = Some r"
  using registry_wfD [of s i r] by (auto simp: registry_wf_def object_ok_def)

lemma descendant_ids_iff:
  assumes "registry_wf s"
  shows "i \<in> set (descendant_ids s a) \<longleftrightarrow> (\<exists>r. get_object s i = Some r \<and> below s a r)"
  using record_id [OF assms] by (force simp: descendant_ids_def dest: map_of_SomeD)

lemma descendant_ids_distinct:
  assumes "registry_wf s"
  shows "distinct (descendant_ids s a)"
proof -
  have "map (tok_id \<circ> obj_token) (map snd (reg_records s)) = map fst (reg_records s)"
    using record_id [OF assms] by auto
  moreover have "distinct (map fst (reg_records s))" using assms by (simp add: registry_wf_def)
  ultimately show ?thesis unfolding descendant_ids_def by (metis distinct_map_filter)
qed

lemma revoke_descendants_lookup:
  assumes "registry_wf s" and "revoke_descendants s a = Some (s', effects)"
  shows "get_object s' i = map_option (\<lambda>r. if below s a r then revoke_record r else r) (get_object s i)"
proof -
  have "s' = fst (revoke_ids (descendant_ids s a) s)"
    using assms by (simp add: revoke_descendants_total)
  then show ?thesis
    using descendant_ids_iff [OF assms(1), of i a] by (cases "get_object s i") (simp_all add: revoke_ids_lookup)
qed

lemma revoke_descendants_shape:
  "registry_wf s \<Longrightarrow> revoke_descendants s a = Some (s', effects) \<Longrightarrow> same_shape s s'"
  using revoke_ids_shape [of s "descendant_ids s a"] by (simp add: revoke_descendants_total)

lemma revoke_descendants_effects:
  assumes "registry_wf s" and "revoke_descendants s a = Some (s', effects)"
  shows "effects = map (ObjectRevoked \<circ> obj_token)
    (filter (\<lambda>r. below s a r \<and> \<not> ended (obj_phase r)) (map snd (reg_records s)))"
proof -
  have "map (the \<circ> get_object s) (descendant_ids s a) = filter (below s a) (map snd (reg_records s))"
    unfolding descendant_ids_def
    using record_id [OF assms(1)] by (auto intro!: map_idI)
  moreover have "effects = snd (revoke_ids (descendant_ids s a) s)"
    using assms by (simp add: revoke_descendants_total)
  ultimately show ?thesis
    using revoke_ids_effects [OF descendant_ids_distinct [OF assms(1), of a], of s] descendant_ids_iff [OF assms(1), of _ a]
    by (auto simp: conj_commute)
qed

text \<open>Effects of a whole registry are sorted by id and name each object once.\<close>

lemma sorted_effects:
  assumes "registry_wf s"
  shows "sorted (map effect_id (sort_key effect_id (map (ObjectRevoked \<circ> obj_token) (filter P (map snd (reg_records s))))))"
    and "distinct (sort_key effect_id (map (ObjectRevoked \<circ> obj_token) (filter P (map snd (reg_records s)))))"
proof -
  have "map (effect_id \<circ> (ObjectRevoked \<circ> obj_token)) (map snd (reg_records s)) = map fst (reg_records s)"
    using record_id [OF assms] by auto
  moreover have "distinct (map fst (reg_records s))" using assms by (simp add: registry_wf_def)
  ultimately have "distinct (map (effect_id \<circ> (ObjectRevoked \<circ> obj_token)) (map snd (reg_records s)))"
    by (simp only:)
  then have "distinct (map (effect_id \<circ> (ObjectRevoked \<circ> obj_token)) (filter P (map snd (reg_records s))))"
    by (rule distinct_map_filter)
  then have "distinct (map (ObjectRevoked \<circ> obj_token) (filter P (map snd (reg_records s))))"
    using distinct_map [of effect_id] by (metis map_map)
  then show "distinct (sort_key effect_id (map (ObjectRevoked \<circ> obj_token) (filter P (map snd (reg_records s)))))"
    by simp
qed simp

section \<open>Every operation returns and keeps the registry well formed\<close>

lemma same_shape_end:
  assumes "same_shape s s1" and "object_at s t = Inr r"
  obtains r1 where "object_at s1 t = Inr r1" "same_shape s (put_object s1 (tok_id t) (r1\<lparr>obj_phase := p\<rparr>))"
    "r1\<lparr>obj_phase := p\<rparr> = r\<lparr>obj_phase := p\<rparr>"
proof -
  from same_shape_object_at [OF assms] obtain r1 where
    r1: "object_at s1 t = Inr r1" "obj_kind r1 = obj_kind r" "obj_parent r1 = obj_parent r" by blast
  then have "same_shape s1 (put_object s1 (tok_id t) (r1\<lparr>obj_phase := p\<rparr>))"
    by (intro same_shape_put) (simp add: registry)
  moreover have "r1\<lparr>obj_phase := p\<rparr> = r\<lparr>obj_phase := p\<rparr>"
    using r1 assms(2) by (cases r; cases r1) (auto simp: registry)
  ultimately show ?thesis using that [of r1] r1 assms(1) same_shape_trans by blast
qed

lemma complete_close_result:
  assumes wf: "registry_wf s" and r: "object_at s t = Inr r"
  obtains s' where "complete_close s t = Some (s', Inr (sort_key effect_id (map (ObjectRevoked \<circ> obj_token)
      (filter (\<lambda>r. below s t r \<and> \<not> ended (obj_phase r)) (map snd (reg_records s))))))"
    "same_shape s s'"
    "\<And>i. get_object s' i = (if i = tok_id t then Some (r\<lparr>obj_phase := Closed\<rparr>)
       else map_option (\<lambda>r. if below s t r then revoke_record r else r) (get_object s i))"
proof -
  obtain s1 effects where step: "revoke_descendants s t = Some (s1, effects)"
    using revoke_descendants_total [OF wf] by (metis surj_pair)
  note lookup = revoke_descendants_lookup [OF wf step] and effects = revoke_descendants_effects [OF wf step]
  from same_shape_end [OF revoke_descendants_shape [OF wf step] r, of Closed] obtain r1 where
    "object_at s1 t = Inr r1" "same_shape s (put_object s1 (tok_id t) (r1\<lparr>obj_phase := Closed\<rparr>))"
    "r1\<lparr>obj_phase := Closed\<rparr> = r\<lparr>obj_phase := Closed\<rparr>" by blast
  with r step that [of "put_object s1 (tok_id t) (r\<lparr>obj_phase := Closed\<rparr>)"] show ?thesis
    by (simp add: complete_close_def lookup effects)
qed

lemma fail_recovery_result:
  assumes wf: "registry_wf s" and r: "object_at s t = Inr r" and phase: "obj_phase r = Recovering"
  obtains s' where "fail_recovery s t = Some (s', Inr (map (ObjectRevoked \<circ> obj_token)
      (filter (\<lambda>r. below s t r \<and> \<not> ended (obj_phase r)) (map snd (reg_records s))) @ [ObjectRevoked t]))"
    "same_shape s s'"
    "\<And>i. get_object s' i = (if i = tok_id t then Some (r\<lparr>obj_phase := Revoked\<rparr>)
       else map_option (\<lambda>r. if below s t r then revoke_record r else r) (get_object s i))"
proof -
  obtain s1 effects where step: "revoke_descendants s t = Some (s1, effects)"
    using revoke_descendants_total [OF wf] by (metis surj_pair)
  note lookup = revoke_descendants_lookup [OF wf step] and effects = revoke_descendants_effects [OF wf step]
  from same_shape_end [OF revoke_descendants_shape [OF wf step] r, of Revoked] obtain r1 where
    "object_at s1 t = Inr r1" "same_shape s (put_object s1 (tok_id t) (r1\<lparr>obj_phase := Revoked\<rparr>))"
    "r1\<lparr>obj_phase := Revoked\<rparr> = r\<lparr>obj_phase := Revoked\<rparr>" by blast
  with r phase step that [of "put_object s1 (tok_id t) (r\<lparr>obj_phase := Revoked\<rparr>)"] show ?thesis
    by (simp add: fail_recovery_def lookup effects)
qed

lemma lose_generation_lookup: "get_object (fst (lose_generation s)) i = map_option revoke_record (get_object s i)"
  by (simp add: lose_generation_def map_of_map revoke_record_def [abs_def])

lemma lose_generation_shape: "same_shape s (fst (lose_generation s))"
  unfolding same_shape_def lose_generation_lookup
  by (auto simp: option.map_comp o_def lose_generation_def split_beta)

lemma create_child_wf:
  assumes wf: "registry_wf s"
  shows "registry_wf (fst (create_child s t kind))"
proof (cases "object_at s t")
  case (Inr pr)
  show ?thesis
  proof (cases "accepts_parent kind (obj_kind pr) \<and> obj_phase pr = Active \<and> reg_next_id s \<noteq> None")
    case True
    then obtain i where i: "reg_next_id s = Some i" by blast
    let ?c = "\<lparr>obj_token = ObjectToken (reg_generation s) i 0, obj_kind = kind, obj_parent = Some t, obj_phase = Active\<rparr>"
    let ?s = "put_object (s\<lparr>reg_next_id := checked_add i 1\<rparr>) i ?c"
    have result: "fst (create_child s t kind) = ?s"
      using Inr True i by (simp add: create_child_def Let_def)
    have fresh: "get_object s i = None" using wf i unfolding registry_wf_def by (metis less_irrefl)
    have kept: "object_at ?s u = Inr r" if "object_at s u = Inr r" for u r
      using that fresh by (auto simp: registry)
    have "object_ok ?s j r" if "get_object ?s j = Some r" for j r
    proof (cases "j = i")
      case True
      then have "r = ?c" using that by simp
      then show ?thesis
        using True kept [OF Inr] \<open>accepts_parent kind (obj_kind pr) \<and> _\<close> by (auto simp: object_ok_def)
    next
      case False
      then have "object_ok s j r" using that by (intro registry_wfD [OF wf]) simp
      then show ?thesis by (auto simp: object_ok_def dest: kept split: option.splits)
    qed
    moreover have "unat j < unat n" if "checked_add i 1 = Some n" "get_object ?s j \<noteq> None" for j n
      using wf i that checked_add_unat [OF that(1)] by (fastforce simp: registry_wf_def split: if_splits)
    moreover have "keys_distinct (reg_records ?s)"
      using wf by (simp add: registry_wf_def put_object_def update_keys_distinct)
    ultimately show ?thesis unfolding result registry_wf_def by simp
  qed (use wf Inr in \<open>auto simp: create_child_def split: option.split\<close>)
qed (simp add: create_child_def wf)

lemma publish_replacement_lookup:
  assumes "object_at s t = Inr r" and "obj_phase r = Recovering" and "checked_add (tok_epoch t) 1 = Some epoch"
  defines "t' \<equiv> ObjectToken (tok_generation t) (tok_id t) epoch"
  shows "snd (publish_replacement s t) = Inr (ReplacementPublished t t')"
    and "get_object (fst (publish_replacement s t)) i =
      map_option (\<lambda>r. reparent t t' (if i = tok_id t then r\<lparr>obj_token := t', obj_phase := Active\<rparr> else r)) (get_object s i)"
    and "reg_generation (fst (publish_replacement s t)) = reg_generation s"
    and "reg_next_id (fst (publish_replacement s t)) = reg_next_id s"
    and "keys_distinct (reg_records s) \<Longrightarrow> keys_distinct (reg_records (fst (publish_replacement s t)))"
proof -
  let ?s = "put_object s (tok_id t) (r\<lparr>obj_token := t', obj_phase := Active\<rparr>)"
  have r: "get_object s (tok_id t) = Some r" "obj_token r = t" using assms(1) by (simp_all add: registry)
  have result: "publish_replacement s t =
      (?s\<lparr>reg_records := map (\<lambda>(i, child). (i, reparent t t' child)) (reg_records ?s)\<rparr>, Inr (ReplacementPublished t t'))"
    using assms r by (simp add: publish_replacement_def Let_def)
  have "get_object (fst (publish_replacement s t)) i = map_option (reparent t t') (get_object ?s i)"
    unfolding result by (simp add: map_of_map del: put_object_simps)
  then show "get_object (fst (publish_replacement s t)) i =
      map_option (\<lambda>r. reparent t t' (if i = tok_id t then r\<lparr>obj_token := t', obj_phase := Active\<rparr> else r)) (get_object s i)"
    using r by simp
  show "keys_distinct (reg_records s) \<Longrightarrow> keys_distinct (reg_records (fst (publish_replacement s t)))"
    unfolding result by (simp add: split_beta o_def put_object_def update_keys_distinct)
qed (use assms in \<open>auto simp: publish_replacement_def Let_def object_at_def split: option.splits if_splits\<close>)

lemma publish_replacement_error:
  "snd (publish_replacement s t) = Inl e \<Longrightarrow> fst (publish_replacement s t) = s"
  by (auto simp: publish_replacement_def Let_def split: sum.splits if_splits option.splits)

text \<open>Objects keep their place in the hierarchy when an ancestor gets a new epoch.\<close>

lemma publish_replacement_wf:
  assumes wf: "registry_wf s"
  shows "registry_wf (fst (publish_replacement s t))"
proof (cases "snd (publish_replacement s t)")
  case (Inl e)
  then show ?thesis using wf by (simp add: publish_replacement_error)
next
  case (Inr effect)
  then obtain r epoch where r: "object_at s t = Inr r" "obj_phase r = Recovering" "checked_add (tok_epoch t) 1 = Some epoch"
    by (auto simp: publish_replacement_def Let_def registry split: sum.splits if_splits option.splits)
  let ?t' = "ObjectToken (tok_generation t) (tok_id t) epoch" and ?s = "fst (publish_replacement s t)"
  note result = publish_replacement_lookup [OF r]
  have parent: "\<exists>pr'. object_at ?s (if p = t then ?t' else p) = Inr pr' \<and> obj_kind pr' = obj_kind pr"
    if pr: "object_at s p = Inr pr" for p pr
  proof (cases "p = t")
    case True
    with pr show ?thesis by (simp add: object_at_Inr result reparent_def)
  next
    case False
    moreover have "tok_id p \<noteq> tok_id t" using False object_at_inj [OF pr r(1)] by blast
    ultimately show ?thesis using pr by (simp add: object_at_Inr result reparent_def)
  qed
  have "object_ok ?s i r'" if r': "get_object ?s i = Some r'" for i r'
  proof -
    from r' obtain r0 where r0: "get_object s i = Some r0"
      "r' = reparent t ?t' (if i = tok_id t then r0\<lparr>obj_token := ?t', obj_phase := Active\<rparr> else r0)"
      by (auto simp: result)
    then have fields: "obj_kind r' = obj_kind r0" "obj_token r' = (if i = tok_id t then ?t' else obj_token r0)"
      "obj_parent r' = map_option (\<lambda>p. if p = t then ?t' else p) (obj_parent r0)"
      by (auto simp: reparent_def option.map_id0 split: option.splits) (cases "obj_parent r0"; simp)+
    have ok: "object_ok s i r0" using wf r0(1) by (rule registry_wfD)
    have "tok_generation t = reg_generation s" using r(1) by (rule object_at_generation)
    then have token: "tok_id (obj_token r') = i" "tok_generation (obj_token r') = reg_generation s"
      using ok by (simp_all add: fields object_ok_def)
    show ?thesis
    proof (cases "obj_parent r0")
      case None
      with ok token show ?thesis by (simp add: object_ok_def fields result)
    next
      case (Some p)
      then obtain pr where pr: "object_at s p = Inr pr" "accepts_parent (obj_kind r0) (obj_kind pr)"
        using ok by (auto simp: object_ok_def)
      from parent [OF pr(1)] obtain pr' where "object_at ?s (if p = t then ?t' else p) = Inr pr'" "obj_kind pr' = obj_kind pr"
        by blast
      with token pr Some show ?thesis by (simp add: object_ok_def fields result)
    qed
  qed
  moreover have "get_object ?s i \<noteq> None \<Longrightarrow> get_object s i \<noteq> None" for i
    by (simp add: result)
  ultimately show ?thesis using wf by (auto simp: registry_wf_def result)
qed

section \<open>Registries in use\<close>

datatype registry_command =
    CreateChild object_token object_kind
  | BeginRecovery object_token
  | PublishReplacement object_token
  | PublishReplacementRevoking object_token
  | FailRecovery object_token
  | BeginClose object_token
  | CompleteClose object_token
  | LoseGeneration

fun registry_step :: "object_registry \<Rightarrow> registry_command \<Rightarrow> object_registry option" where
  "registry_step s (CreateChild t kind) = Some (fst (create_child s t kind))"
| "registry_step s (BeginRecovery t) = map_option fst (begin_recovery s t)"
| "registry_step s (PublishReplacement t) = Some (fst (publish_replacement s t))"
| "registry_step s (PublishReplacementRevoking t) = map_option fst (publish_replacement_revoking_descendants s t)"
| "registry_step s (FailRecovery t) = map_option fst (fail_recovery s t)"
| "registry_step s (BeginClose t) = Some (fst (begin_close s t))"
| "registry_step s (CompleteClose t) = map_option fst (complete_close s t)"
| "registry_step s LoseGeneration = Some (fst (lose_generation s))"

fun registry_run :: "object_registry \<Rightarrow> registry_command list \<Rightarrow> object_registry option" where
  "registry_run s [] = Some s"
| "registry_run s (c # cs) = Option.bind (registry_step s c) (\<lambda>s'. registry_run s' cs)"

text \<open>A step of the registry that returns, keeps it well formed, and never takes back an epoch.\<close>

definition older :: "object_registry \<Rightarrow> object_registry \<Rightarrow> bool" where
  "older s s' \<longleftrightarrow> reg_generation s' = reg_generation s \<and>
     (\<forall>i r. get_object s i = Some r \<longrightarrow>
        (\<exists>r'. get_object s' i = Some r' \<and> unat (tok_epoch (obj_token r)) \<le> unat (tok_epoch (obj_token r'))))"

lemma older_trans:
  assumes "older s s'" and "older s' s''"
  shows "older s s''"
  unfolding older_def
proof (intro conjI allI impI)
  show "reg_generation s'' = reg_generation s" using assms by (simp add: older_def)
  fix i r
  assume "get_object s i = Some r"
  with assms(1) obtain r' where "get_object s' i = Some r'" "unat (tok_epoch (obj_token r)) \<le> unat (tok_epoch (obj_token r'))"
    unfolding older_def by blast
  moreover from this(1) assms(2) obtain r'' where "get_object s'' i = Some r''"
    "unat (tok_epoch (obj_token r')) \<le> unat (tok_epoch (obj_token r''))"
    unfolding older_def by blast
  ultimately show "\<exists>r'. get_object s'' i = Some r' \<and> unat (tok_epoch (obj_token r)) \<le> unat (tok_epoch (obj_token r'))"
    by fastforce
qed

lemma same_shape_older:
  assumes "same_shape s s'"
  shows "older s s'"
  unfolding older_def
proof (intro conjI allI impI)
  show "reg_generation s' = reg_generation s" using assms by (simp add: same_shape_def)
  fix i r
  assume "get_object s i = Some r"
  from same_shape_sym_lookup [OF assms this] obtain r' where "get_object s' i = Some r'" "obj_token r' = obj_token r" .
  then show "\<exists>r'. get_object s' i = Some r' \<and> unat (tok_epoch (obj_token r)) \<le> unat (tok_epoch (obj_token r'))"
    by simp
qed

definition sound_step :: "object_registry \<Rightarrow> object_registry \<Rightarrow> bool" where
  "sound_step s s' \<longleftrightarrow> registry_wf s' \<and> older s s'"

lemma same_shape_sound: "registry_wf s \<Longrightarrow> same_shape s s' \<Longrightarrow> sound_step s s'"
  by (simp add: sound_step_def same_shape_wf same_shape_older)

lemma sound_refl: "registry_wf s \<Longrightarrow> sound_step s s"
  by (rule same_shape_sound) simp_all

lemma sound_trans: "sound_step s s' \<Longrightarrow> sound_step s' s'' \<Longrightarrow> sound_step s s''"
  by (auto simp: sound_step_def intro: older_trans)

lemma create_child_sound:
  assumes "registry_wf s"
  shows "sound_step s (fst (create_child s t kind))"
proof -
  have "older s (fst (create_child s t kind))"
  proof (cases "fst (create_child s t kind) = s")
    case True
    then show ?thesis using assms by (simp add: same_shape_older)
  next
    case False
    then obtain i c where i: "reg_next_id s = Some i"
      and s': "fst (create_child s t kind) = put_object (s\<lparr>reg_next_id := checked_add i 1\<rparr>) i c"
      by (auto simp: create_child_def Let_def split: sum.splits option.splits if_splits)
    have "get_object s i = None" using assms i unfolding registry_wf_def by (metis less_irrefl)
    then show ?thesis unfolding s' older_def by auto
  qed
  with create_child_wf [OF assms] show ?thesis by (simp add: sound_step_def)
qed

lemma publish_replacement_sound:
  assumes "registry_wf s"
  shows "sound_step s (fst (publish_replacement s t))"
proof (cases "snd (publish_replacement s t)")
  case (Inl e)
  then show ?thesis using assms by (simp add: publish_replacement_error sound_refl)
next
  case (Inr effect)
  then obtain r epoch where r: "object_at s t = Inr r" "obj_phase r = Recovering" "checked_add (tok_epoch t) 1 = Some epoch"
    by (auto simp: publish_replacement_def Let_def registry split: sum.splits if_splits option.splits)
  have "get_object s (tok_id t) = Some r" "obj_token r = t" using r(1) by (simp_all add: registry)
  with checked_add_unat [OF r(3)] have "older s (fst (publish_replacement s t))"
    by (simp add: older_def publish_replacement_lookup [OF r] reparent_def)
  with publish_replacement_wf [OF assms] show ?thesis by (simp add: sound_step_def)
qed

end
