(* ===== verification/Object_Contract.thy ===== *)
theory Object_Contract
  imports Object_Revocation
begin

text \<open>
  What the object registry promises its callers, over any sequence of operations: it always
  returns, a replaced token is dead for good, closing an object or losing the generation
  leaves no usable token below, and a replacement gives back the rest of the hierarchy.
\<close>

lemma begin_close_shape: "same_shape s (fst (begin_close s t))"
  by (auto simp: begin_close_def registry intro: same_shape_put split: sum.split object_phase.split)

lemma begin_recovery_total:
  assumes "registry_wf s"
  obtains s' x where "begin_recovery s t = Some (s', x)" and "same_shape s s'"
proof -
  obtain y where "validate_active s t = Some y" using assms by (simp add: validate_active_ancestors)
  then show ?thesis
    using that by (cases y; cases "object_at s t")
      (auto simp: begin_recovery_def registry intro: same_shape_put)
qed

lemma publish_revoking_total:
  assumes "registry_wf s"
  obtains s' x where "publish_replacement_revoking_descendants s t = Some (s', x)" and "sound_step s s'"
proof (cases "object_at s t")
  case (Inl e)
  then show ?thesis
    using that assms by (simp add: publish_replacement_revoking_descendants_def sound_refl)
next
  case (Inr r)
  obtain s1 effects where step: "revoke_descendants s t = Some (s1, effects)"
    using revoke_descendants_total [OF assms] by (metis surj_pair)
  have "sound_step s s1" using revoke_descendants_shape [OF assms step] assms by (simp add: same_shape_sound)
  moreover from this have "sound_step s1 (fst (publish_replacement s1 t))"
    by (intro publish_replacement_sound) (simp add: sound_step_def)
  ultimately have "sound_step s (fst (publish_replacement s1 t))" by (rule sound_trans)
  then show ?thesis
    using that Inr step sound_refl [OF assms]
    by (cases "obj_phase r = Recovering"; cases "publish_replacement s1 t"; cases "snd (publish_replacement s1 t)")
      (auto simp: publish_replacement_revoking_descendants_def)
qed

lemma registry_step_sound:
  assumes wf: "registry_wf s"
  obtains s' where "registry_step s c = Some s'" and "sound_step s s'"
proof (cases c)
  case (BeginRecovery t)
  obtain s' x where "begin_recovery s t = Some (s', x)" "same_shape s s'" by (rule begin_recovery_total [OF wf])
  with that BeginRecovery wf show ?thesis by (simp add: same_shape_sound)
next
  case (PublishReplacementRevoking t)
  obtain s' x where "publish_replacement_revoking_descendants s t = Some (s', x)" "sound_step s s'"
    by (rule publish_revoking_total [OF wf])
  with that PublishReplacementRevoking show ?thesis by simp
next
  case (FailRecovery t)
  show ?thesis
  proof (cases "\<exists>r. object_at s t = Inr r \<and> obj_phase r = Recovering")
    case True
    then obtain r where r: "object_at s t = Inr r" "obj_phase r = Recovering" by blast
    obtain s' where "map_option fst (fail_recovery s t) = Some s'" "same_shape s s'"
      by (rule fail_recovery_result [OF wf r]) simp
    with that FailRecovery wf show ?thesis by (simp add: same_shape_sound)
  next
    case False
    then have "map_option fst (fail_recovery s t) = Some s"
      by (cases "object_at s t") (simp_all add: fail_recovery_def)
    with that FailRecovery wf show ?thesis by (simp add: sound_refl)
  qed
next
  case (CompleteClose t)
  show ?thesis
  proof (cases "object_at s t")
    case (Inl e)
    with that CompleteClose wf show ?thesis by (simp add: complete_close_def sound_refl)
  next
    case (Inr r)
    obtain s' where "map_option fst (complete_close s t) = Some s'" "same_shape s s'"
      by (rule complete_close_result [OF wf Inr]) simp
    with that CompleteClose wf show ?thesis by (simp add: same_shape_sound)
  qed
qed (use that wf create_child_sound publish_replacement_sound begin_close_shape lose_generation_shape same_shape_sound
    in \<open>auto\<close>)

lemma registry_run_sound:
  "registry_wf s \<Longrightarrow> \<exists>s'. registry_run s cs = Some s' \<and> sound_step s s'"
proof (induction cs arbitrary: s)
  case (Cons c cs)
  obtain s1 where "registry_step s c = Some s1" "sound_step s s1" by (rule registry_step_sound [OF Cons.prems])
  moreover from this(2) Cons.IH [of s1] obtain s' where "registry_run s1 cs = Some s'" "sound_step s1 s'"
    by (auto simp: sound_step_def)
  ultimately show ?case by (auto intro: sound_trans)
qed (simp add: sound_refl)

text \<open>
  The registry always answers: over every sequence of operations from a fresh registry each
  walk up the hierarchy ends, every operation returns, and the registry stays well formed, so
  ids are unique, every parent link names a current object of the kind above, and no record is
  ever attached to a token of another generation.
\<close>

theorem registry_operations_return:
  "\<exists>s. registry_run (registry_new g) cs = Some s \<and> registry_wf s"
  using registry_run_sound [OF registry_wf_new] by (auto simp: sound_step_def)

lemma registry_run_wf: "registry_run (registry_new g) cs = Some s \<Longrightarrow> registry_wf s"
  using registry_run_sound [OF registry_wf_new, of g cs] by (auto simp: sound_step_def)

lemma publish_replacement_Inr:
  assumes "publish_replacement s t = (s', Inr effect)"
  obtains r epoch where "object_at s t = Inr r" "obj_phase r = Recovering" "checked_add (tok_epoch t) 1 = Some epoch"
    "effect = ReplacementPublished t (ObjectToken (tok_generation t) (tok_id t) epoch)"
proof -
  have Inr: "snd (publish_replacement s t) = Inr effect" using assms by simp
  then obtain r epoch where r: "object_at s t = Inr r" "obj_phase r = Recovering" "checked_add (tok_epoch t) 1 = Some epoch"
    by (auto simp: publish_replacement_def Let_def registry split: sum.splits if_splits option.splits)
  with publish_replacement_lookup(1) [OF r] Inr that show ?thesis by simp
qed

text \<open>
  C21. Replaced tokens are dead: once an object has been given a new token, the old one is
  reported stale after every later sequence of operations.
\<close>

theorem replaced_token_stays_stale:
  assumes "registry_run (registry_new g) cs = Some s" and "publish_replacement s t = (s1, Inr effect)"
    and "registry_run s1 cs' = Some s2"
  shows "object_at s2 t = Inl Stale"
proof -
  have wf: "registry_wf s" using assms(1) by (rule registry_run_wf)
  obtain r epoch where r: "object_at s t = Inr r" "obj_phase r = Recovering" "checked_add (tok_epoch t) 1 = Some epoch"
    by (rule publish_replacement_Inr [OF assms(2)])
  have "registry_wf s1" using publish_replacement_wf [OF wf, of t] assms(2) by simp
  then have later: "older s1 s2" using registry_run_sound [of s1 cs'] assms(3) by (auto simp: sound_step_def)
  have "get_object s (tok_id t) = Some r" "obj_token r = t" and gen: "tok_generation t = reg_generation s"
    using r(1) by (simp_all add: registry)
  then obtain r1 where "get_object s1 (tok_id t) = Some r1" "tok_epoch (obj_token r1) = epoch"
    and gen1: "reg_generation s1 = reg_generation s"
    using publish_replacement_lookup [OF r] assms(2) by (auto simp: reparent_def)
  with later obtain r2 where r2: "get_object s2 (tok_id t) = Some r2" "unat epoch \<le> unat (tok_epoch (obj_token r2))"
    and gen2: "reg_generation s2 = reg_generation s" unfolding older_def by fastforce
  then have "obj_token r2 \<noteq> t" using checked_add_unat [OF r(3)] by auto
  with r2 gen gen2 show ?thesis by (simp add: object_at_def)
qed

lemma not_active_invalid:
  "registry_wf s \<Longrightarrow> u \<in> set (t # ancestors s t) \<Longrightarrow> \<not> active_at s u \<Longrightarrow> validate_active s t \<noteq> Some (Inr ())"
  by (auto simp: validate_active_ancestors split: sum.splits)

lemma ancestors_by_id: "tok_id u = tok_id t \<Longrightarrow> ancestors s u = ancestors s t"
  by (simp add: ancestors_def parent_of_def)

lemma ended_object_invalid:
  assumes "registry_wf s" and "get_object s (tok_id t) = Some r" and "obj_phase r \<noteq> Active"
    and "d = t \<or> t \<in> set (ancestors s d)"
  shows "validate_active s d \<noteq> Some (Inr ())"
  by (rule not_active_invalid [OF assms(1), of t]) (use assms in \<open>auto simp: active_at_def registry\<close>)

lemma revocation_frame:
  assumes wf: "registry_wf s" and r: "object_at s t = Inr r" and shape: "same_shape s s'"
    and s': "\<And>i. get_object s' i = (if i = tok_id t then Some (r\<lparr>obj_phase := p\<rparr>)
       else map_option (\<lambda>r. if below s t r then revoke_record r else r) (get_object s i))"
    and out: "d \<noteq> t" "t \<notin> set (ancestors s d)"
  shows "object_at s' d = object_at s d"
proof (cases "tok_id d = tok_id t")
  case True
  have "get_object s (tok_id t) = Some r" "obj_token r = t" using r by (simp_all add: registry)
  with True out(1) show ?thesis using shape s' by (auto simp: object_at_def same_shape_def)
next
  case False
  have "\<not> below s t r0" if "get_object s (tok_id d) = Some r0" for r0
    using registry_wfD [OF wf that] out(2) ancestors_by_id [of "obj_token r0" d s]
    by (simp add: object_ok_def below_def)
  with False have "get_object s' (tok_id d) = get_object s (tok_id d)"
    unfolding s' by (cases "get_object s (tok_id d)") simp_all
  then show ?thesis using shape by (simp add: object_at_def same_shape_def)
qed

lemma effects_set:
  assumes "registry_wf s"
  shows "set (map (ObjectRevoked \<circ> obj_token) (filter P (map snd (reg_records s)))) =
    {ObjectRevoked (obj_token r) | i r. get_object s i = Some r \<and> P r}"
proof -
  have "set (map snd (reg_records s)) = ran (map_of (reg_records s))"
    using assms by (simp add: registry_wf_def ran_distinct)
  then show ?thesis by (auto simp: ran_def image_iff simp del: list.set_map)
qed

text \<open>
  C6. Closing an object takes everything below it along: afterwards neither the object nor any
  descendant validates, every other token stands exactly as before, and the effects name the
  descendants that were still alive, each once and in the order of their ids.
\<close>

theorem closing_revokes_the_subtree:
  assumes "registry_run (registry_new g) cs = Some s" and "complete_close s t = Some (s', Inr effects)"
  shows "(\<forall>d. if d = t \<or> is_descendant s d t = Some True then validate_active s' d \<noteq> Some (Inr ())
      else object_at s' d = object_at s d) \<and>
    set effects = {ObjectRevoked (obj_token r) | i r. get_object s i = Some r \<and>
      is_descendant s (obj_token r) t = Some True \<and> obj_phase r \<notin> {Revoked, Closed}} \<and>
    distinct effects \<and> sorted (map effect_id effects)"
proof -
  have wf: "registry_wf s" using assms(1) by (rule registry_run_wf)
  obtain r where r: "object_at s t = Inr r"
    using assms(2) by (cases "object_at s t") (simp_all add: complete_close_def)
  let ?P = "\<lambda>r. below s t r \<and> \<not> ended (obj_phase r)"
  have shape: "same_shape s s'" and s': "\<And>i. get_object s' i = (if i = tok_id t then Some (r\<lparr>obj_phase := Closed\<rparr>)
       else map_option (\<lambda>r. if below s t r then revoke_record r else r) (get_object s i))"
    and effects: "effects = sort_key effect_id (map (ObjectRevoked \<circ> obj_token) (filter ?P (map snd (reg_records s))))"
    by (rule complete_close_result [OF wf r]; use assms(2) in simp)+
  have wf': "registry_wf s'" using shape wf by (rule same_shape_wf)
  have dead: "validate_active s' d \<noteq> Some (Inr ())" if "d = t \<or> t \<in> set (ancestors s d)" for d
    by (rule ended_object_invalid [OF wf', of t "r\<lparr>obj_phase := Closed\<rparr>"])
      (use that s' same_shape_ancestors [OF shape] in auto)
  have desc: "is_descendant s d t = Some True \<longleftrightarrow> t \<in> set (ancestors s d)" for d
    by (simp add: is_descendant_ancestors [OF wf])
  have "set effects = {ObjectRevoked (obj_token r) | i r. get_object s i = Some r \<and> ?P r}"
    unfolding effects set_sort by (rule effects_set [OF wf])
  moreover have "?P r \<longleftrightarrow> is_descendant s (obj_token r) t = Some True \<and> obj_phase r \<notin> {Revoked, Closed}" for r
    by (simp add: desc below_def ended_def)
  moreover have "distinct effects" "sorted (map effect_id effects)"
    unfolding effects by (rule sorted_effects [OF wf])+
  ultimately show ?thesis
    using dead revocation_frame [OF wf r shape s'] by (simp add: desc)
qed

section \<open>Replacement and loss\<close>

definition renamed :: "object_token \<Rightarrow> u64 \<Rightarrow> object_token \<Rightarrow> object_token" where
  "renamed t epoch p = (if p = t then ObjectToken (tok_generation t) (tok_id t) epoch else p)"

lemma renamed_id [simp]: "tok_id (renamed t epoch p) = tok_id p"
  by (simp add: renamed_def)

lemma parent_of_renamed [simp]: "parent_of s (renamed t epoch p) = parent_of s p"
  by (simp add: parent_of_def)

lemma reparent_renamed: "obj_parent (reparent t (ObjectToken (tok_generation t) (tok_id t) epoch) r) =
    map_option (renamed t epoch) (obj_parent r)"
  by (cases "obj_parent r") (auto simp: reparent_def renamed_def)

lemma parent_of_replaced:
  assumes "object_at s t = Inr r" "obj_phase r = Recovering" "checked_add (tok_epoch t) 1 = Some epoch"
  shows "parent_of (fst (publish_replacement s t)) u = map_option (renamed t epoch) (parent_of s u)"
  by (cases "get_object s (tok_id u)")
    (auto simp: parent_of_def publish_replacement_lookup [OF assms] reparent_renamed)

lemma chain_replaced:
  assumes "object_at s t = Inr r" "obj_phase r = Recovering" "checked_add (tok_epoch t) 1 = Some epoch"
  shows "chain n (fst (publish_replacement s t)) (map_option (renamed t epoch) p) = map (renamed t epoch) (chain n s p)"
proof (induction n arbitrary: p)
  case (Suc n)
  then show ?case by (cases p) (simp_all add: parent_of_replaced [OF assms])
qed simp

lemma active_replaced:
  assumes r: "object_at s t = Inr r" "obj_phase r = Recovering" "checked_add (tok_epoch t) 1 = Some epoch"
    and u: "u = t \<or> active_at s u"
  shows "active_at (fst (publish_replacement s t)) (renamed t epoch u)"
proof (cases "u = t")
  case True
  have "get_object s (tok_id t) = Some r" "tok_generation t = reg_generation s" using r(1) by (simp_all add: registry)
  with True show ?thesis
    by (auto simp: active_at_def object_at_Inr publish_replacement_lookup [OF r] reparent_def renamed_def)
next
  case False
  then obtain ru where ru: "object_at s u = Inr ru" "obj_phase ru = Active" using u by (auto simp: active_at_def)
  have "tok_id u \<noteq> tok_id t" using False object_at_inj [OF ru(1) r(1)] by blast
  with False ru show ?thesis
    by (auto simp: active_at_def object_at_Inr publish_replacement_lookup [OF r] reparent_def renamed_def)
qed

lemma active_elsewhere:
  assumes "object_at s t = Inr r" and "active_at s u" and "u \<noteq> t"
  shows "active_at (put_object s (tok_id t) r') u"
proof -
  obtain ru where ru: "object_at s u = Inr ru" "obj_phase ru = Active" using assms(2) by (auto simp: active_at_def)
  have "tok_id u \<noteq> tok_id t" using object_at_inj [OF ru(1) assms(1)] assms(3) by blast
  with ru show ?thesis by (auto simp: active_at_def object_at_Inr)
qed

text \<open>
  C24. Recovery gives the hierarchy back: when an object that validated goes into recovery and
  its replacement is published, every token that validated before validates again, the
  recovered object under its new token and all others under their own.
\<close>

theorem replacement_restores_the_hierarchy:
  assumes "registry_run (registry_new g) cs = Some s" and "begin_recovery s t = Some (s1, Inr ())"
    and "publish_replacement s1 t = (s2, Inr effect)" and "validate_active s d = Some (Inr ())"
  shows "validate_active s2 (if d = t then effect_replacement effect else d) = Some (Inr ())"
proof -
  have wf: "registry_wf s" using assms(1) by (rule registry_run_wf)
  obtain r0 where r0: "object_at s t = Inr r0" and s1: "s1 = put_object s (tok_id t) (r0\<lparr>obj_phase := Recovering\<rparr>)"
    using assms(2) by (auto simp: begin_recovery_def split: option.splits sum.splits)
  have shape: "same_shape s s1" unfolding s1 using r0 by (intro same_shape_put) (simp add: registry)
  have wf1: "registry_wf s1" using shape wf by (rule same_shape_wf)
  have wf2: "registry_wf s2" using publish_replacement_wf [OF wf1, of t] assms(3) by simp
  obtain r epoch where r: "object_at s1 t = Inr r" "obj_phase r = Recovering" "checked_add (tok_epoch t) 1 = Some epoch"
    and effect: "effect = ReplacementPublished t (ObjectToken (tok_generation t) (tok_id t) epoch)"
    by (rule publish_replacement_Inr [OF assms(3)])
  let ?f = "renamed t epoch"
  have s2: "fst (publish_replacement s1 t) = s2" using assms(3) by simp
  have before: "active_at s u" if "u \<in> set (d # ancestors s1 d)" for u
    using assms(4) that same_shape_ancestors [OF shape, of d]
    by (auto simp: validate_active_ancestors [OF wf] split: sum.splits if_splits)
  have after: "active_at s2 (?f u)" if "active_at s u" for u
    using active_replaced [OF r, of u] active_elsewhere [OF r0 that, of "r0\<lparr>obj_phase := Recovering\<rparr>"]
    unfolding s2 s1 [symmetric] by blast
  have "ancestors s2 (?f d) = map ?f (ancestors s1 d)"
    using chain_replaced [OF r, of 4 "parent_of s1 d"] unfolding s2
    by (simp add: ancestors_def parent_of_replaced [OF r, unfolded s2])
  then have all: "active_at s2 u" if "u \<in> set (?f d # ancestors s2 (?f d))" for u
    using before after that by auto
  then obtain x where "object_at s2 (?f d) = Inr x" by (auto simp: active_at_def)
  with all have "validate_active s2 (?f d) = Some (Inr ())" by (simp add: validate_active_ancestors [OF wf2])
  then show ?thesis unfolding effect renamed_def by (simp split: if_splits)
qed

text \<open>
  Losing the generation revokes every object: afterwards no token validates, and the
  effects name the objects that were still alive, each once and in the order of their ids.
\<close>

theorem lost_generation_leaves_nothing_active:
  assumes "registry_run (registry_new g) cs = Some s"
  shows "validate_active (fst (lose_generation s)) t \<noteq> Some (Inr ()) \<and>
    set (snd (lose_generation s)) =
      {ObjectRevoked (obj_token r) | i r. get_object s i = Some r \<and> obj_phase r \<notin> {Revoked, Closed}} \<and>
    distinct (snd (lose_generation s)) \<and> sorted (map effect_id (snd (lose_generation s)))"
proof -
  have wf: "registry_wf s" using assms by (rule registry_run_wf)
  let ?s = "fst (lose_generation s)"
  have "registry_wf ?s" using lose_generation_shape wf by (rule same_shape_wf)
  moreover have "\<not> active_at ?s t"
    by (auto simp: active_at_def object_at_Inr lose_generation_lookup)
  ultimately have "validate_active ?s t \<noteq> Some (Inr ())" by (intro not_active_invalid) simp_all
  moreover have effects: "snd (lose_generation s) = sort_key effect_id (map (ObjectRevoked \<circ> obj_token)
      (filter (\<lambda>r. \<not> ended (obj_phase r)) (map snd (reg_records s))))"
    by (simp add: lose_generation_def)
  ultimately show ?thesis
    using sorted_effects [OF wf, of "\<lambda>r. \<not> ended (obj_phase r)"] effects_set [OF wf, of "\<lambda>r. \<not> ended (obj_phase r)"]
    unfolding effects set_sort by (simp only: ended_def) simp
qed

section \<open>A registry at work\<close>

text \<open>A connection with one session and one share, the session in recovery.\<close>

abbreviation sample_commands :: "registry_command list" where
  "sample_commands \<equiv> [CreateChild (ObjectToken 7 0 0) Session, CreateChild (ObjectToken 7 1 0) Share]"

lemmas registry_evaluate = registry_new_def create_child_def object_at_def put_object_def Let_def checked_add_def
  begin_recovery_def validate_active_def validate_loop.simps publish_replacement_def reparent_def
  is_descendant_def descendant_loop.simps parent_of_def complete_close_def revoke_descendants_def revoke_ids_step
  revoke_record_def ended_def

definition sample_registry :: object_registry where
  "sample_registry = the (registry_run (registry_new 7) sample_commands)"

lemma sample_registry_run: "registry_run (registry_new 7) sample_commands = Some sample_registry"
  by (simp add: sample_registry_def registry_evaluate)

theorem closing_revokes_the_subtree_witness:
  "\<exists>s' effects. complete_close sample_registry (ObjectToken 7 1 0) = Some (s', Inr effects) \<and>
     effects = [ObjectRevoked (ObjectToken 7 2 0)] \<and> distinct effects \<and>
     validate_active s' (ObjectToken 7 2 0) \<noteq> Some (Inr ())"
proof -
  obtain s' where step: "complete_close sample_registry (ObjectToken 7 1 0) = Some (s', Inr [ObjectRevoked (ObjectToken 7 2 0)])"
    by (simp add: sample_registry_def registry_evaluate)
  have "is_descendant sample_registry (ObjectToken 7 2 0) (ObjectToken 7 1 0) = Some True"
    by (simp add: sample_registry_def registry_evaluate)
  with step closing_revokes_the_subtree [OF sample_registry_run step] show ?thesis by auto
qed

lemma sample_recovery:
  obtains s1 where "begin_recovery sample_registry (ObjectToken 7 1 0) = Some (s1, Inr ())"
    and "registry_run (registry_new 7) (sample_commands @ [BeginRecovery (ObjectToken 7 1 0)]) = Some s1"
    and "\<exists>s2. publish_replacement s1 (ObjectToken 7 1 0) =
      (s2, Inr (ReplacementPublished (ObjectToken 7 1 0) (ObjectToken 7 1 1)))"
  by (simp add: sample_registry_def registry_evaluate)

theorem replaced_token_stays_stale_witness:
  "\<exists>s1 s2. registry_run (registry_new 7) (sample_commands @ [BeginRecovery (ObjectToken 7 1 0)]) = Some s1 \<and>
     publish_replacement s1 (ObjectToken 7 1 0) =
       (s2, Inr (ReplacementPublished (ObjectToken 7 1 0) (ObjectToken 7 1 1))) \<and>
     object_at s2 (ObjectToken 7 1 0) = Inl Stale"
proof (rule sample_recovery)
  fix s1
  assume run: "registry_run (registry_new 7) (sample_commands @ [BeginRecovery (ObjectToken 7 1 0)]) = Some s1"
    and "\<exists>s2. publish_replacement s1 (ObjectToken 7 1 0) =
      (s2, Inr (ReplacementPublished (ObjectToken 7 1 0) (ObjectToken 7 1 1)))"
  then obtain s2 where step: "publish_replacement s1 (ObjectToken 7 1 0) =
      (s2, Inr (ReplacementPublished (ObjectToken 7 1 0) (ObjectToken 7 1 1)))" by blast
  with run replaced_token_stays_stale [OF run step, of "[]"] show ?thesis by auto
qed

theorem replacement_restores_the_hierarchy_witness:
  "\<exists>s1 s2. begin_recovery sample_registry (ObjectToken 7 1 0) = Some (s1, Inr ()) \<and>
     publish_replacement s1 (ObjectToken 7 1 0) =
       (s2, Inr (ReplacementPublished (ObjectToken 7 1 0) (ObjectToken 7 1 1))) \<and>
     validate_active s2 (ObjectToken 7 2 0) = Some (Inr ())"
proof (rule sample_recovery)
  fix s1
  assume recovery: "begin_recovery sample_registry (ObjectToken 7 1 0) = Some (s1, Inr ())"
    and "\<exists>s2. publish_replacement s1 (ObjectToken 7 1 0) =
      (s2, Inr (ReplacementPublished (ObjectToken 7 1 0) (ObjectToken 7 1 1)))"
  then obtain s2 where step: "publish_replacement s1 (ObjectToken 7 1 0) =
      (s2, Inr (ReplacementPublished (ObjectToken 7 1 0) (ObjectToken 7 1 1)))" by blast
  have "validate_active sample_registry (ObjectToken 7 2 0) = Some (Inr ())"
    by (simp add: sample_registry_def registry_evaluate)
  with recovery step replacement_restores_the_hierarchy [OF sample_registry_run recovery step, of "ObjectToken 7 2 0"]
  show ?thesis by auto
qed

theorem lost_generation_leaves_nothing_active_witness:
  "validate_active (fst (lose_generation sample_registry)) (ObjectToken 7 2 0) \<noteq> Some (Inr ()) \<and>
   distinct (snd (lose_generation sample_registry))"
  using lost_generation_leaves_nothing_active [OF sample_registry_run, of "ObjectToken 7 2 0"] by blast

end
