(* ===== verification/Recovery.thy ===== *)
theory Recovery
  imports Reducer Clock
begin

text \<open>
  The cross-generation recovery policy (runtime/recovery.rs): when a lost connection is retried,
  how long each attempt may take, and when recovery gives up. Shown: the state keeps every
  deadline within the total one, the number of attempts is bounded by the policy, recovery ends
  at most once, and the backoff doubles up to its maximum.
\<close>

section \<open>Policy and state\<close>

record recovery_policy =
  max_attempts :: u32
  attempt_timeout :: duration
  total_timeout :: duration
  initial_backoff :: duration
  maximum_backoff :: duration
  maximum_jitter :: duration
  max_waiting_operations :: usize

definition policy_disabled :: recovery_policy where
  "policy_disabled = \<lparr>max_attempts = 0, attempt_timeout = 0, total_timeout = 0, initial_backoff = 0,
     maximum_backoff = 0, maximum_jitter = 0, max_waiting_operations = 0\<rparr>"

definition backoff :: "recovery_policy \<Rightarrow> u32 \<Rightarrow> duration" where
  "backoff policy failed_attempt =
     (if failed_attempt = 0 then 0
      else let shift = min (saturating_sub failed_attempt 1) 31
           in min (duration_saturating_mul (initial_backoff policy) (push_bit (unat shift) 1)) (maximum_backoff policy))"

datatype recovery_state =
    Connected generation_id
  | Waiting (state_attempt: u32) (state_wake_at: monotonic_time) (state_total_deadline: monotonic_time)
  | Connecting (state_attempt: u32) (state_attempt_deadline: monotonic_time) (state_total_deadline: monotonic_time)
  | RecoveryFailedState
  | RecoveryClosedState

datatype recovery_event =
    TransportLost generation_id monotonic_time
  | Wake monotonic_time
  | AttemptSucceeded generation_id
  | AttemptFailed monotonic_time duration
  | CloseRecovery

datatype recovery_effect =
    ScheduleAttempt u32 monotonic_time
  | StartAttempt u32 monotonic_time
  | PublishGeneration generation_id
  | RecoveryFailed
  | RecoveryClosed

record recovery_coordinator =
  coordinator_policy :: recovery_policy
  coordinator_state :: recovery_state

definition coordinator_new :: "generation_id \<Rightarrow> recovery_policy \<Rightarrow> recovery_coordinator" where
  "coordinator_new g policy = \<lparr>coordinator_policy = policy, coordinator_state = Connected g\<rparr>"

definition recovery_schedule ::
  "recovery_coordinator \<Rightarrow> u32 \<Rightarrow> monotonic_time \<Rightarrow> monotonic_time \<Rightarrow>
     recovery_coordinator \<times> recovery_effect option" where
  "recovery_schedule c attempt now total_deadline =
     (let at = min (time_saturating_add now (backoff (coordinator_policy c) (saturating_sub attempt 1))) total_deadline
      in (c\<lparr>coordinator_state := Waiting attempt at total_deadline\<rparr>, Some (ScheduleAttempt attempt at)))"

definition recovery_fail :: "recovery_coordinator \<Rightarrow> recovery_coordinator \<times> recovery_effect option" where
  "recovery_fail c = (c\<lparr>coordinator_state := RecoveryFailedState\<rparr>, Some RecoveryFailed)"

definition recovery_reduce ::
  "recovery_coordinator \<Rightarrow> recovery_event \<Rightarrow> recovery_coordinator \<times> recovery_effect option" where
  "recovery_reduce c event =
     (let policy = coordinator_policy c in
      case (coordinator_state c, event) of
        (RecoveryClosedState, _) \<Rightarrow> (c, None)
      | (RecoveryFailedState, _) \<Rightarrow> (c, None)
      | (_, CloseRecovery) \<Rightarrow> (c\<lparr>coordinator_state := RecoveryClosedState\<rparr>, Some RecoveryClosed)
      | (Connected active, TransportLost g now) \<Rightarrow>
          if active = g then
            (if max_attempts policy = 0 then (c\<lparr>coordinator_state := RecoveryFailedState\<rparr>, Some RecoveryFailed)
             else recovery_schedule c 1 now (time_saturating_add now (total_timeout policy)))
          else (c, None)
      | (Waiting attempt wake_at total_deadline, Wake now) \<Rightarrow>
          if now \<ge> wake_at then
            (if now \<ge> total_deadline then recovery_fail c
             else let deadline = min (time_saturating_add now (attempt_timeout policy)) total_deadline
                  in (c\<lparr>coordinator_state := Connecting attempt deadline total_deadline\<rparr>,
                      Some (StartAttempt attempt deadline)))
          else (c, None)
      | (Connecting _ _ _, AttemptSucceeded g) \<Rightarrow>
          (c\<lparr>coordinator_state := Connected g\<rparr>, Some (PublishGeneration g))
      | (Connecting attempt _ total_deadline, AttemptFailed now jitter) \<Rightarrow>
          if attempt \<ge> max_attempts policy \<or> now \<ge> total_deadline then recovery_fail c
          else recovery_schedule c (attempt + 1)
                 (time_saturating_add now (min jitter (maximum_jitter policy))) total_deadline
      | _ \<Rightarrow> (c, None))"

section \<open>Invariant\<close>

text \<open>Attempts are numbered from one up to the maximum, and no deadline passes the total one.\<close>

fun recovery_state_ok :: "recovery_policy \<Rightarrow> recovery_state \<Rightarrow> bool" where
  "recovery_state_ok policy (Waiting attempt wake_at total_deadline) \<longleftrightarrow>
     0 < unat attempt \<and> unat attempt \<le> unat (max_attempts policy) \<and> wake_at \<le> total_deadline"
| "recovery_state_ok policy (Connecting attempt deadline total_deadline) \<longleftrightarrow>
     0 < unat attempt \<and> unat attempt \<le> unat (max_attempts policy) \<and> deadline \<le> total_deadline"
| "recovery_state_ok policy _ \<longleftrightarrow> True"

definition recovery_inv :: "recovery_policy \<Rightarrow> recovery_coordinator \<Rightarrow> bool" where
  "recovery_inv policy c \<longleftrightarrow> coordinator_policy c = policy \<and> recovery_state_ok policy (coordinator_state c)"

definition recovery_step :: "recovery_coordinator \<Rightarrow> recovery_event \<Rightarrow> recovery_coordinator \<times> recovery_effect list" where
  "recovery_step c e = (case recovery_reduce c e of (c', None) \<Rightarrow> (c', []) | (c', Some f) \<Rightarrow> (c', [f]))"

fun recovery_over :: "recovery_state \<Rightarrow> bool" where
  "recovery_over RecoveryFailedState = True"
| "recovery_over RecoveryClosedState = True"
| "recovery_over _ = False"

fun ends_recovery :: "recovery_effect \<Rightarrow> bool" where
  "ends_recovery RecoveryFailed = True"
| "ends_recovery RecoveryClosed = True"
| "ends_recovery _ = False"

fun starts_attempt :: "recovery_effect \<Rightarrow> bool" where
  "starts_attempt (StartAttempt _ _) = True"
| "starts_attempt _ = False"

fun publishes_generation :: "recovery_effect \<Rightarrow> bool" where
  "publishes_generation (PublishGeneration _) = True"
| "publishes_generation _ = False"

text \<open>Attempts the policy still allows in a state.\<close>

fun attempts_left :: "recovery_policy \<Rightarrow> recovery_state \<Rightarrow> nat" where
  "attempts_left policy (Connected _) = unat (max_attempts policy)"
| "attempts_left policy (Waiting attempt _ _) = Suc (unat (max_attempts policy)) - unat attempt"
| "attempts_left policy (Connecting attempt _ _) = unat (max_attempts policy) - unat attempt"
| "attempts_left policy _ = 0"

lemmas recovery_defs = recovery_step_def recovery_reduce_def recovery_schedule_def recovery_fail_def Let_def

lemma unat_add_one_below:
  assumes "unat (a :: u32) < unat (b :: u32)"
  shows "unat (a + 1) = unat a + 1"
proof -
  have "unat b < 2 ^ 32" using unsigned_less [of b, where ?'a = nat] by simp
  with assms have "unat a + 1 < 2 ^ 32" by linarith
  then show ?thesis using unat_add_fits [of a 1] by simp
qed

lemma unat_at_least_one: "(w :: 'a::len word) \<noteq> 0 \<Longrightarrow> Suc 0 \<le> unat w"
  by (metis Suc_leI gr0I unat_eq_zero)

lemma recovery_step_inv:
  assumes "recovery_inv policy c"
  shows "recovery_inv policy (fst (recovery_step c e))"
  using assms
  by (cases "coordinator_state c"; cases e)
    (auto simp: recovery_inv_def recovery_defs unat_add_one_below word_less_nat_alt word_le_nat_alt unat_eq_zero
      unat_min_word not_le unat_at_least_one)

lemma recovery_step_over:
  "recovery_over (coordinator_state c) \<Longrightarrow> recovery_step c e = (c, [])"
  by (cases "coordinator_state c"; cases e) (auto simp: recovery_defs)

lemma recovery_step_ends:
  "\<not> recovery_over (coordinator_state c) \<Longrightarrow>
     occurrences ends_recovery (snd (recovery_step c e)) =
       (if recovery_over (coordinator_state (fst (recovery_step c e))) then 1 else 0)"
  by (cases "coordinator_state c"; cases e) (auto simp: recovery_defs)

interpretation recovery: publishing_reducer recovery_step "recovery_inv policy"
  "\<lambda>c. recovery_over (coordinator_state c)" ends_recovery for policy
proof
  fix c e
  show "recovery_inv policy c \<Longrightarrow> recovery_inv policy (fst (recovery_step c e))" by (rule recovery_step_inv)
  show "recovery_over (coordinator_state c) \<Longrightarrow> recovery_over (coordinator_state (fst (recovery_step c e)))"
    by (simp add: recovery_step_over)
  show "occurrences ends_recovery (snd (recovery_step c e)) =
      (if \<not> recovery_over (coordinator_state c) \<and> recovery_over (coordinator_state (fst (recovery_step c e))) then 1 else 0)"
    using recovery_step_ends [of c e] by (cases "recovery_over (coordinator_state c)") (simp_all add: recovery_step_over)
qed

lemma recovery_inv_new: "recovery_inv policy (coordinator_new g policy)"
  by (simp add: recovery_inv_def coordinator_new_def)

text \<open>
  Recovery keeps its promises about time and tries: after any events the current attempt
  is numbered between one and the policy's maximum, and neither a scheduled wake-up nor an
  attempt's deadline lies beyond the total deadline.
\<close>

theorem recovery_deadlines_within_total:
  "recovery_state_ok policy
     (coordinator_state (fst (run_reducer recovery_step (coordinator_new g policy) es)))"
  using recovery.run_inv [OF recovery_inv_new [of policy g], of es] by (simp add: recovery_inv_def)

text \<open>
  Recovery ends once: over any events the coordinator reports failure or closure exactly
  once if it has ended, and never before.
\<close>

theorem recovery_ends_exactly_once:
  "occurrences ends_recovery (snd (run_reducer recovery_step (coordinator_new g policy) es)) =
     (if recovery_over (coordinator_state (fst (run_reducer recovery_step (coordinator_new g policy) es)))
      then 1 else 0)"
  using recovery.publications_run [OF recovery_inv_new [of policy g], of es] by (simp add: coordinator_new_def)

lemma recovery_step_attempts:
  assumes "recovery_inv policy c"
  shows "occurrences starts_attempt (snd (recovery_step c e)) +
      attempts_left policy (coordinator_state (fst (recovery_step c e))) \<le>
    attempts_left policy (coordinator_state c) +
      unat (max_attempts policy) * occurrences publishes_generation (snd (recovery_step c e))"
  using assms
  by (cases "coordinator_state c"; cases e)
    (auto simp: recovery_inv_def recovery_defs unat_add_one_below word_less_nat_alt word_le_nat_alt not_le)

lemma recovery_run_attempts:
  assumes "recovery_inv policy c"
  shows "occurrences starts_attempt (snd (run_reducer recovery_step c es)) \<le>
    attempts_left policy (coordinator_state c) +
      unat (max_attempts policy) * occurrences publishes_generation (snd (run_reducer recovery_step c es))"
  using assms
proof (induction es arbitrary: c)
  case (Cons e es)
  note now = recovery_step_attempts [OF Cons.prems, of e]
    and later = Cons.IH [OF recovery_step_inv [OF Cons.prems, of e]]
  show ?case
    using now later by (simp add: run_reducer_Cons algebra_simps)
qed simp

text \<open>
  The number of connection attempts is bounded: over any events there are at most
  \<open>max_attempts\<close> of them for the first connection and for each generation published since.
\<close>

theorem recovery_attempts_bounded:
  "occurrences starts_attempt (snd (run_reducer recovery_step (coordinator_new g policy) es)) \<le>
     unat (max_attempts policy) *
       (1 + occurrences publishes_generation (snd (run_reducer recovery_step (coordinator_new g policy) es)))"
  using recovery_run_attempts [OF recovery_inv_new [of policy g], of es] by (simp add: coordinator_new_def)

section \<open>Backoff\<close>

lemma unat_shift:
  assumes "n < 32"
  shows "unat (push_bit n (1 :: u32)) = 2 ^ n"
proof -
  have "(2 :: nat) ^ n < 2 ^ 32" using assms by (intro power_strict_increasing) simp_all
  then have "unat (of_nat (2 ^ n) :: u32) = 2 ^ n"
    unfolding unsigned_of_nat using assms by (simp add: take_bit_nat_eq_self_iff del: of_nat_power)
  then show ?thesis by (simp add: push_bit_eq_mult)
qed

text \<open>
  The backoff after the n-th failed attempt is the initial backoff doubled n - 1 times (31 at
  most), capped at the policy's maximum, and nothing before the first failure; it never
  shrinks from one attempt to the next and never exceeds the maximum.
\<close>

theorem backoff_doubles_up_to_maximum:
  assumes "maximum_backoff policy \<le> duration_max"
  shows "backoff policy n =
      (if n = 0 then 0 else min (initial_backoff policy * 2 ^ min (unat n - 1) 31) (maximum_backoff policy)) \<and>
    (n \<le> m \<longrightarrow> backoff policy n \<le> backoff policy m)"
proof -
  have exact: "backoff policy k =
      (if k = 0 then 0 else min (initial_backoff policy * 2 ^ min (unat k - 1) 31) (maximum_backoff policy))" for k
  proof -
    have "unat (min (saturating_sub k 1) 31) = min (unat k - 1) 31"
      by (simp add: unat_min_word unat_saturating_sub)
    moreover from this have "unat (push_bit (unat (min (saturating_sub k 1) 31)) (1 :: u32)) = 2 ^ min (unat k - 1) 31"
      using unat_shift [of "min (unat k - 1) 31"] by (simp del: push_bit_of_1)
    ultimately show ?thesis
      using assms by (simp add: backoff_def duration_saturating_mul_def Let_def min.assoc min.absorb2)
  qed
  have "backoff policy n \<le> backoff policy m" if "n \<le> m"
  proof (cases "n = 0")
    case False
    with that have "m \<noteq> 0" and "unat n \<le> unat m" using unat_at_least_one [of n] by (auto simp: word_le_nat_alt)
    then have "initial_backoff policy * 2 ^ min (unat n - 1) 31 \<le> initial_backoff policy * 2 ^ min (unat m - 1) 31"
      by (intro mult_left_mono power_increasing) auto
    with False \<open>m \<noteq> 0\<close> show ?thesis by (simp add: exact min.coboundedI1)
  qed (simp add: exact)
  with exact show ?thesis by blast
qed

theorem backoff_doubles_up_to_maximum_witness:
  "let policy = policy_disabled\<lparr>initial_backoff := 100, maximum_backoff := 1000\<rparr> in
     backoff policy 3 = 400 \<and> backoff policy 3 \<le> backoff policy 9"
  using backoff_doubles_up_to_maximum [of "policy_disabled\<lparr>initial_backoff := 100, maximum_backoff := 1000\<rparr>" 3 9]
  by (simp add: Let_def duration_max_def policy_disabled_def word_le_nat_alt)

end
