(* ===== verification/Recovery_Queue.thy ===== *)
theory Recovery_Queue
  imports Object_Revocation Clock "HOL-Library.Multiset"
begin

text \<open>
  The bounded FIFO of commands that wait for an object in recovery (runtime/object_state.rs,
  \<open>RecoveryQueue\<close>). Every wait is completed exactly once, in the order of arrival, and the
  queue never exceeds its capacity.
\<close>

section \<open>Data and operations\<close>

type_synonym recovery_wait_id = u64

datatype recovery_queue_error = QueueFull | WaitIdExhausted

datatype recovery_wait_outcome =
    WaitReady (outcome_id: recovery_wait_id)
  | WaitCancelled (outcome_id: recovery_wait_id)
  | WaitTimedOut (outcome_id: recovery_wait_id)
  | WaitAncestorFailed (outcome_id: recovery_wait_id)

record recovery_wait =
  wait_id :: recovery_wait_id
  wait_dependency :: object_token
  wait_deadline :: "monotonic_time option"

record recovery_queue =
  queue_capacity :: usize
  queue_next_id :: "u64 option"
  queue_waits :: "recovery_wait list"

definition queue_new :: "usize \<Rightarrow> recovery_queue" where
  "queue_new capacity = \<lparr>queue_capacity = capacity, queue_next_id = Some 0, queue_waits = []\<rparr>"

definition queue_enqueue ::
  "recovery_queue \<Rightarrow> object_token \<Rightarrow> monotonic_time option \<Rightarrow>
     recovery_queue \<times> (recovery_queue_error + recovery_wait_id)" where
  "queue_enqueue q dependency deadline =
     (if length (queue_waits q) \<ge> unat (queue_capacity q) then (q, Inl QueueFull)
      else case queue_next_id q of
        None \<Rightarrow> (q, Inl WaitIdExhausted)
      | Some i \<Rightarrow>
          (q\<lparr>queue_next_id := checked_add i 1,
             queue_waits := queue_waits q @
               [\<lparr>wait_id = i, wait_dependency = dependency, wait_deadline = deadline\<rparr>]\<rparr>, Inr i))"

text \<open>\<open>position\<close> of the first match and \<open>remove\<close> at that index.\<close>

fun remove_first :: "('a \<Rightarrow> bool) \<Rightarrow> 'a list \<Rightarrow> 'a list option" where
  "remove_first P [] = None"
| "remove_first P (x # xs) = (if P x then Some xs else map_option (Cons x) (remove_first P xs))"

definition queue_cancel :: "recovery_queue \<Rightarrow> recovery_wait_id \<Rightarrow> recovery_queue \<times> recovery_wait_outcome option" where
  "queue_cancel q i =
     (case remove_first (\<lambda>w. wait_id w = i) (queue_waits q) of
        None \<Rightarrow> (q, None)
      | Some ws \<Rightarrow> (q\<lparr>queue_waits := ws\<rparr>, Some (WaitCancelled i)))"

text \<open>\<open>retain\<close> with the outcomes of the waits it drops, in queue order.\<close>

definition retain_waits ::
  "(recovery_wait \<Rightarrow> bool) \<Rightarrow> (recovery_wait_id \<Rightarrow> recovery_wait_outcome) \<Rightarrow> recovery_queue \<Rightarrow>
     recovery_queue \<times> recovery_wait_outcome list" where
  "retain_waits done_now outcome q =
     (q\<lparr>queue_waits := filter (\<lambda>w. \<not> done_now w) (queue_waits q)\<rparr>,
      map (outcome \<circ> wait_id) (filter done_now (queue_waits q)))"

definition queue_advance_time :: "recovery_queue \<Rightarrow> monotonic_time \<Rightarrow> recovery_queue \<times> recovery_wait_outcome list" where
  "queue_advance_time q now =
     retain_waits (\<lambda>w. case wait_deadline w of None \<Rightarrow> False | Some deadline \<Rightarrow> deadline \<le> now) WaitTimedOut q"

text \<open>The two operations that consult the registry return when its walks return.\<close>

fun decide_waits :: "(recovery_wait \<Rightarrow> bool option) \<Rightarrow> recovery_wait list \<Rightarrow> (recovery_wait \<times> bool) list option" where
  "decide_waits P [] = Some []"
| "decide_waits P (w # ws) =
     (case P w of None \<Rightarrow> None | Some b \<Rightarrow> map_option (Cons (w, b)) (decide_waits P ws))"

definition retain_waits_opt ::
  "(recovery_wait \<Rightarrow> bool option) \<Rightarrow> (recovery_wait_id \<Rightarrow> recovery_wait_outcome) \<Rightarrow> recovery_queue \<Rightarrow>
     (recovery_queue \<times> recovery_wait_outcome list) option" where
  "retain_waits_opt done_now outcome q =
     map_option (\<lambda>ds. (q\<lparr>queue_waits := map fst (filter (\<lambda>(w, b). \<not> b) ds)\<rparr>,
                       map (outcome \<circ> wait_id \<circ> fst) (filter snd ds)))
       (decide_waits done_now (queue_waits q))"

definition queue_release_ready ::
  "recovery_queue \<Rightarrow> object_registry \<Rightarrow> (recovery_queue \<times> recovery_wait_outcome list) option" where
  "queue_release_ready q registry =
     retain_waits_opt (\<lambda>w. map_option is_ok (validate_active registry (wait_dependency w))) WaitReady q"

definition redirect :: "object_token \<Rightarrow> object_token \<Rightarrow> recovery_wait \<Rightarrow> recovery_wait" where
  "redirect previous replacement w =
     (if wait_dependency w = previous then w\<lparr>wait_dependency := replacement\<rparr> else w)"

definition queue_publish_replacement :: "recovery_queue \<Rightarrow> object_effect \<Rightarrow> recovery_queue" where
  "queue_publish_replacement q effect =
     (case effect of
        ObjectRevoked _ \<Rightarrow> q
      | ReplacementPublished previous replacement \<Rightarrow>
          q\<lparr>queue_waits := map (redirect previous replacement) (queue_waits q)\<rparr>)"

definition queue_release_dependency ::
  "recovery_queue \<Rightarrow> object_token \<Rightarrow> recovery_queue \<times> recovery_wait_outcome list" where
  "queue_release_dependency q dependency = retain_waits (\<lambda>w. wait_dependency w = dependency) WaitReady q"

definition queue_fail_all :: "recovery_queue \<Rightarrow> recovery_queue \<times> recovery_wait_outcome list" where
  "queue_fail_all q = (q\<lparr>queue_waits := []\<rparr>, map (WaitAncestorFailed \<circ> wait_id) (queue_waits q))"

definition queue_drain_ancestor ::
  "recovery_queue \<Rightarrow> object_registry \<Rightarrow> object_token \<Rightarrow> (recovery_queue \<times> recovery_wait_outcome list) option" where
  "queue_drain_ancestor q registry ancestor =
     retain_waits_opt (\<lambda>w. if wait_dependency w = ancestor then Some True
                           else is_descendant registry (wait_dependency w) ancestor) WaitAncestorFailed q"

section \<open>The invariant\<close>

text \<open>Ids grow along the queue and stay below the next id, and the capacity is respected.\<close>

definition queue_inv :: "recovery_queue \<Rightarrow> bool" where
  "queue_inv q \<longleftrightarrow> length (queue_waits q) \<le> unat (queue_capacity q) \<and>
     sorted_wrt (\<lambda>v w. unat (wait_id v) < unat (wait_id w)) (queue_waits q) \<and>
     (\<forall>n. queue_next_id q = Some n \<longrightarrow> (\<forall>w \<in> set (queue_waits q). unat (wait_id w) < unat n))"

datatype queue_command =
    EnqueueWait object_token "monotonic_time option"
  | CancelWait recovery_wait_id
  | AdvanceWaits monotonic_time
  | ReleaseReady object_registry
  | WaitsReplaced object_effect
  | ReleaseDependency object_token
  | FailAllWaits
  | DrainAncestor object_registry object_token

text \<open>One command: the queue after it, the ids it issues and the waits it completes.\<close>

fun queue_step :: "recovery_queue \<Rightarrow> queue_command \<Rightarrow>
    (recovery_queue \<times> recovery_wait_id list \<times> recovery_wait_outcome list) option" where
  "queue_step q (EnqueueWait dependency deadline) =
     (case queue_enqueue q dependency deadline of
        (q', Inl _) \<Rightarrow> Some (q', [], []) | (q', Inr i) \<Rightarrow> Some (q', [i], []))"
| "queue_step q (CancelWait i) =
     (case queue_cancel q i of (q', None) \<Rightarrow> Some (q', [], []) | (q', Some x) \<Rightarrow> Some (q', [], [x]))"
| "queue_step q (AdvanceWaits now) = (case queue_advance_time q now of (q', xs) \<Rightarrow> Some (q', [], xs))"
| "queue_step q (ReleaseReady registry) = map_option (\<lambda>(q', xs). (q', [], xs)) (queue_release_ready q registry)"
| "queue_step q (WaitsReplaced effect) = Some (queue_publish_replacement q effect, [], [])"
| "queue_step q (ReleaseDependency t) = (case queue_release_dependency q t of (q', xs) \<Rightarrow> Some (q', [], xs))"
| "queue_step q FailAllWaits = (case queue_fail_all q of (q', xs) \<Rightarrow> Some (q', [], xs))"
| "queue_step q (DrainAncestor registry t) = map_option (\<lambda>(q', xs). (q', [], xs)) (queue_drain_ancestor q registry t)"

fun queue_run :: "recovery_queue \<Rightarrow> queue_command list \<Rightarrow>
    (recovery_queue \<times> recovery_wait_id list \<times> recovery_wait_outcome list) option" where
  "queue_run q [] = Some (q, [], [])"
| "queue_run q (c # cs) =
     (case queue_step q c of
        None \<Rightarrow> None
      | Some (q1, ids, xs) \<Rightarrow> map_option (\<lambda>(q2, ids', xs'). (q2, ids @ ids', xs @ xs')) (queue_run q1 cs))"

abbreviation waiting :: "recovery_queue \<Rightarrow> recovery_wait_id list" where
  "waiting q \<equiv> map wait_id (queue_waits q)"

text \<open>A step that accounts for every wait: those there and those issued are completed or remain.\<close>

definition accounts :: "recovery_queue \<Rightarrow> recovery_queue \<times> recovery_wait_id list \<times> recovery_wait_outcome list \<Rightarrow> bool" where
  "accounts q p \<longleftrightarrow> (case p of (q', ids, xs) \<Rightarrow>
     queue_capacity q' = queue_capacity q \<and> queue_inv q' \<and>
     mset (waiting q) + mset ids = mset (map outcome_id xs) + mset (waiting q') \<and>
     sorted_wrt (<) (map unat ids) \<and>
     (\<forall>i \<in> set ids. \<exists>n. queue_next_id q = Some n \<and> unat n \<le> unat i) \<and>
     (\<forall>n'. queue_next_id q' = Some n' \<longrightarrow> (\<exists>n. queue_next_id q = Some n \<and> unat n \<le> unat n') \<and>
        (\<forall>i \<in> set ids. unat i < unat n')))"

lemma retain_waits_accounts:
  assumes "queue_inv q" and "\<And>i. outcome_id (outcome i) = i"
  shows "accounts q (fst (retain_waits P outcome q), [], snd (retain_waits P outcome q))"
proof -
  have "mset (waiting q) = mset (map wait_id (filter P (queue_waits q))) +
      mset (map wait_id (filter (\<lambda>w. \<not> P w) (queue_waits q)))"
    by (simp add: image_mset_union [symmetric])
  moreover have "queue_inv (fst (retain_waits P outcome q))"
    using assms(1) le_trans [OF length_filter_le]
    by (auto simp: queue_inv_def retain_waits_def sorted_wrt_filter)
  ultimately show ?thesis
    by (auto simp: accounts_def retain_waits_def multiset.map_comp o_def assms(2))
qed

lemma decide_waits_total:
  "(\<And>w. w \<in> set ws \<Longrightarrow> P w \<noteq> None) \<Longrightarrow> decide_waits P ws = Some (map (\<lambda>w. (w, the (P w))) ws)"
proof (induction ws)
  case (Cons w ws)
  then obtain b where "P w = Some b" by fastforce
  with Cons show ?case by simp
qed simp

lemma retain_waits_opt_total:
  assumes "\<And>w. P w \<noteq> None"
  shows "retain_waits_opt P outcome q = Some (retain_waits (\<lambda>w. the (P w)) outcome q)"
  using assms by (simp add: retain_waits_opt_def retain_waits_def decide_waits_total filter_map o_def)

lemma remove_first_waits:
  assumes "remove_first P xs = Some ys"
  obtains as x bs where "xs = as @ x # bs" "ys = as @ bs" "P x" 
proof -
  have "\<exists>as x bs. xs = as @ x # bs \<and> ys = as @ bs \<and> P x"
    using assms
  proof (induction xs arbitrary: ys)
    case (Cons z zs)
    show ?case
    proof (cases "P z")
      case True
      then show ?thesis using Cons.prems by fastforce
    next
      case False
      then obtain ws where "remove_first P zs = Some ws" "ys = z # ws" using Cons.prems by auto
      then show ?thesis using Cons.IH by (metis append_Cons)
    qed
  qed simp
  with that show ?thesis by blast
qed

lemma queue_cancel_accounts:
  assumes inv: "queue_inv q"
  shows "\<exists>p. queue_step q (CancelWait i) = Some p \<and> accounts q p"
proof (cases "remove_first (\<lambda>w. wait_id w = i) (queue_waits q)")
  case None
  then show ?thesis using inv by (auto simp: queue_cancel_def accounts_def)
next
  case (Some ws)
  from remove_first_waits [OF Some] obtain as w bs where
    ws: "queue_waits q = as @ w # bs" "ws = as @ bs" "wait_id w = i" by blast
  with inv Some show ?thesis
    by (auto simp: queue_cancel_def accounts_def queue_inv_def sorted_wrt_append)
qed

lemma queue_enqueue_accounts:
  assumes inv: "queue_inv q"
  shows "\<exists>p. queue_step q (EnqueueWait t deadline) = Some p \<and> accounts q p"
proof (cases "length (queue_waits q) \<ge> unat (queue_capacity q) \<or> queue_next_id q = None")
  case True
  then show ?thesis using inv by (auto simp: queue_enqueue_def accounts_def split: option.split)
next
  case False
  then obtain i where i: "queue_next_id q = Some i" "length (queue_waits q) < unat (queue_capacity q)" by auto
  have "unat n = unat i + 1" if "checked_add i 1 = Some n" for n
    using checked_add_unat [OF that] by simp
  with inv i show ?thesis
    by (fastforce simp: queue_enqueue_def accounts_def queue_inv_def sorted_wrt_append)
qed

fun command_registry_ok :: "queue_command \<Rightarrow> bool" where
  "command_registry_ok (ReleaseReady registry) = registry_wf registry"
| "command_registry_ok (DrainAncestor registry _) = registry_wf registry"
| "command_registry_ok _ = True"

lemma queue_replaced_accounts: "queue_inv q \<Longrightarrow> accounts q (queue_publish_replacement q effect, [], [])"
proof (cases effect)
  case (ReplacementPublished previous replacement)
  have "wait_id (redirect previous replacement w) = wait_id w" for w by (simp add: redirect_def)
  moreover assume "queue_inv q"
  ultimately show ?thesis
    using ReplacementPublished
    by (simp add: accounts_def queue_publish_replacement_def queue_inv_def sorted_wrt_map multiset.map_comp o_def)
qed (simp add: queue_publish_replacement_def accounts_def)

lemma queue_step_accounts:
  assumes inv: "queue_inv q" and ok: "command_registry_ok c"
  shows "\<exists>p. queue_step q c = Some p \<and> accounts q p"
proof -
  show ?thesis
  proof (cases c)
    case (EnqueueWait t deadline)
    then show ?thesis using queue_enqueue_accounts [OF inv] by simp
  next
    case (CancelWait i)
    then show ?thesis using queue_cancel_accounts [OF inv] by simp
  next
    case (AdvanceWaits now)
    then show ?thesis
      using retain_waits_accounts [OF inv, of WaitTimedOut] by (simp add: queue_advance_time_def split_beta)
  next
    case (ReleaseReady registry)
    then have "map_option is_ok (validate_active registry (wait_dependency w)) \<noteq> None" for w
      using ok by (simp add: validate_active_ancestors)
    then show ?thesis
      unfolding ReleaseReady queue_step.simps queue_release_ready_def
      by (subst retain_waits_opt_total) (simp_all add: split_beta retain_waits_accounts [OF inv])
  next
    case (WaitsReplaced effect)
    then show ?thesis using queue_replaced_accounts [OF inv] by simp
  next
    case (ReleaseDependency t)
    then show ?thesis
      using retain_waits_accounts [OF inv, of WaitReady] by (simp add: queue_release_dependency_def split_beta)
  next
    case FailAllWaits
    have "retain_waits (\<lambda>_. True) WaitAncestorFailed q = queue_fail_all q"
      by (simp add: retain_waits_def queue_fail_all_def)
    then show ?thesis
      using FailAllWaits retain_waits_accounts [OF inv, of WaitAncestorFailed "\<lambda>_. True"] by (simp add: split_beta)
  next
    case (DrainAncestor registry t)
    let ?P = "\<lambda>w. if wait_dependency w = t then Some True else is_descendant registry (wait_dependency w) t"
    have "?P w \<noteq> None" for w
      using ok DrainAncestor by (auto simp: is_descendant_ancestors)
    from retain_waits_opt_total [of ?P, OF this] show ?thesis
      by (simp add: DrainAncestor queue_drain_ancestor_def split_beta retain_waits_accounts [OF inv])
  qed
qed

lemma accounts_trans:
  assumes "accounts q (q1, ids, xs)" and "accounts q1 (q2, ids', xs')"
  shows "accounts q (q2, ids @ ids', xs @ xs')"
proof -
  have "\<forall>i \<in> set ids. \<forall>j \<in> set ids'. unat i < unat j"
    using assms by (fastforce simp: accounts_def)
  moreover have "mset (waiting q) + mset (ids @ ids') = mset (map outcome_id (xs @ xs')) + mset (waiting q2)"
  proof -
    have "mset (waiting q) + mset ids = mset (map outcome_id xs) + mset (waiting q1)"
      "mset (waiting q1) + mset ids' = mset (map outcome_id xs') + mset (waiting q2)"
      using assms by (simp_all add: accounts_def)
    then show ?thesis by (metis (no_types, lifting) add.assoc map_append mset_append)
  qed
  ultimately show ?thesis
    using assms unfolding accounts_def by (auto simp: sorted_wrt_append) (fastforce intro: order_trans)+
qed

lemma queue_run_accounts:
  "queue_inv q \<Longrightarrow> list_all command_registry_ok cs \<Longrightarrow> \<exists>p. queue_run q cs = Some p \<and> accounts q p"
proof (induction cs arbitrary: q)
  case Nil
  then show ?case by (simp add: accounts_def)
next
  case (Cons c cs)
  then obtain q1 ids xs where step: "queue_step q c = Some (q1, ids, xs)" "accounts q (q1, ids, xs)"
    using queue_step_accounts [of q c] by auto
  then have "queue_inv q1" by (simp add: accounts_def)
  then obtain q2 ids' xs' where "queue_run q1 cs = Some (q2, ids', xs')" "accounts q1 (q2, ids', xs')"
    using Cons.IH [of q1] Cons.prems by auto
  with step show ?case by (auto intro: accounts_trans)
qed

text \<open>
  C25. Waiting for recovery: every sequence of queue operations returns, the queue never holds
  more than its capacity, ids are issued once only, and each wait that was ever accepted is
  either still in the queue or was completed with exactly one outcome.
\<close>

theorem recovery_waits_complete_exactly_once:
  assumes "list_all command_registry_ok cs"
  shows "\<exists>q ids outcomes. queue_run (queue_new capacity) cs = Some (q, ids, outcomes) \<and>
    length (queue_waits q) \<le> unat capacity \<and> distinct ids \<and>
    mset ids = mset (map outcome_id outcomes) + mset (map wait_id (queue_waits q))"
proof -
  have "queue_inv (queue_new capacity)" by (simp add: queue_inv_def queue_new_def)
  from queue_run_accounts [OF this assms] obtain q ids outcomes where
    run: "queue_run (queue_new capacity) cs = Some (q, ids, outcomes)" "accounts (queue_new capacity) (q, ids, outcomes)"
    by auto
  then have "sorted_wrt (<) (map unat ids)" by (simp add: accounts_def)
  then have "distinct ids" using strict_sorted_iff distinct_map by blast
  with run show ?thesis by (auto simp: accounts_def queue_inv_def queue_new_def)
qed

theorem recovery_waits_complete_exactly_once_witness:
  "\<exists>q ids outcomes. queue_run (queue_new 1)
       [EnqueueWait (ObjectToken 7 1 0) (Some 5), EnqueueWait (ObjectToken 7 1 0) None, ReleaseReady (registry_new 7),
        AdvanceWaits 9] = Some (q, ids, outcomes) \<and>
     mset ids = mset (map outcome_id outcomes) + mset (map wait_id (queue_waits q))"
  using recovery_waits_complete_exactly_once [of "[EnqueueWait (ObjectToken 7 1 0) (Some 5),
      EnqueueWait (ObjectToken 7 1 0) None, ReleaseReady (registry_new 7), AdvanceWaits 9]" 1]
  by (auto simp: registry_wf_new)

end
