(* ===== verification/Recovery_Driver.thy ===== *)
theory Recovery_Driver
  imports Recovery Recovery_Queue
begin

text \<open>
  The task that carries recovery out (runtime/recovery_driver.rs): the attempt loop, which the
  environment answers turn by turn, and the admissions that hold the callers waiting for the
  connection. Transport, clock, jitter and bootstrap are the environment's: every turn brings
  the time that is read, the jitter that is drawn and what the bootstrap returned.
\<close>

section \<open>Errors and admissions\<close>

datatype recovery_error =
    NotRecoverable
  | DriverClosed
  | AttemptsExhausted
  | StaleGeneration
  | GenerationExhausted
  | MismatchedGeneration
  | DriverQueueFull
  | DependencyNotConnection
  | DriverWaitTimedOut
  | DriverWaitCancelled
  | DriverWaitFailed

record recovery_admissions =
  active_connection :: object_token
  recovering :: bool
  wait_queue :: recovery_queue
  completions :: "(recovery_wait_id, unit) table"

definition admissions_new :: "object_token \<Rightarrow> recovery_policy \<Rightarrow> recovery_admissions" where
  "admissions_new connection policy =
     \<lparr>active_connection = connection, recovering = False,
      wait_queue = queue_new (max_waiting_operations policy), completions = []\<rparr>"

type_synonym delivery = "recovery_wait_id \<times> (recovery_error + object_token)"

fun wait_result :: "recovery_wait_outcome \<Rightarrow> object_token option \<Rightarrow> recovery_error + object_token" where
  "wait_result (WaitReady _) (Some replacement) = Inr replacement"
| "wait_result _ _ = Inl DriverWaitFailed"

fun complete_waits ::
  "recovery_admissions \<Rightarrow> recovery_wait_outcome list \<Rightarrow> object_token option \<Rightarrow> recovery_admissions \<times> delivery list" where
  "complete_waits a [] replacement = (a, [])"
| "complete_waits a (outcome # outcomes) replacement =
     (let i = outcome_id outcome in
      case map_of (completions a) i of
        None \<Rightarrow> complete_waits a outcomes replacement
      | Some _ \<Rightarrow>
          let (a', ds) = complete_waits (a\<lparr>completions := AList.delete i (completions a)\<rparr>) outcomes replacement
          in (a', (i, wait_result outcome replacement) # ds))"

definition driver_begin_recovery ::
  "recovery_admissions \<Rightarrow> generation_id \<Rightarrow> recovery_admissions \<times> (recovery_error + unit)" where
  "driver_begin_recovery a g =
     (if tok_generation (active_connection a) \<noteq> g \<or> recovering a then (a, Inl StaleGeneration)
      else (a\<lparr>recovering := True\<rparr>, Inr ()))"

definition driver_finish_recovery ::
  "recovery_admissions \<Rightarrow> object_token \<Rightarrow> recovery_admissions \<times> delivery list" where
  "driver_finish_recovery a replacement =
     (let q1 = queue_publish_replacement (wait_queue a) (ReplacementPublished (active_connection a) replacement);
          (q2, outcomes) = queue_release_dependency q1 replacement
      in complete_waits (a\<lparr>active_connection := replacement, recovering := False, wait_queue := q2\<rparr>) outcomes
           (Some replacement))"

definition driver_fail_waiters :: "recovery_admissions \<Rightarrow> recovery_admissions \<times> delivery list" where
  "driver_fail_waiters a =
     (let (q, outcomes) = queue_fail_all (wait_queue a)
      in complete_waits (a\<lparr>recovering := False, wait_queue := q\<rparr>) outcomes None)"

definition driver_remove_wait :: "recovery_admissions \<Rightarrow> recovery_wait_id \<Rightarrow> recovery_admissions" where
  "driver_remove_wait a i =
     a\<lparr>wait_queue := fst (queue_cancel (wait_queue a) i), completions := AList.delete i (completions a)\<rparr>"

text \<open>The part of \<open>resolve_dependency\<close> under the lock: \<open>Inr (Inl t)\<close> is a token usable at once,
  \<open>Inr (Inr i)\<close> a registered wait.\<close>

definition resolve_dependency ::
  "duration \<Rightarrow> monotonic_time \<Rightarrow> recovery_admissions \<Rightarrow> object_token \<Rightarrow> monotonic_time option \<Rightarrow>
     recovery_admissions \<times> (recovery_error + (object_token + recovery_wait_id))" where
  "resolve_dependency default_wait now a dependency deadline =
     (if \<not> recovering a then (a, Inr (Inl dependency))
      else if dependency \<noteq> active_connection a then (a, Inl DependencyNotConnection)
      else let until = (case deadline of Some d \<Rightarrow> d | None \<Rightarrow> time_saturating_add now default_wait)
           in case queue_enqueue (wait_queue a) dependency (Some until) of
                (q, Inl QueueFull) \<Rightarrow> (a\<lparr>wait_queue := q\<rparr>, Inl DriverQueueFull)
              | (q, Inl WaitIdExhausted) \<Rightarrow> (a\<lparr>wait_queue := q\<rparr>, Inl DriverWaitFailed)
              | (q, Inr i) \<Rightarrow>
                  (a\<lparr>wait_queue := q, completions := AList.update i () (completions a)\<rparr>, Inr (Inr i)))"

section \<open>The attempt loop\<close>

datatype bootstrap_result = Candidate object_token | BootstrapClosed | BootstrapFailed

text \<open>
  One turn of the environment: whether the close token fires first (the select is biased), whether
  \<open>close\<close> gets to the coordinator before this turn's event, the time and jitter that are read, and
  the bootstrap's result; an attempt that times out is a failed bootstrap.
\<close>

record drive_turn =
  turn_closed :: bool
  turn_interference :: bool
  turn_now :: monotonic_time
  turn_jitter :: duration
  turn_bootstrap :: bootstrap_result

definition interfered :: "drive_turn \<Rightarrow> recovery_coordinator \<Rightarrow> recovery_coordinator" where
  "interfered t c = (if turn_interference t then fst (recovery_reduce c CloseRecovery) else c)"

fun drive_attempts ::
  "recovery_coordinator \<Rightarrow> generation_id \<Rightarrow> recovery_effect option \<Rightarrow> drive_turn list \<Rightarrow>
     (recovery_coordinator \<times> (recovery_error + object_token)) option" where
  "drive_attempts c next_generation (Some RecoveryFailed) turns = Some (c, Inl AttemptsExhausted)"
| "drive_attempts c next_generation (Some RecoveryClosed) turns = Some (c, Inl DriverClosed)"
| "drive_attempts c next_generation None turns = Some (c, Inl DriverClosed)"
| "drive_attempts c next_generation (Some (PublishGeneration _)) turns = Some (c, Inl DriverClosed)"
| "drive_attempts c next_generation (Some (ScheduleAttempt attempt at)) [] = None"
| "drive_attempts c next_generation (Some (StartAttempt attempt deadline)) [] = None"
| "drive_attempts c next_generation (Some (ScheduleAttempt attempt at)) (t # turns) =
     (if turn_closed t then Some (c, Inl DriverClosed)
      else let (c', effect) = recovery_reduce (interfered t c) (Wake (turn_now t))
           in drive_attempts c' next_generation effect turns)"
| "drive_attempts c next_generation (Some (StartAttempt attempt deadline)) (t # turns) =
     (if turn_closed t then Some (c, Inl DriverClosed)
      else case turn_bootstrap t of
        Candidate connection \<Rightarrow>
          if tok_generation connection = next_generation then
            (let (c', published) = recovery_reduce (interfered t c) (AttemptSucceeded next_generation)
             in if published = Some (PublishGeneration next_generation) then Some (c', Inr connection)
                else Some (c', Inl DriverClosed))
          else Some (c, Inl MismatchedGeneration)
      | BootstrapClosed \<Rightarrow> Some (c, Inl DriverClosed)
      | BootstrapFailed \<Rightarrow>
          (let (c', effect) = recovery_reduce (interfered t c) (AttemptFailed (turn_now t) (turn_jitter t))
           in drive_attempts c' next_generation effect turns))"

text \<open>\<open>recover\<close> up to the attempt loop, and what it does with the loop's result.\<close>

definition recover_start ::
  "bool \<Rightarrow> bool \<Rightarrow> generation_id \<Rightarrow> monotonic_time \<Rightarrow> recovery_coordinator \<Rightarrow> recovery_admissions \<Rightarrow>
     recovery_coordinator \<times> recovery_admissions \<times> (recovery_error + generation_id \<times> recovery_effect option)" where
  "recover_start transport_lost closed g now c a =
     (if \<not> transport_lost then (c, a, Inl NotRecoverable)
      else if closed then (c, a, Inl DriverClosed)
      else case generation_checked_next g of
        None \<Rightarrow> (c, a, Inl GenerationExhausted)
      | Some next_generation \<Rightarrow>
          if coordinator_state c \<noteq> Connected g then (c, a, Inl StaleGeneration)
          else let (c', effect) = recovery_reduce c (TransportLost g now) in
               case driver_begin_recovery a g of
                 (a', Inl e) \<Rightarrow> (c', a', Inl e)
               | (a', Inr _) \<Rightarrow> (c', a', Inr (next_generation, effect)))"

definition recover_end ::
  "recovery_error + object_token \<Rightarrow> recovery_admissions \<Rightarrow> recovery_admissions \<times> delivery list" where
  "recover_end outcome a =
     (case outcome of Inr connection \<Rightarrow> driver_finish_recovery a connection | Inl _ \<Rightarrow> driver_fail_waiters a)"

definition driver_close :: "recovery_coordinator \<Rightarrow> recovery_admissions \<Rightarrow>
    recovery_coordinator \<times> recovery_admissions \<times> delivery list" where
  "driver_close c a = (let (c', _) = recovery_reduce c CloseRecovery; (a', ds) = driver_fail_waiters a in (c', a', ds))"

section \<open>The attempt loop ends\<close>

fun effect_matches :: "recovery_state \<Rightarrow> recovery_effect option \<Rightarrow> bool" where
  "effect_matches s (Some (ScheduleAttempt attempt at)) = (\<exists>final. s = Waiting attempt at final)"
| "effect_matches s (Some (StartAttempt attempt deadline)) = (\<exists>final. s = Connecting attempt deadline final)"
| "effect_matches s _ = True"

fun turns_needed :: "recovery_policy \<Rightarrow> recovery_state \<Rightarrow> nat" where
  "turns_needed policy (Waiting attempt _ _) = 2 * (Suc (unat (max_attempts policy)) - unat attempt)"
| "turns_needed policy (Connecting attempt _ _) = Suc (2 * (unat (max_attempts policy) - unat attempt))"
| "turns_needed policy _ = 0"

lemma recovery_reduce_inv: "recovery_inv policy c \<Longrightarrow> recovery_inv policy (fst (recovery_reduce c e))"
  using recovery_step_inv [of policy c e] by (simp add: recovery_step_def split_beta split: option.splits)

lemma interfered_inv: "recovery_inv policy c \<Longrightarrow> recovery_inv policy (interfered t c)"
  by (simp add: interfered_def recovery_reduce_inv)

lemma interfered_cases: "interfered t c = c \<or> recovery_over (coordinator_state (interfered t c))"
  by (cases "coordinator_state c") (auto simp: interfered_def recovery_reduce_def)

lemma reduce_over: "recovery_over (coordinator_state c) \<Longrightarrow> recovery_reduce c e = (c, None)"
  by (cases "coordinator_state c"; cases e) (simp_all add: recovery_reduce_def)

lemma wake_turns:
  assumes "recovery_inv policy c" and "coordinator_state c = Waiting attempt at final"
    and "recovery_reduce (interfered t c) (Wake now) = (c', effect)"
  shows "effect_matches (coordinator_state c') effect \<and>
    (effect = None \<or> turns_needed policy (coordinator_state c') < turns_needed policy (Waiting attempt at final))"
  using interfered_cases [of t c] assms reduce_over [of "interfered t c" "Wake now"]
  by (auto simp: recovery_reduce_def recovery_fail_def Let_def recovery_inv_def split: if_splits)

lemma failure_turns:
  assumes "recovery_inv policy c" and "coordinator_state c = Connecting attempt deadline final"
    and "recovery_reduce (interfered t c) (AttemptFailed now jitter) = (c', effect)"
  shows "effect_matches (coordinator_state c') effect \<and>
    (effect = None \<or> turns_needed policy (coordinator_state c') < turns_needed policy (Connecting attempt deadline final))"
  using interfered_cases [of t c] assms reduce_over [of "interfered t c" "AttemptFailed now jitter"]
  by (auto simp: recovery_reduce_def recovery_fail_def recovery_schedule_def Let_def recovery_inv_def not_le
      word_less_nat_alt unat_add_one_below split: if_splits)

lemma drive_attempts_ends:
  "recovery_inv policy c \<Longrightarrow> effect_matches (coordinator_state c) effect \<Longrightarrow>
     effect = None \<or> turns_needed policy (coordinator_state c) \<le> length turns \<Longrightarrow>
     \<exists>c' r. drive_attempts c g effect turns = Some (c', r) \<and>
       (\<forall>connection. r = Inr connection \<longrightarrow> tok_generation connection = g \<and> coordinator_state c' = Connected g)"
proof (induction c g effect turns rule: drive_attempts.induct)
  case (7 c g attempt at t turns)
  obtain c' effect where step: "recovery_reduce (interfered t c) (Wake (turn_now t)) = (c', effect)" by fastforce
  obtain final where state: "coordinator_state c = Waiting attempt at final" using 7(3) by auto
  note next_turn = wake_turns [OF 7(2) state step]
  have "recovery_inv policy c'" using recovery_reduce_inv [OF interfered_inv [OF 7(2), of t]] step by (metis fst_conv)
  then show ?case
    using 7(1) [OF _ step [symmetric] refl] 7(4) next_turn state step by (auto simp del: turns_needed.simps)
next
  case (8 c g attempt deadline t turns)
  obtain final where state: "coordinator_state c = Connecting attempt deadline final" using 8(3) by auto
  show ?case
  proof (cases "turn_bootstrap t")
    case (Candidate connection)
    then show ?thesis
      using interfered_cases [of t c] state reduce_over [of "interfered t c" "AttemptSucceeded g"]
      by (auto simp: recovery_reduce_def)
  next
    case BootstrapFailed
    obtain c' effect where step:
      "recovery_reduce (interfered t c) (AttemptFailed (turn_now t) (turn_jitter t)) = (c', effect)" by fastforce
    note next_turn = failure_turns [OF 8(2) state step]
    have "recovery_inv policy c'" using recovery_reduce_inv [OF interfered_inv [OF 8(2), of t]] step by (metis fst_conv)
    then show ?thesis
      using 8(1) [OF _ BootstrapFailed step [symmetric] refl] 8(4) next_turn state step BootstrapFailed
      by (auto simp del: turns_needed.simps)
  qed simp
qed (auto simp: recovery_inv_def)

text \<open>
  C26. Recovery terminates: once \<open>recover\<close> has started on a lost connection, the attempt loop
  returns after at most twice as many environment turns as the policy allows attempts, whatever
  the clock, the jitter, the bootstrap and a concurrent close do; when it returns a connection,
  that connection is of the next generation and the coordinator is connected to it.
\<close>

theorem recovery_loop_returns:
  assumes "recovery_inv policy c"
    and "recover_start lost closed g now c a = (c', a', Inr (next_generation, effect))"
    and "2 * unat (max_attempts policy) \<le> length turns"
  shows "\<exists>c'' r. drive_attempts c' next_generation effect turns = Some (c'', r) \<and>
    (\<forall>connection. r = Inr connection \<longrightarrow>
       tok_generation connection = next_generation \<and> coordinator_state c'' = Connected next_generation)"
proof (rule drive_attempts_ends)
  have state: "coordinator_state c = Connected g" and step: "recovery_reduce c (TransportLost g now) = (c', effect)"
    using assms(2) by (auto simp: recover_start_def Let_def split: if_splits option.splits prod.splits sum.splits)
  show "recovery_inv policy c'" using recovery_reduce_inv [OF assms(1)] step by (metis fst_conv)
  show "effect_matches (coordinator_state c') effect"
    using step state by (auto simp: recovery_reduce_def recovery_schedule_def Let_def split: if_splits)
  show "effect = None \<or> turns_needed policy (coordinator_state c') \<le> length turns"
    using step state assms(1,3)
    by (auto simp: recovery_reduce_def recovery_schedule_def Let_def recovery_inv_def split: if_splits)
qed

abbreviation sample_policy :: recovery_policy where
  "sample_policy \<equiv> policy_disabled\<lparr>max_attempts := 1, attempt_timeout := 5, total_timeout := 100\<rparr>"

abbreviation sample_turn :: "bootstrap_result \<Rightarrow> drive_turn" where
  "sample_turn b \<equiv> \<lparr>turn_closed = False, turn_interference = False, turn_now = 20, turn_jitter = 0, turn_bootstrap = b\<rparr>"

theorem recovery_loop_returns_witness:
  "\<exists>c' a' effect. recover_start True False 7 10 (coordinator_new 7 sample_policy)
       (admissions_new (ObjectToken 7 0 0) sample_policy) = (c', a', Inr (8, effect)) \<and>
     (\<exists>c'' r. drive_attempts c' 8 effect [sample_turn BootstrapFailed, sample_turn BootstrapFailed] = Some (c'', r))"
proof -
  obtain c' a' effect where start: "recover_start True False 7 10 (coordinator_new 7 sample_policy)
      (admissions_new (ObjectToken 7 0 0) sample_policy) = (c', a', Inr (8, effect))"
    by (simp add: recover_start_def generation_checked_next_def checked_add_def coordinator_new_def admissions_new_def
        recovery_reduce_def recovery_schedule_def driver_begin_recovery_def policy_disabled_def Let_def)
  have "2 * unat (max_attempts sample_policy) \<le> length [sample_turn BootstrapFailed, sample_turn BootstrapFailed]"
    by simp
  from start recovery_loop_returns [OF recovery_inv_new start this] show ?thesis by blast
qed

section \<open>Nobody waits for a recovery that is over\<close>

text \<open>While no recovery runs nobody waits; all waits are for the active connection, and exactly
  those in the queue have a completion.\<close>

definition admissions_inv :: "recovery_admissions \<Rightarrow> bool" where
  "admissions_inv a \<longleftrightarrow> queue_inv (wait_queue a) \<and>
     (\<not> recovering a \<longrightarrow> queue_waits (wait_queue a) = []) \<and>
     (\<forall>w \<in> set (queue_waits (wait_queue a)). wait_dependency w = active_connection a) \<and>
     dom (map_of (completions a)) = set (waiting (wait_queue a))"

lemma admissions_inv_new: "admissions_inv (admissions_new connection policy)"
  by (simp add: admissions_inv_def admissions_new_def queue_new_def queue_inv_def)

lemma waiting_distinct: "queue_inv q \<Longrightarrow> distinct (waiting q)"
proof -
  assume "queue_inv q"
  then have "sorted_wrt (<) (map unat (waiting q))"
    by (simp add: queue_inv_def sorted_wrt_map o_def)
  then show ?thesis using strict_sorted_iff distinct_map by blast
qed

lemma complete_waits_result:
  assumes "dom (map_of (completions a)) = set (map outcome_id outcomes)" and "distinct (map outcome_id outcomes)"
  shows "complete_waits a outcomes replacement =
    (a\<lparr>completions := []\<rparr>, map (\<lambda>x. (outcome_id x, wait_result x replacement)) outcomes)"
  using assms
proof (induction outcomes arbitrary: a)
  case Nil
  then have "completions a = []" by simp
  then show ?case by simp
next
  case (Cons x xs)
  let ?a = "a\<lparr>completions := AList.delete (outcome_id x) (completions a)\<rparr>"
  have "map_of (completions a) (outcome_id x) = Some ()" using Cons.prems(1) by (auto simp: dom_def)
  moreover have "dom (map_of (completions ?a)) = set (map outcome_id xs)"
    using Cons.prems by (auto simp: table)
  ultimately show ?case using Cons.IH [of ?a] Cons.prems(2) by (simp add: Let_def)
qed

datatype admissions_command =
    BeginRecoveryOf generation_id
  | ResolveDependency monotonic_time object_token "monotonic_time option"
  | RemoveWait recovery_wait_id
  | EndRecovery "recovery_error + object_token"

fun admissions_step :: "duration \<Rightarrow> recovery_admissions \<Rightarrow> admissions_command \<Rightarrow> recovery_admissions \<times> delivery list" where
  "admissions_step dw a (BeginRecoveryOf g) = (fst (driver_begin_recovery a g), [])"
| "admissions_step dw a (ResolveDependency now t deadline) = (fst (resolve_dependency dw now a t deadline), [])"
| "admissions_step dw a (RemoveWait i) = (driver_remove_wait a i, [])"
| "admissions_step dw a (EndRecovery outcome) = recover_end outcome a"

lemma finish_recovery_result:
  assumes "admissions_inv a"
  shows "driver_finish_recovery a replacement =
    (a\<lparr>active_connection := replacement, recovering := False,
       wait_queue := (wait_queue a)\<lparr>queue_waits := []\<rparr>, completions := []\<rparr>,
     map (\<lambda>i. (i, Inr replacement)) (waiting (wait_queue a)))"
proof -
  let ?ws = "map (redirect (active_connection a) replacement) (queue_waits (wait_queue a))"
  have moved: "wait_dependency w = replacement" if "w \<in> set ?ws" for w
    using that assms by (auto simp: admissions_inv_def redirect_def)
  have ids: "map wait_id ?ws = waiting (wait_queue a)" by (simp add: redirect_def)
  have "queue_release_dependency (queue_publish_replacement (wait_queue a)
      (ReplacementPublished (active_connection a) replacement)) replacement =
    ((wait_queue a)\<lparr>queue_waits := []\<rparr>, map WaitReady (waiting (wait_queue a)))"
    using moved unfolding ids [symmetric]
    by (simp add: queue_release_dependency_def retain_waits_def queue_publish_replacement_def filter_True filter_False)
  then show ?thesis
    using assms waiting_distinct [of "wait_queue a"]
    by (simp add: driver_finish_recovery_def Let_def complete_waits_result admissions_inv_def o_def)
qed

lemma fail_waiters_result:
  assumes "admissions_inv a"
  shows "driver_fail_waiters a =
    (a\<lparr>recovering := False, wait_queue := (wait_queue a)\<lparr>queue_waits := []\<rparr>, completions := []\<rparr>,
     map (\<lambda>i. (i, Inl DriverWaitFailed)) (waiting (wait_queue a)))"
  using assms waiting_distinct [of "wait_queue a"]
  by (simp add: driver_fail_waiters_def queue_fail_all_def complete_waits_result admissions_inv_def o_def)

lemma recover_end_result:
  assumes "admissions_inv a"
  shows "recovering (fst (recover_end outcome a)) = False"
    and "queue_waits (wait_queue (fst (recover_end outcome a))) = []"
    and "completions (fst (recover_end outcome a)) = []"
    and "snd (recover_end outcome a) =
      map (\<lambda>i. (i, case outcome of Inr connection \<Rightarrow> Inr connection | Inl _ \<Rightarrow> Inl DriverWaitFailed))
        (waiting (wait_queue a))"
    and "admissions_inv (fst (recover_end outcome a))"
  using assms
  by (cases outcome; simp add: recover_end_def finish_recovery_result fail_waiters_result admissions_inv_def queue_inv_def)+

lemma resolve_dependency_inv:
  assumes "admissions_inv a"
  shows "admissions_inv (fst (resolve_dependency dw now a t deadline))"
proof -
  have "queue_inv (fst (queue_enqueue (wait_queue a) t d))" for d
    using queue_enqueue_accounts [of "wait_queue a" t d] assms
    by (auto simp: admissions_inv_def accounts_def split_beta split: sum.splits)
  with assms show ?thesis
    by (auto simp: resolve_dependency_def admissions_inv_def Let_def queue_enqueue_def table
        split: option.splits recovery_queue_error.splits if_splits)
qed

lemma remove_first_None: "remove_first P xs = None \<longleftrightarrow> (\<forall>x \<in> set xs. \<not> P x)"
  by (induction xs) auto

lemma remove_wait_inv:
  assumes "admissions_inv a"
  shows "admissions_inv (driver_remove_wait a i)"
proof (cases "remove_first (\<lambda>w. wait_id w = i) (queue_waits (wait_queue a))")
  case None
  have "i \<notin> set (waiting (wait_queue a))"
    using None by (auto simp: remove_first_None)
  with None assms show ?thesis
    by (auto simp: driver_remove_wait_def admissions_inv_def queue_cancel_def table)
next
  case (Some ws)
  obtain as w bs where ws: "queue_waits (wait_queue a) = as @ w # bs" "ws = as @ bs" "wait_id w = i"
    by (rule remove_first_waits [OF Some])
  have "distinct (waiting (wait_queue a))" using assms by (intro waiting_distinct) (simp add: admissions_inv_def)
  moreover have "queue_inv ((wait_queue a)\<lparr>queue_waits := ws\<rparr>)"
    using assms ws by (auto simp: admissions_inv_def queue_inv_def sorted_wrt_append)
  ultimately show ?thesis
    using assms Some ws by (auto simp: driver_remove_wait_def admissions_inv_def queue_cancel_def table)
qed

lemma admissions_step_inv: "admissions_inv a \<Longrightarrow> admissions_inv (fst (admissions_step dw a c))"
proof (cases c)
  case (BeginRecoveryOf g)
  then show "admissions_inv a \<Longrightarrow> ?thesis" by (auto simp: driver_begin_recovery_def admissions_inv_def)
qed (simp_all add: resolve_dependency_inv remove_wait_inv recover_end_result)

interpretation admissions: reducer "admissions_step dw" admissions_inv for dw
  by unfold_locales (rule admissions_step_inv)

text \<open>
  C8. Nobody is left waiting: whatever callers registered, timed out or cancelled during the
  recovery, when it ends each caller still registered is answered exactly once, with the new
  connection on success and a failure otherwise; the recovering flag is cleared and neither the
  queue nor the completions hold anything any more.
\<close>

theorem ended_recovery_answers_every_waiter:
  "let a = fst (run_reducer (admissions_step dw) (admissions_new connection policy) cs);
       (a', ds) = recover_end outcome a
   in recovering a' = False \<and> queue_waits (wait_queue a') = [] \<and> completions a' = [] \<and>
      distinct (map fst ds) \<and> set (map fst ds) = dom (map_of (completions a)) \<and>
      map snd ds = replicate (length ds) (case outcome of Inr c \<Rightarrow> Inr c | Inl _ \<Rightarrow> Inl DriverWaitFailed)"
proof -
  let ?a = "fst (run_reducer (admissions_step dw) (admissions_new connection policy) cs)"
  have inv: "admissions_inv ?a" by (rule admissions.run_inv) (rule admissions_inv_new)
  then have "distinct (waiting (wait_queue ?a))" "dom (map_of (completions ?a)) = set (waiting (wait_queue ?a))"
    by (simp_all add: waiting_distinct admissions_inv_def)
  then show ?thesis
    using recover_end_result [OF inv, of outcome] by (simp add: split_beta Let_def o_def map_replicate_const image_image)
qed

end
