(* ===== verification/Operation.thy ===== *)
theory Operation
  imports Object_Registry
begin

text \<open>
  Typed operations (runtime/operation.rs) over the request contents of smb-msg/plain.rs: which
  responses an operation accepts, how many credits it is charged, and whether recovery may
  replay it. A request content keeps the size fields the charge is computed from; a status is
  its NTSTATUS code, and the codes smb-msg/header.rs knows are listed.
\<close>

section \<open>Commands and request contents\<close>

datatype command =
    CmdNegotiate | CmdSessionSetup | CmdLogoff | CmdTreeConnect | CmdTreeDisconnect | CmdCreate | CmdClose
  | CmdFlush | CmdRead | CmdWrite | CmdLock | CmdIoctl | CmdCancel | CmdEcho | CmdQueryDirectory
  | CmdChangeNotify | CmdQueryInfo | CmdSetInfo | CmdOplockBreak | CmdServerToClientNotification

type_synonym status = u32

definition status_codes :: "status list" where
  "status_codes =
     [0x00000000, 0x00000103, 0x0000010B, 0x0000010C, 0x00010002, 0x00050002, 0x00160002, 0x005B0002,
      0x00FB0002, 0x80000005, 0x80000006, 0x8000002D, 0xC0000002, 0xC0000003, 0xC0000004, 0xC000000D,
      0xC000000E, 0xC0000010, 0xC0000011, 0xC0000016, 0xC0000022, 0xC0000023, 0xC0000033, 0xC0000034,
      0xC0000035, 0xC0000043, 0xC0000056, 0xC000003A, 0xC0000044, 0xC000006A, 0xC000006D, 0xC0000073,
      0xC000007F, 0xC00000A5, 0xC00000B5, 0xC00000BA, 0xC00000BB, 0xC00000C9, 0xC00000CC, 0xC00000D0,
      0xC0000101, 0xC0000120, 0xC0000128, 0xC0000203, 0xC0000466, 0xC0000234, 0xC0000257, 0xC000035C,
      0xC000205A, 0xC0000463]"

definition status_try_from :: "u32 \<Rightarrow> status option" where
  "status_try_from code = (if code \<in> set status_codes then Some code else None)"

abbreviation status_pending :: status where "status_pending \<equiv> 0x00000103"
abbreviation status_user_session_deleted :: status where "status_user_session_deleted \<equiv> 0xC0000203"
abbreviation status_network_session_expired :: status where "status_network_session_expired \<equiv> 0xC000035C"

datatype request_content =
    NegotiateRequest | SessionSetupRequest | LogoffRequest | TreeConnectRequest | TreeDisconnectRequest
  | CreateRequest | CloseRequest | FlushRequest
  | ReadRequest (read_length: u32)
  | WriteRequest (write_length: u32)
  | LockRequest
  | IoctlRequest (buffer_size: u32) (max_input_response: u32) (max_output_response: u32)
  | EchoRequest
  | QueryDirectoryRequest (output_buffer_length: u32)
  | ChangeNotifyRequest | QueryInfoRequest | SetInfoRequest
  | CancelRequestContent | OplockBreakAckRequest | LeaseBreakAckRequest

fun associated_cmd :: "request_content \<Rightarrow> command" where
  "associated_cmd NegotiateRequest = CmdNegotiate"
| "associated_cmd SessionSetupRequest = CmdSessionSetup"
| "associated_cmd LogoffRequest = CmdLogoff"
| "associated_cmd TreeConnectRequest = CmdTreeConnect"
| "associated_cmd TreeDisconnectRequest = CmdTreeDisconnect"
| "associated_cmd CreateRequest = CmdCreate"
| "associated_cmd CloseRequest = CmdClose"
| "associated_cmd FlushRequest = CmdFlush"
| "associated_cmd (ReadRequest _) = CmdRead"
| "associated_cmd (WriteRequest _) = CmdWrite"
| "associated_cmd LockRequest = CmdLock"
| "associated_cmd (IoctlRequest _ _ _) = CmdIoctl"
| "associated_cmd EchoRequest = CmdEcho"
| "associated_cmd (QueryDirectoryRequest _) = CmdQueryDirectory"
| "associated_cmd ChangeNotifyRequest = CmdChangeNotify"
| "associated_cmd QueryInfoRequest = CmdQueryInfo"
| "associated_cmd SetInfoRequest = CmdSetInfo"
| "associated_cmd CancelRequestContent = CmdCancel"
| "associated_cmd OplockBreakAckRequest = CmdOplockBreak"
| "associated_cmd LeaseBreakAckRequest = CmdOplockBreak"

text \<open>The sums of the ioctl sizes are plain \<open>u32\<close> additions: they wrap.\<close>

fun req_payload_size :: "request_content \<Rightarrow> u32" where
  "req_payload_size (WriteRequest len) = len"
| "req_payload_size (IoctlRequest input_size _ max_output) = input_size + max_output"
| "req_payload_size _ = 0"

fun expected_resp_size :: "request_content \<Rightarrow> u32" where
  "expected_resp_size (ReadRequest len) = len"
| "expected_resp_size (QueryDirectoryRequest len) = len"
| "expected_resp_size (IoctlRequest _ max_input max_output) = max_input + max_output"
| "expected_resp_size _ = 0"

section \<open>Operations\<close>

datatype replay_policy = NeverReplay | ReplayIfUncommitted | IdempotentReplay | DurableReconnectOnly

datatype recovery_decision = FailWithoutReplay | Replay | DurableReconnect | DecisionOutcomeUnknown

fun decide :: "replay_policy \<Rightarrow> bool \<Rightarrow> bool \<Rightarrow> recovery_decision" where
  "decide NeverReplay on_wire _ = (if on_wire then DecisionOutcomeUnknown else FailWithoutReplay)"
| "decide ReplayIfUncommitted on_wire _ = (if on_wire then DecisionOutcomeUnknown else Replay)"
| "decide IdempotentReplay _ _ = Replay"
| "decide DurableReconnectOnly on_wire durable_resource =
     (if durable_resource then DurableReconnect
      else if on_wire then DecisionOutcomeUnknown else FailWithoutReplay)"

datatype accepted_statuses = AnyStatus | OneOfStatuses "status list"

record response_policy =
  policy_command :: command
  policy_statuses :: accepted_statuses

datatype operation_error =
    CommandMismatch command command
  | UnexpectedStatus command status
  | EmptyStatusPolicy command
  | CreditChargeOverflow command

definition policy_one_of :: "command \<Rightarrow> status list \<Rightarrow> operation_error + response_policy" where
  "policy_one_of cmd statuses =
     (if statuses = [] then Inl (EmptyStatusPolicy cmd)
      else Inr \<lparr>policy_command = cmd, policy_statuses = OneOfStatuses statuses\<rparr>)"

definition policy_any :: "command \<Rightarrow> response_policy" where
  "policy_any cmd = \<lparr>policy_command = cmd, policy_statuses = AnyStatus\<rparr>"

text \<open>\<open>None\<close> is a code that the status enumeration does not name.\<close>

definition accepts_wire_status :: "response_policy \<Rightarrow> status option \<Rightarrow> bool" where
  "accepts_wire_status p st =
     (case (policy_statuses p, st) of
        (AnyStatus, _) \<Rightarrow> True
      | (OneOfStatuses statuses, Some code) \<Rightarrow> code \<in> set statuses
      | (OneOfStatuses _, None) \<Rightarrow> False)"

record typed_operation =
  op_response :: response_policy
  op_content :: request_content
  op_payload :: "u8 list option"
  op_dependency :: "object_token option"
  op_replay :: replay_policy

definition operation_new ::
  "request_content \<Rightarrow> u8 list option \<Rightarrow> response_policy \<Rightarrow> operation_error + typed_operation" where
  "operation_new content payload response =
     (if associated_cmd content \<noteq> policy_command response
      then Inl (CommandMismatch (policy_command response) (associated_cmd content))
      else Inr \<lparr>op_response = response, op_content = content, op_payload = payload, op_dependency = None,
                op_replay = NeverReplay\<rparr>)"

definition operation_any_status :: "request_content \<Rightarrow> u8 list option \<Rightarrow> typed_operation" where
  "operation_any_status content payload =
     \<lparr>op_response = policy_any (associated_cmd content), op_content = content, op_payload = payload,
      op_dependency = None, op_replay = NeverReplay\<rparr>"

definition with_dependency :: "typed_operation \<Rightarrow> object_token \<Rightarrow> typed_operation" where
  "with_dependency op t = op\<lparr>op_dependency := Some t\<rparr>"

definition with_replay_policy :: "typed_operation \<Rightarrow> replay_policy \<Rightarrow> typed_operation" where
  "with_replay_policy op replay = op\<lparr>op_replay := replay\<rparr>"

definition operation_payload_bytes :: "typed_operation \<Rightarrow> u64" where
  "operation_payload_bytes op = (case op_payload op of None \<Rightarrow> 0 | Some payload \<Rightarrow> of_nat (length payload))"

definition operation_credit_charge :: "typed_operation \<Rightarrow> bool \<Rightarrow> operation_error + u16" where
  "operation_credit_charge op large_mtu =
     (let cmd = policy_command (op_response op) in
      if \<not> large_mtu then Inr 1
      else if cmd \<notin> {CmdRead, CmdWrite, CmdIoctl, CmdQueryDirectory} then Inr 1
      else let request = req_payload_size (op_content op);
               response = expected_resp_size (op_content op);
               units = 1 + (saturating_sub (max request response) 1 div 65536)
           in if unat units < 2 ^ 16 then Inr (ucast units) else Inl (CreditChargeOverflow cmd))"

definition validate_response :: "typed_operation \<Rightarrow> command \<Rightarrow> status \<Rightarrow> operation_error + unit" where
  "validate_response op cmd st =
     (let expected = policy_command (op_response op) in
      if cmd \<noteq> expected then Inl (CommandMismatch expected cmd)
      else if \<not> accepts_wire_status (op_response op) (Some st) then Inl (UnexpectedStatus cmd st)
      else Inr ())"

section \<open>Properties\<close>

lemma unat_max_words: "unat (max a b) = max (unat a) (unat b)"
  by (simp add: max_def word_le_nat_alt)

text \<open>The payload a charged operation moves, as the two sizes of its content give it.\<close>

definition charged_size :: "typed_operation \<Rightarrow> nat" where
  "charged_size op = max (unat (req_payload_size (op_content op))) (unat (expected_resp_size (op_content op)))"

definition charged_command :: "command \<Rightarrow> bool" where
  "charged_command cmd \<longleftrightarrow> cmd \<in> {CmdRead, CmdWrite, CmdIoctl, CmdQueryDirectory}"

lemma charge_units:
  "unat (1 + (saturating_sub (max a b) 1 div 65536) :: u32) = (max (unat a) (unat b) - 1) div 65536 + 1"
proof -
  have div: "unat (saturating_sub (max a b) 1 div 65536 :: u32) = (max (unat a) (unat b) - 1) div 65536"
    by (simp add: unat_div unat_saturating_sub unat_max_words)
  moreover have "(max (unat a) (unat b) - 1) div 65536 < 2 ^ 32 div 65536"
    using unsigned_less [of a, where ?'a = nat] unsigned_less [of b, where ?'a = nat]
    by (intro less_mult_imp_div_less) auto
  ultimately show ?thesis by (subst unat_add_fits) simp_all
qed

text \<open>
  The credit charge is exact: with large MTU a read, write, ioctl or directory query is
  charged the least number of 64 KiB units that covers the larger of the two sizes of its
  content, one at least, and refused exactly when that number does not fit the 16-bit header
  field; every other operation is charged one credit.
\<close>

theorem credit_charge_covers_payload:
  "operation_credit_charge op large_mtu =
     (if large_mtu \<and> charged_command (policy_command (op_response op)) then
        (let units = max 1 ((charged_size op + 65535) div 65536)
         in if units \<le> 65535 then Inr (of_nat units) else Inl (CreditChargeOverflow (policy_command (op_response op))))
      else Inr 1)"
proof -
  let ?u = "1 + (saturating_sub (max (req_payload_size (op_content op)) (expected_resp_size (op_content op))) 1 div 65536) :: u32"
  have "unat ?u = max 1 ((charged_size op + 65535) div 65536)"
    unfolding charge_units charged_size_def by (cases "max (unat (req_payload_size (op_content op)))
      (unat (expected_resp_size (op_content op)))") simp_all
  moreover from this have "ucast ?u = (of_nat (max 1 ((charged_size op + 65535) div 65536)) :: u16)"
    by (metis of_nat_unat)
  ultimately show ?thesis
    by (simp add: operation_credit_charge_def charged_command_def Let_def less_Suc_eq_le [symmetric])
qed

text \<open>The ioctl sizes wrap: a request that announces 4 GiB both ways is charged one credit.\<close>

lemma ioctl_charge_wraps:
  "operation_credit_charge (operation_any_status (IoctlRequest 1 1 0xFFFFFFFF) None) True = Inr 1"
  by (simp add: operation_credit_charge_def operation_any_status_def policy_any_def saturating_sub_def word_le_nat_alt)

end
