(* ===== verification/Preparation_Order.thy ===== *)
theory Preparation_Order
  imports Prelude
begin

text \<open>
  The completion queue that puts concurrently prepared requests back into order
  (runtime/preparation_order.rs). A broken assertion of the code is the value \<open>None\<close>.
\<close>

section \<open>Operations\<close>

record ('k, 'v) completion_queue =
  order :: "'k list"
  reserved :: "'k set"
  completed :: "('k, 'v) table"

definition completion_queue_new :: "('k, 'v) completion_queue" where
  "completion_queue_new = \<lparr>order = [], reserved = {}, completed = []\<rparr>"

definition reserve :: "('k, 'v) completion_queue \<Rightarrow> 'k \<Rightarrow> ('k, 'v) completion_queue option" where
  "reserve q key =
     (if key \<in> reserved q then None
      else Some (q\<lparr>reserved := insert key (reserved q), order := order q @ [key]\<rparr>))"

text \<open>The loop that takes what is ready off the front, over the remaining order.\<close>

fun emit_ready :: "'k list \<Rightarrow> 'k set \<Rightarrow> ('k, 'v) table \<Rightarrow> ('k, 'v) completion_queue \<times> 'v list" where
  "emit_ready [] rs cs = (\<lparr>order = [], reserved = rs, completed = cs\<rparr>, [])"
| "emit_ready (key # keys) rs cs =
     (case map_of cs key of
        None \<Rightarrow> (\<lparr>order = key # keys, reserved = rs, completed = cs\<rparr>, [])
      | Some value \<Rightarrow>
          let (q, ready) = emit_ready keys (rs - {key}) (AList.delete key cs) in (q, value # ready))"

definition complete ::
  "('k, 'v) completion_queue \<Rightarrow> 'k \<Rightarrow> 'v \<Rightarrow> (('k, 'v) completion_queue \<times> 'v list) option" where
  "complete q key value =
     (if key \<notin> reserved q then None
      else if map_of (completed q) key \<noteq> None then None
      else Some (emit_ready (order q) (reserved q) (AList.update key value (completed q))))"

section \<open>Runs\<close>

datatype ('k, 'v) order_step = Reserve 'k | CompleteKey 'k 'v

fun order_run :: "('k, 'v) completion_queue \<Rightarrow> ('k, 'v) order_step list \<Rightarrow>
    (('k, 'v) completion_queue \<times> 'v list) option" where
  "order_run q [] = Some (q, [])"
| "order_run q (Reserve key # steps) =
     (case reserve q key of None \<Rightarrow> None | Some q' \<Rightarrow> order_run q' steps)"
| "order_run q (CompleteKey key value # steps) =
     (case complete q key value of
        None \<Rightarrow> None
      | Some (q', ready) \<Rightarrow> map_option (\<lambda>(q'', ready'). (q'', ready @ ready')) (order_run q' steps))"

fun reservations :: "('k, 'v) order_step list \<Rightarrow> 'k list" where
  "reservations [] = []"
| "reservations (Reserve key # steps) = key # reservations steps"
| "reservations (CompleteKey _ _ # steps) = reservations steps"

fun completions_of :: "('k, 'v) order_step list \<Rightarrow> 'k \<Rightarrow> 'v option" where
  "completions_of [] = Map.empty"
| "completions_of (Reserve _ # steps) = completions_of steps"
| "completions_of (CompleteKey key value # steps) = (\<lambda>k. if k = key then Some value else completions_of steps k)"

section \<open>Invariant\<close>

text \<open>The order lists the reserved keys once each, only they are completed, and the front is not.\<close>

definition order_inv :: "('k, 'v) completion_queue \<Rightarrow> bool" where
  "order_inv q \<longleftrightarrow> distinct (order q) \<and> set (order q) = reserved q \<and>
     dom (map_of (completed q)) \<subseteq> reserved q \<and>
     (order q \<noteq> [] \<longrightarrow> map_of (completed q) (hd (order q)) = None)"

lemma order_inv_new: "order_inv completion_queue_new"
  by (simp add: order_inv_def completion_queue_new_def)

lemma reserve_inv:
  assumes "order_inv q" and "reserve q key = Some q'"
  shows "order_inv q'" and "order q' = order q @ [key]" and "completed q' = completed q"
  using assms by (auto simp: reserve_def order_inv_def hd_append subset_iff domIff split: if_splits)

text \<open>What is emitted is the longest completed prefix of the order.\<close>

lemma emit_ready_prefix:
  assumes "distinct keys" and "set keys = rs" and "dom (map_of cs) \<subseteq> rs"
  shows "\<exists>n. n \<le> length keys \<and>
    snd (emit_ready keys rs cs) = map (the \<circ> map_of cs) (take n keys) \<and>
    list_all (\<lambda>k. map_of cs k \<noteq> None) (take n keys) \<and>
    order (fst (emit_ready keys rs cs)) = drop n keys \<and>
    map_of (completed (fst (emit_ready keys rs cs))) = (map_of cs) |` (- set (take n keys)) \<and>
    order_inv (fst (emit_ready keys rs cs))"
  using assms
proof (induction keys arbitrary: rs cs)
  case Nil
  then show ?case by (simp add: order_inv_def)
next
  case (Cons key keys)
  show ?case
  proof (cases "map_of cs key")
    case None
    with Cons.prems show ?thesis by (intro exI [of _ 0]) (auto simp: order_inv_def)
  next
    case (Some v)
    let ?cs = "AList.delete key cs"
    have same: "map_of ?cs k = map_of cs k" if "k \<in> set keys" for k
      using Cons.prems(1) that by (auto simp: table)
    have "dom (map_of ?cs) \<subseteq> rs - {key}" and "set keys = rs - {key}"
      using Cons.prems by (auto simp: table)
    then obtain n where n: "n \<le> length keys"
      "snd (emit_ready keys (rs - {key}) ?cs) = map (the \<circ> map_of ?cs) (take n keys)"
      "list_all (\<lambda>k. map_of ?cs k \<noteq> None) (take n keys)"
      "order (fst (emit_ready keys (rs - {key}) ?cs)) = drop n keys"
      "map_of (completed (fst (emit_ready keys (rs - {key}) ?cs))) = (map_of ?cs) |` (- set (take n keys))"
      "order_inv (fst (emit_ready keys (rs - {key}) ?cs))"
      using Cons.IH [of "rs - {key}" ?cs] Cons.prems(1) by auto
    have kept: "k \<in> set (take n keys) \<Longrightarrow> map_of ?cs k = map_of cs k" for k
      using same by (meson in_set_takeD)
    have "map_of ?cs |` (- set (take n keys)) = map_of cs |` (- set (take (Suc n) (key # keys)))"
      by (auto simp: table restrict_map_def fun_eq_iff)
    with n Some kept show ?thesis
      by (intro exI [of _ "Suc n"]) (auto simp: split_beta list_all_iff)
  qed
qed

lemma complete_inv:
  assumes inv: "order_inv q" and step: "complete q key v = Some (q', ready)"
  shows "map_of (completed q) key = None" and
    "\<exists>n. n \<le> length (order q) \<and>
      ready = map (\<lambda>k. the (((map_of (completed q))(key \<mapsto> v)) k)) (take n (order q)) \<and>
      (\<forall>k \<in> set (take n (order q)). ((map_of (completed q))(key \<mapsto> v)) k \<noteq> None) \<and>
      order q' = drop n (order q) \<and>
      map_of (completed q') = ((map_of (completed q))(key \<mapsto> v)) |` (- set (take n (order q))) \<and> order_inv q'"
proof -
  let ?cs = "AList.update key v (completed q)"
  have q': "emit_ready (order q) (reserved q) ?cs = (q', ready)" and key: "key \<in> reserved q"
    using step by (auto simp: complete_def split: if_splits)
  have "distinct (order q)" "set (order q) = reserved q" "dom (map_of ?cs) \<subseteq> reserved q"
    using inv key by (auto simp: order_inv_def table)
  from emit_ready_prefix [OF this] show "\<exists>n. n \<le> length (order q) \<and>
      ready = map (\<lambda>k. the (((map_of (completed q))(key \<mapsto> v)) k)) (take n (order q)) \<and>
      (\<forall>k \<in> set (take n (order q)). ((map_of (completed q))(key \<mapsto> v)) k \<noteq> None) \<and>
      order q' = drop n (order q) \<and>
      map_of (completed q') = ((map_of (completed q))(key \<mapsto> v)) |` (- set (take n (order q))) \<and> order_inv q'"
    unfolding q' table by (auto simp: list_all_iff o_def)
  show "map_of (completed q) key = None" using step by (auto simp: complete_def split: if_splits)
qed

text \<open>The value a key is completed with, in the queue or by a later step.\<close>

definition final_value :: "('k, 'v) completion_queue \<Rightarrow> ('k, 'v) order_step list \<Rightarrow> 'k \<Rightarrow> 'v option" where
  "final_value q steps k = (case map_of (completed q) k of None \<Rightarrow> completions_of steps k | Some v \<Rightarrow> Some v)"

text \<open>What a run leaves: the values of a prefix of the keys are out, the rest is still in order.\<close>

lemma order_run_prefix:
  assumes "order_inv q" and "order_run q steps = Some (q', out)" and "distinct (order q @ reservations steps)"
  shows "\<exists>n. out = map (the \<circ> final_value q steps) (take n (order q @ reservations steps)) \<and>
    order q' = drop n (order q @ reservations steps) \<and> order_inv q'"
  using assms
proof (induction q steps arbitrary: out rule: order_run.induct)
  case (1 q)
  then show ?case by (intro exI [of _ 0]) simp
next
  case (2 q key steps)
  then obtain q1 where q1: "reserve q key = Some q1" "order_run q1 steps = Some (q', out)"
    by (auto split: option.splits)
  note step = reserve_inv [OF 2(2) q1(1)]
  have "final_value q1 steps = final_value q (Reserve key # steps)"
    by (simp add: final_value_def fun_eq_iff step(3) split: option.split)
  with 2(1) [OF q1(1) step(1) q1(2)] 2(4) step(2) show ?case by simp
next
  case (3 q key v steps)
  then obtain q1 ready out' where q1: "complete q key v = Some (q1, ready)" "order_run q1 steps = Some (q', out')"
    "out = ready @ out'" by (auto split: option.splits)
  note absent = complete_inv(1) [OF 3(2) q1(1)]
  from complete_inv(2) [OF 3(2) q1(1)] obtain n where n: "n \<le> length (order q)"
    "ready = map (\<lambda>k. the (((map_of (completed q))(key \<mapsto> v)) k)) (take n (order q))"
    "\<And>k. k \<in> set (take n (order q)) \<Longrightarrow> ((map_of (completed q))(key \<mapsto> v)) k \<noteq> None"
    "order q1 = drop n (order q)"
    "map_of (completed q1) = ((map_of (completed q))(key \<mapsto> v)) |` (- set (take n (order q)))" "order_inv q1" by blast
  let ?keys = "order q @ reservations steps" and ?rest = "drop n (order q) @ reservations steps"
  have keys: "?keys = take n (order q) @ ?rest" by simp
  have d: "distinct (take n (order q) @ ?rest)" using 3(4) by (simp only: keys [symmetric] reservations.simps)
  then have "distinct ?rest" by simp
  then have "distinct (order q1 @ reservations steps)" unfolding n(4) .
  from 3(1) [OF q1(1) refl n(6) q1(2) this] obtain m where
    m: "out' = map (the \<circ> final_value q1 steps) (take m ?rest)" "order q' = drop m ?rest" "order_inv q'"
    unfolding n(4) by blast
  have first: "((map_of (completed q))(key \<mapsto> v)) k = final_value q (CompleteKey key v # steps) k"
    if "k \<in> set (take n (order q))" for k
    using n(3) [OF that] absent by (auto simp: final_value_def split: if_splits)
  have second: "final_value q1 steps k = final_value q (CompleteKey key v # steps) k" if "k \<in> set ?rest" for k
  proof -
    have "k \<notin> set (take n (order q))" using d that by auto
    then show ?thesis using n(5) absent by (auto simp: final_value_def split: option.split)
  qed
  have "take (n + m) ?keys = take n (order q) @ take m ?rest" "drop (n + m) ?keys = drop m ?rest"
    using n(1) by (subst keys, simp add: min_def add.commute)+
  moreover have "out = map (the \<circ> final_value q (CompleteKey key v # steps)) (take n (order q) @ take m ?rest)"
    unfolding q1(3) n(2) m(1) using first second by (auto dest: in_set_takeD)
  ultimately show ?case using m by (intro exI [of _ "n + m"]) simp
qed

text \<open>
  C27. Order is restored: however the preparations complete, what comes out is, in the order of
  reservation, the value each key was completed with, for a prefix of the reserved keys; the
  remaining keys are still queued in that order, and the first of them has not completed, so
  nothing that could be released is held back.
\<close>

theorem preparations_leave_in_reservation_order:
  assumes "order_run completion_queue_new steps = Some (q, out)" and "distinct (reservations steps)"
  shows "\<exists>n. out = map (the \<circ> completions_of steps) (take n (reservations steps)) \<and>
    order q = drop n (reservations steps) \<and>
    (order q \<noteq> [] \<longrightarrow> map_of (completed q) (hd (order q)) = None)"
proof -
  have "final_value completion_queue_new steps = completions_of steps"
    by (simp add: final_value_def completion_queue_new_def fun_eq_iff)
  with order_run_prefix [OF order_inv_new assms(1)] assms(2) show ?thesis
    by (auto simp: completion_queue_new_def order_inv_def)
qed

abbreviation sample_steps :: "(nat, string) order_step list" where
  "sample_steps \<equiv> [Reserve 1, Reserve 2, CompleteKey 2 ''b'', CompleteKey 1 ''a'']"

theorem preparations_leave_in_reservation_order_witness:
  "\<exists>q. order_run completion_queue_new sample_steps = Some (q, [''a'', ''b'']) \<and>
    (\<exists>n. [''a'', ''b''] = map (the \<circ> completions_of sample_steps) (take n (reservations sample_steps)))"
proof -
  obtain q where run: "order_run completion_queue_new sample_steps = Some (q, [''a'', ''b''])"
    by (simp add: completion_queue_new_def reserve_def complete_def)
  have "distinct (reservations sample_steps)" by simp
  from preparations_leave_in_reservation_order [OF run this] obtain n where
    "[''a'', ''b''] = map (the \<circ> completions_of sample_steps) (take n (reservations sample_steps))" by (elim exE conjE)
  with run show ?thesis by (intro exI conjI)
qed

end
