(* ===== verification/Engine_State.thy ===== *)
theory Engine_State
  imports Generation_Callers Object_Revocation Operation Preparation_Order
begin

text \<open>
  The owner task of a connection generation (runtime/engine.rs): its tables, the queue of
  frames, and how the effects of the request owner (\<open>Generation_State\<close>) become answers on the
  callers' channels. A channel is the fact that a sender is held; sending on it is an output.
  Results of code outside the owner (a prepared frame, a decoded message, the progress of a
  write, a lane that is full) come with the event that carries them.
\<close>

section \<open>Data\<close>

text \<open>A decoded message, with the header fields and the facts about its content and form that
  the owner reads.\<close>

record command_response =
  resp_message_id :: u64
  resp_status :: u32
  resp_command :: command
  resp_async_id :: "u64 option"
  resp_credits :: u16
  resp_is_error :: bool
  resp_recovery_hint :: bool
  resp_raw :: "u8 list"

datatype runtime_error =
    ErrClosed
  | ErrOwnerTerminated
  | ErrAdmissionBackpressure
  | ErrControlBackpressure
  | ErrAdmission admission_error
  | ErrTransport string
  | ErrNetwork network_failure
  | ErrEventBackpressure
  | ErrWire string
  | ErrTerminal terminal_outcome
  | ErrUnknownRequest request_key
  | ErrAlreadyAwaited request_key
  | ErrObject object_error

record operation_result =
  result_key :: request_key
  result_response :: command_response
  result_request_raw :: "u8 list option"

type_synonym operation_answer = "runtime_error + operation_result"

record operation_submission =
  sub_key :: request_key
  sub_request_raw :: "u8 list option"

record operation_pending =
  pend_response :: response_policy
  pend_replay :: replay_policy
  pend_request_raw :: "u8 list option"
  pend_terminal :: bool
  pend_buffered :: "operation_answer option"
  pend_draining :: bool
  pend_caller_completed :: bool

type_synonym send_frame = "u8 list list"

record write_command =
  wc_key :: request_key
  wc_members :: "request_key list"
  wc_frame :: send_frame
  wc_cancelled :: bool

record operation_admission =
  adm_operation :: typed_operation
  adm_deadline :: "monotonic_time option"
  adm_terminal :: bool

record compound_admission =
  com_operations :: "typed_operation list"
  com_deadline :: "monotonic_time option"

record prepared_operation =
  prep_key :: request_key
  prep_result :: "send_frame option"
  prep_retain_raw :: bool

datatype pump_name = PumpRead | PumpWrite

datatype runtime_event =
    InboundFrame usize
  | WriteProgressed request_key usize
  | WriteCompleted request_key
  | PumpFailed pump_name string
  | PumpExited pump_name

text \<open>What the owner sends: on the channel of an operation, on an acknowledgement channel, on the
  channel of a raw request, to the writer, and on the event and notification lanes.\<close>

datatype engine_output =
    Deliver request_key operation_answer
  | RefuseOperation runtime_error
  | RefuseAwait request_key runtime_error
  | Acknowledge "runtime_error + operation_submission"
  | AcknowledgeCompound "runtime_error + operation_submission list"
  | AcknowledgeRaw "runtime_error + request_key"
  | TerminalSent request_key "runtime_error + terminal_outcome"
  | RefuseRaw runtime_error
  | PrepareFrame preparation_plan bool
  | CancelPreparation request_key
  | CancelFrame request_key
  | StartWrite request_key send_frame bool
  | Notify command_response
  | Emit runtime_event
  | ObjectReply "runtime_error + object_token"
  | CountReply nat
  | UnitReply "runtime_error + unit"

record authority =
  auth_state :: generation_state
  auth_objects :: object_registry
  terminals :: "request_key list"
  pending :: "(request_key, operation_pending) table"
  early_responses :: "(request_key, command_response) table"
  frame_members :: "(request_key, request_key list) table"
  frame_cancellations :: "(request_key, bool) table"
  preparation_cancellations :: "request_key list"
  deferred_cancellations :: "(request_key, monotonic_time) table"
  auth_notifications :: bool
  auth_large_mtu :: bool
  auth_target_credits :: u32

type_synonym pending_table = "(request_key, operation_pending) table"

abbreviation operation_limit :: "generation_state \<Rightarrow> usize" where
  "operation_limit s \<equiv> max_operations (limits s)"

section \<open>Answers\<close>

definition complete_operation ::
  "pending_table \<Rightarrow> request_key \<Rightarrow> operation_answer \<Rightarrow> pending_table \<times> engine_output list" where
  "complete_operation p key answer =
     (case map_of p key of
        None \<Rightarrow> (p, [])
      | Some entry \<Rightarrow>
          let (entry', answer') =
                (case answer of
                   Inr done \<Rightarrow>
                     if result_request_raw done = None
                     then (entry\<lparr>pend_request_raw := None\<rparr>,
                           Inr (done\<lparr>result_request_raw := pend_request_raw entry\<rparr>))
                     else (entry, answer)
                 | Inl _ \<Rightarrow> (entry, answer))
          in if pend_terminal entry' then (AList.delete key p, [Deliver key answer'])
             else (AList.update key (entry'\<lparr>pend_buffered := Some answer'\<rparr>) (AList.delete key p), []))"

fun cancel_rolled_back_preparations ::
  "owner_effect list \<Rightarrow> request_key list \<Rightarrow> request_key list \<times> engine_output list" where
  "cancel_rolled_back_preparations [] ps = (ps, [])"
| "cancel_rolled_back_preparations (ReservationRolledBack key # effects) ps =
     (if key \<in> set ps then
        (let (ps', out) = cancel_rolled_back_preparations effects (removeAll key ps)
         in (ps', CancelPreparation key # out))
      else cancel_rolled_back_preparations effects ps)"
| "cancel_rolled_back_preparations (_ # effects) ps = cancel_rolled_back_preparations effects ps"

fun mark_draining :: "owner_effect list \<Rightarrow> pending_table \<Rightarrow> pending_table" where
  "mark_draining [] p = p"
| "mark_draining (BestEffortWireCancel key # effects) p =
     mark_draining effects
       (case map_of p key of
          None \<Rightarrow> p
        | Some entry \<Rightarrow> AList.update key (entry\<lparr>pend_draining := True, pend_request_raw := None\<rparr>) p)"
| "mark_draining (_ # effects) p = mark_draining effects p"

text \<open>One iteration of the second loop of \<open>apply_operation_effects\<close>: a published outcome other
  than a response.\<close>

definition publish_failure ::
  "request_key \<Rightarrow> terminal_outcome \<Rightarrow> pending_table \<Rightarrow> pending_table \<times> engine_output list" where
  "publish_failure key outcome p =
     (case map_of p key of
        Some entry \<Rightarrow>
          if pend_draining entry then
            (if pend_terminal entry
             then (AList.update key (entry\<lparr>pend_terminal := False, pend_caller_completed := True\<rparr>) p,
                   [Deliver key (Inl (ErrTerminal outcome))])
             else (AList.update key (entry\<lparr>pend_buffered := Some (Inl (ErrTerminal outcome))\<rparr>) p, []))
          else complete_operation p key (Inl (ErrTerminal outcome))
      | None \<Rightarrow> complete_operation p key (Inl (ErrTerminal outcome)))"

fun publish_failures :: "owner_effect list \<Rightarrow> pending_table \<Rightarrow> pending_table \<times> engine_output list" where
  "publish_failures [] p = (p, [])"
| "publish_failures (RequestEffect key (Publish outcome) # effects) p =
     (if outcome \<noteq> Response then
        (let (p1, out) = publish_failure key outcome p; (p2, out') = publish_failures effects p1
         in (p2, out @ out'))
      else publish_failures effects p)"
| "publish_failures (_ # effects) p = publish_failures effects p"

definition apply_operation_effects :: "authority \<Rightarrow> owner_effect list \<Rightarrow> authority \<times> engine_output list" where
  "apply_operation_effects a effects =
     (let (preparations, out) = cancel_rolled_back_preparations effects (preparation_cancellations a);
          (p, out') = publish_failures effects (mark_draining effects (pending a))
      in (a\<lparr>preparation_cancellations := preparations, pending := p\<rparr>, out @ out'))"

fun publish_raw :: "owner_effect list \<Rightarrow> request_key list \<Rightarrow> request_key list \<times> engine_output list" where
  "publish_raw [] ts = (ts, [])"
| "publish_raw (RequestEffect key (Publish outcome) # effects) ts =
     (if key \<in> set ts then
        (let (ts', out) = publish_raw effects (removeAll key ts) in (ts', TerminalSent key (Inr outcome) # out))
      else publish_raw effects ts)"
| "publish_raw (_ # effects) ts = publish_raw effects ts"

definition apply_owner_effects :: "authority \<Rightarrow> owner_effect list \<Rightarrow> authority \<times> engine_output list" where
  "apply_owner_effects a effects =
     (let (ts, out) = publish_raw effects (terminals a) in (a\<lparr>terminals := ts\<rparr>, out))"

text \<open>The sequence that follows every cancellation, every expired deadline and the disconnect:
  reduce, then apply the effects to the operations and to the raw requests.\<close>

definition reduce_and_apply :: "authority \<Rightarrow> owner_event \<Rightarrow> authority \<times> engine_output list" where
  "reduce_and_apply a event =
     (let (st, effects) = generation_reduce (auth_state a) event;
          (a1, out) = apply_operation_effects (a\<lparr>auth_state := st\<rparr>) effects;
          (a2, out') = apply_owner_effects a1 effects
      in (a2, out @ out'))"

definition reduce_state :: "authority \<Rightarrow> owner_event \<Rightarrow> authority" where
  "reduce_state a event = a\<lparr>auth_state := fst (generation_reduce (auth_state a) event)\<rparr>"

end
