(* ===== verification/Engine_Admission.thy ===== *)
theory Engine_Admission
  imports Engine_State
begin

text \<open>
  Responses and admissions of the owner task (runtime/engine.rs): a decoded response against the
  operation it answers, the admission of one operation, of a compound chain and of a raw
  request, and the end of a frame preparation. \<open>None\<close> as the result of an admission is a call
  that does not return (the ancestor walk of the object registry) or a broken assertion of the
  preparation queue.
\<close>

section \<open>Responses\<close>

definition response_status_is_admissible :: "response_policy \<Rightarrow> status option \<Rightarrow> bool \<Rightarrow> bool" where
  "response_status_is_admissible policy st is_server_error \<longleftrightarrow>
     accepts_wire_status policy st \<or> is_server_error"

fun publishes_response_to :: "request_key \<Rightarrow> owner_effect \<Rightarrow> bool" where
  "publishes_response_to key (RequestEffect found (Publish Response)) = (found = key)"
| "publishes_response_to key _ = False"

definition process_decoded_response ::
  "command_response \<Rightarrow> authority \<Rightarrow> runtime_error option \<Rightarrow>
     authority \<times> runtime_error option \<times> engine_output list" where
  "process_decoded_response m a fatal =
     (let key = RequestKey (generation (auth_state a)) (resp_message_id m);
          st = status_try_from (resp_status m)
      in case map_of (pending a) key of
        None \<Rightarrow> (a, Some (ErrWire ''response-without-operation''), [])
      | Some entry \<Rightarrow>
          if st = Some status_pending then
            (case resp_async_id m of
               None \<Rightarrow> (a, Some (ErrWire ''pending-without-async-id''), [])
             | Some async_id \<Rightarrow>
                 (reduce_state a (ResponseArrived key (PendingResponse async_id) (resp_credits m)), fatal, []))
          else
            let session_invalidated =
                  st = Some status_user_session_deleted \<or> st = Some status_network_session_expired
            in if resp_recovery_hint m \<and> \<not> session_invalidated
               then (a, Some (ErrWire ''invalid-recovery-hint''), [])
            else if resp_recovery_hint m then
              (let (g, effects) = generation_reduce (auth_state a) (RecoveryHint key);
                   (a1, out) = apply_owner_effects (a\<lparr>auth_state := g\<rparr>) effects;
                   (p, out') = complete_operation (pending a1) key (Inl (ErrTerminal SessionInvalidated))
               in (a1\<lparr>pending := p\<rparr>, fatal, out @ out'))
            else
              let accepted = pend_draining entry \<or>
                    response_status_is_admissible (pend_response entry) st (resp_is_error m)
              in if resp_command m \<noteq> policy_command (pend_response entry) \<or>
                    (\<not> session_invalidated \<and> \<not> accepted)
                 then (a, Some (ErrWire ''operation-response-contract''), [])
              else
                let (g, effects) = generation_reduce (auth_state a)
                      (ResponseArrived key LastResponse (resp_credits m));
                    (a1, out) = apply_owner_effects (a\<lparr>auth_state := g\<rparr>) effects
                in if list_ex (publishes_response_to key) effects then
                     (let (p, out') = complete_operation (pending a1) key
                            (Inr \<lparr>result_key = key, result_response = m, result_request_raw = None\<rparr>)
                      in (a1\<lparr>pending := p\<rparr>, fatal, out @ out'))
                   else if (case map_of (pending a1) key of None \<Rightarrow> False | Some e \<Rightarrow> pend_draining e)
                     then (a1\<lparr>pending := AList.delete key (pending a1)\<rparr>, fatal, out)
                   else (a1, fatal, out))"

definition take_early_response ::
  "request_key \<Rightarrow> authority \<Rightarrow> runtime_error option \<Rightarrow>
     authority \<times> runtime_error option \<times> engine_output list" where
  "take_early_response key a fatal =
     (case map_of (early_responses a) key of
        None \<Rightarrow> (a, fatal, [])
      | Some m \<Rightarrow>
          process_decoded_response m (a\<lparr>early_responses := AList.delete key (early_responses a)\<rparr>) fatal)"

section \<open>The owner's state\<close>

record engine =
  eng_auth :: authority
  send_queue :: "write_command list"
  active_write :: "request_key option"
  eng_fatal :: "runtime_error option"
  preparations :: "(request_key \<times> bool) list"
  preparation_order :: "(request_key, prepared_operation) completion_queue"
  waiting_operation :: "operation_admission option"
  waiting_compound :: "compound_admission option"
  close_request :: "monotonic_time option"
  shutdown_reason :: "runtime_error option"
  running :: bool

type_synonym engine_result = "(engine \<times> engine_output list) option"

definition new_pending :: "typed_operation \<Rightarrow> u8 list option \<Rightarrow> bool \<Rightarrow> operation_pending" where
  "new_pending op raw terminal =
     \<lparr>pend_response = op_response op, pend_replay = op_replay op, pend_request_raw = raw,
      pend_terminal = terminal, pend_buffered = None, pend_draining = False, pend_caller_completed = False\<rparr>"

definition insert_pending :: "request_key \<Rightarrow> operation_pending \<Rightarrow> authority \<Rightarrow> authority" where
  "insert_pending key entry a = a\<lparr>pending := AList.update key entry (pending a)\<rparr>"

definition first_segment :: "bool \<Rightarrow> send_frame \<Rightarrow> u8 list option" where
  "first_segment retain_raw frame =
     (if retain_raw then (case frame of [] \<Rightarrow> None | segment # _ \<Rightarrow> Some segment) else None)"

definition push_frame :: "request_key list \<Rightarrow> send_frame \<Rightarrow> engine \<Rightarrow> engine" where
  "push_frame keys frame s =
     s\<lparr>send_queue := send_queue s @
        [\<lparr>wc_key = hd keys, wc_members = keys, wc_frame = frame, wc_cancelled = False\<rparr>]\<rparr>"

definition with_early_response :: "request_key \<Rightarrow> engine \<Rightarrow> engine \<times> engine_output list" where
  "with_early_response key s =
     (let (a, fatal, out) = take_early_response key (eng_auth s) (eng_fatal s)
      in (s\<lparr>eng_auth := a, eng_fatal := fatal\<rparr>, out))"

section \<open>Admission of an operation\<close>

definition refuse_operation :: "operation_admission \<Rightarrow> runtime_error \<Rightarrow> engine_output list" where
  "refuse_operation c e =
     (if adm_terminal c then [RefuseOperation e] else []) @ [Acknowledge (Inl e)]"

text \<open>What the wire pipeline does with the operation: prepare the frame at once, or leave the
  preparation to a concurrent task.\<close>

datatype wire_decision = PreparedNow "send_frame option" | PreparedLater

definition admitted_operation ::
  "operation_admission \<Rightarrow> preparation_plan \<Rightarrow> bool \<Rightarrow> wire_decision \<Rightarrow> engine \<Rightarrow> engine_result" where
  "admitted_operation c plan retain_raw decision s =
     (let key = plan_key plan; op = adm_operation c in
      case decision of
        PreparedNow None \<Rightarrow>
          Some (s\<lparr>eng_auth := reduce_state (eng_auth s) (PrepareFailed key)\<rparr>,
                (if adm_terminal c then [Deliver key (Inl (ErrWire ''prepare-outgoing''))] else []) @
                [Acknowledge (Inl (ErrWire ''prepare-outgoing''))])
      | PreparedNow (Some frame) \<Rightarrow>
          (let raw = first_segment retain_raw frame;
               s1 = push_frame [key] frame
                      (s\<lparr>eng_auth := insert_pending key (new_pending op raw (adm_terminal c)) (eng_auth s)\<rparr>);
               (s2, out) = with_early_response key s1
           in Some (s2, Acknowledge (Inr \<lparr>sub_key = key, sub_request_raw = raw\<rparr>) # out))
      | PreparedLater \<Rightarrow>
          (let a = insert_pending key (new_pending op None (adm_terminal c)) (eng_auth s)
           in case reserve (preparation_order s) key of
                None \<Rightarrow> None
              | Some queue \<Rightarrow>
                  Some (s\<lparr>eng_auth := a\<lparr>preparation_cancellations := List.insert key (preparation_cancellations a)\<rparr>,
                          preparation_order := queue,
                          preparations := preparations s @ [(key, retain_raw)]\<rparr>, [])))"

definition process_operation_admission ::
  "operation_admission \<Rightarrow> bool \<Rightarrow> bool \<Rightarrow> wire_decision \<Rightarrow> engine \<Rightarrow> engine_result" where
  "process_operation_admission c cmac_batch_eligible retain_raw decision s =
     (let a = eng_auth s; refuse = (\<lambda>e. Some (s, refuse_operation c e)) in
      case (case op_dependency (adm_operation c) of
              None \<Rightarrow> Some (Inr ()) | Some dependency \<Rightarrow> validate_active (auth_objects a) dependency) of
        None \<Rightarrow> None
      | Some (Inl e) \<Rightarrow> refuse (ErrObject e)
      | Some (Inr _) \<Rightarrow>
          if unat (operation_limit (auth_state a)) \<le> length (pending a)
          then refuse (ErrAdmission OperationsExhausted)
          else (case operation_credit_charge (adm_operation c) (auth_large_mtu a) of
             Inl _ \<Rightarrow> refuse (ErrWire ''credit-charge'')
           | Inr charge \<Rightarrow>
               if available_credits (auth_state a) < u16_to_u32 charge
               then Some (s\<lparr>waiting_operation := Some c\<rparr>, [])
               else
                 let (g, effect) = admit (auth_state a) (operation_payload_bytes (adm_operation c)) charge (adm_deadline c)
                 in case effect of
                      Admitted plan \<Rightarrow>
                        map_option (\<lambda>(s', out). (s', PrepareFrame plan cmac_batch_eligible # out))
                          (admitted_operation c plan retain_raw decision (s\<lparr>eng_auth := a\<lparr>auth_state := g\<rparr>\<rparr>))
                    | AdmissionRejected e \<Rightarrow> Some (s\<lparr>eng_auth := a\<lparr>auth_state := g\<rparr>\<rparr>, refuse_operation c (ErrAdmission e))
                    | _ \<Rightarrow> Some (s\<lparr>eng_auth := a\<lparr>auth_state := g\<rparr>\<rparr>, refuse_operation c ErrOwnerTerminated)))"

section \<open>The end of a preparation\<close>

definition finish_prepared_operation :: "prepared_operation \<Rightarrow> engine \<Rightarrow> engine \<times> engine_output list" where
  "finish_prepared_operation prepared s =
     (let key = prep_key prepared;
          a = (eng_auth s)\<lparr>preparation_cancellations := removeAll key (preparation_cancellations (eng_auth s))\<rparr>;
          forget = a\<lparr>pending := AList.delete key (pending a)\<rparr>
      in case get_request (auth_state a) key of
        None \<Rightarrow> (s\<lparr>eng_auth := forget\<rparr>, [Acknowledge (Inl (ErrTerminal TimedOut))])
      | Some r \<Rightarrow>
     (case rec_caller (lifecycle r) of
        Terminal outcome \<Rightarrow> (s\<lparr>eng_auth := forget\<rparr>, [Acknowledge (Inl (ErrTerminal outcome))])
      | Open \<Rightarrow>
     (case prep_result prepared of
        None \<Rightarrow>
          (s\<lparr>eng_auth := reduce_state forget (PrepareFailed key)\<rparr>,
           (case map_of (pending a) key of
              None \<Rightarrow> []
            | Some entry \<Rightarrow>
                if pend_terminal entry then [Deliver key (Inl (ErrWire ''prepare-outgoing''))] else []) @
           [Acknowledge (Inl (ErrWire ''prepare-outgoing''))])
      | Some frame \<Rightarrow>
          (case map_of (pending a) key of
             None \<Rightarrow>
               (s\<lparr>eng_auth := a, eng_fatal := Some (ErrWire ''prepared-operation-missing'')\<rparr>,
                [Acknowledge (Inl (ErrWire ''prepared-operation-missing''))])
           | Some entry \<Rightarrow>
               let raw = first_segment (prep_retain_raw prepared) frame;
                   s1 = push_frame [key] frame
                          (s\<lparr>eng_auth := insert_pending key (entry\<lparr>pend_request_raw := raw\<rparr>) a\<rparr>);
                   (s2, out) = with_early_response key s1
               in (s2, Acknowledge (Inr \<lparr>sub_key = key, sub_request_raw = raw\<rparr>) # out)))))"

fun finish_prepared_operations :: "prepared_operation list \<Rightarrow> engine \<Rightarrow> engine \<times> engine_output list" where
  "finish_prepared_operations [] s = (s, [])"
| "finish_prepared_operations (prepared # ready) s =
     (let (s1, out) = finish_prepared_operation prepared s;
          (s2, out') = finish_prepared_operations ready s1
      in (s2, out @ out'))"

definition preparation_done :: "request_key \<Rightarrow> send_frame option \<Rightarrow> engine \<Rightarrow> engine_result" where
  "preparation_done key result s =
     (case map_of (preparations s) key of
        None \<Rightarrow> Some (s, [])
      | Some retain_raw \<Rightarrow>
          (case complete (preparation_order s) key
                  \<lparr>prep_key = key, prep_result = result, prep_retain_raw = retain_raw\<rparr> of
             None \<Rightarrow> None
           | Some (queue, ready) \<Rightarrow>
               Some (finish_prepared_operations ready
                 (s\<lparr>preparations := AList.delete key (preparations s), preparation_order := queue\<rparr>))))"

section \<open>Compound chains\<close>

text \<open>The first dependency that is not active, in the order of the chain.\<close>

fun inactive_dependency :: "object_registry \<Rightarrow> typed_operation list \<Rightarrow> object_error option option" where
  "inactive_dependency objects [] = Some None"
| "inactive_dependency objects (op # ops) =
     (case op_dependency op of
        None \<Rightarrow> inactive_dependency objects ops
      | Some dependency \<Rightarrow>
          (case validate_active objects dependency of
             None \<Rightarrow> None
           | Some (Inl e) \<Rightarrow> Some (Some e)
           | Some (Inr _) \<Rightarrow> inactive_dependency objects ops))"

fun required_credits :: "bool \<Rightarrow> u32 \<Rightarrow> typed_operation list \<Rightarrow> u32 option" where
  "required_credits large_mtu acc [] = Some acc"
| "required_credits large_mtu acc (op # ops) =
     (case operation_credit_charge op large_mtu of
        Inl _ \<Rightarrow> None
      | Inr charge \<Rightarrow> Option.bind (checked_add acc (u16_to_u32 charge)) (\<lambda>acc'. required_credits large_mtu acc' ops))"

definition fail_members :: "request_key list \<Rightarrow> authority \<Rightarrow> authority" where
  "fail_members keys a = fold (\<lambda>key a. reduce_state a (PrepareFailed key)) keys a"

text \<open>The admission loop; the operations admitted so far are given back when a later one is
  refused.\<close>

fun admit_members ::
  "monotonic_time option \<Rightarrow> typed_operation list \<Rightarrow> (request_key \<times> typed_operation) list \<Rightarrow> authority \<Rightarrow>
     authority \<times> (runtime_error + (request_key \<times> typed_operation) list) \<times> engine_output list" where
  "admit_members deadline [] admitted a = (a, Inr admitted, [])"
| "admit_members deadline (op # ops) admitted a =
     (let undo = (\<lambda>a e. (fail_members (map fst admitted) a, Inl e, [])) in
      case operation_credit_charge op (auth_large_mtu a) of
        Inl _ \<Rightarrow> undo a (ErrWire ''credit-charge'')
      | Inr charge \<Rightarrow>
          let (g, effect) = admit (auth_state a) (operation_payload_bytes op) charge deadline;
              a1 = a\<lparr>auth_state := g\<rparr>
          in case effect of
               Admitted plan \<Rightarrow>
                 (let (a2, r, out) = admit_members deadline ops (admitted @ [(plan_key plan, op)]) a1
                  in (a2, r, PrepareFrame plan False # out))
             | AdmissionRejected e \<Rightarrow> undo a1 (ErrAdmission e)
             | _ \<Rightarrow> undo a1 ErrOwnerTerminated)"

fun insert_members ::
  "(request_key \<times> typed_operation) list \<Rightarrow> authority \<Rightarrow> runtime_error option \<Rightarrow>
     authority \<times> runtime_error option \<times> engine_output list" where
  "insert_members [] a fatal = (a, fatal, [])"
| "insert_members ((key, op) # members) a fatal =
     (let (a1, fatal1, out) = take_early_response key (insert_pending key (new_pending op None False) a) fatal;
          (a2, fatal2, out') = insert_members members a1 fatal1
      in (a2, fatal2, out @ out'))"

definition process_compound_admission ::
  "compound_admission \<Rightarrow> send_frame option \<Rightarrow> engine \<Rightarrow> engine_result" where
  "process_compound_admission c prepared s =
     (let a = eng_auth s; ops = com_operations c; refuse = (\<lambda>e. Some (s, [AcknowledgeCompound (Inl e)])) in
      if ops = [] then refuse (ErrWire ''empty-compound'')
      else case inactive_dependency (auth_objects a) ops of
        None \<Rightarrow> None
      | Some (Some e) \<Rightarrow> refuse (ErrObject e)
      | Some None \<Rightarrow>
          if unat (operation_limit (auth_state a)) < length (pending a) + length ops
          then refuse (ErrAdmission OperationsExhausted)
          else (case required_credits (auth_large_mtu a) 0 ops of
             None \<Rightarrow> refuse (ErrWire ''credit-charge'')
           | Some credits \<Rightarrow>
               if available_credits (auth_state a) < credits then Some (s\<lparr>waiting_compound := Some c\<rparr>, [])
               else
                 let (a1, result, out) = admit_members (com_deadline c) ops [] a in
                 case result of
                   Inl e \<Rightarrow> Some (s\<lparr>eng_auth := a1\<rparr>, out @ [AcknowledgeCompound (Inl e)])
                 | Inr admitted \<Rightarrow>
                     (case prepared of
                        None \<Rightarrow>
                          Some (s\<lparr>eng_auth := fail_members (map fst admitted) a1\<rparr>,
                                out @ [AcknowledgeCompound (Inl (ErrWire ''prepare-compound''))])
                      | Some frame \<Rightarrow>
                          let (a2, fatal, out') = insert_members admitted a1 (eng_fatal s);
                              keys = map fst admitted
                          in Some (push_frame keys frame (s\<lparr>eng_auth := a2, eng_fatal := fatal\<rparr>),
                                   out @ out' @ [AcknowledgeCompound (Inr (map (\<lambda>key.
                                     \<lparr>sub_key = key, sub_request_raw = None\<rparr>) keys))]))))"

section \<open>Raw requests\<close>

definition process_admission ::
  "u64 \<Rightarrow> u16 \<Rightarrow> monotonic_time option \<Rightarrow> send_frame \<Rightarrow> engine \<Rightarrow> engine \<times> engine_output list" where
  "process_admission bytes charge deadline frame s =
     (let (g, effect) = admit (auth_state (eng_auth s)) bytes charge deadline;
          a = (eng_auth s)\<lparr>auth_state := g\<rparr>
      in case effect of
           Admitted plan \<Rightarrow>
             (push_frame [plan_key plan] frame
                (s\<lparr>eng_auth := a\<lparr>terminals := List.insert (plan_key plan) (terminals a)\<rparr>\<rparr>),
              [AcknowledgeRaw (Inr (plan_key plan))])
         | AdmissionRejected e \<Rightarrow>
             (s\<lparr>eng_auth := a\<rparr>, [RefuseRaw (ErrAdmission e), AcknowledgeRaw (Inl (ErrAdmission e))])
         | _ \<Rightarrow> (s\<lparr>eng_auth := a\<rparr>, [RefuseRaw ErrOwnerTerminated, AcknowledgeRaw (Inl ErrOwnerTerminated)]))"

end
