(* ===== verification/Engine.thy ===== *)
theory Engine
  imports Engine_Admission
begin

text \<open>
  The loop of the owner task (runtime/engine.rs): the writer, inbound messages, control
  commands, deadlines and the teardown. One event of \<open>engine_event\<close> is one arm of the loop; the
  order in which arms run is left open, so a run of \<open>engine_run\<close> is any schedule of them.
\<close>

section \<open>The writer\<close>

datatype io_event =
    IoWriteCancelled request_key
  | IoWriteProgress request_key usize
  | IoWriteComplete request_key
  | IoFailed pump_name "network_failure option" string
  | IoExited pump_name

text \<open>The event lane: whether events are emitted at all, and whether the lane is full.\<close>

datatype lane = Lane (lane_emits: bool) (lane_full: bool)

definition emit_event ::
  "lane \<Rightarrow> runtime_event option \<Rightarrow> runtime_error option \<Rightarrow> runtime_error option \<times> engine_output list" where
  "emit_event l event fatal =
     (case event of
        None \<Rightarrow> (fatal, [])
      | Some e \<Rightarrow>
          if \<not> lane_emits l then (fatal, [])
          else if lane_full l then (Some (case fatal of None \<Rightarrow> ErrEventBackpressure | Some f \<Rightarrow> f), [])
          else (fatal, [Emit e]))"

definition members_of :: "authority \<Rightarrow> request_key \<Rightarrow> request_key list" where
  "members_of a key = (case map_of (frame_members a) key of None \<Rightarrow> [key] | Some members \<Rightarrow> members)"

definition progress_members :: "request_progress \<Rightarrow> request_key list \<Rightarrow> authority \<Rightarrow> authority" where
  "progress_members progress keys a =
     fold (\<lambda>key a. reduce_state a (RequestProgressed key progress)) keys a"

fun cancel_members :: "monotonic_time \<Rightarrow> request_key list \<Rightarrow> authority \<Rightarrow> authority \<times> engine_output list" where
  "cancel_members now [] a = (a, [])"
| "cancel_members now (key # keys) a =
     (let (a1, out) = reduce_and_apply a (CancelRequest key now);
          (a2, out') = cancel_members now keys a1
      in (a2, out @ out'))"

definition run_deferred_cancellation :: "request_key \<Rightarrow> authority \<Rightarrow> authority \<times> engine_output list" where
  "run_deferred_cancellation key a =
     (case map_of (deferred_cancellations a) key of
        None \<Rightarrow> (a, [])
      | Some now \<Rightarrow>
          reduce_and_apply (a\<lparr>deferred_cancellations := AList.delete key (deferred_cancellations a)\<rparr>)
            (CancelRequest key now))"

fun write_event :: "io_event \<Rightarrow> authority \<Rightarrow> authority \<times> engine_output list" where
  "write_event (IoWriteCancelled key) a =
     (let now = (case map_of (deferred_cancellations a) key of None \<Rightarrow> 0 | Some t \<Rightarrow> t);
          (a1, out) = cancel_members now (members_of a key)
            (a\<lparr>deferred_cancellations := AList.delete key (deferred_cancellations a),
               frame_members := AList.delete key (frame_members a)\<rparr>)
      in (a1\<lparr>frame_cancellations := AList.delete key (frame_cancellations a1)\<rparr>, out))"
| "write_event (IoWriteProgress key bytes) a =
     run_deferred_cancellation key (progress_members (ProgressWritten bytes) (members_of a key) a)"
| "write_event (IoWriteComplete key) a =
     (let (a1, out) = run_deferred_cancellation key
            (progress_members ProgressWriteComplete (members_of a key)
               (a\<lparr>frame_members := AList.delete key (frame_members a)\<rparr>))
      in (a1\<lparr>frame_cancellations := AList.delete key (frame_cancellations a1)\<rparr>, out))"
| "write_event (IoFailed _ _ _) a = (a, [])"
| "write_event (IoExited _) a = (a, [])"

fun io_failure :: "io_event \<Rightarrow> runtime_error option \<Rightarrow> runtime_error option" where
  "io_failure (IoFailed _ (Some failure) _) fatal = Some (ErrNetwork failure)"
| "io_failure (IoFailed _ None code) fatal = Some (ErrTransport code)"
| "io_failure _ fatal = fatal"

fun io_runtime_event :: "io_event \<Rightarrow> runtime_event option" where
  "io_runtime_event (IoWriteCancelled _) = None"
| "io_runtime_event (IoWriteProgress key bytes) = Some (WriteProgressed key bytes)"
| "io_runtime_event (IoWriteComplete key) = Some (WriteCompleted key)"
| "io_runtime_event (IoFailed pump _ code) = Some (PumpFailed pump code)"
| "io_runtime_event (IoExited pump) = Some (PumpExited pump)"

definition process_io :: "io_event \<Rightarrow> lane \<Rightarrow> engine \<Rightarrow> engine \<times> engine_output list" where
  "process_io event l s =
     (let (a, out) = write_event event (eng_auth s);
          (fatal, out') = emit_event l (io_runtime_event event) (io_failure event (eng_fatal s))
      in (s\<lparr>eng_auth := a, eng_fatal := fatal\<rparr>, out @ out'))"

definition dispatch_next :: "engine \<Rightarrow> engine \<times> engine_output list" where
  "dispatch_next s =
     (if active_write s \<noteq> None then (s, [])
      else case send_queue s of
        [] \<Rightarrow> (s, [])
      | command # queue \<Rightarrow>
          let key = wc_key command;
              a = progress_members ProgressQueued (wc_members command) (eng_auth s)
          in (s\<lparr>send_queue := queue, active_write := Some key,
                eng_auth := a\<lparr>frame_members := AList.update key (wc_members command) (frame_members a),
                              frame_cancellations := AList.update key (wc_cancelled command) (frame_cancellations a)\<rparr>\<rparr>,
              [StartWrite key (wc_frame command) (wc_cancelled command)]))"

section \<open>Inbound messages\<close>

text \<open>A decoded message comes with whether the notification lane is full when it is offered.\<close>

definition process_inbound_message ::
  "command_response \<Rightarrow> bool \<Rightarrow> authority \<Rightarrow> runtime_error option \<Rightarrow>
     authority \<times> runtime_error option \<times> engine_output list" where
  "process_inbound_message m notify_full a fatal =
     (let key = RequestKey (generation (auth_state a)) (resp_message_id m) in
      if map_of (pending a) key \<noteq> None then process_decoded_response m a fatal
      else if key_message_id key = - 1 then
        (if \<not> auth_notifications a then (a, fatal, [])
         else if notify_full then (a, Some (case fatal of None \<Rightarrow> ErrEventBackpressure | Some f \<Rightarrow> f), [])
         else (a, fatal, [Notify m]))
      else if unat (operation_limit (auth_state a)) \<le> length (early_responses a)
        then (a, Some (ErrWire ''early-response-overflow-or-duplicate''), [])
      else (a\<lparr>early_responses := AList.update key m (early_responses a)\<rparr>,
            if map_of (early_responses a) key \<noteq> None
            then Some (ErrWire ''early-response-overflow-or-duplicate'') else fatal, []))"

fun process_inbound_messages ::
  "(command_response \<times> bool) list \<Rightarrow> authority \<Rightarrow> runtime_error option \<Rightarrow>
     authority \<times> runtime_error option \<times> engine_output list" where
  "process_inbound_messages [] a fatal = (a, fatal, [])"
| "process_inbound_messages ((m, notify_full) # ms) a fatal =
     (let (a1, fatal1, out) = process_inbound_message m notify_full a fatal;
          (a2, fatal2, out') = process_inbound_messages ms a1 fatal1
      in (a2, fatal2, out @ out'))"

definition finish_prepared_inbound ::
  "usize \<Rightarrow> (command_response \<times> bool) list option \<Rightarrow> lane \<Rightarrow> engine \<Rightarrow> engine \<times> engine_output list" where
  "finish_prepared_inbound bytes result l s =
     (let (messages, fatal) =
            (case result of
               Some ms \<Rightarrow> (ms, eng_fatal s)
             | None \<Rightarrow> ([], Some (ErrWire ''decode-incoming'')));
          (a, fatal1, out) = process_inbound_messages messages (eng_auth s) fatal;
          (fatal2, out') = emit_event l (Some (InboundFrame bytes)) fatal1
      in (s\<lparr>eng_auth := a, eng_fatal := fatal2\<rparr>, out @ out'))"

section \<open>Control commands\<close>

datatype control_command =
    CtlCreateObject object_token object_kind
  | CtlLoseObjectGeneration
  | CtlBeginObjectRecovery object_token
  | CtlPublishObjectReplacement object_token
  | CtlFailObjectRecovery object_token
  | CtlInstallNotifications
  | CtlAwaitOperation request_key
  | CtlNegotiated bool
  | CtlCancel request_key monotonic_time
  | CtlClose monotonic_time

definition await_operation :: "request_key \<Rightarrow> authority \<Rightarrow> authority \<times> engine_output list" where
  "await_operation key a =
     (case map_of (pending a) key of
        None \<Rightarrow> (a, [RefuseAwait key (ErrUnknownRequest key)])
      | Some entry \<Rightarrow>
          (case pend_buffered entry of
             Some answer \<Rightarrow>
               (a\<lparr>pending :=
                    (if pend_draining entry
                     then AList.update key (entry\<lparr>pend_buffered := None, pend_caller_completed := True\<rparr>) (pending a)
                     else AList.delete key (pending a))\<rparr>,
                [Deliver key answer])
           | None \<Rightarrow>
               if pend_terminal entry \<or> pend_caller_completed entry
               then (a, [RefuseAwait key (ErrAlreadyAwaited key)])
               else (insert_pending key (entry\<lparr>pend_terminal := True\<rparr>) a, [])))"

text \<open>\<open>VecDeque::position\<close> and \<open>remove\<close>: the first command of the queue with this key.\<close>

definition remove_queued :: "request_key \<Rightarrow> write_command list \<Rightarrow> write_command list \<times> bool" where
  "remove_queued key queue =
     (case dropWhile (\<lambda>c. wc_key c \<noteq> key) queue of
        [] \<Rightarrow> (queue, False)
      | _ # rest \<Rightarrow> (takeWhile (\<lambda>c. wc_key c \<noteq> key) queue @ rest, True))"

definition cancel_request :: "request_key \<Rightarrow> monotonic_time \<Rightarrow> engine \<Rightarrow> engine \<times> engine_output list" where
  "cancel_request key now s =
     (let (queue, removed_before_dispatch) = remove_queued key (send_queue s);
          active = map_of (frame_cancellations (eng_auth s)) key \<noteq> None;
          a = (if active
               then (eng_auth s)\<lparr>frame_cancellations := AList.update key True (frame_cancellations (eng_auth s))\<rparr>
               else eng_auth s);
          sent = (case get_request (auth_state a) key of None \<Rightarrow> False | Some r \<Rightarrow> wire_committed (lifecycle r));
          cancels = (if removed_before_dispatch then [CancelFrame key] else []) @
                    (if active then [CancelFrame key] else [])
      in if removed_before_dispatch \<or> sent \<or> \<not> active then
           (let (a1, out) = reduce_and_apply a (CancelRequest key now)
            in (s\<lparr>send_queue := queue, eng_auth := a1\<rparr>, cancels @ out))
         else
           (s\<lparr>send_queue := queue,
              eng_auth := (if map_of (deferred_cancellations a) key = None
                           then a\<lparr>deferred_cancellations := AList.update key now (deferred_cancellations a)\<rparr>
                           else a)\<rparr>, cancels))"

definition object_reply :: "object_error + 'a \<Rightarrow> runtime_error + 'a" where
  "object_reply r = (case r of Inl e \<Rightarrow> Inl (ErrObject e) | Inr x \<Rightarrow> Inr x)"

definition put_objects :: "engine \<Rightarrow> object_registry \<Rightarrow> engine" where
  "put_objects s objects = s\<lparr>eng_auth := (eng_auth s)\<lparr>auth_objects := objects\<rparr>\<rparr>"

fun replacement_token :: "object_effect \<times> object_effect list \<Rightarrow> object_error + object_token" where
  "replacement_token (ReplacementPublished _ replacement, _) = Inr replacement"
| "replacement_token (ObjectRevoked _, _) = Inl Stale"

fun handle_control :: "control_command \<Rightarrow> engine \<Rightarrow> engine_result" where
  "handle_control (CtlCreateObject parent kind) s =
     (let (objects, r) = create_child (auth_objects (eng_auth s)) parent kind
      in Some (put_objects s objects, [ObjectReply (object_reply r)]))"
| "handle_control CtlLoseObjectGeneration s =
     (let (objects, revoked) = lose_generation (auth_objects (eng_auth s))
      in Some (put_objects s objects, [CountReply (length revoked)]))"
| "handle_control (CtlBeginObjectRecovery object) s =
     map_option (\<lambda>(objects, r). (put_objects s objects, [UnitReply (object_reply r)]))
       (begin_recovery (auth_objects (eng_auth s)) object)"
| "handle_control (CtlPublishObjectReplacement object) s =
     map_option (\<lambda>(objects, r).
         (put_objects s objects,
          [ObjectReply (object_reply (case r of Inl e \<Rightarrow> Inl e | Inr effects \<Rightarrow> replacement_token effects))]))
       (publish_replacement_revoking_descendants (auth_objects (eng_auth s)) object)"
| "handle_control (CtlFailObjectRecovery object) s =
     map_option (\<lambda>(objects, r).
         (put_objects s objects, [UnitReply (object_reply (case r of Inl e \<Rightarrow> Inl e | Inr _ \<Rightarrow> Inr ()))]))
       (fail_recovery (auth_objects (eng_auth s)) object)"
| "handle_control CtlInstallNotifications s =
     Some (s\<lparr>eng_auth := (eng_auth s)\<lparr>auth_notifications := True\<rparr>\<rparr>, [])"
| "handle_control (CtlAwaitOperation key) s =
     (let (a, out) = await_operation key (eng_auth s) in Some (s\<lparr>eng_auth := a\<rparr>, out))"
| "handle_control (CtlNegotiated large_mtu) s =
     (let a = eng_auth s
      in Some (s\<lparr>eng_auth := a\<lparr>auth_large_mtu := large_mtu,
             auth_state := set_target_credits (auth_state a) (if large_mtu then auth_target_credits a else 1)\<rparr>\<rparr>, []))"
| "handle_control (CtlCancel key now) s = Some (cancel_request key now s)"
| "handle_control (CtlClose deadline) s =
     (if close_request s = None then Some (s\<lparr>close_request := Some deadline\<rparr>, [])
      else Some (s, [UnitReply (Inl ErrClosed)]))"

section \<open>The loop\<close>

definition engine_new ::
  "generation_id \<Rightarrow> u64 \<Rightarrow> u32 \<Rightarrow> u32 \<Rightarrow> admission_limits \<Rightarrow> duration \<Rightarrow> engine" where
  "engine_new g initial_message_id initial_credits target lim drain =
     \<lparr>eng_auth = \<lparr>auth_state = generation_new g initial_message_id initial_credits 1 lim drain,
        auth_objects = registry_new g, terminals = [], pending = [],
        early_responses = [], frame_members = [], frame_cancellations = [], preparation_cancellations = [],
        deferred_cancellations = [], auth_notifications = False, auth_large_mtu = False,
        auth_target_credits = target\<rparr>,
      send_queue = [], active_write = None, eng_fatal = None, preparations = [],
      preparation_order = completion_queue_new, waiting_operation = None, waiting_compound = None,
      close_request = None, shutdown_reason = None, running = True\<rparr>"

text \<open>The first published reason owns the teardown.\<close>

definition publish_shutdown_reason :: "engine \<Rightarrow> engine" where
  "publish_shutdown_reason s =
     (case shutdown_reason s of
        Some _ \<Rightarrow> s
      | None \<Rightarrow> s\<lparr>shutdown_reason := Some (if close_request s \<noteq> None then ErrClosed
                    else case eng_fatal s of None \<Rightarrow> ErrClosed | Some e \<Rightarrow> e)\<rparr>)"

definition publish_if_fatal :: "engine \<Rightarrow> engine" where
  "publish_if_fatal s = (if eng_fatal s \<noteq> None then publish_shutdown_reason s else s)"

datatype write_result =
    WriteStepCancelled
  | WriteStepSent
  | WriteStepFailed "network_failure option" string
  | WriteStepPanicked

fun write_result_event :: "request_key \<Rightarrow> write_result \<Rightarrow> io_event option" where
  "write_result_event key WriteStepCancelled = Some (IoWriteCancelled key)"
| "write_result_event key WriteStepSent = Some (IoWriteComplete key)"
| "write_result_event key (WriteStepFailed failure code) = Some (IoFailed PumpWrite failure code)"
| "write_result_event key WriteStepPanicked = None"

definition write_progressed :: "usize \<Rightarrow> lane \<Rightarrow> engine \<Rightarrow> engine \<times> engine_output list" where
  "write_progressed bytes l s =
     (case active_write s of
        None \<Rightarrow> (s, [])
      | Some key \<Rightarrow> if bytes > 0 then process_io (IoWriteProgress key bytes) l s else (s, []))"

definition write_finished ::
  "usize \<Rightarrow> lane \<Rightarrow> write_result \<Rightarrow> lane \<Rightarrow> engine \<Rightarrow> engine \<times> engine_output list" where
  "write_finished unreported l result l' s =
     (case active_write s of
        None \<Rightarrow> (s, [])
      | Some key \<Rightarrow>
          let (s1, out) = write_progressed unreported l s;
              s2 = s1\<lparr>active_write := None\<rparr>
          in case write_result_event key result of
               None \<Rightarrow> (s2\<lparr>eng_fatal := Some (ErrTransport ''pump-panicked'')\<rparr>, out)
             | Some event \<Rightarrow> (let (s3, out') = process_io event l' s2 in (s3, out @ out')))"

definition deadline_fired :: "monotonic_time \<Rightarrow> engine \<Rightarrow> engine \<times> engine_output list" where
  "deadline_fired now s =
     (let (a, out) = reduce_and_apply (eng_auth s) (AdvanceTime now);
          s1 = s\<lparr>eng_auth := a\<rparr>
      in (if unhealthy (auth_state a)
          then publish_shutdown_reason (s1\<lparr>eng_fatal := Some (ErrTransport ''generation-unhealthy'')\<rparr>)
          else s1, out))"

section \<open>Teardown\<close>

fun terminal_network :: "runtime_error option \<Rightarrow> network_failure option" where
  "terminal_network (Some (ErrNetwork failure)) = Some failure"
| "terminal_network _ = None"

text \<open>\<open>HashMap::drain\<close>: every key of the table once.\<close>

definition drain_pending :: "runtime_error \<Rightarrow> pending_table \<Rightarrow> engine_output list" where
  "drain_pending e p =
     concat (map (\<lambda>key. case map_of p key of
                    None \<Rightarrow> [] | Some entry \<Rightarrow> if pend_terminal entry then [Deliver key (Inl e)] else [])
              (remdups (map fst p)))"

definition teardown_cancellations :: "runtime_error \<Rightarrow> engine \<Rightarrow> engine_output list" where
  "teardown_cancellations reason s =
     map CancelPreparation (preparation_cancellations (eng_auth s)) @
     (case waiting_operation s of None \<Rightarrow> [] | Some c \<Rightarrow> refuse_operation c reason) @
     (case waiting_compound s of None \<Rightarrow> [] | Some _ \<Rightarrow> [AcknowledgeCompound (Inl reason)]) @
     map (\<lambda>c. CancelFrame (wc_key c)) (send_queue s) @
     map (\<lambda>(key, _). CancelFrame key) (frame_cancellations (eng_auth s))"

definition teardown :: "engine \<Rightarrow> engine \<times> engine_output list" where
  "teardown s0 =
     (let s = publish_shutdown_reason s0;
          reason = (case shutdown_reason s of None \<Rightarrow> ErrClosed | Some e \<Rightarrow> e);
          a = (eng_auth s)\<lparr>preparation_cancellations := [],
                auth_objects := fst (lose_generation (auth_objects (eng_auth s)))\<rparr>;
          (a1, out) = reduce_and_apply a (Disconnect (terminal_network (Some reason)))
      in (s\<lparr>eng_auth := a1\<lparr>terminals := [], pending := []\<rparr>, send_queue := [], waiting_operation := None,
            waiting_compound := None, running := False\<rparr>,
          teardown_cancellations reason s @ out @ map (\<lambda>key. TerminalSent key (Inl reason)) (terminals a1) @
          drain_pending reason (pending a1)))"

section \<open>Runs\<close>

datatype engine_event =
    OperationReceived operation_admission bool bool wire_decision
  | WaitingOperationRetried bool wire_decision
  | CompoundReceived compound_admission "send_frame option"
  | WaitingCompoundRetried "send_frame option"
  | RawReceived u64 u16 "monotonic_time option" send_frame
  | PreparationFinished request_key "send_frame option"
  | InboundFinished usize "(command_response \<times> bool) list option" lane
  | InboundPolled usize "(command_response \<times> bool) list option" lane
  | ControlReceived control_command
  | Dispatched
  | WriteNotified usize lane
  | WriteFinished usize lane write_result lane
  | ReadFailed "network_failure option" string lane
  | ReadPanicked
  | DeadlineFired monotonic_time
  | TornDown

fun is_close :: "control_command \<Rightarrow> bool" where
  "is_close (CtlClose _) = True"
| "is_close _ = False"

fun fatal_published :: "engine \<times> engine_output list \<Rightarrow> engine_result" where
  "fatal_published (s, out) = Some (publish_if_fatal s, out)"

fun engine_arm :: "engine_event \<Rightarrow> engine \<Rightarrow> engine_result" where
  "engine_arm (OperationReceived c cmac retain_raw decision) s =
     (if waiting_operation s = None \<and> waiting_compound s = None
      then process_operation_admission c cmac retain_raw decision s else Some (s, []))"
| "engine_arm (WaitingOperationRetried retain_raw decision) s =
     (case waiting_operation s of
        None \<Rightarrow> Some (s, [])
      | Some c \<Rightarrow> process_operation_admission c False retain_raw decision (s\<lparr>waiting_operation := None\<rparr>))"
| "engine_arm (CompoundReceived c frame) s =
     (if waiting_operation s = None \<and> waiting_compound s = None \<and> order (preparation_order s) = []
      then process_compound_admission c frame s else Some (s, []))"
| "engine_arm (WaitingCompoundRetried frame) s =
     (case waiting_compound s of
        None \<Rightarrow> Some (s, [])
      | Some c \<Rightarrow>
          if order (preparation_order s) = []
          then process_compound_admission c frame (s\<lparr>waiting_compound := None\<rparr>) else Some (s, []))"
| "engine_arm (RawReceived bytes charge deadline frame) s = Some (process_admission bytes charge deadline frame s)"
| "engine_arm (PreparationFinished key result) s = preparation_done key result s"
| "engine_arm (InboundFinished bytes result l) s = fatal_published (finish_prepared_inbound bytes result l s)"
| "engine_arm (InboundPolled bytes result l) s = Some (finish_prepared_inbound bytes result l s)"
| "engine_arm (ControlReceived c) s =
     map_option (\<lambda>(s', out). (if is_close c then publish_shutdown_reason s' else s', out)) (handle_control c s)"
| "engine_arm Dispatched s = Some (dispatch_next s)"
| "engine_arm (WriteNotified bytes l) s = fatal_published (write_progressed bytes l s)"
| "engine_arm (WriteFinished unreported l result l') s = fatal_published (write_finished unreported l result l' s)"
| "engine_arm (ReadFailed failure code l) s = fatal_published (process_io (IoFailed PumpRead failure code) l s)"
| "engine_arm ReadPanicked s =
     fatal_published (s\<lparr>eng_fatal := Some (ErrTransport ''pump-panicked'')\<rparr>, [])"
| "engine_arm (DeadlineFired now) s = Some (deadline_fired now s)"
| "engine_arm TornDown s = Some (teardown s)"

definition engine_step :: "engine \<Rightarrow> engine_event \<Rightarrow> engine_result" where
  "engine_step s e = (if running s then engine_arm e s else Some (s, []))"

fun engine_run :: "engine \<Rightarrow> engine_event list \<Rightarrow> engine_result" where
  "engine_run s [] = Some (s, [])"
| "engine_run s (e # es) =
     (case engine_step s e of
        None \<Rightarrow> None
      | Some (s1, out) \<Rightarrow> map_option (\<lambda>(s2, out'). (s2, out @ out')) (engine_run s1 es))"

end
