(* ===== verification/Engine_Answers.thy ===== *)
theory Engine_Answers
  imports Engine
begin

text \<open>
  Every caller of an operation is answered at most once, and with the outcome that the request
  owner records. A caller is \<open>due\<close> an answer from the moment its key can be allocated until the
  answer is sent; each step of the owner task spends what it delivers. A step is described on an
  authority together with the keys that were admitted but have no entry yet.
\<close>

section \<open>Answers\<close>

fun answer_to :: "request_key \<Rightarrow> engine_output \<Rightarrow> operation_answer option" where
  "answer_to k (Deliver k' answer) = (if k' = k then Some answer else None)"
| "answer_to k _ = None"

abbreviation answers :: "request_key \<Rightarrow> engine_output list \<Rightarrow> operation_answer list" where
  "answers k out \<equiv> List.map_filter (answer_to k) out"

text \<open>The answer that the recorded outcome calls for. A frame that could not be prepared is
  reported as such.\<close>

fun agrees :: "operation_answer \<Rightarrow> terminal_outcome option \<Rightarrow> bool" where
  "agrees (Inr result) recorded = (recorded = Some Response)"
| "agrees (Inl (ErrTerminal outcome)) recorded = (recorded = Some outcome)"
| "agrees (Inl e) recorded = (e = ErrWire ''prepare-outgoing'')"

lemma agrees_mono: "agrees r None \<Longrightarrow> agrees r recorded"
  by (cases "(r, None :: terminal_outcome option)" rule: agrees.cases) auto

definition entry_ok :: "terminal_outcome option \<Rightarrow> operation_pending \<Rightarrow> bool" where
  "entry_ok recorded p \<longleftrightarrow>
     (pend_terminal p \<longrightarrow> recorded = None) \<and>
     (recorded = None \<longleftrightarrow> pend_buffered p = None \<and> \<not> pend_caller_completed p) \<and>
     (\<forall>r. pend_buffered p = Some r \<longrightarrow> agrees r recorded \<and> \<not> pend_caller_completed p)"

abbreviation recorded_outcome :: "authority \<Rightarrow> request_key \<Rightarrow> terminal_outcome option" where
  "recorded_outcome a k \<equiv> request_terminal_outcome (auth_state a) k"

type_synonym holding = "authority \<times> request_key set"

definition answers_inv :: "holding \<Rightarrow> bool" where
  "answers_inv = (\<lambda>(a, held). generation_inv (auth_state a) \<and>
     (\<forall>k p. map_of (pending a) k = Some p \<longrightarrow>
        get_request (auth_state a) k \<noteq> None \<and> entry_ok (recorded_outcome a k) p) \<and>
     (\<forall>k \<in> held. get_request (auth_state a) k \<noteq> None \<and> map_of (pending a) k = None \<and>
        recorded_outcome a k = None) \<and>
     (\<forall>(k, m) \<in> set (early_responses a). \<not> resp_recovery_hint m))"

definition due :: "request_key \<Rightarrow> holding \<Rightarrow> nat" where
  "due k = (\<lambda>(a, held).
     (case map_of (pending a) k of
        Some p \<Rightarrow> if pend_caller_completed p then 0 else 1
      | None \<Rightarrow> if get_request (auth_state a) k = None \<or> k \<in> held then 1 else 0))"

definition answers_once :: "holding \<Rightarrow> holding \<Rightarrow> engine_output list \<Rightarrow> bool" where
  "answers_once h h' out \<longleftrightarrow> answers_inv h' \<and>
     (\<forall>k. due k h' + length (answers k out) \<le> due k h \<and>
          (\<forall>r \<in> set (answers k out). agrees r (recorded_outcome (fst h') k)) \<and>
          (recorded_outcome (fst h) k \<noteq> None \<longrightarrow> recorded_outcome (fst h') k = recorded_outcome (fst h) k))"

lemma answers_once_inv: "answers_once h h' out \<Longrightarrow> answers_inv h'"
  by (simp add: answers_once_def)

lemma agrees_later:
  assumes "agrees r oc" and "oc \<noteq> None \<Longrightarrow> oc' = oc"
  shows "agrees r oc'"
  using assms agrees_mono by (cases oc) auto

lemma answers_once_trans:
  assumes "answers_once h h1 out" and "answers_once h1 h2 out'"
  shows "answers_once h h2 (out @ out')"
  unfolding answers_once_def
proof (intro conjI allI)
  show "answers_inv h2" using assms(2) by (rule answers_once_inv)
  fix k
  note steps = assms [unfolded answers_once_def, THEN conjunct2, THEN spec, of k]
  show "due k h2 + length (answers k (out @ out')) \<le> due k h" using steps by simp
  show "\<forall>r \<in> set (answers k (out @ out')). agrees r (recorded_outcome (fst h2) k)"
    using steps by (auto intro: agrees_later)
  show "recorded_outcome (fst h) k \<noteq> None \<longrightarrow> recorded_outcome (fst h2) k = recorded_outcome (fst h) k"
    using steps by auto
qed

lemma answers_once_refl: "answers_inv h \<Longrightarrow> answers_once h h []"
  by (simp add: answers_once_def map_filter_simps)

text \<open>Outputs that are not answers do not matter.\<close>

definition silent :: "engine_output list \<Rightarrow> bool" where
  "silent out \<longleftrightarrow> (\<forall>k. answers k out = [])"

lemma silent_simps [simp]:
  "silent []"
  "silent (x # out) \<longleftrightarrow> (\<forall>k. answer_to k x = None) \<and> silent out"
  "silent (out @ out') \<longleftrightarrow> silent out \<and> silent out'"
  by (auto simp: silent_def map_filter_simps split: option.splits)

lemma silent_map: "(\<And>x k. answer_to k (f x) = None) \<Longrightarrow> silent (map f xs)"
  by (induction xs) auto

lemma answers_once_silent:
  "silent out \<Longrightarrow> answers_once h h' out' \<Longrightarrow> answers_once h h' (out @ out')"
  "silent out \<Longrightarrow> answers_once h h' out' \<Longrightarrow> answers_once h h' (out' @ out)"
  by (simp_all add: answers_once_def silent_def)

lemma answers_once_Cons:
  "(\<And>k. answer_to k x = None) \<Longrightarrow> answers_once h h' out \<Longrightarrow> answers_once h h' (x # out)"
  by (simp add: answers_once_def map_filter_simps)

text \<open>A step that touches neither the requests nor the operations.\<close>

lemma answers_once_frame:
  assumes "answers_inv (a, held)" and "silent out"
    and "auth_state a' = auth_state a" and "pending a' = pending a"
    and "set (early_responses a') \<subseteq> set (early_responses a)"
  shows "answers_once (a, held) (a', held) out"
  using assms by (auto simp: answers_once_def answers_inv_def due_def silent_def)

lemma answers_once_release:
  assumes "answers_inv (a, held)" and "held' \<subseteq> held" and "silent out"
  shows "answers_once (a, held) (a, held') out"
  using assms by (auto simp: answers_once_def answers_inv_def due_def silent_def split: option.splits)

section \<open>What the events of the request owner publish\<close>

lemma get_request_None: "get_request s k = None \<longleftrightarrow> lifecycle_at s k = None"
  by (simp add: lifecycle_at_def)

lemma known_expire: "lifecycle_at (fst (expire_deadline s now e)) k = None \<longleftrightarrow> lifecycle_at s k = None"
  by (auto simp: expire_deadline_def Let_def split_beta lifecycle_at_Some split: option.splits deadline_kind.splits)

lemma known_advance: "lifecycle_at (fst (on_advance_time s now)) k = None \<longleftrightarrow> lifecycle_at s k = None"
proof (induct rule: advance_time_induct [where now = now and
    P = "\<lambda>s p. lifecycle_at (fst p) k = None \<longleftrightarrow> lifecycle_at s k = None"])
  case (due s e s1 fs1 s2 fs2)
  then show ?case using known_expire [of "s\<lparr>deadlines := heap_pop (deadlines s)\<rparr>" now e k] by simp
qed simp

lemma known_disconnect_keys: "lifecycle_at (fst (disconnect_keys n ks s)) k = None \<longleftrightarrow> lifecycle_at s k = None"
  by (induction ks arbitrary: s) (auto simp: split_beta lifecycle_at_Some split: option.splits)

lemma known_response: "lifecycle_at (fst (on_response s key event grant)) k = None \<longleftrightarrow> lifecycle_at s k = None"
proof (cases "get_request s key")
  case (Some r)
  obtain s1 r1 where acc: "account_response s r grant = (s1, r1)" by fastforce
  show ?thesis
    using Some lifecycle_at_Some [OF Some]
    by (auto simp: on_response_def Let_def acc account_response_lifecycle [OF acc] split_beta
        split: option.splits response_event.splits response_progress.splits)
qed (auto simp: on_response_def split: option.splits)

fun admits :: "owner_event \<Rightarrow> bool" where
  "admits (Admit _ _ _) = True"
| "admits _ = False"

lemma known_reduce:
  "\<not> admits e \<Longrightarrow> get_request (fst (generation_reduce s e)) k = None \<longleftrightarrow> get_request s k = None"
  unfolding get_request_None
  by (cases e)
    (auto simp: known_advance known_response known_disconnect_keys on_disconnect_def on_request_event_def
      on_prepare_failed_def on_cancel_def on_recovery_hint_def Let_def split_beta lifecycle_at_Some
      split: option.splits)

text \<open>Cancellation, deadlines and the disconnect never publish a response, and a final response
  publishes nothing else.\<close>

definition publishes :: "owner_effect list \<Rightarrow> terminal_outcome \<Rightarrow> bool" where
  "publishes fs outcome \<longleftrightarrow> (\<exists>k. RequestEffect k (Publish outcome) \<in> set fs)"

lemma publishes_simps [simp]:
  "publishes [] outcome \<longleftrightarrow> False"
  "publishes (f # fs) outcome \<longleftrightarrow> (\<exists>k. f = RequestEffect k (Publish outcome)) \<or> publishes fs outcome"
  "publishes (fs @ fs') outcome \<longleftrightarrow> publishes fs outcome \<or> publishes fs' outcome"
  by (auto simp: publishes_def)

lemma settle_unanswered_publishes [simp]: "\<not> publishes (snd (settle_unanswered s k sent now)) outcome"
  by (simp add: settle_unanswered_def split_beta)

lemma reduce_no_response [simp]:
  "snd (request_reduce l EvCancel) \<noteq> Publish Response"
  "snd (request_reduce l EvDeadline) \<noteq> Publish Response"
  "snd (request_reduce l (EvDisconnect n)) \<noteq> Publish Response"
  by (auto simp: request_reduce.simps request_defs disconnect_outcome_def
      split: option.splits network_failure.splits)

lemma expire_no_response: "\<not> publishes (snd (expire_deadline s now e)) Response"
  by (auto simp: expire_deadline_def Let_def split_beta split: option.splits deadline_kind.splits)

lemma advance_no_response: "\<not> publishes (snd (on_advance_time s now)) Response"
proof (induct rule: advance_time_induct [where now = now and P = "\<lambda>s p. \<not> publishes (snd p) Response"])
  case (due s e s1 fs1 s2 fs2)
  then show ?case using expire_no_response [of "s\<lparr>deadlines := heap_pop (deadlines s)\<rparr>" now e] by simp
qed simp

lemma disconnect_no_response: "\<not> publishes (snd (disconnect_keys n ks s)) Response"
  by (induction ks arbitrary: s) (auto simp: split_beta split: option.splits)

fun ends_unanswered :: "owner_event \<Rightarrow> bool" where
  "ends_unanswered (CancelRequest _ _) = True"
| "ends_unanswered (AdvanceTime _) = True"
| "ends_unanswered (Disconnect _) = True"
| "ends_unanswered _ = False"

lemma ends_unanswered_no_response: "ends_unanswered e \<Longrightarrow> \<not> publishes (snd (generation_reduce s e)) Response"
  by (cases e) (auto simp: on_cancel_def Let_def split_beta advance_no_response on_disconnect_def
      disconnect_no_response split: option.splits)

text \<open>Events whose effects the owner task may drop: they publish nothing.\<close>

fun quiet :: "owner_event \<Rightarrow> bool" where
  "quiet (RequestProgressed _ _) = True"
| "quiet (ResponseArrived _ (PendingResponse _) _) = True"
| "quiet _ = False"

lemma reduce_quiet [simp]:
  "told_to k (RequestEffect key (snd (request_reduce l (progress_event p)))) = None"
  "told_to k (RequestEffect key (snd (request_reduce l (EvAsyncPending key' i)))) = None"
  by (cases p; simp add: request_reduce.simps)+

lemma quiet_told: "quiet e \<Longrightarrow> List.map_filter (told_to k) (snd (generation_reduce s e)) = []"
  by (cases e rule: quiet.cases)
    (auto simp: on_request_event_def on_response_def Let_def split_beta map_filter_simps
      split: option.splits response_progress.splits)

lemma tells_recorded:
  assumes "generation_inv g" and "generation_reduce g e = (g', fs)"
  shows "(case request_terminal_outcome g k of
      Some outcome \<Rightarrow> request_terminal_outcome g' k = Some outcome \<and> List.map_filter (told_to k) fs = []
    | None \<Rightarrow> (case request_terminal_outcome g' k of
        None \<Rightarrow> List.map_filter (told_to k) fs = [] | Some outcome \<Rightarrow> List.map_filter (told_to k) fs = [outcome]))"
  using tells_generation_reduce [OF assms(1), of k e] assms(2) by (auto simp: tells_def split: option.splits)

text \<open>A reduction whose publications concern none of the operations that have an entry.\<close>

lemma answers_once_reduce_state:
  assumes inv: "answers_inv (a, held)" and e: "\<not> admits e"
    and quiet: "\<And>k. map_of (pending a) k \<noteq> None \<or> k \<in> held \<Longrightarrow>
      List.map_filter (told_to k) (snd (generation_reduce (auth_state a) e)) = []"
  shows "answers_once (a, held) (reduce_state a e, held) []"
proof -
  obtain g' fs where red: "generation_reduce (auth_state a) e = (g', fs)" by fastforce
  have ginv: "generation_inv (auth_state a)" using inv by (simp add: answers_inv_def)
  note tells = tells_recorded [OF ginv red]
  have known: "get_request g' k = None \<longleftrightarrow> get_request (auth_state a) k = None" for k
    using known_reduce [OF e, of "auth_state a" k] red by simp
  have same: "request_terminal_outcome g' k = recorded_outcome a k" if "map_of (pending a) k \<noteq> None \<or> k \<in> held" for k
    using tells [of k] quiet [OF that] red by (auto split: option.splits)
  have "generation_inv g'" using generation_reduce_inv [OF ginv, of e] red by simp
  moreover have "(\<exists>r. get_request g' k = Some r) \<longleftrightarrow> (\<exists>r. get_request (auth_state a) k = Some r)" for k
    using known [of k] by auto
  ultimately have "answers_inv (reduce_state a e, held)"
    using inv same by (auto simp: answers_inv_def reduce_state_def red)
  moreover have "due k (reduce_state a e, held) = due k (a, held)" for k
    by (auto simp: due_def reduce_state_def red known split: option.splits)
  moreover have "recorded_outcome (reduce_state a e) k = recorded_outcome a k" if "recorded_outcome a k \<noteq> None" for k
    using that tells [of k] by (auto simp: reduce_state_def red split: option.splits)
  ultimately show ?thesis by (simp add: answers_once_def map_filter_simps)
qed

lemma answers_once_quiet:
  "answers_inv (a, held) \<Longrightarrow> quiet e \<Longrightarrow> answers_once (a, held) (reduce_state a e, held) []"
  by (rule answers_once_reduce_state) (auto simp: quiet_told elim: quiet.elims)

section \<open>Published failures\<close>

text \<open>What one published failure does to the entry of its key.\<close>

definition failed_entry ::
  "terminal_outcome \<Rightarrow> operation_pending option \<Rightarrow> operation_pending option \<times> operation_answer list" where
  "failed_entry outcome entry =
     (case entry of
        None \<Rightarrow> (None, [])
      | Some p \<Rightarrow>
          if pend_terminal p
          then (if pend_draining p then Some (p\<lparr>pend_terminal := False, pend_caller_completed := True\<rparr>) else None,
                [Inl (ErrTerminal outcome)])
          else (Some (p\<lparr>pend_buffered := Some (Inl (ErrTerminal outcome))\<rparr>), []))"

lemma publish_failure_entry:
  "map_of (fst (publish_failure key outcome p)) k =
     (if k = key then fst (failed_entry outcome (map_of p key)) else map_of p k)"
  "answers k (snd (publish_failure key outcome p)) =
     (if k = key then snd (failed_entry outcome (map_of p key)) else [])"
  by (auto simp: publish_failure_def failed_entry_def complete_operation_def map_filter_simps table
      split: option.splits)

lemma publish_failures_Cons:
  "publish_failures (f # fs) p =
     (case f of
        RequestEffect key (Publish outcome) \<Rightarrow>
          if outcome \<noteq> Response
          then let (p1, out) = publish_failure key outcome p; (p2, out') = publish_failures fs p1 in (p2, out @ out')
          else publish_failures fs p
      | _ \<Rightarrow> publish_failures fs p)"
  by (cases "(f # fs, p)" rule: publish_failures.cases) auto

lemma publish_failures_entry:
  assumes "\<not> publishes fs Response"
  shows "List.map_filter (told_to k) fs = [] \<Longrightarrow>
      map_of (fst (publish_failures fs p)) k = map_of p k \<and> answers k (snd (publish_failures fs p)) = []"
    and "List.map_filter (told_to k) fs = [outcome] \<Longrightarrow>
      map_of (fst (publish_failures fs p)) k = fst (failed_entry outcome (map_of p k)) \<and>
      answers k (snd (publish_failures fs p)) = snd (failed_entry outcome (map_of p k))"
  using assms
  by (induction fs arbitrary: p)
    (auto simp: publish_failures_Cons map_filter_simps split_beta publish_failure_entry
      split: if_splits owner_effect.splits reduce_effect.splits option.splits)

lemma mark_draining_entry:
  "map_of (mark_draining fs p) k =
     (case map_of p k of
        None \<Rightarrow> None
      | Some e \<Rightarrow> Some (if BestEffortWireCancel k \<in> set fs
                        then e\<lparr>pend_draining := True, pend_request_raw := None\<rparr> else e))"
  by (induction fs p rule: mark_draining.induct) (auto simp: table split: option.splits)

lemma cancel_rolled_back_silent [simp]: "silent (snd (cancel_rolled_back_preparations fs ps))"
  by (induction fs ps rule: cancel_rolled_back_preparations.induct) (auto simp: split_beta)

lemma publish_raw_silent [simp]: "silent (snd (publish_raw fs ts))"
  by (induction fs ts rule: publish_raw.induct) (auto simp: split_beta)

lemma apply_owner_effects_fields:
  "auth_state (fst (apply_owner_effects a fs)) = auth_state a"
  "pending (fst (apply_owner_effects a fs)) = pending a"
  "early_responses (fst (apply_owner_effects a fs)) = early_responses a"
  "silent (snd (apply_owner_effects a fs))"
  by (simp_all add: apply_owner_effects_def split_beta)

text \<open>A failure moves a consistent entry of an open request to a consistent one, or removes it,
  and what it answers is no longer due.\<close>

definition entry_due :: "operation_pending option \<Rightarrow> nat" where
  "entry_due entry = (case entry of None \<Rightarrow> 0 | Some p \<Rightarrow> if pend_caller_completed p then 0 else 1)"

lemma failed_entry_ok:
  assumes "pred_option (entry_ok None) entry"
  shows "pred_option (entry_ok (Some outcome)) (fst (failed_entry outcome entry))"
    and "\<forall>r \<in> set (snd (failed_entry outcome entry)). agrees r (Some outcome)"
    and "entry_due (fst (failed_entry outcome entry)) + length (snd (failed_entry outcome entry)) \<le> entry_due entry"
    and "entry = None \<Longrightarrow> fst (failed_entry outcome entry) = None"
  using assms by (cases entry; simp add: failed_entry_def entry_ok_def entry_due_def)+

lemma due_entry: "due k (a, held) =
    (if map_of (pending a) k = None \<and> (get_request (auth_state a) k = None \<or> k \<in> held) then 1
     else entry_due (map_of (pending a) k))"
  by (auto simp: due_def entry_due_def split: option.splits)

text \<open>To show that a step answers once, look at one key at a time.\<close>

lemma answers_onceI:
  assumes inv: "answers_inv (a, held)" and "generation_inv (auth_state a')"
    and known: "\<And>k. get_request (auth_state a') k = None \<longleftrightarrow> get_request (auth_state a) k = None"
    and early: "set (early_responses a') \<subseteq> set (early_responses a)"
    and entry: "\<And>k. map_of (pending a) k = None \<Longrightarrow> map_of (pending a') k = None"
      "\<And>k. pred_option (entry_ok (recorded_outcome a' k)) (map_of (pending a') k)"
    and answer: "\<And>k r. r \<in> set (answers k out) \<Longrightarrow> agrees r (recorded_outcome a' k)"
      "\<And>k. entry_due (map_of (pending a') k) + length (answers k out) \<le> entry_due (map_of (pending a) k)"
    and held: "\<And>k. k \<in> held \<Longrightarrow> recorded_outcome a' k = None"
    and kept: "\<And>k. recorded_outcome a k \<noteq> None \<Longrightarrow> recorded_outcome a' k = recorded_outcome a k"
  shows "answers_once (a, held) (a', held) out"
proof -
  have "get_request (auth_state a') k \<noteq> None" if "map_of (pending a') k = Some p" for k p
    using inv that entry(1) [of k] known [of k] by (cases "map_of (pending a) k") (auto simp: answers_inv_def)
  moreover have "entry_ok (recorded_outcome a' k) p" if "map_of (pending a') k = Some p" for k p
    using entry(2) [of k] that by simp
  moreover have "get_request (auth_state a') k \<noteq> None \<and> map_of (pending a') k = None" if "k \<in> held" for k
    using inv that entry(1) [of k] known [of k] by (auto simp: answers_inv_def)
  ultimately have "answers_inv (a', held)"
    using inv assms(2) early held by (auto simp: answers_inv_def)
  moreover have "due k (a', held) + length (answers k out) \<le> due k (a, held)" for k
  proof (cases "map_of (pending a) k")
    case None
    then show ?thesis
      using entry(1) [OF None] answer(2) [of k] known [of k] by (simp add: due_entry entry_due_def)
  next
    case (Some p)
    then have "get_request (auth_state a') k \<noteq> None" "k \<notin> held"
      using inv known [of k] by (auto simp: answers_inv_def)
    then show ?thesis using Some answer(2) [of k] by (auto simp: due_entry entry_due_def)
  qed
  ultimately show ?thesis using answer(1) kept by (auto simp: answers_once_def)
qed

lemma answers_inv_entry: "answers_inv (a, held) \<Longrightarrow> pred_option (entry_ok (recorded_outcome a k)) (map_of (pending a) k)"
  by (cases "map_of (pending a) k") (auto simp: answers_inv_def)

lemma marked_entry:
  "pred_option (entry_ok oc) (map_of (mark_draining fs p) k) \<longleftrightarrow> pred_option (entry_ok oc) (map_of p k)"
  "entry_due (map_of (mark_draining fs p) k) = entry_due (map_of p k)"
  "map_of (mark_draining fs p) k = None \<longleftrightarrow> map_of p k = None"
  by (auto simp: mark_draining_entry entry_ok_def entry_due_def split: option.splits)

lemma reduce_and_apply_eq:
  assumes "generation_reduce (auth_state a) e = (g, fs)"
  shows "auth_state (fst (reduce_and_apply a e)) = g"
    and "pending (fst (reduce_and_apply a e)) = fst (publish_failures fs (mark_draining fs (pending a)))"
    and "early_responses (fst (reduce_and_apply a e)) = early_responses a"
    and "answers k (snd (reduce_and_apply a e)) = answers k (snd (publish_failures fs (mark_draining fs (pending a))))"
proof -
  let ?a = "fst (apply_operation_effects (a\<lparr>auth_state := g\<rparr>) fs)"
  show "auth_state (fst (reduce_and_apply a e)) = g"
    "pending (fst (reduce_and_apply a e)) = fst (publish_failures fs (mark_draining fs (pending a)))"
    "early_responses (fst (reduce_and_apply a e)) = early_responses a"
    using assms by (simp_all add: reduce_and_apply_def apply_owner_effects_fields apply_operation_effects_def split_beta)
  have "answers k (snd (apply_owner_effects ?a fs)) = []"
    using apply_owner_effects_fields(4) [of ?a fs] by (simp add: silent_def)
  moreover have "answers k (snd (cancel_rolled_back_preparations fs (preparation_cancellations a))) = []"
    using cancel_rolled_back_silent [of fs "preparation_cancellations a"] by (simp add: silent_def)
  ultimately show "answers k (snd (reduce_and_apply a e)) = answers k (snd (publish_failures fs (mark_draining fs (pending a))))"
    using assms by (simp add: reduce_and_apply_def apply_operation_effects_def split_beta)
qed

lemma answers_once_reduce_and_apply:
  assumes inv: "answers_inv (a, {})" and e: "ends_unanswered e"
  shows "answers_once (a, {}) (fst (reduce_and_apply a e), {}) (snd (reduce_and_apply a e))"
proof -
  obtain g fs where red: "generation_reduce (auth_state a) e = (g, fs)" by fastforce
  note eq = reduce_and_apply_eq [OF red]
  have ginv: "generation_inv (auth_state a)" using inv by (simp add: answers_inv_def)
  have no: "\<not> publishes fs Response" using ends_unanswered_no_response [OF e, of "auth_state a"] red by simp
  have "\<not> admits e" using e by (cases e) simp_all
  then have known: "get_request g k = None \<longleftrightarrow> get_request (auth_state a) k = None" for k
    using known_reduce [of e "auth_state a" k] red by simp
  let ?m = "mark_draining fs (pending a)"
  let ?p = "fst (publish_failures fs ?m)" and ?out = "snd (publish_failures fs ?m)"
  have key: "(map_of (pending a) k = None \<longrightarrow> map_of ?p k = None) \<and>
      pred_option (entry_ok (request_terminal_outcome g k)) (map_of ?p k) \<and>
      (\<forall>r \<in> set (answers k ?out). agrees r (request_terminal_outcome g k)) \<and>
      entry_due (map_of ?p k) + length (answers k ?out) \<le> entry_due (map_of (pending a) k) \<and>
      (recorded_outcome a k \<noteq> None \<longrightarrow> request_terminal_outcome g k = recorded_outcome a k)" for k
  proof (cases "\<exists>outcome. recorded_outcome a k = None \<and> request_terminal_outcome g k = Some outcome")
    case True
    then obtain outcome where oc: "recorded_outcome a k = None" "request_terminal_outcome g k = Some outcome" by blast
    then have "List.map_filter (told_to k) fs = [outcome]" using tells_recorded [OF ginv red, of k] by simp
    note p = publish_failures_entry(2) [OF no this, of ?m]
    have "pred_option (entry_ok None) (map_of ?m k)" using answers_inv_entry [OF inv, of k] oc by (simp add: marked_entry)
    from failed_entry_ok [OF this, of outcome] show ?thesis using oc p by (simp add: marked_entry)
  next
    case False
    then have "List.map_filter (told_to k) fs = []" and oc: "request_terminal_outcome g k = recorded_outcome a k"
      using tells_recorded [OF ginv red, of k] by (auto split: option.splits)
    note p = publish_failures_entry(1) [OF no this(1), of ?m]
    then show ?thesis using answers_inv_entry [OF inv, of k] oc by (simp add: marked_entry)
  qed
  show ?thesis
    using generation_reduce_inv [OF ginv, of e] red known key
    by (intro answers_onceI [OF inv]) (simp_all add: eq)
qed

end
