(* ===== verification/Engine_Deliveries.thy ===== *)
theory Engine_Deliveries
  imports Engine_Answers
begin

text \<open>
  Each arm of the owner task answers every caller at most once (\<open>answers_once\<close>): responses,
  admissions, preparations, writes, control commands, deadlines and the teardown.
\<close>

section \<open>Responses\<close>

definition completed_entry ::
  "operation_answer \<Rightarrow> operation_pending option \<Rightarrow> operation_pending option \<times> operation_answer list" where
  "completed_entry answer entry =
     (case entry of
        None \<Rightarrow> (None, [])
      | Some p \<Rightarrow>
          let (p', answer') = (case answer of
                Inr done \<Rightarrow>
                  if result_request_raw done = None
                  then (p\<lparr>pend_request_raw := None\<rparr>, Inr (done\<lparr>result_request_raw := pend_request_raw p\<rparr>))
                  else (p, answer)
              | Inl _ \<Rightarrow> (p, answer))
          in if pend_terminal p' then (None, [answer']) else (Some (p'\<lparr>pend_buffered := Some answer'\<rparr>), []))"

lemma complete_operation_entry:
  "map_of (fst (complete_operation p key answer)) k =
     (if k = key then fst (completed_entry answer (map_of p key)) else map_of p k)"
  "answers k (snd (complete_operation p key answer)) =
     (if k = key then snd (completed_entry answer (map_of p key)) else [])"
  by (auto simp: complete_operation_def completed_entry_def Let_def map_filter_simps table
      split: option.splits sum.splits)

lemma completed_entry_ok:
  assumes "pred_option (entry_ok None) entry"
  shows "pred_option (entry_ok (Some Response)) (fst (completed_entry (Inr result) entry))"
    and "\<forall>r \<in> set (snd (completed_entry (Inr result) entry)). agrees r (Some Response)"
    and "entry_due (fst (completed_entry (Inr result) entry)) + length (snd (completed_entry (Inr result) entry)) \<le> entry_due entry"
    and "entry = None \<Longrightarrow> fst (completed_entry (Inr result) entry) = None"
  using assms by (cases entry; simp add: completed_entry_def entry_ok_def entry_due_def)+

lemma reduce_final:
  "told_to k (RequestEffect key (snd (request_reduce l (EvFinalResponse key')))) \<in> {None, Some Response}"
  by (simp add: request_reduce.simps request_defs)

lemma told_other: "k \<noteq> key \<Longrightarrow> told_to k (RequestEffect key f) = None"
  by (cases f) simp_all

lemma final_told:
  "List.map_filter (told_to k) (snd (on_response s key LastResponse grant)) \<in> (if k = key then {[], [Response]} else {[]})"
proof (cases "get_request s key")
  case (Some r)
  obtain s1 r1 where acc: "account_response s r grant = (s1, r1)" by fastforce
  show ?thesis
  proof (cases "k = key")
    case True
    then show ?thesis
      using Some reduce_final [of key key "lifecycle r1" key]
      by (auto simp: on_response_def Let_def acc split_beta map_filter_simps changed_async_def conflicting_async_def
          split: option.splits response_progress.splits)
  next
    case False
    then show ?thesis
      using Some
      by (auto simp: on_response_def Let_def acc split_beta map_filter_simps changed_async_def conflicting_async_def told_other
          split: option.splits response_progress.splits)
  qed
qed (auto simp: on_response_def map_filter_simps split: option.splits)

lemma publishes_response_told:
  "publishes_response_to key f \<longleftrightarrow> told_to key f = Some Response"
  by (cases "(key, f)" rule: publishes_response_to.cases) auto

lemma list_ex_told:
  "list_ex (publishes_response_to key) fs \<longleftrightarrow> Response \<in> set (List.map_filter (told_to key) fs)"
  by (induction fs) (auto simp: publishes_response_told map_filter_simps split: option.splits)

lemma apply_owner_effects_once:
  assumes "answers_once h (a, held) out"
  shows "answers_once h (fst (apply_owner_effects a fs), held) (out @ snd (apply_owner_effects a fs))"
  using assms answers_once_frame [OF answers_once_inv [OF assms]]
  by (intro answers_once_trans [OF assms] answers_once_frame [OF answers_once_inv [OF assms]])
    (simp_all add: apply_owner_effects_fields)

text \<open>The final response of an operation: its entry is completed when the response is what the
  caller is told, and otherwise dropped if the operation was only draining.\<close>

definition finish_entry :: "bool \<Rightarrow> operation_answer \<Rightarrow> request_key \<Rightarrow> pending_table \<Rightarrow> pending_table \<times> engine_output list" where
  "finish_entry published answer key p =
     (if published then complete_operation p key answer
      else if (case map_of p key of None \<Rightarrow> False | Some e \<Rightarrow> pend_draining e) then (AList.delete key p, [])
      else (p, []))"

lemma answers_once_final:
  assumes inv: "answers_inv (a, held)" and "map_of (pending a) key \<noteq> None"
    and red: "generation_reduce (auth_state a) (ResponseArrived key LastResponse grant) = (g, fs)"
    and fin: "finish_entry (list_ex (publishes_response_to key) fs) (Inr result) key (pending a) = (p, out)"
  shows "answers_once (a, held) (a\<lparr>auth_state := g, pending := p\<rparr>, held) out"
proof -
  let ?e = "ResponseArrived key LastResponse grant"
  have ginv: "generation_inv (auth_state a)" using inv by (simp add: answers_inv_def)
  have known: "get_request g k = None \<longleftrightarrow> get_request (auth_state a) k = None" for k
    using known_reduce [of ?e "auth_state a" k] red by simp
  have told: "List.map_filter (told_to k) fs \<in> (if k = key then {[], [Response]} else {[]})" for k
    using final_told [of k "auth_state a" key grant] red by simp
  have oc: "request_terminal_outcome g k =
      (if List.map_filter (told_to k) fs = [Response] then Some Response else recorded_outcome a k)"
    and fresh: "List.map_filter (told_to k) fs = [Response] \<Longrightarrow> recorded_outcome a k = None" for k
    using tells_recorded [OF ginv red, of k] told [of k] by (auto split: option.splits if_splits)
  have published: "list_ex (publishes_response_to key) fs \<longleftrightarrow> List.map_filter (told_to key) fs = [Response]"
    using told [of key] by (auto simp: list_ex_told)
  have key: "(map_of (pending a) k = None \<longrightarrow> map_of p k = None) \<and>
      pred_option (entry_ok (request_terminal_outcome g k)) (map_of p k) \<and>
      (\<forall>r \<in> set (answers k out). agrees r (request_terminal_outcome g k)) \<and>
      entry_due (map_of p k) + length (answers k out) \<le> entry_due (map_of (pending a) k)" for k
  proof (cases "k = key \<and> List.map_filter (told_to key) fs = [Response]")
    case True
    then have "pred_option (entry_ok None) (map_of (pending a) key)"
      using answers_inv_entry [OF inv, of key] fresh [of key] by simp
    from completed_entry_ok [OF this, of result] True show ?thesis
      using complete_operation_entry [where p = "pending a" and key = key and answer = "Inr result" and k = key] fin published oc [of key]
      by (simp add: finish_entry_def)
  next
    case False
    then have same: "request_terminal_outcome g k = recorded_outcome a k" using told [of k] oc [of k] by (auto split: if_splits)
    have "answers k out = [] \<and> (map_of p k = map_of (pending a) k \<or> map_of p k = None)"
      using False fin published complete_operation_entry [where p = "pending a" and key = key and answer = "Inr result" and k = k]
      by (auto simp: finish_entry_def table map_filter_simps split: if_splits option.splits)
    then show ?thesis using answers_inv_entry [OF inv, of k] by (auto simp: same entry_due_def)
  qed
  have held: "request_terminal_outcome g k = None" if "k \<in> held" for k
    using inv that assms(2) told [of k] oc [of k] by (auto simp: answers_inv_def split: if_splits)
  show ?thesis
    using generation_reduce_inv [OF ginv, of ?e] red known key oc fresh held
    by (intro answers_onceI [OF inv]) auto
qed

lemma answers_once_response:
  assumes inv: "answers_inv (a, held)" and hint: "\<not> resp_recovery_hint m"
    and step: "process_decoded_response m a fatal = (a', fatal', out)"
  shows "answers_once (a, held) (a', held) out"
proof (cases "map_of (pending a) (RequestKey (generation (auth_state a)) (resp_message_id m))")
  case None
  then show ?thesis using step answers_once_refl [OF inv] by (simp add: process_decoded_response_def Let_def)
next
  case (Some entry)
  let ?key = "RequestKey (generation (auth_state a)) (resp_message_id m)"
  let ?result = "\<lparr>result_key = ?key, result_response = m, result_request_raw = None\<rparr>"
  obtain g fs where red: "generation_reduce (auth_state a) (ResponseArrived ?key LastResponse (resp_credits m)) = (g, fs)"
    by fastforce
  obtain p out2 where fin: "finish_entry (list_ex (publishes_response_to ?key) fs) (Inr ?result) ?key (pending a) = (p, out2)"
    by fastforce
  obtain ts out1 where raw: "publish_raw fs (terminals a) = (ts, out1)" by fastforce
  let ?a = "a\<lparr>terminals := ts\<rparr>"
  have first: "answers_once (a, held) (?a, held) out1"
    using publish_raw_silent [of fs "terminals a"] raw by (intro answers_once_frame [OF inv]) simp_all
  have "answers_once (?a, held) (?a\<lparr>auth_state := g, pending := p\<rparr>, held) out2"
    using red fin Some by (intro answers_once_final [OF answers_once_inv [OF first]]) simp_all
  note final = answers_once_trans [OF first this]
  have "(a' = a \<and> out = []) \<or> (\<exists>e. quiet e \<and> a' = reduce_state a e \<and> out = []) \<or>
      (a' = ?a\<lparr>auth_state := g, pending := p\<rparr> \<and> out = out1 @ out2)"
    using step Some hint red fin raw
    by (auto simp: process_decoded_response_def finish_entry_def apply_owner_effects_def Let_def split_beta
        split: if_splits option.splits intro!: exI [of _ "ResponseArrived _ (PendingResponse _) _"])
  then show ?thesis using final answers_once_refl [OF inv] answers_once_quiet [OF inv] by auto
qed

lemma answers_once_early:
  assumes inv: "answers_inv (a, held)" and step: "take_early_response key a fatal = (a', fatal', out)"
  shows "answers_once (a, held) (a', held) out"
proof (cases "map_of (early_responses a) key")
  case None
  then show ?thesis using step answers_once_refl [OF inv] by (simp add: take_early_response_def)
next
  case (Some m)
  let ?a = "a\<lparr>early_responses := AList.delete key (early_responses a)\<rparr>"
  have "answers_once (a, held) (?a, held) []"
    by (rule answers_once_frame [OF inv]) (auto simp: AList.delete_eq)
  moreover have "answers_once (?a, held) (a', held) out"
    using step Some inv map_of_SomeD [OF Some]
    by (intro answers_once_response [OF answers_once_inv [OF calculation]])
      (auto simp: take_early_response_def answers_inv_def)
  ultimately show ?thesis using answers_once_trans by fastforce
qed

section \<open>Admissions\<close>

lemma admit_cases:
  assumes "admit g bytes charge dl = (g', effect)"
  obtains (rejected) e where "effect = AdmissionRejected e" "g' = g"
  | (admitted) m plan where "effect = Admitted plan" "next_message_id g = Some m"
      "plan_key plan = RequestKey (generation g) m"
      "lifecycle_at g' = (lifecycle_at g)(plan_key plan := Some (request_new (plan_key plan)))"
proof (cases "admission_rejection g bytes charge")
  case None
  then obtain m where m: "next_message_id g = Some m" by (auto simp: admission_rejection_None)
  let ?plan = "\<lparr>plan_key = RequestKey (generation g) m, plan_payload_bytes = bytes, plan_credit_charge = charge,
      plan_credit_request = admission_credit_request g charge, plan_caller_deadline = dl\<rparr>"
  show ?thesis
    using admit_Some [OF None m, of dl] assms m
    by (intro admitted [of ?plan m]) (auto simp: admitted_state_lifecycle split: option.splits)
next
  case (Some e)
  with assms show ?thesis by (intro rejected) (auto simp: admit_rejected)
qed

lemma answers_once_admit:
  assumes inv: "answers_inv (a, held)"
    and admit: "admit (auth_state a) bytes charge dl = (g, Admitted plan)"
  shows "answers_once (a, held) (a\<lparr>auth_state := g\<rparr>, insert (plan_key plan) held) []"
  using admit
proof (cases rule: admit_cases)
  case (admitted m plan')
  let ?k = "plan_key plan"
  have ginv: "generation_inv (auth_state a)" using inv by (simp add: answers_inv_def)
  have lc: "lifecycle_at g = (lifecycle_at (auth_state a))(?k := Some (request_new ?k))"
    using admitted by simp
  have fresh: "get_request (auth_state a) ?k = None" using fresh_key [OF ginv] admitted by auto
  then have new: "map_of (pending a) ?k = None"
    using inv unfolding answers_inv_def case_prod_conv by (metis option.exhaust)
  have none: "recorded_outcome a ?k = None" using fresh by (simp add: request_terminal_outcome_def)
  then have oc: "request_terminal_outcome g k = recorded_outcome a k" for k
    using lc by (auto simp: request_terminal_outcome_bind request_outcome_def request_new_def)
  have known: "get_request g k = None \<longleftrightarrow> k \<noteq> ?k \<and> get_request (auth_state a) k = None" for k
    by (simp add: get_request_None lc)
  then have knows: "(\<exists>r. get_request g k = Some r) \<longleftrightarrow> k = ?k \<or> (\<exists>r. get_request (auth_state a) k = Some r)" for k
    by (metis option.exhaust option.distinct(1))
  have "generation_inv g" using admit_inv [OF ginv, of bytes charge dl] admit by simp
  then have "answers_inv (a\<lparr>auth_state := g\<rparr>, insert ?k held)"
    using inv new none by (auto simp: answers_inv_def knows oc)
  moreover have "due k (a\<lparr>auth_state := g\<rparr>, insert ?k held) = due k (a, held)" for k
    using fresh new by (auto simp: due_def known split: option.splits)
  ultimately show ?thesis by (simp add: answers_once_def map_filter_simps oc)
qed simp

lemma admit_rejected_same: "admit g bytes charge dl = (g', AdmissionRejected e) \<Longrightarrow> g' = g"
  by (erule admit_cases) simp_all

lemma new_pending_ok [simp]: "entry_ok None (new_pending op raw terminal)"
  by (simp add: entry_ok_def new_pending_def)

lemma answers_once_insert:
  assumes inv: "answers_inv (a, held)" and key: "key \<in> held"
  shows "answers_once (a, held) (insert_pending key (new_pending op raw terminal) a, held - {key}) []"
proof -
  let ?a = "insert_pending key (new_pending op raw terminal) a"
  have held: "get_request (auth_state a) key \<noteq> None" "map_of (pending a) key = None" "recorded_outcome a key = None"
    using inv key by (auto simp: answers_inv_def)
  then have "answers_inv (?a, held - {key})"
    using inv by (simp add: answers_inv_def insert_pending_def table)
  moreover have "due k (?a, held - {key}) \<le> due k (a, held)" for k
    using held key
    by (cases "k = key") (auto simp: due_def insert_pending_def table new_pending_def split: option.splits)
  ultimately show ?thesis by (simp add: answers_once_def map_filter_simps insert_pending_def)
qed

lemma prepare_failed_told:
  "k \<noteq> key \<Longrightarrow> List.map_filter (told_to k) (snd (on_prepare_failed s key)) = []"
  by (auto simp: on_prepare_failed_def Let_def split_beta map_filter_simps told_other split: option.splits)

lemma answers_once_prepare_failed:
  assumes inv: "answers_inv (a, held)" and key: "map_of (pending a) key = None"
  shows "answers_once (a, held) (reduce_state a (PrepareFailed key), held - {key}) []"
proof -
  have first: "answers_once (a, held) (a, held - {key}) []"
    by (rule answers_once_release [OF inv]) auto
  have "answers_once (a, held - {key}) (reduce_state a (PrepareFailed key), held - {key}) []"
    using key
    by (intro answers_once_reduce_state [OF answers_once_inv [OF first]]) (simp, simp, rule prepare_failed_told, auto)
  from answers_once_trans [OF first this] show ?thesis by simp
qed

lemma answers_once_refuse_prepared:
  assumes inv: "answers_inv (a, held)" and key: "key \<in> held"
  shows "answers_once (a, held) (a, held - {key}) [Deliver key (Inl (ErrWire ''prepare-outgoing''))]"
proof -
  have "get_request (auth_state a) key \<noteq> None" "map_of (pending a) key = None"
    using inv key by (auto simp: answers_inv_def)
  then have "due k (a, held - {key}) + length (answers k [Deliver key (Inl (ErrWire ''prepare-outgoing''))]) \<le> due k (a, held)" for k
    using key by (cases "k = key") (auto simp: due_def map_filter_simps split: option.splits)
  moreover have "answers_inv (a, held - {key})"
    by (rule answers_once_inv [OF answers_once_release [OF inv, of _ "[]"]]) auto
  moreover have "agrees r (recorded_outcome a k)"
    if "r \<in> set (answers k [Deliver key (Inl (ErrWire ''prepare-outgoing''))])" for k r
    using that by (auto simp: map_filter_simps split: if_splits)
  ultimately show ?thesis by (simp only: answers_once_def fst_conv) blast
qed

definition with_auth :: "engine \<Rightarrow> engine \<Rightarrow> engine_output list \<Rightarrow> bool" where
  "with_auth s s' out \<longleftrightarrow> answers_once (eng_auth s, {}) (eng_auth s', {}) out"

lemma push_frame_auth [simp]: "eng_auth (push_frame keys frame s) = eng_auth s"
  by (simp add: push_frame_def)

lemma refuse_silent [simp]: "silent (refuse_operation c e)"
  by (simp add: refuse_operation_def)

lemma with_early_response_once:
  assumes inv: "answers_inv (eng_auth s, {})"
  shows "with_auth s (fst (with_early_response key s)) (snd (with_early_response key s))"
  using answers_once_early [OF inv, of key "eng_fatal s"]
  by (cases "take_early_response key (eng_auth s) (eng_fatal s)")
    (simp add: with_auth_def with_early_response_def)

end
