(* ===== verification/Engine_Contract.thy ===== *)
theory Engine_Contract
  imports Engine_Deliveries Generation_Contract
begin

text \<open>
  The owner task as a whole: every arm of the loop answers each caller at most once, over every
  schedule of its arms.
\<close>

section \<open>Operations\<close>

definition sound_result :: "holding \<Rightarrow> engine_result \<Rightarrow> bool" where
  "sound_result h r \<longleftrightarrow> (\<forall>s' out. r = Some (s', out) \<longrightarrow> answers_once h (eng_auth s', {}) out)"

lemma sound_result_simps [simp]:
  "sound_result h None"
  "sound_result h (Some (s', out)) \<longleftrightarrow> answers_once h (eng_auth s', {}) out"
  by (simp_all add: sound_result_def)

lemma sound_result_Some: "sound_result h (Some p) \<longleftrightarrow> answers_once h (eng_auth (fst p), {}) (snd p)"
  by (cases p) simp

lemma sound_result_trans: "answers_once h h' [] \<Longrightarrow> sound_result h' r \<Longrightarrow> sound_result h r"
  unfolding sound_result_def by (metis answers_once_trans append_Nil)

lemma with_early_response_once':
  "answers_inv (eng_auth s, {}) \<Longrightarrow> with_early_response key s = (s', out) \<Longrightarrow>
     answers_once (eng_auth s, {}) (eng_auth s', {}) out"
  using with_early_response_once [of s key] by (simp add: with_auth_def)

lemma admitted_operation_sound:
  assumes inv: "answers_inv (eng_auth s, {plan_key plan})"
  shows "sound_result (eng_auth s, {plan_key plan}) (admitted_operation c plan retain_raw decision s)"
proof -
  let ?key = "plan_key plan"
  have pend: "map_of (pending (eng_auth s)) ?key = None" using inv by (simp add: answers_inv_def)
  have insert: "answers_once (eng_auth s, {?key}) (insert_pending ?key (new_pending op raw terminal) (eng_auth s), {}) []"
    for op raw terminal
    using answers_once_insert [OF inv, of ?key op raw terminal] by simp
  show ?thesis
  proof (cases decision)
    case (PreparedNow result)
    show ?thesis
    proof (cases result)
      case None
      note refuse = answers_once_refuse_prepared [OF inv, of ?key]
      have "answers_once (eng_auth s, {?key}) (reduce_state (eng_auth s) (PrepareFailed ?key), {}) []"
        using answers_once_prepare_failed [OF inv pend] by simp
      moreover have "answers_once (eng_auth s, {?key}) (reduce_state (eng_auth s) (PrepareFailed ?key), {})
          ([Deliver ?key (Inl (ErrWire ''prepare-outgoing''))] @ [])"
        using refuse answers_once_prepare_failed [OF answers_once_inv [OF refuse] pend]
        by (intro answers_once_trans [OF refuse]) simp_all
      ultimately have "answers_once (eng_auth s, {?key}) (reduce_state (eng_auth s) (PrepareFailed ?key), {})
          ((if adm_terminal c then [Deliver ?key (Inl (ErrWire ''prepare-outgoing''))] else []) @ [Acknowledge e])" for e
        by (intro answers_once_silent(2)) simp_all
      then show ?thesis using None PreparedNow by (simp add: admitted_operation_def Let_def)
    next
      case (Some frame)
      let ?raw = "first_segment retain_raw frame"
      let ?s = "push_frame [?key] frame (s\<lparr>eng_auth := insert_pending ?key
        (new_pending (adm_operation c) ?raw (adm_terminal c)) (eng_auth s)\<rparr>)"
      obtain s2 out where early: "with_early_response ?key ?s = (s2, out)" by fastforce
      have "answers_once (eng_auth ?s, {}) (eng_auth s2, {}) out"
        using answers_once_inv [OF insert] by (intro with_early_response_once' [OF _ early]) simp
      then have "answers_once (eng_auth s, {?key}) (eng_auth s2, {}) ([] @ out)"
        by (intro answers_once_trans [OF insert]) simp
      then show ?thesis
        using Some PreparedNow early by (simp add: admitted_operation_def Let_def answers_once_Cons)
    qed
  next
    case PreparedLater
    have "answers_once (eng_auth s, {?key}) (insert_pending ?key (new_pending (adm_operation c) None (adm_terminal c)) (eng_auth s)
        \<lparr>preparation_cancellations := ps\<rparr>, {}) []" for ps
      using answers_once_trans [OF insert answers_once_frame [OF answers_once_inv [OF insert], of "[]"]] by simp
    then show ?thesis
      using PreparedLater by (auto simp: admitted_operation_def Let_def split: option.splits)
  qed
qed

text \<open>What follows an admission, on both of its results.\<close>

lemma sound_admission:
  assumes inv: "answers_inv (eng_auth s, {})"
    and admit: "admit (auth_state (eng_auth s)) bytes charge dl = (g, effect)"
    and admitted: "\<And>plan s'. effect = Admitted plan \<Longrightarrow> answers_inv (eng_auth s', {plan_key plan}) \<Longrightarrow>
      eng_auth s' = (eng_auth s)\<lparr>auth_state := g\<rparr> \<Longrightarrow> sound_result (eng_auth s', {plan_key plan}) (f s' plan)"
    and rejected: "\<And>e. silent (r e)"
  shows "sound_result (eng_auth s, {})
    (let s' = s\<lparr>eng_auth := (eng_auth s)\<lparr>auth_state := g\<rparr>\<rparr> in
     case effect of Admitted plan \<Rightarrow> f s' plan | AdmissionRejected e \<Rightarrow> Some (s', r (ErrAdmission e))
     | _ \<Rightarrow> Some (s', r ErrOwnerTerminated))"
  using admit
proof (cases rule: admit_cases)
  case (rejected e)
  then show ?thesis
    using answers_once_silent(1) [OF assms(4) answers_once_refl [OF inv], of "ErrAdmission e"] by simp
next
  case (admitted m plan)
  let ?s = "s\<lparr>eng_auth := (eng_auth s)\<lparr>auth_state := g\<rparr>\<rparr>"
  have first: "answers_once (eng_auth s, {}) (eng_auth ?s, {plan_key plan}) []"
    using answers_once_admit [OF inv, of bytes charge dl g plan] admit admitted by simp
  have "sound_result (eng_auth ?s, {plan_key plan}) (f ?s plan)"
    using admitted(1) answers_once_inv [OF first] by (rule assms(3)) simp
  then have "sound_result (eng_auth s, {}) (f ?s plan)" by (rule sound_result_trans [OF first])
  then show ?thesis using admitted by (simp add: Let_def)
qed

lemma sound_result_map:
  "sound_result h r \<Longrightarrow> (\<And>k. answer_to k x = None) \<Longrightarrow> sound_result h (map_option (\<lambda>(s', out). (s', x # out)) r)"
  by (auto simp: sound_result_def answers_once_Cons)

lemma process_operation_admission_sound:
  assumes inv: "answers_inv (eng_auth s, {})"
  shows "sound_result (eng_auth s, {}) (process_operation_admission c cmac retain_raw decision s)"
proof -
  have refuse: "answers_once (eng_auth s, {}) (eng_auth s, {}) (refuse_operation c e)" for e
    using answers_once_silent(1) [OF refuse_silent answers_once_refl [OF inv]] by simp
  let ?f = "\<lambda>s' plan. map_option (\<lambda>(s', out). (s', PrepareFrame plan cmac # out))
      (admitted_operation c plan retain_raw decision s')"
  have f: "sound_result (eng_auth s', {plan_key plan}) (?f s' plan)" if "answers_inv (eng_auth s', {plan_key plan})" for s' plan
    using admitted_operation_sound [OF that] by (rule sound_result_map) simp
  note step = sound_admission [OF inv, where f = ?f and r = "refuse_operation c", OF _ f refuse_silent]
  show ?thesis
    using refuse answers_once_refl [OF inv] step
    by (auto simp: process_operation_admission_def Let_def split_beta split: option.splits sum.splits)
qed

section \<open>Preparations\<close>

lemma answers_once_forget:
  assumes inv: "answers_inv (a, {})"
    and out: "silent out \<or> (\<exists>p. map_of (pending a) key = Some p \<and> pend_terminal p \<and>
      out = [Deliver key (Inl (ErrWire ''prepare-outgoing''))])"
  shows "answers_once (a, {}) (a\<lparr>pending := AList.delete key (pending a)\<rparr>, {}) out"
proof (rule answers_onceI [OF inv])
  fix k
  show "pred_option (entry_ok (recorded_outcome (a\<lparr>pending := AList.delete key (pending a)\<rparr>) k))
      (map_of (pending (a\<lparr>pending := AList.delete key (pending a)\<rparr>)) k)"
    using answers_inv_entry [OF inv, of k] by (simp add: table)
  show "agrees r (recorded_outcome (a\<lparr>pending := AList.delete key (pending a)\<rparr>) k)" if "r \<in> set (answers k out)" for r
    using out that by (auto simp: silent_def map_filter_simps split: if_splits)
  have "\<not> pend_caller_completed p" if "map_of (pending a) key = Some p" "pend_terminal p" for p
    using answers_inv_entry [OF inv, of key] that by (auto simp: entry_ok_def)
  then show "entry_due (map_of (pending (a\<lparr>pending := AList.delete key (pending a)\<rparr>)) k) + length (answers k out)
      \<le> entry_due (map_of (pending a) k)"
    using out by (auto simp: silent_def map_filter_simps entry_due_def table)
qed (use inv in \<open>auto simp: answers_inv_def table\<close>)

lemma answers_once_raw:
  assumes inv: "answers_inv (a, {})" and entry: "map_of (pending a) key = Some p"
  shows "answers_once (a, {}) (insert_pending key (p\<lparr>pend_request_raw := raw\<rparr>) a, {}) []"
proof (rule answers_onceI [OF inv])
  fix k
  show "pred_option (entry_ok (recorded_outcome (insert_pending key (p\<lparr>pend_request_raw := raw\<rparr>) a) k))
      (map_of (pending (insert_pending key (p\<lparr>pend_request_raw := raw\<rparr>) a)) k)"
    using answers_inv_entry [OF inv, of k] entry by (auto simp: insert_pending_def table entry_ok_def)
qed (use inv entry in \<open>auto simp: answers_inv_def table insert_pending_def entry_due_def map_filter_simps\<close>)

lemma finish_prepared_operation_once:
  assumes inv: "answers_inv (eng_auth s, {})" and step: "finish_prepared_operation prepared s = (s', out)"
  shows "answers_once (eng_auth s, {}) (eng_auth s', {}) out"
proof -
  let ?key = "prep_key prepared"
  let ?a = "(eng_auth s)\<lparr>preparation_cancellations := removeAll ?key (preparation_cancellations (eng_auth s))\<rparr>"
  let ?forget = "?a\<lparr>pending := AList.delete ?key (pending ?a)\<rparr>"
  have first: "answers_once (eng_auth s, {}) (?a, {}) []" by (rule answers_once_frame [OF inv]) simp_all
  note inv' = answers_once_inv [OF first]
  have onward: "answers_once (?a, {}) (a', {}) out' \<Longrightarrow> answers_once (eng_auth s, {}) (a', {}) out'" for a' out'
    using answers_once_trans [OF first] by (metis append_Nil)
  have forget: "answers_once (?a, {}) (?forget, {}) [Acknowledge e]" for e
    by (rule answers_once_forget [OF inv']) simp
  have failed: "answers_once (?a, {}) (reduce_state ?forget (PrepareFailed ?key), {}) (answer @ [Acknowledge e])"
    if "answer = [] \<or> (\<exists>p. map_of (pending ?a) ?key = Some p \<and> pend_terminal p \<and>
      answer = [Deliver ?key (Inl (ErrWire ''prepare-outgoing''))])" for answer e
  proof -
    have drop: "answers_once (?a, {}) (?forget, {}) answer"
      using that by (intro answers_once_forget [OF inv']) auto
    from answers_once_prepare_failed [OF answers_once_inv [OF drop], of ?key]
    have "answers_once (?forget, {}) (reduce_state ?forget (PrepareFailed ?key), {}) []" by (simp add: table)
    from answers_once_trans [OF drop this] have "answers_once (?a, {}) (reduce_state ?forget (PrepareFailed ?key), {}) answer"
      by simp
    then show ?thesis by (rule answers_once_silent(2) [rotated]) simp
  qed
  show ?thesis
  proof (cases "\<exists>r frame p. get_request (auth_state ?a) ?key = Some r \<and> rec_caller (lifecycle r) = Open \<and>
      prep_result prepared = Some frame \<and> map_of (pending ?a) ?key = Some p")
    case True
    then obtain r frame p where ok: "get_request (auth_state ?a) ?key = Some r" "rec_caller (lifecycle r) = Open"
      "prep_result prepared = Some frame" "map_of (pending ?a) ?key = Some p" by blast
    let ?raw = "first_segment (prep_retain_raw prepared) frame"
    let ?s = "push_frame [?key] frame (s\<lparr>eng_auth := insert_pending ?key (p\<lparr>pend_request_raw := ?raw\<rparr>) ?a\<rparr>)"
    obtain s2 out2 where early: "with_early_response ?key ?s = (s2, out2)" by fastforce
    note raw = answers_once_raw [OF inv' ok(4), of ?raw]
    have "answers_once (eng_auth ?s, {}) (eng_auth s2, {}) out2"
      using answers_once_inv [OF raw] by (intro with_early_response_once' [OF _ early]) simp
    then have "answers_once (?a, {}) (eng_auth s2, {}) ([] @ out2)" by (intro answers_once_trans [OF raw]) simp
    then have "answers_once (?a, {}) (eng_auth s2, {}) (Acknowledge e # out2)" for e by (simp add: answers_once_Cons)
    then show ?thesis
      using onward step ok early by (auto simp: finish_prepared_operation_def Let_def)
  next
    case False
    have missing: "answers_once (?a, {}) (?a, {}) [Acknowledge e]" for e
      using answers_once_refl [OF inv'] by (simp add: answers_once_Cons)
    have "answers_once (?a, {}) (eng_auth s', {}) out"
      using step False forget failed missing
      by (auto simp: finish_prepared_operation_def Let_def split: option.splits caller_outcome.splits)
    then show ?thesis by (rule onward)
  qed
qed

lemma finish_prepared_operations_once:
  "answers_inv (eng_auth s, {}) \<Longrightarrow> finish_prepared_operations ready s = (s', out) \<Longrightarrow>
     answers_once (eng_auth s, {}) (eng_auth s', {}) out"
proof (induction ready arbitrary: s s' out)
  case Nil
  then show ?case by (simp add: answers_once_refl)
next
  case (Cons prepared ready)
  obtain s1 out1 where one: "finish_prepared_operation prepared s = (s1, out1)" by fastforce
  obtain out2 where rest: "finish_prepared_operations ready s1 = (s', out2)" and out: "out = out1 @ out2"
    using Cons.prems(2) one by (auto split: prod.splits)
  note first = finish_prepared_operation_once [OF Cons.prems(1) one]
  show ?case unfolding out by (rule answers_once_trans [OF first Cons.IH [OF answers_once_inv [OF first] rest]])
qed

lemma preparation_done_sound:
  "answers_inv (eng_auth s, {}) \<Longrightarrow> sound_result (eng_auth s, {}) (preparation_done key result s)"
  using finish_prepared_operations_once [of "s\<lparr>preparations := p, preparation_order := q\<rparr>" for p q]
  by (auto simp: preparation_done_def answers_once_refl sound_result_Some split: option.splits)

section \<open>Compound chains and raw requests\<close>

lemma answers_once_fail_members:
  assumes "answers_inv (a, held)" and "\<forall>key \<in> set keys. map_of (pending a) key = None"
  shows "answers_once (a, held) (fail_members keys a, held - set keys) []"
  using assms
proof (induction keys arbitrary: a held)
  case Nil
  then show ?case by (simp add: fail_members_def answers_once_refl)
next
  case (Cons key keys)
  let ?a = "reduce_state a (PrepareFailed key)"
  have first: "answers_once (a, held) (?a, held - {key}) []"
    using Cons.prems by (intro answers_once_prepare_failed) simp_all
  have "answers_once (?a, held - {key}) (fail_members keys ?a, held - {key} - set keys) []"
    using Cons.prems(2) by (intro Cons.IH answers_once_inv [OF first]) (simp add: reduce_state_def)
  moreover have "held - {key} - set keys = held - set (key # keys)" by auto
  ultimately have "answers_once (?a, held - {key}) (fail_members (key # keys) a, held - set (key # keys)) []"
    by (simp add: fail_members_def)
  from answers_once_trans [OF first this] show ?case by simp
qed

definition member_keys :: "runtime_error + (request_key \<times> typed_operation) list \<Rightarrow> request_key list" where
  "member_keys r = (case r of Inl _ \<Rightarrow> [] | Inr members \<Rightarrow> map fst members)"

lemma held_pending: "answers_inv (a, held) \<Longrightarrow> k \<in> held \<Longrightarrow> map_of (pending a) k = None"
  by (simp add: answers_inv_def)

lemma admit_members_once:
  assumes "answers_inv (a, set (map fst admitted))" and "distinct (map fst admitted)"
    and "admit_members deadline ops admitted a = (a', r, out)"
  shows "answers_once (a, set (map fst admitted)) (a', set (member_keys r)) out \<and> distinct (member_keys r)"
  using assms
proof (induction ops arbitrary: admitted a a' r out)
  case Nil
  then show ?case by (auto simp: member_keys_def answers_once_refl)
next
  case (Cons op ops)
  let ?held = "set (map fst admitted)"
  have undo: "answers_once (a, ?held) (fail_members (map fst admitted) a, {}) []"
    using answers_once_fail_members [OF Cons.prems(1), of "map fst admitted"] held_pending [OF Cons.prems(1)] by simp
  show ?case
  proof (cases "operation_credit_charge op (auth_large_mtu a)")
    case (Inl e)
    then show ?thesis using Cons.prems(3) undo by (auto simp: member_keys_def Let_def)
  next
    case (Inr charge)
    obtain g effect where admit: "admit (auth_state a) (operation_payload_bytes op) charge deadline = (g, effect)"
      by fastforce
    then show ?thesis
    proof (cases rule: admit_cases)
      case (rejected e)
      then show ?thesis using Inr Cons.prems(3) undo admit by (auto simp: member_keys_def Let_def)
    next
      case (admitted m plan)
      let ?key = "plan_key plan" and ?a = "a\<lparr>auth_state := g\<rparr>" and ?members = "admitted @ [(plan_key plan, op)]"
      obtain out2 where rest: "admit_members deadline ops ?members ?a = (a', r, out2)" and
        out: "out = PrepareFrame plan False # out2"
        using Inr Cons.prems(3) admit admitted(1) by (auto simp: Let_def split: prod.splits)
      have first: "answers_once (a, ?held) (?a, set (map fst ?members)) []"
        using answers_once_admit [OF Cons.prems(1), of _ charge deadline g plan] admit admitted by simp
      have "get_request (auth_state a) ?key = None"
        using fresh_key Cons.prems(1) admitted by (simp add: answers_inv_def)
      then have "?key \<notin> ?held" using Cons.prems(1) by (auto simp: answers_inv_def)
      then have "distinct (map fst ?members)" using Cons.prems(2) by simp
      note ih = Cons.IH [OF answers_once_inv [OF first] this rest]
      then have "answers_once (a, ?held) (a', set (member_keys r)) ([] @ out2)"
        by (intro answers_once_trans [OF first]) simp
      then show ?thesis using ih unfolding out by (simp add: answers_once_Cons)
    qed
  qed
qed

lemma insert_members_once:
  assumes "answers_inv (a, set (map fst members))" and "distinct (map fst members)"
    and "insert_members members a fatal = (a', fatal', out)"
  shows "answers_once (a, set (map fst members)) (a', {}) out"
  using assms
proof (induction members arbitrary: a fatal a' fatal' out)
  case Nil
  then show ?case by (simp add: answers_once_refl)
next
  case (Cons member members)
  obtain key op where member: "member = (key, op)" by fastforce
  let ?a = "insert_pending key (new_pending op None False) a"
  obtain a1 fatal1 out1 where early: "take_early_response key ?a fatal = (a1, fatal1, out1)" using prod_cases3 by blast
  obtain out2 where rest: "insert_members members a1 fatal1 = (a', fatal', out2)" and out: "out = out1 @ out2"
    using Cons.prems(3) member early by (auto split: prod.splits)
  have "answers_once (a, set (map fst (member # members))) (?a, set (map fst members)) []"
    using answers_once_insert [OF Cons.prems(1), of key op None False] Cons.prems(2) member
    by (simp add: Diff_insert_absorb)
  from answers_once_trans [OF this answers_once_early [OF answers_once_inv [OF this] early]]
  have first: "answers_once (a, set (map fst (member # members))) (a1, set (map fst members)) out1" by simp
  have "answers_once (a1, set (map fst members)) (a', {}) out2"
    using Cons.prems(2) rest by (intro Cons.IH [OF answers_once_inv [OF first]]) simp_all
  then show ?case unfolding out by (rule answers_once_trans [OF first])
qed

lemma process_compound_admission_sound:
  assumes inv: "answers_inv (eng_auth s, {})"
  shows "sound_result (eng_auth s, {}) (process_compound_admission c prepared s)"
proof -
  let ?a = "eng_auth s"
  obtain a1 r out where adm: "admit_members (com_deadline c) (com_operations c) [] ?a = (a1, r, out)"
    using prod_cases3 by blast
  note first = admit_members_once [where admitted = "[]", simplified, OF inv adm, THEN conjunct1]
    and distinct = admit_members_once [where admitted = "[]", simplified, OF inv adm, THEN conjunct2]
  have refuse: "answers_once (?a, {}) (?a, {}) [AcknowledgeCompound e]" for e
    using answers_once_refl [OF inv] by (simp add: answers_once_Cons)
  have rejected: "answers_once (?a, {}) (a1, {}) (out @ [AcknowledgeCompound e'])" if "r = Inl e" for e e'
    using first that by (intro answers_once_silent(2)) (simp_all add: member_keys_def)
  have failed: "answers_once (?a, {}) (fail_members (map fst members) a1, {}) (out @ [AcknowledgeCompound e])"
    if r: "r = Inr members" for members e
  proof -
    have "answers_once (a1, set (map fst members)) (fail_members (map fst members) a1, {}) [AcknowledgeCompound e]"
      using answers_once_fail_members [OF answers_once_inv [OF first], of "map fst members"]
        held_pending [OF answers_once_inv [OF first]] r by (simp add: member_keys_def answers_once_Cons)
    with first r show ?thesis by (intro answers_once_trans) (simp_all add: member_keys_def)
  qed
  have inserted: "answers_once (?a, {}) (a2, {}) (out @ out2 @ [AcknowledgeCompound e])"
    if r: "r = Inr members" and ins: "insert_members members a1 fatal = (a2, fatal2, out2)" for members a2 fatal fatal2 out2 e
  proof -
    have "answers_once (a1, set (map fst members)) (a2, {}) out2"
      using first distinct r by (intro insert_members_once [OF _ _ ins]) (auto simp: member_keys_def dest: answers_once_inv)
    then have last: "answers_once (a1, set (map fst members)) (a2, {}) (out2 @ [AcknowledgeCompound e])"
      by (intro answers_once_silent(2)) simp_all
    have "answers_once (?a, {}) (a1, set (map fst members)) out" using first r by (simp add: member_keys_def)
    from answers_once_trans [OF this last] show ?thesis .
  qed
  show ?thesis
    using refuse rejected failed inserted answers_once_refl [OF inv] adm
    by (auto simp: process_compound_admission_def Let_def split: option.splits sum.splits prod.splits)
qed

lemma process_admission_once:
  assumes inv: "answers_inv (eng_auth s, {})" and step: "process_admission bytes charge deadline frame s = (s', out)"
  shows "answers_once (eng_auth s, {}) (eng_auth s', {}) out"
proof -
  let ?a = "eng_auth s"
  obtain g effect where admit: "admit (auth_state ?a) bytes charge deadline = (g, effect)" by fastforce
  then show ?thesis
  proof (cases rule: admit_cases)
    case (rejected e)
    then show ?thesis
      using step admit answers_once_refl [OF inv] by (auto simp: process_admission_def answers_once_Cons)
  next
    case (admitted m plan)
    let ?b = "?a\<lparr>auth_state := g\<rparr>"
    let ?c = "?b\<lparr>terminals := List.insert (plan_key plan) (terminals ?b)\<rparr>"
    have first: "answers_once (?a, {}) (?b, {plan_key plan}) []"
      using answers_once_admit [OF inv, of bytes charge deadline g plan] admit admitted by simp
    have second: "answers_once (?b, {plan_key plan}) (?b, {}) []"
      by (rule answers_once_release [OF answers_once_inv [OF first]]) simp_all
    have "answers_once (?b, {}) (?c, {}) [AcknowledgeRaw e]" for e
      by (rule answers_once_frame [OF answers_once_inv [OF second]]) simp_all
    from answers_once_trans [OF answers_once_trans [OF first second] this]
    show ?thesis using step admit admitted by (auto simp: process_admission_def Let_def)
  qed
qed

section \<open>The writer\<close>

lemma progress_members_once:
  "answers_inv (a, {}) \<Longrightarrow> answers_once (a, {}) (progress_members progress keys a, {}) []"
proof (induction keys arbitrary: a)
  case Nil
  then show ?case by (simp add: progress_members_def answers_once_refl)
next
  case (Cons key keys)
  have first: "answers_once (a, {}) (reduce_state a (RequestProgressed key progress), {}) []"
    using Cons.prems by (rule answers_once_quiet) simp
  from answers_once_trans [OF first Cons.IH [OF answers_once_inv [OF first]]]
  show ?case by (simp add: progress_members_def)
qed

lemma cancel_members_once:
  "answers_inv (a, {}) \<Longrightarrow> answers_once (a, {}) (fst (cancel_members now keys a), {}) (snd (cancel_members now keys a))"
proof (induction keys arbitrary: a)
  case Nil
  then show ?case by (simp add: answers_once_refl)
next
  case (Cons key keys)
  have first: "answers_once (a, {}) (fst (reduce_and_apply a (CancelRequest key now)), {})
      (snd (reduce_and_apply a (CancelRequest key now)))"
    using Cons.prems by (rule answers_once_reduce_and_apply) simp
  from answers_once_trans [OF first Cons.IH [OF answers_once_inv [OF first]]]
  show ?case by (simp add: split_beta)
qed

lemma answers_once_before:
  assumes "answers_inv (a, {})" and "auth_state a' = auth_state a" "pending a' = pending a"
    "early_responses a' = early_responses a" and "answers_inv (a', {}) \<Longrightarrow> answers_once (a', {}) h out"
  shows "answers_once (a, {}) h out"
proof -
  have first: "answers_once (a, {}) (a', {}) []" using assms by (intro answers_once_frame) simp_all
  from answers_once_trans [OF first assms(5) [OF answers_once_inv [OF first]]] show ?thesis by simp
qed

lemma answers_once_after:
  assumes "answers_once h (a, {}) out" and "auth_state a' = auth_state a" "pending a' = pending a"
    "early_responses a' = early_responses a"
  shows "answers_once h (a', {}) out"
  using answers_once_trans [OF assms(1) answers_once_frame [OF answers_once_inv [OF assms(1)], of "[]" a']] assms by simp

lemma run_deferred_cancellation_once:
  "answers_inv (a, {}) \<Longrightarrow>
     answers_once (a, {}) (fst (run_deferred_cancellation key a), {}) (snd (run_deferred_cancellation key a))"
proof (cases "map_of (deferred_cancellations a) key")
  case (Some now)
  assume inv: "answers_inv (a, {})"
  let ?a = "a\<lparr>deferred_cancellations := AList.delete key (deferred_cancellations a)\<rparr>"
  show ?thesis
    using Some answers_once_reduce_and_apply [of ?a "CancelRequest key now"]
    by (intro answers_once_before [OF inv, of ?a]) (simp_all add: run_deferred_cancellation_def)
qed (simp add: run_deferred_cancellation_def answers_once_refl)

lemma write_event_once:
  assumes inv: "answers_inv (a, {})"
  shows "answers_once (a, {}) (fst (write_event e a), {}) (snd (write_event e a))"
proof (cases e)
  case (IoWriteCancelled key)
  let ?a = "a\<lparr>deferred_cancellations := AList.delete key (deferred_cancellations a),
      frame_members := AList.delete key (frame_members a)\<rparr>"
  show ?thesis
    using IoWriteCancelled
    by (intro answers_once_before [OF inv, of ?a]) (auto simp: Let_def split_beta intro!: answers_once_after [OF cancel_members_once])
next
  case (IoWriteProgress key bytes)
  note first = progress_members_once [OF inv, of "ProgressWritten bytes" "members_of a key"]
  from answers_once_trans [OF first run_deferred_cancellation_once [OF answers_once_inv [OF first], of key]]
  show ?thesis using IoWriteProgress by simp
next
  case (IoWriteComplete key)
  let ?a = "a\<lparr>frame_members := AList.delete key (frame_members a)\<rparr>"
  let ?b = "progress_members ProgressWriteComplete (members_of a key) ?a"
  have "answers_once (?a, {}) (fst (run_deferred_cancellation key ?b), {}) (snd (run_deferred_cancellation key ?b))"
    if "answers_inv (?a, {})"
    using answers_once_trans [OF progress_members_once [OF that]
        run_deferred_cancellation_once [OF answers_once_inv [OF progress_members_once [OF that]]]] by simp
  then show ?thesis
    using IoWriteComplete
    by (intro answers_once_before [OF inv, of ?a]) (auto simp: split_beta intro: answers_once_after)
qed (simp_all add: inv answers_once_refl)

lemma emit_event_silent [simp]: "silent (snd (emit_event l event fatal))"
  by (simp add: emit_event_def split: option.split)

lemma process_io_once:
  assumes inv: "answers_inv (eng_auth s, {})"
  shows "answers_once (eng_auth s, {}) (eng_auth (fst (process_io e l s)), {}) (snd (process_io e l s))"
  using answers_once_silent(2) [OF emit_event_silent write_event_once [OF inv, of e]]
  by (simp add: process_io_def split_beta)

lemma dispatch_next_once:
  assumes inv: "answers_inv (eng_auth s, {})"
  shows "answers_once (eng_auth s, {}) (eng_auth (fst (dispatch_next s)), {}) (snd (dispatch_next s))"
  using answers_once_refl [OF inv]
  by (auto simp: dispatch_next_def Let_def split: list.split
      intro!: answers_once_Cons answers_once_after [OF progress_members_once [OF inv]])

section \<open>Inbound messages\<close>

lemma set_update_subset: "set (AList.update k v m) \<subseteq> insert (k, v) (set m)"
  by (induction m) auto

lemma process_inbound_message_once:
  assumes inv: "answers_inv (a, {})" and hint: "\<not> resp_recovery_hint m"
    and step: "process_inbound_message m full a fatal = (a', fatal', out)"
  shows "answers_once (a, {}) (a', {}) out"
proof -
  have "answers_inv (a\<lparr>early_responses := AList.update k m (early_responses a)\<rparr>, {})" for k
    using inv hint set_update_subset [of k m "early_responses a"] by (auto simp: answers_inv_def)
  then have early: "answers_once (a, {}) (a\<lparr>early_responses := AList.update k m (early_responses a)\<rparr>, {}) []" for k
    by (auto simp: answers_once_def due_def map_filter_simps split: option.splits)
  show ?thesis
    using step early answers_once_refl [OF inv] answers_once_response [OF inv hint, of fatal]
    by (auto simp: process_inbound_message_def Let_def split: if_splits intro!: answers_once_Cons)
qed

lemma process_inbound_messages_once:
  "answers_inv (a, {}) \<Longrightarrow> list_all (\<lambda>(m, full). \<not> resp_recovery_hint m) ms \<Longrightarrow>
     process_inbound_messages ms a fatal = (a', fatal', out) \<Longrightarrow> answers_once (a, {}) (a', {}) out"
proof (induction ms arbitrary: a fatal a' fatal' out)
  case Nil
  then show ?case by (simp add: answers_once_refl)
next
  case (Cons message ms)
  obtain m full where message: "message = (m, full)" by fastforce
  obtain a1 fatal1 out1 where one: "process_inbound_message m full a fatal = (a1, fatal1, out1)"
    using prod_cases3 by blast
  obtain out2 where rest: "process_inbound_messages ms a1 fatal1 = (a', fatal', out2)" and out: "out = out1 @ out2"
    using Cons.prems(3) message one by (auto split: prod.splits)
  have first: "answers_once (a, {}) (a1, {}) out1"
    using Cons.prems message by (intro process_inbound_message_once [OF _ _ one]) simp_all
  have "answers_once (a1, {}) (a', {}) out2"
    using Cons.prems(2) by (intro Cons.IH [OF answers_once_inv [OF first] _ rest]) simp
  then show ?case unfolding out by (rule answers_once_trans [OF first])
qed

text \<open>An inbound frame with no unauthenticated recovery hint.\<close>

definition hint_free :: "(command_response \<times> bool) list option \<Rightarrow> bool" where
  "hint_free result = (case result of None \<Rightarrow> True | Some ms \<Rightarrow> list_all (\<lambda>(m, full). \<not> resp_recovery_hint m) ms)"

lemma finish_prepared_inbound_once:
  assumes inv: "answers_inv (eng_auth s, {})" and "hint_free result"
  shows "answers_once (eng_auth s, {}) (eng_auth (fst (finish_prepared_inbound bytes result l s)), {})
    (snd (finish_prepared_inbound bytes result l s))"
proof -
  let ?ms = "case result of None \<Rightarrow> [] | Some ms \<Rightarrow> ms"
  have free: "list_all (\<lambda>(m, full). \<not> resp_recovery_hint m) ?ms" using assms(2) by (simp add: hint_free_def split: option.splits)
  obtain f where f: "finish_prepared_inbound bytes result l s = f" by simp
  have "answers_once (eng_auth s, {}) (fst (process_inbound_messages ?ms (eng_auth s) fatal), {})
      (snd (snd (process_inbound_messages ?ms (eng_auth s) fatal)))" for fatal
    using process_inbound_messages_once [OF inv free, of fatal] by (metis prod.exhaust_sel)
  from answers_once_silent(2) [OF emit_event_silent this] show ?thesis
    by (cases result) (simp_all add: finish_prepared_inbound_def split_beta)
qed

section \<open>Control commands\<close>

lemma await_operation_once:
  assumes inv: "answers_inv (a, {})" and step: "await_operation key a = (a', out)"
  shows "answers_once (a, {}) (a', {}) out"
proof (cases "map_of (pending a) key")
  case None
  then show ?thesis
    using step answers_once_refl [OF inv] by (auto simp: await_operation_def intro: answers_once_Cons)
next
  case (Some p)
  have ok: "entry_ok (recorded_outcome a key) p" using answers_inv_entry [OF inv, of key] Some by simp
  have same: "auth_state a' = auth_state a" "early_responses a' = early_responses a"
    using step Some by (auto simp: await_operation_def insert_pending_def split: option.splits if_splits)
  have other: "map_of (pending a') k = map_of (pending a) k \<and> answers k out = []" if "k \<noteq> key" for k
    using step Some that
    by (auto simp: await_operation_def insert_pending_def table map_filter_simps split: option.splits if_splits)
  have own: "pred_option (entry_ok (recorded_outcome a key)) (map_of (pending a') key) \<and>
      (\<forall>r \<in> set (answers key out). agrees r (recorded_outcome a key)) \<and>
      entry_due (map_of (pending a') key) + length (answers key out) \<le> entry_due (map_of (pending a) key)"
    using step Some ok
    by (auto simp: await_operation_def insert_pending_def table map_filter_simps entry_ok_def entry_due_def
        split: option.splits if_splits)
  show ?thesis
  proof (rule answers_onceI [OF inv])
    fix k
    show "map_of (pending a) k = None \<Longrightarrow> map_of (pending a') k = None" using other [of k] Some by (cases "k = key") auto
    show "pred_option (entry_ok (recorded_outcome a' k)) (map_of (pending a') k)"
      using other [of k] own answers_inv_entry [OF inv, of k] by (cases "k = key") (auto simp: same)
    show "agrees r (recorded_outcome a' k)" if "r \<in> set (answers k out)" for r
      using other [of k] own that by (cases "k = key") (auto simp: same)
    show "entry_due (map_of (pending a') k) + length (answers k out) \<le> entry_due (map_of (pending a) k)"
      using other [of k] own by (cases "k = key") auto
  qed (use inv in \<open>auto simp: same answers_inv_def\<close>)
qed

lemma cancel_request_once:
  assumes inv: "answers_inv (eng_auth s, {})"
  shows "answers_once (eng_auth s, {}) (eng_auth (fst (cancel_request key now s)), {}) (snd (cancel_request key now s))"
proof -
  let ?a = "if map_of (frame_cancellations (eng_auth s)) key \<noteq> None
      then (eng_auth s)\<lparr>frame_cancellations := AList.update key True (frame_cancellations (eng_auth s))\<rparr> else eng_auth s"
  let ?cancels = "(if snd (remove_queued key (send_queue s)) then [CancelFrame key] else []) @
      (if map_of (frame_cancellations (eng_auth s)) key \<noteq> None then [CancelFrame key] else [])"
  have "answers_once (eng_auth s, {}) (fst (reduce_and_apply ?a (CancelRequest key now)), {})
      (?cancels @ snd (reduce_and_apply ?a (CancelRequest key now)))"
    by (intro answers_once_silent(1) answers_once_before [OF inv, of ?a] answers_once_reduce_and_apply) simp_all
  moreover have "answers_once (eng_auth s, {}) (a', {}) ?cancels"
    if "auth_state a' = auth_state (eng_auth s)" "pending a' = pending (eng_auth s)"
      "early_responses a' = early_responses (eng_auth s)" for a'
    using that by (intro answers_once_frame [OF inv]) simp_all
  ultimately show ?thesis
    by (cases "map_of (frame_cancellations (eng_auth s)) key"; cases "snd (remove_queued key (send_queue s))")
      (auto simp: cancel_request_def Let_def split_beta)
qed

lemma handle_control_sound:
  assumes inv: "answers_inv (eng_auth s, {})"
  shows "sound_result (eng_auth s, {}) (handle_control c s)"
proof -
  have frame: "answers_once (eng_auth s, {}) (a', {}) out"
    if "silent out" "auth_state a' = auth_state (eng_auth s)" "pending a' = pending (eng_auth s)"
      "early_responses a' = early_responses (eng_auth s)" for a' out
    using that by (intro answers_once_frame [OF inv]) simp_all
  show ?thesis
  proof (cases c)
    case (CtlAwaitOperation key)
    then show ?thesis using await_operation_once [OF inv, of key] by (simp add: split_beta)
  next
    case (CtlNegotiated large_mtu)
    have "answers_once (eng_auth s, {}) ((eng_auth s)\<lparr>auth_large_mtu := large_mtu,
        auth_state := set_target_credits (auth_state (eng_auth s)) target\<rparr>, {}) []" for target
      using inv by (auto simp: answers_once_def answers_inv_def due_def set_target_credits_def
          request_terminal_outcome_def map_filter_simps)
    then show ?thesis using CtlNegotiated by (simp add: Let_def)
  next
    case (CtlCancel key now)
    then show ?thesis using cancel_request_once [OF inv, of key now] by (simp add: sound_result_Some)
  qed (auto simp: sound_result_def put_objects_def split_beta split: if_splits intro!: frame)
qed

section \<open>Teardown\<close>

lemma publish_shutdown_reason_auth [simp]:
  "eng_auth (publish_shutdown_reason s) = eng_auth s" "eng_auth (publish_if_fatal s) = eng_auth s"
  by (simp_all add: publish_shutdown_reason_def publish_if_fatal_def split: option.split)

lemma disconnected_outcome:
  assumes "get_request (fst (on_disconnect g network)) k \<noteq> None"
  shows "request_terminal_outcome (fst (on_disconnect g network)) k \<noteq> None"
  using on_disconnect_released [of g network k] assms
  by (auto simp: released_at_def request_terminal_outcome_def split: option.splits caller_outcome.splits)

lemma silent_concat: "(\<And>xs. xs \<in> set xss \<Longrightarrow> silent xs) \<Longrightarrow> silent (concat xss)"
  by (induction xss) auto

lemma drain_pending_silent:
  assumes inv: "answers_inv (a, {})" and state: "auth_state a = fst (on_disconnect g network)"
  shows "silent (drain_pending e (pending a))"
proof -
  have "\<not> pend_terminal p" if p: "map_of (pending a) k = Some p" for k p
  proof -
    have "entry_ok (recorded_outcome a k) p" using answers_inv_entry [OF inv, of k] p by simp
    moreover have "recorded_outcome a k \<noteq> None"
      unfolding state using inv p by (intro disconnected_outcome) (auto simp: answers_inv_def state)
    ultimately show ?thesis by (auto simp: entry_ok_def)
  qed
  then show ?thesis
    unfolding drain_pending_def by (intro silent_concat) (auto split: option.splits)
qed

lemma teardown_cancellations_silent: "silent (teardown_cancellations reason s)"
  by (auto simp: teardown_cancellations_def silent_map split_beta split: option.split)

lemma teardown_once:
  assumes inv: "answers_inv (eng_auth s, {})"
  shows "answers_once (eng_auth s, {}) (eng_auth (fst (teardown s)), {}) (snd (teardown s))"
proof -
  let ?a = "(eng_auth s)\<lparr>preparation_cancellations := [],
      auth_objects := fst (lose_generation (auth_objects (eng_auth s)))\<rparr>"
  obtain network reason where defs: "network = terminal_network (Some reason)"
    "reason = (case shutdown_reason (publish_shutdown_reason s) of None \<Rightarrow> ErrClosed | Some e \<Rightarrow> e)" by simp
  let ?d = "fst (reduce_and_apply ?a (Disconnect network))" and ?out = "snd (reduce_and_apply ?a (Disconnect network))"
  have disc: "answers_once (eng_auth s, {}) (?d, {}) ?out"
    by (rule answers_once_before [OF inv, of ?a]) (simp_all add: answers_once_reduce_and_apply)
  note inv' = answers_once_inv [OF disc]
  have "auth_state ?d = fst (on_disconnect (auth_state (eng_auth s)) network)"
    by (rule reduce_and_apply_eq(1) [where fs = "snd (on_disconnect (auth_state (eng_auth s)) network)"]) simp
  from drain_pending_silent [OF inv' this]
  have drained: "silent (map (\<lambda>key. TerminalSent key e) (terminals ?d) @ drain_pending e' (pending ?d))" for e e'
    by (simp add: silent_map)
  have "answers_once (?d, {}) (?d\<lparr>terminals := [], pending := []\<rparr>, {}) []"
    using inv' by (auto simp: answers_once_def answers_inv_def due_def map_filter_simps split: option.splits)
  from answers_once_trans [OF disc this]
  have "answers_once (eng_auth s, {}) (?d\<lparr>terminals := [], pending := []\<rparr>, {}) ?out" by simp
  note after = answers_once_silent(2) [OF drained this, of "Inl reason" reason]
  from answers_once_silent(1) [OF teardown_cancellations_silent after, of reason "publish_shutdown_reason s"]
  show ?thesis
    unfolding teardown_def Let_def defs(2) [symmetric] defs(1) [symmetric] by (simp add: split_beta)
qed

section \<open>A small owner task for the examples\<close>

definition sample_engine :: engine where
  "sample_engine = engine_new 7 1 10 10 \<lparr>max_operations = 8, max_payload_bytes = 1000\<rparr> 5"

definition sample_key :: request_key where "sample_key = RequestKey 7 1"

definition sample_submit :: "monotonic_time option \<Rightarrow> engine_event" where
  "sample_submit deadline = OperationReceived
     \<lparr>adm_operation = operation_any_status EchoRequest None, adm_deadline = deadline, adm_terminal = True\<rparr>
     False False (PreparedNow (Some [[1, 2]]))"

definition sample_response :: "status \<Rightarrow> bool \<Rightarrow> command_response" where
  "sample_response st hint = \<lparr>resp_message_id = 1, resp_status = st, resp_command = CmdEcho, resp_async_id = None,
     resp_credits = 1, resp_is_error = False, resp_recovery_hint = hint, resp_raw = []\<rparr>"

definition sample_inbound :: "status \<Rightarrow> bool \<Rightarrow> engine_event" where
  "sample_inbound st hint = InboundFinished 2 (Some [(sample_response st hint, False)]) (Lane False False)"

definition sample_sent :: engine_event where
  "sample_sent = WriteFinished 2 (Lane False False) WriteStepSent (Lane False False)"

definition answers_after :: "engine_event list \<Rightarrow> operation_answer list option" where
  "answers_after es = map_option (\<lambda>(s, out). answers sample_key out) (engine_run sample_engine es)"

definition sample_run :: "engine_event list" where
  "sample_run = [sample_submit None, Dispatched, sample_sent, sample_inbound 0 False]"

lemmas engine_evaluate = evaluate engine_new_def sample_engine_def sample_key_def sample_submit_def sample_response_def
  sample_inbound_def sample_sent_def engine_step_def process_operation_admission_def operation_credit_charge_def
  operation_any_status_def policy_any_def operation_payload_bytes_def admitted_operation_def push_frame_def
  insert_pending_def new_pending_def with_early_response_def take_early_response_def first_segment_def
  schedule_deadline_def heap_push_def heap_peek_def heap_pop_def request_new_def
  deadline_fired_def reduce_and_apply_def on_advance_time.simps expire_deadline_def settle_unanswered_def rollback_def
  release_request_ownership_def release_payload_def caller_is_open_def wire_committed_def request_reduce.simps
  finish_without_response_def publish_once_def apply_operation_effects_def apply_owner_effects_def publish_failure_def
  complete_operation_def dispatch_next_def progress_members_def reduce_state_def on_request_event_def
  write_finished_def write_progressed_def process_io_def members_of_def run_deferred_cancellation_def emit_event_def
  publish_if_fatal_def publish_shutdown_reason_def finish_prepared_inbound_def process_inbound_message_def
  process_decoded_response_def status_try_from_def status_codes_def response_status_is_admissible_def
  accepts_wire_status_def on_response_def conflicting_async_def changed_async_def account_response_def
  observe_response_commitment_def time_saturating_add_def on_recovery_hint_def await_operation_def map_filter_simps

section \<open>Every schedule of the owner task\<close>

fun carries_hint :: "engine_event \<Rightarrow> bool" where
  "carries_hint (InboundFinished _ result _) = (\<not> hint_free result)"
| "carries_hint (InboundPolled _ result _) = (\<not> hint_free result)"
| "carries_hint _ = False"

lemma write_progressed_once:
  "answers_inv (eng_auth s, {}) \<Longrightarrow>
     answers_once (eng_auth s, {}) (eng_auth (fst (write_progressed bytes l s)), {}) (snd (write_progressed bytes l s))"
  by (simp add: write_progressed_def process_io_once answers_once_refl split: option.split)

lemma write_finished_once:
  assumes inv: "answers_inv (eng_auth s, {})"
  shows "answers_once (eng_auth s, {}) (eng_auth (fst (write_finished n l result l' s)), {}) (snd (write_finished n l result l' s))"
proof -
  note first = write_progressed_once [OF inv, of n l]
  have "answers_once (eng_auth s, {}) (eng_auth (fst (process_io e l' ((fst (write_progressed n l s))\<lparr>active_write := None\<rparr>))), {})
      (snd (write_progressed n l s) @ snd (process_io e l' ((fst (write_progressed n l s))\<lparr>active_write := None\<rparr>)))" for e
    using process_io_once [of "(fst (write_progressed n l s))\<lparr>active_write := None\<rparr>" e l'] answers_once_inv [OF first]
    by (intro answers_once_trans [OF first]) simp
  then show ?thesis
    using first answers_once_refl [OF inv] by (simp add: write_finished_def Let_def split_beta split: option.split)
qed

lemma fatal_published_sound: "sound_result h (Some p) \<Longrightarrow> sound_result h (fatal_published p)"
  by (cases p) simp

lemma engine_arm_sound:
  assumes inv: "answers_inv (eng_auth s, {})" and "\<not> carries_hint e"
  shows "sound_result (eng_auth s, {}) (engine_arm e s)"
proof (cases e)
  case (ControlReceived c)
  then show ?thesis
    using handle_control_sound [OF inv, of c] by (auto simp: sound_result_def split: if_splits)
next
  case (DeadlineFired now)
  then show ?thesis
    using answers_once_reduce_and_apply [OF inv, of "AdvanceTime now"]
    by (simp add: deadline_fired_def Let_def split_beta sound_result_Some)
next
  case (OperationReceived c cmac retain_raw decision)
  then show ?thesis
    using process_operation_admission_sound [OF inv] by (simp add: answers_once_refl inv)
next
  case (WaitingOperationRetried retain_raw decision)
  then show ?thesis
    using process_operation_admission_sound [of "s\<lparr>waiting_operation := None\<rparr>"]
    by (simp add: answers_once_refl inv split: option.split)
next
  case (CompoundReceived c frame)
  then show ?thesis using process_compound_admission_sound [OF inv] by (simp add: answers_once_refl inv)
next
  case (WaitingCompoundRetried frame)
  then show ?thesis
    using process_compound_admission_sound [of "s\<lparr>waiting_compound := None\<rparr>"]
    by (simp add: answers_once_refl inv split: option.split)
next
  case (RawReceived bytes charge deadline frame)
  then show ?thesis using process_admission_once [OF inv] by (simp add: sound_result_Some)
next
  case TornDown
  then show ?thesis using teardown_once [OF inv] by (simp add: sound_result_Some)
qed (use inv assms(2) in \<open>simp_all add: preparation_done_sound finish_prepared_inbound_once dispatch_next_once
      write_progressed_once write_finished_once process_io_once answers_once_refl fatal_published_sound sound_result_Some\<close>)

lemma engine_run_sound:
  "answers_inv (eng_auth s, {}) \<Longrightarrow> list_all (\<lambda>e. \<not> carries_hint e) es \<Longrightarrow>
     engine_run s es = Some (s', out) \<Longrightarrow> answers_once (eng_auth s, {}) (eng_auth s', {}) out"
proof (induction es arbitrary: s out)
  case Nil
  then show ?case by (simp add: answers_once_refl)
next
  case (Cons e es)
  from Cons.prems(3) obtain s1 out1 out2 where one: "engine_step s e = Some (s1, out1)"
    and rest: "engine_run s1 es = Some (s', out2)" and out: "out = out1 @ out2"
    by (auto split: option.splits)
  have first: "answers_once (eng_auth s, {}) (eng_auth s1, {}) out1"
    using engine_arm_sound [OF Cons.prems(1), of e] Cons.prems(2) one answers_once_refl [OF Cons.prems(1)]
    by (auto simp: engine_step_def sound_result_def split: if_splits)
  have "answers_once (eng_auth s1, {}) (eng_auth s', {}) out2"
    using Cons.prems(2) rest by (intro Cons.IH answers_once_inv [OF first]) simp_all
  then show ?case unfolding out by (rule answers_once_trans [OF first])
qed

lemma engine_new_inv: "answers_inv (eng_auth (engine_new g m c target lim drain), {})"
  by (simp add: answers_inv_def engine_new_def generation_inv_new)

text \<open>
  C1. Over every schedule of the owner task (admissions, preparations, writes, inbound frames,
  awaits, cancellations, deadlines, transport failures, teardown, in any order), each operation
  delivers at most one answer; the answer is the response if the request owner records a
  response, the recorded failure otherwise, or the report that the frame could not be prepared;
  and no caller is left waiting on an operation whose outcome is recorded. The server sends no
  unauthenticated recovery hint in these schedules.
\<close>

theorem callers_answered_at_most_once:
  assumes "engine_run (engine_new g m c target lim drain) es = Some (s, out)"
    and "list_all (\<lambda>e. \<not> carries_hint e) es"
  shows "length (answers k out) \<le> 1 \<and>
    (\<forall>r \<in> set (answers k out). agrees r (recorded_outcome (eng_auth s) k)) \<and>
    (\<forall>p. map_of (pending (eng_auth s)) k = Some p \<longrightarrow> pend_terminal p \<longrightarrow> recorded_outcome (eng_auth s) k = None)"
proof -
  let ?s0 = "engine_new g m c target lim drain"
  have run: "answers_once (eng_auth ?s0, {}) (eng_auth s, {}) out"
    by (rule engine_run_sound [OF engine_new_inv assms(2,1)])
  then have "due k (eng_auth s, {}) + length (answers k out) \<le> due k (eng_auth ?s0, {})"
    and "\<forall>r \<in> set (answers k out). agrees r (recorded_outcome (eng_auth s) k)"
    by (simp_all add: answers_once_def)
  moreover have "due k (eng_auth ?s0, {}) = 1" by (simp add: due_def engine_new_def generation_new_def)
  moreover have "pred_option (entry_ok (recorded_outcome (eng_auth s) k)) (map_of (pending (eng_auth s)) k)"
    by (rule answers_inv_entry [OF answers_once_inv [OF run]])
  ultimately show ?thesis by (auto simp: entry_ok_def)
qed

theorem callers_answered_at_most_once_witness:
  "\<exists>s out. engine_run sample_engine sample_run = Some (s, out) \<and> answers sample_key out \<noteq> [] \<and>
     length (answers sample_key out) \<le> 1 \<and>
     (\<forall>r \<in> set (answers sample_key out). agrees r (recorded_outcome (eng_auth s) sample_key))"
proof -
  have "map_option (map is_ok) (answers_after sample_run) = Some [True]"
    by (simp add: answers_after_def sample_run_def engine_evaluate)
  then obtain s out where run: "engine_run sample_engine sample_run = Some (s, out)" "answers sample_key out \<noteq> []"
    by (auto simp: answers_after_def)
  moreover have "list_all (\<lambda>e. \<not> carries_hint e) sample_run"
    by (simp add: sample_run_def sample_submit_def sample_sent_def sample_inbound_def sample_response_def hint_free_def)
  ultimately show ?thesis
    using callers_answered_at_most_once [OF run(1) [unfolded sample_engine_def], of sample_key] by blast
qed

text \<open>The hypothesis is needed: an unauthenticated recovery hint for an operation that has already
  been answered puts its entry back with a second answer, which a second await collects.\<close>

lemma recovery_hint_answers_twice:
  "answers_after [sample_submit (Some 5), Dispatched, sample_sent, DeadlineFired 10,
     sample_inbound status_user_session_deleted True, ControlReceived (CtlAwaitOperation sample_key)] =
   Some [Inl (ErrTerminal (NetworkOutcomeUnknown NetworkTimedOut)), Inl (ErrTerminal SessionInvalidated)]"
  by (simp add: answers_after_def engine_evaluate)

text \<open>An expired deadline reports a definite failure, but leaves the frame in the queue: the request is
  sent after its caller was told that it timed out.\<close>

lemma expired_request_still_sent:
  "map_option snd (engine_run sample_engine [sample_submit (Some 5), DeadlineFired 10, Dispatched]) =
     Some [PrepareFrame \<lparr>plan_key = sample_key, plan_payload_bytes = 0, plan_credit_charge = 1,
             plan_credit_request = 1, plan_caller_deadline = Some 5\<rparr> False,
           Acknowledge (Inr \<lparr>sub_key = sample_key, sub_request_raw = None\<rparr>),
           Deliver sample_key (Inl (ErrTerminal TimedOut)),
           StartWrite sample_key [[1, 2]] False]"
  by (simp add: engine_evaluate)

end
