(* ===== verification/Engine_Responses.thy ===== *)
theory Engine_Responses
  imports Engine_Contract
begin

text \<open>
  The response contract of the owner task (runtime/engine.rs), over every schedule of its arms and
  with unauthenticated recovery hints: a result that reaches a caller, at once, from the early
  responses or from the buffer, is a final response that the policy of the operation it answers
  admits. A step is described from the authority \<open>a0\<close> in which it starts and the set \<open>P\<close> of the
  response policies that its event offers; \<open>lawful a0 P a\<close> holds at every moment of it.
\<close>

section \<open>The contract\<close>

definition response_fits :: "response_policy \<Rightarrow> request_key \<Rightarrow> command_response \<Rightarrow> bool" where
  "response_fits policy k m \<longleftrightarrow>
     resp_message_id m = key_message_id k \<and> resp_command m = policy_command policy \<and> \<not> resp_recovery_hint m \<and>
     status_try_from (resp_status m) \<noteq> Some status_pending \<and>
     (accepts_wire_status policy (status_try_from (resp_status m)) \<or> resp_is_error m \<or>
      status_try_from (resp_status m) \<in> {Some status_user_session_deleted, Some status_network_session_expired})"

text \<open>The policy of an operation: that of its entry, or, for one admitted in this step, an offered one.\<close>

definition policy_of :: "authority \<Rightarrow> response_policy set \<Rightarrow> request_key \<Rightarrow> response_policy \<Rightarrow> bool" where
  "policy_of a0 P k policy \<longleftrightarrow>
     (case map_of (pending a0) k of Some entry \<Rightarrow> policy = pend_response entry | None \<Rightarrow> policy \<in> P)"

text \<open>A draining operation has its outcome, so no response completes it; a buffered response fits.\<close>

definition entry_lawful :: "terminal_outcome option \<Rightarrow> request_key \<Rightarrow> operation_pending \<Rightarrow> bool" where
  "entry_lawful recorded k p \<longleftrightarrow> (pend_draining p \<longrightarrow> recorded \<noteq> None) \<and>
     (\<forall>result. pend_buffered p = Some (Inr result) \<longrightarrow> response_fits (pend_response p) k (result_response result))"

definition lawful :: "authority \<Rightarrow> response_policy set \<Rightarrow> authority \<Rightarrow> bool" where
  "lawful a0 P a \<longleftrightarrow> generation_inv (auth_state a) \<and>
     (\<forall>k. map_of (pending a0) k \<noteq> None \<longrightarrow> get_request (auth_state a) k \<noteq> None) \<and>
     (\<forall>k p. map_of (pending a) k = Some p \<longrightarrow>
        get_request (auth_state a) k \<noteq> None \<and> policy_of a0 P k (pend_response p) \<and> entry_lawful (recorded_outcome a k) k p)"

definition delivers :: "authority \<Rightarrow> response_policy set \<Rightarrow> engine_output list \<Rightarrow> bool" where
  "delivers a0 P out \<longleftrightarrow> (\<forall>k result. Inr result \<in> set (answers k out) \<longrightarrow>
     (\<exists>policy. policy_of a0 P k policy \<and> response_fits policy k (result_response result)))"

definition obeys :: "authority \<Rightarrow> response_policy set \<Rightarrow> authority \<Rightarrow> engine_output list \<Rightarrow> bool" where
  "obeys a0 P a out \<longleftrightarrow> lawful a0 P a \<and> delivers a0 P out"

lemma delivers_simps [simp]:
  "delivers a0 P []"
  "delivers a0 P (out @ out') \<longleftrightarrow> delivers a0 P out \<and> delivers a0 P out'"
  by (auto simp: delivers_def map_filter_simps)

lemma silent_delivers: "silent out \<Longrightarrow> delivers a0 P out"
  by (simp add: delivers_def silent_def)

lemma delivers_Cons [simp]:
  "(\<And>k. answer_to k x = None) \<Longrightarrow> delivers a0 P (x # out) \<longleftrightarrow> delivers a0 P out"
  "delivers a0 P (Deliver k (Inl e) # out) \<longleftrightarrow> delivers a0 P out"
  by (auto simp: delivers_def map_filter_simps)

lemma obeysI: "lawful a0 P a \<Longrightarrow> delivers a0 P out \<Longrightarrow> obeys a0 P a out"
  by (simp add: obeys_def)

lemma obeys_lawful: "obeys a0 P a out \<Longrightarrow> lawful a0 P a"
  by (simp add: obeys_def)

lemma obeys_Nil [simp]: "obeys a0 P a [] \<longleftrightarrow> lawful a0 P a"
  by (simp add: obeys_def)

lemma obeys_append: "obeys a0 P a out \<Longrightarrow> obeys a0 P a' out' \<Longrightarrow> obeys a0 P a' (out @ out')"
  by (simp add: obeys_def)

lemma lawful_start: "lawful a0 P a \<Longrightarrow> lawful a Q a"
  by (auto simp: lawful_def policy_of_def)

text \<open>How an entry may develop while its operation stays.\<close>

definition entry_follows :: "terminal_outcome option \<Rightarrow> request_key \<Rightarrow> operation_pending \<Rightarrow> operation_pending \<Rightarrow> bool" where
  "entry_follows recorded k p p' \<longleftrightarrow> pend_response p' = pend_response p \<and>
     (pend_draining p' \<longrightarrow> pend_draining p \<or> recorded \<noteq> None) \<and>
     (\<forall>result. pend_buffered p' = Some (Inr result) \<longrightarrow>
        pend_buffered p = Some (Inr result) \<or> response_fits (pend_response p) k (result_response result))"

lemma entry_follows_refl [simp]: "entry_follows oc k p p"
  by (simp add: entry_follows_def)

lemma lawful_step:
  assumes "lawful a0 P a" and "generation_inv (auth_state a')"
    and "\<And>k. get_request (auth_state a) k \<noteq> None \<Longrightarrow> get_request (auth_state a') k \<noteq> None"
    and "\<And>k. recorded_outcome a k \<noteq> None \<Longrightarrow> recorded_outcome a' k \<noteq> None"
    and "\<And>k p'. map_of (pending a') k = Some p' \<Longrightarrow>
      \<exists>p. map_of (pending a) k = Some p \<and> entry_follows (recorded_outcome a' k) k p p'"
  shows "lawful a0 P a'"
  unfolding lawful_def
proof (intro conjI allI impI)
  show "generation_inv (auth_state a')" by fact
  show "get_request (auth_state a') k \<noteq> None" if "map_of (pending a0) k \<noteq> None" for k
    using assms(1,3) that by (simp add: lawful_def)
  fix k p'
  assume "map_of (pending a') k = Some p'"
  then obtain p where p: "map_of (pending a) k = Some p" "entry_follows (recorded_outcome a' k) k p p'"
    using assms(5) by blast
  then have old: "get_request (auth_state a) k \<noteq> None" "policy_of a0 P k (pend_response p)"
    "entry_lawful (recorded_outcome a k) k p" using assms(1) by (auto simp: lawful_def)
  show "get_request (auth_state a') k \<noteq> None" using assms(3) old(1) .
  show "policy_of a0 P k (pend_response p')" using p(2) old(2) by (simp add: entry_follows_def)
  show "entry_lawful (recorded_outcome a' k) k p'"
    using p(2) old(3) assms(4) [of k] by (auto simp: entry_follows_def entry_lawful_def)
qed

lemma lawful_entry:
  "lawful a0 P a \<Longrightarrow> map_of (pending a) k = Some p \<Longrightarrow>
     get_request (auth_state a) k \<noteq> None \<and> policy_of a0 P k (pend_response p) \<and> entry_lawful (recorded_outcome a k) k p"
  by (simp add: lawful_def)

lemma lawful_frame:
  "lawful a0 P a \<Longrightarrow> auth_state a' = auth_state a \<Longrightarrow> pending a' = pending a \<Longrightarrow> lawful a0 P a'"
  by (simp add: lawful_def)

lemma lawful_delete: "lawful a0 P a \<Longrightarrow> lawful a0 P (a\<lparr>pending := AList.delete key (pending a)\<rparr>)"
  by (rule lawful_step, assumption) (auto simp: lawful_def table split: if_splits)

lemma lawful_update:
  assumes "lawful a0 P a" and "map_of (pending a) key = Some p" and "entry_follows (recorded_outcome a key) key p p'"
  shows "lawful a0 P (a\<lparr>pending := AList.update key p' (pending a)\<rparr>)"
  using assms(1) by (rule lawful_step) (use assms in \<open>auto simp: lawful_def table split: if_splits\<close>)

lemma lawful_insert:
  assumes "lawful a0 P a" and "map_of (pending a0) key = None" and "get_request (auth_state a) key \<noteq> None"
    and "op_response op \<in> P"
  shows "lawful a0 P (insert_pending key (new_pending op raw terminal) a)"
  using assms by (auto simp: lawful_def insert_pending_def new_pending_def table policy_of_def entry_lawful_def)

section \<open>Events of the request owner\<close>

lemma reduce_keeps:
  assumes "generation_inv g" and "generation_reduce g e = (g', fs)" and "request_terminal_outcome g k \<noteq> None"
  shows "request_terminal_outcome g' k \<noteq> None"
  using tells_recorded [OF assms(1,2), of k] assms(3) by auto

lemma lawful_reduce:
  assumes "lawful a0 P a" and "\<not> admits e"
  shows "lawful a0 P (reduce_state a e)"
proof -
  obtain g fs where red: "generation_reduce (auth_state a) e = (g, fs)" by fastforce
  have ginv: "generation_inv (auth_state a)" using assms(1) by (simp add: lawful_def)
  from assms(1) show ?thesis
    using generation_reduce_inv [OF ginv, of e] red known_reduce [OF assms(2), of "auth_state a"] reduce_keeps [OF ginv red]
    by (intro lawful_step [OF assms(1)]) (auto simp: reduce_state_def)
qed

text \<open>A cancellation goes out only for a request that has its outcome.\<close>

lemma reduce_settles [simp]:
  "\<exists>outcome. request_outcome (fst (request_reduce l EvCancel)) = Some outcome"
  "\<exists>outcome. request_outcome (fst (request_reduce l EvDeadline)) = Some outcome"
  by (auto simp: request_reduce.simps request_defs request_outcome_def split: caller_outcome.splits)

lemma settle_cancels: "BestEffortWireCancel k \<in> set (snd (settle_unanswered s key sent now)) \<Longrightarrow> k = key"
  by (auto simp: settle_unanswered_def split_beta split: if_splits)

lemma cancel_settled:
  "BestEffortWireCancel k \<in> set (snd (on_cancel s key now)) \<Longrightarrow> request_terminal_outcome (fst (on_cancel s key now)) k \<noteq> None"
  using reduce_settles(1)
  by (auto simp: on_cancel_def Let_def split_beta request_terminal_outcome_bind dest!: settle_cancels split: option.splits if_splits)

lemma expire_settled:
  "BestEffortWireCancel k \<in> set (snd (expire_deadline s now e)) \<Longrightarrow>
     request_terminal_outcome (fst (expire_deadline s now e)) k \<noteq> None"
  using reduce_settles(2)
  by (auto simp: expire_deadline_def Let_def split_beta request_terminal_outcome_bind dest!: settle_cancels
      split: option.splits if_splits deadline_kind.splits)

lemma advance_settled:
  "BestEffortWireCancel k \<in> set (snd (on_advance_time s now)) \<longrightarrow>
     request_terminal_outcome (fst (on_advance_time s now)) k \<noteq> None"
proof -
  have "tells_caller k s (on_advance_time s now) \<and> (BestEffortWireCancel k \<in> set (snd (on_advance_time s now)) \<longrightarrow>
     request_terminal_outcome (fst (on_advance_time s now)) k \<noteq> None)"
  proof (induct rule: advance_time_induct [where now = now and P = "\<lambda>s p. tells_caller k s p \<and>
      (BestEffortWireCancel k \<in> set (snd p) \<longrightarrow> request_terminal_outcome (fst p) k \<noteq> None)"])
    case (due s e s1 fs1 s2 fs2)
    let ?s = "s\<lparr>deadlines := heap_pop (deadlines s)\<rparr>"
    have "tells_caller k s (?s, [])" by (rule tells_quiet) (simp_all add: map_filter_simps)
    moreover have "tells_caller k ?s (s1, fs1)" using tells_expire_deadline due(3) by metis
    ultimately have "tells_caller k s (s1, fs1)" by (metis tells_trans append_Nil)
    then have "tells_caller k s (s2, fs1 @ fs2)" using due(4) by (blast intro: tells_trans)
    moreover have "request_terminal_outcome s1 k \<noteq> None \<longrightarrow> request_terminal_outcome s2 k \<noteq> None"
      using due(4) by (auto simp: tells_def split: option.splits)
    ultimately show ?case using due(4) expire_settled [of k ?s now e] due(3) by auto
  qed (simp add: tells_quiet map_filter_simps)
  then show ?thesis by blast
qed

lemma disconnect_cancels: "BestEffortWireCancel k \<notin> set (snd (disconnect_keys n ks s))"
  by (induction ks arbitrary: s) (auto simp: split_beta split: option.splits)

lemma ends_unanswered_settled:
  "ends_unanswered e \<Longrightarrow> BestEffortWireCancel k \<in> set (snd (generation_reduce g e)) \<Longrightarrow>
     request_terminal_outcome (fst (generation_reduce g e)) k \<noteq> None"
  using advance_settled [of k g] disconnect_cancels [of k]
  by (cases e) (simp_all add: cancel_settled on_disconnect_def split_beta)

lemma failed_entry_follows:
  "fst (failed_entry outcome entry) = Some p' \<Longrightarrow> \<exists>p. entry = Some p \<and> entry_follows oc k p p'"
  "Inr result \<notin> set (snd (failed_entry outcome entry))"
  by (auto simp: failed_entry_def entry_follows_def split: if_splits option.splits)

lemma reduce_and_apply_obeys:
  assumes law: "lawful a0 P a" and e: "ends_unanswered e"
  shows "obeys a0 P (fst (reduce_and_apply a e)) (snd (reduce_and_apply a e))"
proof -
  obtain g fs where red: "generation_reduce (auth_state a) e = (g, fs)" by fastforce
  note eq = reduce_and_apply_eq [OF red]
  have ginv: "generation_inv (auth_state a)" using law by (simp add: lawful_def)
  have no: "\<not> publishes fs Response" using ends_unanswered_no_response [OF e, of "auth_state a"] red by simp
  have "\<not> admits e" using e by (cases e) simp_all
  then have known: "get_request g k = None \<longleftrightarrow> get_request (auth_state a) k = None" for k
    using known_reduce [of e "auth_state a" k] red by simp
  let ?m = "mark_draining fs (pending a)"
  let ?p = "fst (publish_failures fs ?m)" and ?out = "snd (publish_failures fs ?m)"
  have told: "(\<exists>outcome. map_of ?p k = fst (failed_entry outcome (map_of ?m k)) \<and>
        answers k ?out = snd (failed_entry outcome (map_of ?m k))) \<or> (map_of ?p k = map_of ?m k \<and> answers k ?out = [])" for k
    using publish_failures_entry(1) [OF no, where k = k and p = ?m] publish_failures_entry(2) [OF no, where k = k and p = ?m] tells_recorded [OF ginv red, of k]
    by (auto split: option.splits)
  have marked: "entry_follows (request_terminal_outcome g k) k p m'" if "map_of (pending a) k = Some p" "map_of ?m k = Some m'" for k p m'
    using that ends_unanswered_settled [OF e, of k "auth_state a"] red by (auto simp: mark_draining_entry entry_follows_def split: if_splits)
  have "\<exists>p. map_of (pending a) k = Some p \<and> entry_follows (request_terminal_outcome g k) k p p'"
    if p': "map_of ?p k = Some p'" for k p'
  proof -
    from told [of k] p' obtain m' where m': "map_of ?m k = Some m'" "entry_follows (request_terminal_outcome g k) k m' p'"
      by (metis failed_entry_follows(1) entry_follows_refl)
    then obtain p where p: "map_of (pending a) k = Some p" using marked_entry(3) [of fs "pending a" k] by (cases "map_of (pending a) k") auto
    with marked [OF p m'(1)] m'(2) show ?thesis by (auto simp: entry_follows_def)
  qed
  then have "lawful a0 P (fst (reduce_and_apply a e))"
    using generation_reduce_inv [OF ginv, of e] red known reduce_keeps [OF ginv red]
    by (intro lawful_step [OF law]) (simp_all add: eq)
  moreover have "delivers a0 P (snd (reduce_and_apply a e))"
    using told failed_entry_follows(2) unfolding delivers_def eq by (metis empty_iff list.set(1))
  ultimately show ?thesis by (rule obeysI)
qed

section \<open>Responses\<close>

lemma complete_failure_lawful:
  assumes "lawful a0 P a" and "complete_operation (pending a) key (Inl e) = (p, out)"
  shows "obeys a0 P (a\<lparr>pending := p\<rparr>) out"
proof (rule obeysI)
  note entry = complete_operation_entry [where p = "pending a" and key = key and answer = "Inl e", unfolded assms(2) fst_conv snd_conv]
  show "lawful a0 P (a\<lparr>pending := p\<rparr>)"
    using assms(1)
    by (intro lawful_step [OF assms(1)])
      (auto simp: lawful_def entry completed_entry_def entry_follows_def split: if_splits option.splits)
  show "delivers a0 P out"
    by (auto simp: delivers_def entry completed_entry_def split: if_splits option.splits)
qed

text \<open>A response is published only for an operation without an outcome: it does not drain.\<close>

lemma published_open:
  assumes "lawful a0 P a" and "map_of (pending a) key = Some entry"
    and "generation_reduce (auth_state a) (ResponseArrived key LastResponse grant) = (g, fs)"
    and "list_ex (publishes_response_to key) fs"
  shows "\<not> pend_draining entry"
proof -
  have "generation_inv (auth_state a)" using assms(1) by (simp add: lawful_def)
  from tells_recorded [OF this assms(3), of key] have "recorded_outcome a key = None"
    using assms(4) by (auto simp: list_ex_told split: option.splits)
  then show ?thesis using lawful_entry [OF assms(1,2)] by (simp add: entry_lawful_def)
qed

lemma finish_entry_obeys:
  assumes law: "lawful a0 P a" and entry: "map_of (pending a) key = Some entry"
    and fits: "published \<Longrightarrow> response_fits (pend_response entry) key (result_response result)"
    and fin: "finish_entry published (Inr result) key (pending a) = (p, out)"
  shows "obeys a0 P (a\<lparr>pending := p\<rparr>) out"
proof (cases published)
  case True
  have policy: "policy_of a0 P key (pend_response entry)" using law entry by (simp add: lawful_def)
  note completed = complete_operation_entry [where p = "pending a" and key = key and answer = "Inr result"]
  have p: "p = fst (complete_operation (pending a) key (Inr result))" "out = snd (complete_operation (pending a) key (Inr result))"
    using fin True by (simp_all add: finish_entry_def)
  show ?thesis
  proof (rule obeysI)
    show "lawful a0 P (a\<lparr>pending := p\<rparr>)"
      using law fits [OF True] entry
      by (intro lawful_step [OF law])
        (auto simp: lawful_def p completed completed_entry_def entry_follows_def split: if_splits option.splits)
    show "delivers a0 P out"
      using fits [OF True] entry policy by (auto simp: delivers_def p completed completed_entry_def split: if_splits)
  qed
next
  case False
  then show ?thesis
    using fin lawful_delete [OF law, of key] lawful_frame [OF law, of "a\<lparr>pending := pending a\<rparr>"]
    by (auto simp: finish_entry_def entry split: if_splits intro!: obeysI)
qed

lemma response_obeys:
  assumes law: "lawful a0 P a" and step: "process_decoded_response m a fatal = (a', fatal', out)"
  shows "obeys a0 P a' out"
proof (cases "map_of (pending a) (RequestKey (generation (auth_state a)) (resp_message_id m))")
  case None
  then show ?thesis using step law by (simp add: process_decoded_response_def Let_def obeys_def)
next
  case (Some entry)
  let ?key = "RequestKey (generation (auth_state a)) (resp_message_id m)"
  let ?result = "\<lparr>result_key = ?key, result_response = m, result_request_raw = None\<rparr>"
  let ?final = "ResponseArrived ?key LastResponse (resp_credits m)"
  obtain g fs where red: "generation_reduce (auth_state a) ?final = (g, fs)" by fastforce
  obtain h hs where hint: "generation_reduce (auth_state a) (RecoveryHint ?key) = (h, hs)" by fastforce
  let ?a1 = "fst (apply_owner_effects (a\<lparr>auth_state := g\<rparr>) fs)" and ?a2 = "fst (apply_owner_effects (a\<lparr>auth_state := h\<rparr>) hs)"
  have law1: "lawful a0 P ?a1" "lawful a0 P ?a2"
    using lawful_reduce [OF law, of ?final] lawful_reduce [OF law, of "RecoveryHint ?key"] red hint
    by (auto simp: reduce_state_def apply_owner_effects_fields intro: lawful_frame)
  obtain p out2 where fin: "finish_entry (list_ex (publishes_response_to ?key) fs) (Inr ?result) ?key (pending ?a1) = (p, out2)"
    by fastforce
  obtain q out3 where fail: "complete_operation (pending ?a2) ?key (Inl (ErrTerminal SessionInvalidated)) = (q, out3)" by fastforce
  let ?st = "status_try_from (resp_status m)"
  let ?final_ok = "resp_command m = policy_command (pend_response entry) \<and> \<not> resp_recovery_hint m \<and> ?st \<noteq> Some status_pending \<and>
    (accepts_wire_status (pend_response entry) ?st \<or> resp_is_error m \<or>
     ?st \<in> {Some status_user_session_deleted, Some status_network_session_expired} \<or> pend_draining entry)"
  have "(a' = a \<and> out = []) \<or> (\<exists>e. \<not> admits e \<and> a' = reduce_state a e \<and> out = []) \<or>
      (a' = ?a2\<lparr>pending := q\<rparr> \<and> out = snd (apply_owner_effects (a\<lparr>auth_state := h\<rparr>) hs) @ out3) \<or>
      (a' = ?a1\<lparr>pending := p\<rparr> \<and> out = snd (apply_owner_effects (a\<lparr>auth_state := g\<rparr>) fs) @ out2 \<and> ?final_ok)"
    using step Some red hint fin fail
    by (auto simp: process_decoded_response_def finish_entry_def apply_owner_effects_def response_status_is_admissible_def
        Let_def split_beta split: if_splits option.splits intro!: exI [of _ "ResponseArrived _ (PendingResponse _) _"])
  then show ?thesis
  proof (elim disjE)
    assume "a' = ?a1\<lparr>pending := p\<rparr> \<and> out = snd (apply_owner_effects (a\<lparr>auth_state := g\<rparr>) fs) @ out2 \<and> ?final_ok"
    then have ok: "a' = ?a1\<lparr>pending := p\<rparr>" "out = snd (apply_owner_effects (a\<lparr>auth_state := g\<rparr>) fs) @ out2" "?final_ok"
      by simp_all
    have "response_fits (pend_response entry) ?key m" if "list_ex (publishes_response_to ?key) fs"
      using ok(3) published_open [OF law Some red that] by (auto simp: response_fits_def)
    with law1(1) fin Some have "obeys a0 P (?a1\<lparr>pending := p\<rparr>) out2"
      by (intro finish_entry_obeys [where entry = entry]) (simp_all add: apply_owner_effects_fields)
    then show ?thesis using ok by (simp add: obeys_def silent_delivers apply_owner_effects_fields)
  qed (use law lawful_reduce [OF law] complete_failure_lawful [OF law1(2) fail] in
    \<open>auto simp: obeys_def silent_delivers apply_owner_effects_fields\<close>)
qed

lemma response_known:
  assumes "process_decoded_response m a fatal = (a', fatal', out)"
  shows "get_request (auth_state a') k = None \<longleftrightarrow> get_request (auth_state a) k = None"
proof -
  have "\<exists>e. \<not> admits e \<and> auth_state a' \<in> {auth_state a, fst (generation_reduce (auth_state a) e)}"
    using assms
    by (auto simp: process_decoded_response_def reduce_state_def apply_owner_effects_fields Let_def split_beta
        split: option.splits if_splits
        intro: exI [of _ "ResponseArrived _ (PendingResponse _) _"] exI [of _ "ResponseArrived _ LastResponse _"]
          exI [of _ "RecoveryHint _"])
  then show ?thesis using known_reduce by auto
qed

lemma early_obeys:
  assumes "lawful a0 P a" and "take_early_response key a fatal = (a', fatal', out)"
  shows "obeys a0 P a' out" and "get_request (auth_state a') k = None \<longleftrightarrow> get_request (auth_state a) k = None"
proof -
  have law: "lawful a0 P (a\<lparr>early_responses := e\<rparr>)" for e using assms(1) by (rule lawful_frame) simp_all
  show "obeys a0 P a' out"
    using assms response_obeys [OF law] by (auto simp: take_early_response_def obeys_def split: option.splits)
  show "get_request (auth_state a') k = None \<longleftrightarrow> get_request (auth_state a) k = None"
    using assms(2) by (auto simp: take_early_response_def split: option.splits dest!: response_known [where k = k])
qed

definition obeys_result :: "authority \<Rightarrow> response_policy set \<Rightarrow> engine_result \<Rightarrow> bool" where
  "obeys_result a0 P r \<longleftrightarrow> (\<forall>s' out. r = Some (s', out) \<longrightarrow> obeys a0 P (eng_auth s') out)"

lemma obeys_result_simps [simp]:
  "obeys_result a0 P None"
  "obeys_result a0 P (Some p) \<longleftrightarrow> obeys a0 P (eng_auth (fst p)) (snd p)"
  by (cases p; simp add: obeys_result_def)+

lemma obeys_silent: "lawful a0 P a \<Longrightarrow> silent out \<Longrightarrow> obeys a0 P a out"
  by (simp add: obeys_def silent_delivers)

lemma with_early_response_obeys:
  "lawful a0 P (eng_auth s) \<Longrightarrow> obeys a0 P (eng_auth (fst (with_early_response key s))) (snd (with_early_response key s))"
  by (cases "take_early_response key (eng_auth s) (eng_fatal s)") (auto simp: with_early_response_def intro: early_obeys(1))

section \<open>Admissions\<close>

lemma admit_lawful:
  assumes law: "lawful a0 P a" and admit: "admit (auth_state a) bytes charge dl = (g, effect)"
  shows "lawful a0 P (a\<lparr>auth_state := g\<rparr>)"
    and "get_request (auth_state a) k \<noteq> None \<Longrightarrow> get_request g k \<noteq> None"
    and "effect = Admitted plan \<Longrightarrow> map_of (pending a0) (plan_key plan) = None \<and> get_request g (plan_key plan) \<noteq> None"
proof -
  have ginv: "generation_inv (auth_state a)" using law by (simp add: lawful_def)
  have "generation_inv g" using admit_inv [OF ginv, of bytes charge dl] admit by simp
  have known: "get_request g k \<noteq> None" if "get_request (auth_state a) k \<noteq> None" for k
    using admit by (cases rule: admit_cases) (use that in \<open>auto simp: get_request_None split: if_splits\<close>)
  then show "get_request (auth_state a) k \<noteq> None \<Longrightarrow> get_request g k \<noteq> None" .
  have keeps: "request_terminal_outcome g k \<noteq> None" if "recorded_outcome a k \<noteq> None" for k
    using tells_admit [OF ginv, of k bytes charge dl] admit that by (auto simp: tells_def split: option.splits)
  show "lawful a0 P (a\<lparr>auth_state := g\<rparr>)"
    using \<open>generation_inv g\<close> known keeps by (intro lawful_step [OF law]) auto
  show "map_of (pending a0) (plan_key plan) = None \<and> get_request g (plan_key plan) \<noteq> None" if "effect = Admitted plan"
    using admit
  proof (cases rule: admit_cases)
    case (admitted m plan')
    then have "get_request (auth_state a) (plan_key plan) = None" using fresh_key [OF ginv] that by auto
    with law have "map_of (pending a0) (plan_key plan) = None" by (auto simp: lawful_def)
    then show ?thesis using admitted that by (simp add: get_request_None)
  qed (use that in simp)
qed

lemma admitted_operation_obeys:
  assumes law: "lawful a0 P (eng_auth s)" and "map_of (pending a0) (plan_key plan) = None"
    and "get_request (auth_state (eng_auth s)) (plan_key plan) \<noteq> None" and "op_response (adm_operation c) \<in> P"
  shows "obeys_result a0 P (admitted_operation c plan retain_raw decision s)"
proof -
  note insert = lawful_insert [OF assms]
  have "lawful a0 P (a\<lparr>preparation_cancellations := ps\<rparr>)" if "lawful a0 P a" for a ps
    using that by (rule lawful_frame) simp_all
  moreover have "obeys a0 P (eng_auth (fst (with_early_response (plan_key plan) s1))) (snd (with_early_response (plan_key plan) s1))"
    if "eng_auth s1 = insert_pending (plan_key plan) (new_pending (adm_operation c) raw terminal) (eng_auth s)" for s1 raw terminal
    using insert that by (intro with_early_response_obeys) simp
  ultimately show ?thesis
    using insert lawful_reduce [OF law, of "PrepareFailed (plan_key plan)"]
    by (auto simp: admitted_operation_def Let_def split_beta obeys_def split: wire_decision.splits option.splits)
qed

lemma obeys_result_map:
  "obeys_result a0 P r \<Longrightarrow> (\<And>k. answer_to k x = None) \<Longrightarrow> obeys_result a0 P (map_option (\<lambda>(s', out). (s', x # out)) r)"
  by (auto simp: obeys_result_def obeys_def)

lemma process_operation_admission_obeys:
  assumes law: "lawful a0 P (eng_auth s)" and "op_response (adm_operation c) \<in> P"
  shows "obeys_result a0 P (process_operation_admission c cmac retain_raw decision s)"
proof -
  have "obeys_result a0 P (case effect of
      Admitted plan \<Rightarrow> map_option (\<lambda>(s', out). (s', PrepareFrame plan cmac # out))
        (admitted_operation c plan retain_raw decision (s\<lparr>eng_auth := (eng_auth s)\<lparr>auth_state := g\<rparr>\<rparr>))
    | AdmissionRejected e \<Rightarrow> Some (s\<lparr>eng_auth := (eng_auth s)\<lparr>auth_state := g\<rparr>\<rparr>, refuse_operation c (ErrAdmission e))
    | _ \<Rightarrow> Some (s\<lparr>eng_auth := (eng_auth s)\<lparr>auth_state := g\<rparr>\<rparr>, refuse_operation c ErrOwnerTerminated))"
    if "admit (auth_state (eng_auth s)) bytes charge dl = (g, effect)" for bytes charge dl g effect
    using admit_lawful [OF law that] assms(2)
    by (auto intro!: obeys_silent obeys_result_map admitted_operation_obeys split: owner_effect.splits)
  note admission = this [OF prod.collapse [symmetric]]
  show ?thesis
    using law admission
    by (auto simp: process_operation_admission_def Let_def split_beta obeys_silent split: option.splits sum.splits)
qed

section \<open>Preparations\<close>

lemma finish_prepared_operation_obeys:
  assumes law: "lawful a0 P (eng_auth s)"
  shows "obeys a0 P (eng_auth (fst (finish_prepared_operation prepared s))) (snd (finish_prepared_operation prepared s))"
proof -
  let ?key = "prep_key prepared"
  let ?a = "(eng_auth s)\<lparr>preparation_cancellations := removeAll ?key (preparation_cancellations (eng_auth s))\<rparr>"
  have a: "lawful a0 P ?a" using law by (rule lawful_frame) simp_all
  note forget = lawful_delete [OF a, of ?key]
  have raw: "lawful a0 P (insert_pending ?key (entry\<lparr>pend_request_raw := r\<rparr>) ?a)" if "map_of (pending ?a) ?key = Some entry" for entry r
    unfolding insert_pending_def by (rule lawful_update [OF a that]) (simp add: entry_follows_def)
  have early: "obeys a0 P (eng_auth (fst (with_early_response ?key s1))) (snd (with_early_response ?key s1))"
    if "map_of (pending ?a) ?key = Some entry" "eng_auth s1 = insert_pending ?key (entry\<lparr>pend_request_raw := r\<rparr>) ?a" for s1 entry r
    using raw [OF that(1)] that(2) by (intro with_early_response_obeys) simp
  show ?thesis
    using a forget lawful_reduce [OF forget, of "PrepareFailed ?key"] early
    by (auto simp: finish_prepared_operation_def Let_def split_beta obeys_def split: option.split caller_outcome.split)
qed

lemma finish_prepared_operations_obeys:
  "lawful a0 P (eng_auth s) \<Longrightarrow>
     obeys a0 P (eng_auth (fst (finish_prepared_operations ready s))) (snd (finish_prepared_operations ready s))"
proof (induction ready arbitrary: s)
  case (Cons prepared ready)
  note first = finish_prepared_operation_obeys [OF Cons.prems, of prepared]
  from obeys_append [OF first Cons.IH [OF obeys_lawful [OF first]]] show ?case by (simp add: split_beta)
qed (simp add: obeys_def)

lemma preparation_done_obeys:
  "lawful a0 P (eng_auth s) \<Longrightarrow> obeys_result a0 P (preparation_done key result s)"
  by (auto simp: preparation_done_def finish_prepared_operations_obeys split: option.splits)

section \<open>Compound chains and raw requests\<close>

lemma fail_members_lawful: "lawful a0 P a \<Longrightarrow> lawful a0 P (fail_members keys a)"
  unfolding fail_members_def by (induction keys arbitrary: a) (simp_all add: lawful_reduce)

definition ready_members :: "authority \<Rightarrow> response_policy set \<Rightarrow> authority \<Rightarrow> (request_key \<times> typed_operation) list \<Rightarrow> bool" where
  "ready_members a0 P a members \<longleftrightarrow> (\<forall>(k, op) \<in> set members.
     map_of (pending a0) k = None \<and> get_request (auth_state a) k \<noteq> None \<and> op_response op \<in> P)"

lemma admit_members_lawful:
  "lawful a0 P a \<Longrightarrow> ready_members a0 P a admitted \<Longrightarrow> op_response ` set ops \<subseteq> P \<Longrightarrow>
     admit_members dl ops admitted a = (a', r, out) \<Longrightarrow>
     lawful a0 P a' \<and> silent out \<and> (\<forall>members. r = Inr members \<longrightarrow> ready_members a0 P a' members)"
proof (induction ops arbitrary: admitted a out)
  case Nil
  then show ?case by auto
next
  case (Cons op ops)
  show ?case
  proof (cases "operation_credit_charge op (auth_large_mtu a)")
    case (Inl e)
    with Cons.prems fail_members_lawful [OF Cons.prems(1)] show ?thesis by (auto simp: Let_def)
  next
    case (Inr charge)
    obtain g effect where admit: "admit (auth_state a) (operation_payload_bytes op) charge dl = (g, effect)" by fastforce
    note law = admit_lawful [OF Cons.prems(1) admit]
    show ?thesis
      using admit
    proof (cases rule: admit_cases)
      case (rejected e)
      with Cons.prems fail_members_lawful [OF law(1)] Inr admit show ?thesis by (auto simp: Let_def)
    next
      case (admitted m plan)
      have "ready_members a0 P (a\<lparr>auth_state := g\<rparr>) (admitted @ [(plan_key plan, op)])"
        using Cons.prems(2,3) law(2) law(3) [OF admitted(1)] by (fastforce simp: ready_members_def)
      note rest = Cons.IH [OF law(1) this]
      obtain out' where "admit_members dl ops (admitted @ [(plan_key plan, op)]) (a\<lparr>auth_state := g\<rparr>) = (a', r, out')"
        "out = PrepareFrame plan False # out'"
        using Cons.prems(4) Inr admit admitted(1) by (auto simp: Let_def split: prod.splits)
      with rest [OF _ this(1)] Cons.prems(3) show ?thesis by simp
    qed
  qed
qed

lemma insert_members_obeys:
  "lawful a0 P a \<Longrightarrow> ready_members a0 P a members \<Longrightarrow> insert_members members a fatal = (a', fatal', out) \<Longrightarrow> obeys a0 P a' out"
proof (induction members arbitrary: a fatal out)
  case (Cons member members)
  obtain key op where member: "member = (key, op)" by fastforce
  let ?a = "insert_pending key (new_pending op None False) a"
  obtain a1 fatal1 out1 where early: "take_early_response key ?a fatal = (a1, fatal1, out1)" by (metis prod_cases3)
  have "lawful a0 P ?a" using Cons.prems(1,2) by (intro lawful_insert) (auto simp: ready_members_def member)
  note first = early_obeys [OF this early]
  have "ready_members a0 P a1 members"
    using Cons.prems(2) first(2) by (auto simp: ready_members_def insert_pending_def)
  from Cons.IH [OF obeys_lawful [OF first(1)] this] Cons.prems(3) first(1) show ?case
    by (auto simp: member early split_beta intro: obeys_append)
qed (simp add: obeys_def)

lemma process_compound_admission_obeys:
  assumes law: "lawful a0 P (eng_auth s)" and offered: "op_response ` set (com_operations c) \<subseteq> P"
  shows "obeys_result a0 P (process_compound_admission c prepared s)"
proof -
  obtain a1 r out where admit: "admit_members (com_deadline c) (com_operations c) [] (eng_auth s) = (a1, r, out)" by (metis prod_cases3)
  from admit_members_lawful [OF law _ offered admit]
  have a1: "lawful a0 P a1" "silent out" "\<And>members. r = Inr members \<Longrightarrow> ready_members a0 P a1 members"
    by (simp_all add: ready_members_def)
  have members: "obeys a0 P (fst (insert_members members a1 fatal)) (snd (snd (insert_members members a1 fatal)))"
    if "r = Inr members" for members fatal
    using insert_members_obeys [OF a1(1) a1(3) [OF that], of fatal] by (cases "insert_members members a1 fatal") simp
  show ?thesis
    using law a1(1) silent_delivers [OF a1(2)] fail_members_lawful [OF a1(1)] members
    by (auto simp: process_compound_admission_def Let_def admit split_beta obeys_def split: option.split sum.split)
qed

lemma process_admission_obeys:
  assumes law: "lawful a0 P (eng_auth s)"
  shows "obeys a0 P (eng_auth (fst (process_admission bytes charge dl frame s))) (snd (process_admission bytes charge dl frame s))"
proof -
  obtain g effect where admit: "admit (auth_state (eng_auth s)) bytes charge dl = (g, effect)" by fastforce
  note admitted = admit_lawful(1) [OF law admit]
  have "lawful a0 P ((eng_auth s)\<lparr>auth_state := g, terminals := ts\<rparr>)" for ts
    using admitted by (rule lawful_frame) simp_all
  with admitted show ?thesis
    by (auto simp: process_admission_def Let_def admit obeys_def split: owner_effect.split)
qed

section \<open>Writes and inbound frames\<close>

lemma progress_members_lawful: "lawful a0 P a \<Longrightarrow> lawful a0 P (progress_members progress keys a)"
  unfolding progress_members_def by (induction keys arbitrary: a) (simp_all add: lawful_reduce)

lemma cancel_members_obeys:
  "lawful a0 P a \<Longrightarrow> obeys a0 P (fst (cancel_members now keys a)) (snd (cancel_members now keys a))"
proof (induction keys arbitrary: a)
  case (Cons key keys)
  have first: "obeys a0 P (fst (reduce_and_apply a (CancelRequest key now))) (snd (reduce_and_apply a (CancelRequest key now)))"
    by (rule reduce_and_apply_obeys [OF Cons.prems]) simp
  from obeys_append [OF first Cons.IH [OF obeys_lawful [OF first]]] show ?case by (simp add: split_beta)
qed simp

lemma run_deferred_obeys:
  assumes "lawful a0 P a"
  shows "obeys a0 P (fst (run_deferred_cancellation key a)) (snd (run_deferred_cancellation key a))"
proof -
  have "lawful a0 P (a\<lparr>deferred_cancellations := ds\<rparr>)" for ds using assms by (rule lawful_frame) simp_all
  then show ?thesis
    using assms by (auto simp: run_deferred_cancellation_def reduce_and_apply_obeys split: option.split)
qed

lemma obeys_frame_cancellations [simp]: "obeys a0 P (a\<lparr>frame_cancellations := cs\<rparr>) out \<longleftrightarrow> obeys a0 P a out"
  by (simp add: obeys_def lawful_def)

lemma write_event_obeys:
  assumes law: "lawful a0 P a"
  shows "obeys a0 P (fst (write_event event a)) (snd (write_event event a))"
proof -
  have frame: "lawful a0 P (a\<lparr>frame_members := ms\<rparr>)" "lawful a0 P (a\<lparr>deferred_cancellations := ds, frame_members := ms\<rparr>)"
    for ds ms by (rule lawful_frame [OF law]; simp)+
  show ?thesis
    using law run_deferred_obeys [OF progress_members_lawful [OF law]]
      run_deferred_obeys [OF progress_members_lawful [OF frame(1)]] cancel_members_obeys [OF frame(2)]
    by (cases event) (auto simp: Let_def split_beta)
qed

lemma process_io_obeys:
  "lawful a0 P (eng_auth s) \<Longrightarrow> obeys a0 P (eng_auth (fst (process_io event l s))) (snd (process_io event l s))"
  using write_event_obeys [of a0 P "eng_auth s" event]
  by (auto simp: process_io_def Let_def split_beta obeys_def silent_delivers)

lemma dispatch_next_lawful:
  assumes "lawful a0 P (eng_auth s)"
  shows "obeys a0 P (eng_auth (fst (dispatch_next s))) (snd (dispatch_next s))"
proof -
  have "lawful a0 P ((progress_members progress keys (eng_auth s))\<lparr>frame_members := ms, frame_cancellations := cs\<rparr>)"
    for progress keys ms cs
    using progress_members_lawful [OF assms] by (rule lawful_frame) simp_all
  with assms show ?thesis by (auto simp: dispatch_next_def Let_def obeys_def split: list.split)
qed

lemma process_inbound_messages_obeys:
  "lawful a0 P a \<Longrightarrow> process_inbound_messages ms a fatal = (a', fatal', out) \<Longrightarrow> obeys a0 P a' out"
proof (induction ms arbitrary: a fatal out)
  case (Cons message ms)
  obtain m full where message: "message = (m, full)" by fastforce
  obtain a1 fatal1 out1 where one: "process_inbound_message m full a fatal = (a1, fatal1, out1)" by (metis prod_cases3)
  have early: "lawful a0 P (a\<lparr>early_responses := es\<rparr>)" for es using Cons.prems(1) by (rule lawful_frame) simp_all
  have "obeys a0 P a1 out1"
    using one early response_obeys [OF Cons.prems(1)] Cons.prems(1)
    by (auto simp: process_inbound_message_def Let_def obeys_def split: if_splits)
  with Cons.IH [OF obeys_lawful [OF this]] Cons.prems(2) show ?case
    by (auto simp: message one split: prod.splits intro: obeys_append)
qed simp

lemma finish_prepared_inbound_obeys:
  assumes "lawful a0 P (eng_auth s)"
  shows "obeys a0 P (eng_auth (fst (finish_prepared_inbound bytes result l s))) (snd (finish_prepared_inbound bytes result l s))"
proof -
  have "obeys a0 P (fst (process_inbound_messages ms (eng_auth s) fatal))
      (snd (snd (process_inbound_messages ms (eng_auth s) fatal)))" for ms fatal
    using process_inbound_messages_obeys [OF assms, of ms fatal] by (cases "process_inbound_messages ms (eng_auth s) fatal") simp
  then show ?thesis
    by (auto simp: finish_prepared_inbound_def Let_def split_beta obeys_def silent_delivers split: option.split)
qed

section \<open>Control commands, deadlines and the teardown\<close>

lemma await_operation_obeys:
  assumes law: "lawful a0 P a"
  shows "obeys a0 P (fst (await_operation key a)) (snd (await_operation key a))"
proof (cases "map_of (pending a) key")
  case None
  with law show ?thesis by (simp add: await_operation_def obeys_def)
next
  case (Some entry)
  note ok = lawful_entry [OF law Some]
  have update: "lawful a0 P (a\<lparr>pending := AList.update key (entry\<lparr>pend_buffered := None, pend_caller_completed := True\<rparr>) (pending a)\<rparr>)"
    "lawful a0 P (insert_pending key (entry\<lparr>pend_terminal := True\<rparr>) a)"
    unfolding insert_pending_def by (rule lawful_update [OF law Some]; simp add: entry_follows_def)+
  have "delivers a0 P [Deliver key answer]" if "pend_buffered entry = Some answer" for answer
    using ok that by (cases answer) (auto simp: delivers_def map_filter_simps entry_lawful_def)
  with law update lawful_delete [OF law, of key] Some show ?thesis
    by (auto simp: await_operation_def obeys_def split: option.split)
qed

lemma cancel_request_obeys:
  assumes law: "lawful a0 P (eng_auth s)"
  shows "obeys a0 P (eng_auth (fst (cancel_request key now s))) (snd (cancel_request key now s))"
proof -
  let ?a = "if map_of (frame_cancellations (eng_auth s)) key \<noteq> None
      then (eng_auth s)\<lparr>frame_cancellations := AList.update key True (frame_cancellations (eng_auth s))\<rparr> else eng_auth s"
  let ?cancels = "(if snd (remove_queued key (send_queue s)) then [CancelFrame key] else []) @
      (if map_of (frame_cancellations (eng_auth s)) key \<noteq> None then [CancelFrame key] else [])"
  have cancels: "delivers a0 P ?cancels" by simp
  have "lawful a0 P ?a" using law by (rule lawful_frame) simp_all
  then have "obeys a0 P (fst (reduce_and_apply ?a (CancelRequest key now))) (snd (reduce_and_apply ?a (CancelRequest key now)))"
    by (rule reduce_and_apply_obeys) simp
  then have reduced: "obeys a0 P (fst (reduce_and_apply ?a (CancelRequest key now)))
      (?cancels @ snd (reduce_and_apply ?a (CancelRequest key now)))"
    using cancels by (simp only: obeys_def delivers_simps)
  let ?b = "if map_of (deferred_cancellations ?a) key = None
      then ?a\<lparr>deferred_cancellations := AList.update key now (deferred_cancellations ?a)\<rparr> else ?a"
  have "lawful a0 P ?b" using law by (rule lawful_frame) simp_all
  note deferred = obeysI [OF this cancels]
  let ?r = "reduce_and_apply ?a (CancelRequest key now)"
  have "(eng_auth (fst (cancel_request key now s)), snd (cancel_request key now s)) \<in> {(fst ?r, ?cancels @ snd ?r), (?b, ?cancels)}"
    unfolding cancel_request_def Let_def split_beta by (simp only: if_distrib [of fst] if_distrib [of snd] fst_conv snd_conv) simp
  then show ?thesis using reduced deferred by (elim insertE) (simp_all only: prod.inject empty_iff)
qed

lemma handle_control_obeys:
  assumes law: "lawful a0 P (eng_auth s)"
  shows "obeys_result a0 P (handle_control c s)"
proof -
  have frame: "obeys a0 P a' out" if "silent out" "auth_state a' = auth_state (eng_auth s)" "pending a' = pending (eng_auth s)" for a' out
    using lawful_frame [OF law that(2,3)] that(1) by (rule obeys_silent)
  show ?thesis
  proof (cases c)
    case (CtlNegotiated large_mtu)
    have "lawful a0 P ((eng_auth s)\<lparr>auth_large_mtu := large_mtu, auth_state := set_target_credits (auth_state (eng_auth s)) target\<rparr>)" for target
      using law by (intro lawful_step [OF law]) (auto simp: lawful_def set_target_credits_def request_terminal_outcome_def)
    then show ?thesis using CtlNegotiated by (simp add: Let_def)
  next
    case (CtlCancel key now)
    then show ?thesis using cancel_request_obeys [OF law, of key now] by simp
  next
    case CtlInstallNotifications
    then show ?thesis using lawful_frame [OF law, of "(eng_auth s)\<lparr>auth_notifications := True\<rparr>"] by simp
  qed (use law in \<open>auto simp: await_operation_obeys obeys_result_def put_objects_def split_beta
      split: if_splits intro!: frame\<close>)
qed

lemma drain_pending_delivers: "delivers a0 P (drain_pending e p)"
proof -
  have "delivers a0 P (concat (map f ks))" if "\<And>k. delivers a0 P (f k)" for f and ks :: "request_key list"
    using that by (induction ks) simp_all
  note parts = this
  show ?thesis unfolding drain_pending_def by (rule parts) (simp split: option.split)
qed

lemma teardown_obeys:
  assumes law: "lawful a0 P (eng_auth s)"
  shows "obeys a0 P (eng_auth (fst (teardown s))) (snd (teardown s))"
proof -
  let ?a = "(eng_auth s)\<lparr>preparation_cancellations := [], auth_objects := fst (lose_generation (auth_objects (eng_auth s)))\<rparr>"
  have "lawful a0 P ?a" using law by (rule lawful_frame) simp_all
  then have disc: "obeys a0 P (fst (reduce_and_apply ?a (Disconnect n))) (snd (reduce_and_apply ?a (Disconnect n)))" for n
    by (rule reduce_and_apply_obeys) simp
  then have "lawful a0 P ((fst (reduce_and_apply ?a (Disconnect n)))\<lparr>terminals := [], pending := []\<rparr>)" for n
    by (auto simp: obeys_def lawful_def)
  with disc show ?thesis
    by (simp add: teardown_def Let_def split_beta obeys_def drain_pending_delivers silent_delivers teardown_cancellations_silent silent_map)
qed

section \<open>Every schedule of the owner task\<close>

text \<open>The response policies of the operations that an event brings in, or makes the owner try again.\<close>

fun offered :: "engine \<Rightarrow> engine_event \<Rightarrow> response_policy set" where
  "offered s (OperationReceived c _ _ _) = {op_response (adm_operation c)}"
| "offered s (WaitingOperationRetried _ _) =
     (case waiting_operation s of None \<Rightarrow> {} | Some c \<Rightarrow> {op_response (adm_operation c)})"
| "offered s (CompoundReceived c _) = op_response ` set (com_operations c)"
| "offered s (WaitingCompoundRetried _) =
     (case waiting_compound s of None \<Rightarrow> {} | Some c \<Rightarrow> op_response ` set (com_operations c))"
| "offered s _ = {}"

lemma write_progressed_obeys:
  "lawful a0 P (eng_auth s) \<Longrightarrow>
     obeys a0 P (eng_auth (fst (write_progressed bytes l s))) (snd (write_progressed bytes l s))"
  by (simp add: write_progressed_def process_io_obeys split: option.split)

lemma write_finished_obeys:
  assumes law: "lawful a0 P (eng_auth s)"
  shows "obeys a0 P (eng_auth (fst (write_finished n l result l' s))) (snd (write_finished n l result l' s))"
proof -
  note first = write_progressed_obeys [OF law, of n l]
  have "obeys a0 P (eng_auth (fst (process_io e l' ((fst (write_progressed n l s))\<lparr>active_write := None\<rparr>))))
      (snd (write_progressed n l s) @ snd (process_io e l' ((fst (write_progressed n l s))\<lparr>active_write := None\<rparr>)))" for e
    using process_io_obeys [of a0 P "(fst (write_progressed n l s))\<lparr>active_write := None\<rparr>" e l'] obeys_lawful [OF first]
    by (intro obeys_append [OF first]) simp
  then show ?thesis
    using first law by (simp add: write_finished_def Let_def split_beta split: option.split)
qed

lemma deadline_fired_obeys:
  "lawful a0 P (eng_auth s) \<Longrightarrow> obeys a0 P (eng_auth (fst (deadline_fired now s))) (snd (deadline_fired now s))"
  using reduce_and_apply_obeys [of a0 P "eng_auth s" "AdvanceTime now"] by (simp add: deadline_fired_def Let_def split_beta)

lemma fatal_published_obeys: "obeys a0 P (eng_auth (fst p)) (snd p) \<Longrightarrow> obeys_result a0 P (fatal_published p)"
  by (cases p) simp

lemmas arms_obey = preparation_done_obeys process_admission_obeys finish_prepared_inbound_obeys dispatch_next_lawful
  write_progressed_obeys write_finished_obeys process_io_obeys deadline_fired_obeys teardown_obeys fatal_published_obeys

lemma engine_arm_obeys:
  assumes law: "lawful a0 (offered s e) (eng_auth s)"
  shows "obeys_result a0 (offered s e) (engine_arm e s)"
proof (cases e)
  case (ControlReceived c)
  then show ?thesis
    using law handle_control_obeys [of a0 "{}" s c] by (auto simp: obeys_result_def split: if_splits)
next
  case (OperationReceived c cmac retain_raw decision)
  then show ?thesis using law by (simp add: process_operation_admission_obeys)
next
  case (WaitingOperationRetried retain_raw decision)
  then show ?thesis using law by (auto intro!: process_operation_admission_obeys split: option.split)
next
  case (CompoundReceived c frame)
  then show ?thesis using law by (simp add: process_compound_admission_obeys)
next
  case (WaitingCompoundRetried frame)
  then show ?thesis using law by (auto intro!: process_compound_admission_obeys split: option.split)
qed (use law in \<open>simp_all add: arms_obey\<close>)

lemma engine_step_obeys:
  "lawful (eng_auth s) {} (eng_auth s) \<Longrightarrow> engine_step s e = Some (s', out) \<Longrightarrow>
     obeys (eng_auth s) (offered s e) (eng_auth s') out"
  using engine_arm_obeys [OF lawful_start [of "eng_auth s" "{}" "eng_auth s" "offered s e"]]
  by (auto simp: engine_step_def obeys_result_def split: if_splits intro: lawful_start)

lemma engine_run_lawful:
  "lawful (eng_auth s) {} (eng_auth s) \<Longrightarrow> engine_run s es = Some (s', out) \<Longrightarrow> lawful (eng_auth s') {} (eng_auth s')"
proof (induction es arbitrary: s out)
  case (Cons e es)
  then show ?case
    by (auto split: option.splits dest!: engine_step_obeys dest: obeys_lawful lawful_start)
qed simp

lemma engine_new_lawful: "lawful (eng_auth (engine_new g m c target lim drain)) {} (eng_auth (engine_new g m c target lim drain))"
  by (simp add: lawful_def engine_new_def generation_inv_new)

text \<open>
  C20. A response reaches only the operation it answers, over every schedule of the owner task,
  with early responses, buffered results and recovery hints. A message that any step delivers to
  a caller as a result carries the message id of that operation and the command that the policy
  of the operation names; it is neither an unauthenticated hint nor an interim response; and its
  status is one that the policy accepts, unless the message is a server error or its status
  says that the session was deleted or has expired, which are delivered whatever the policy. The
  policy is that of the operation's entry, or, when the operation is admitted in the same step, one
  of those the event brings; no step changes the policy of an operation that stays.
\<close>

theorem delivered_response_obeys_contract:
  assumes "engine_run (engine_new g i c target lim drain) es = Some (s, before)"
    and "engine_step s e = Some (s', out)"
  shows "(Deliver k (Inr result) \<in> set out \<longrightarrow>
      (let m = result_response result; st = status_try_from (resp_status m) in
       \<exists>policy. (case map_of (pending (eng_auth s)) k of Some entry \<Rightarrow> policy = pend_response entry | None \<Rightarrow> policy \<in> offered s e) \<and>
         resp_message_id m = key_message_id k \<and> resp_command m = policy_command policy \<and>
         \<not> resp_recovery_hint m \<and> st \<noteq> Some status_pending \<and>
         (accepts_wire_status policy st \<or> resp_is_error m \<or>
          st \<in> {Some status_user_session_deleted, Some status_network_session_expired}))) \<and>
    (\<forall>entry'. map_of (pending (eng_auth s')) k = Some entry' \<longrightarrow>
      (case map_of (pending (eng_auth s)) k of
         Some entry \<Rightarrow> pend_response entry' = pend_response entry | None \<Rightarrow> pend_response entry' \<in> offered s e))"
proof -
  have obeys: "obeys (eng_auth s) (offered s e) (eng_auth s') out"
    by (rule engine_step_obeys [OF engine_run_lawful [OF engine_new_lawful assms(1)] assms(2)])
  have "Inr result \<in> set (answers k out)" if "Deliver k (Inr result) \<in> set out"
    using that by (force simp: List.map_filter_def)
  with obeys have "Deliver k (Inr result) \<in> set out \<longrightarrow>
      (\<exists>policy. policy_of (eng_auth s) (offered s e) k policy \<and> response_fits policy k (result_response result))"
    by (simp add: obeys_def delivers_def)
  moreover have "policy_of (eng_auth s) (offered s e) k (pend_response entry')" if "map_of (pending (eng_auth s')) k = Some entry'" for entry'
    using lawful_entry [OF obeys_lawful [OF obeys] that] by blast
  ultimately show ?thesis unfolding policy_of_def response_fits_def Let_def by blast
qed

text \<open>The response to an operation whose caller asks for the result only after it has arrived.\<close>

definition sample_unawaited :: "engine_event list" where
  "sample_unawaited = [OperationReceived
     \<lparr>adm_operation = operation_any_status EchoRequest None, adm_deadline = None, adm_terminal = False\<rparr>
     False False (PreparedNow (Some [[1, 2]])), Dispatched, sample_sent, sample_inbound 0 False]"

theorem delivered_response_obeys_contract_witness:
  "\<exists>s before s' result. engine_run sample_engine sample_unawaited = Some (s, before) \<and>
     engine_step s (ControlReceived (CtlAwaitOperation sample_key)) = Some (s', [Deliver sample_key (Inr result)]) \<and>
     resp_message_id (result_response result) = 1 \<and> \<not> resp_recovery_hint (result_response result) \<and>
     status_try_from (resp_status (result_response result)) \<noteq> Some status_pending"
proof -
  let ?e = "ControlReceived (CtlAwaitOperation sample_key)"
  let ?result = "\<lparr>result_key = sample_key, result_response = sample_response 0 False, result_request_raw = None\<rparr>"
  have "map_option (\<lambda>(s, before). map_option snd (engine_step s ?e)) (engine_run sample_engine sample_unawaited) =
      Some (Some [Deliver sample_key (Inr ?result)])"
    by (simp add: sample_unawaited_def engine_evaluate)
  then obtain s before s' where run: "engine_run sample_engine sample_unawaited = Some (s, before)"
    and step: "engine_step s ?e = Some (s', [Deliver sample_key (Inr ?result)])" by auto
  from delivered_response_obeys_contract [OF run [unfolded sample_engine_def] step, of sample_key ?result]
  have "resp_message_id (result_response ?result) = key_message_id sample_key \<and> \<not> resp_recovery_hint (result_response ?result) \<and>
      status_try_from (resp_status (result_response ?result)) \<noteq> Some status_pending"
    unfolding Let_def list.set insert_iff by blast
  with run step show ?thesis by (intro exI [of _ s] exI [of _ before] exI [of _ s'] exI [of _ ?result]) (simp add: sample_key_def)
qed

end
