(* ===== verification/File_Transfer.thy ===== *)
theory File_Transfer
  imports Prelude
begin

text \<open>
  The copy scheduler (domain/transfer.rs): \<open>run_transfer\<close> keeps a bounded number of chunk reads in
  flight and writes the chunks in order. The reads and writes are parameters; so is \<open>pick\<close>, which
  says which of the reads in flight completes next, so a theorem for every \<open>pick\<close> holds for every
  order of completion. The state keeps the chunks written so far, in order.
\<close>

section \<open>Model\<close>

record transfer_options =
  concurrency :: usize
  chunk_size :: u32

datatype 'e chunk_error = ChunkError 'e | ShortRead | ShortWrite

datatype 'e transfer_error =
    InvalidTransferOptions
  | ChunkTooLong
  | TransferFailed (failed_offset: u64) (failed_transferred: u64) (failed_source: "'e chunk_error")
  | SchedulerStuck

record transfer_report =
  report_bytes :: u64
  report_chunks :: u64

record transfer_state =
  in_flight :: "(u64 \<times> u32) list"
  ready :: "(u64, u8 list) table"
  next_read :: u64
  next_write :: u64
  transferred :: u64
  chunks :: u64
  written :: "(u64 \<times> u8 list) list"

definition transfer_start :: transfer_state where
  "transfer_start = \<lparr>in_flight = [], ready = [], next_read = 0, next_write = 0, transferred = 0, chunks = 0, written = []\<rparr>"

definition chunk_length :: "transfer_options \<Rightarrow> u64 \<Rightarrow> transfer_state \<Rightarrow> u32" where
  "chunk_length opts len s = ucast (min (len - next_read s) (u32_to_u64 (chunk_size opts)))"

definition schedule_read :: "transfer_options \<Rightarrow> u64 \<Rightarrow> transfer_state \<Rightarrow> transfer_state" where
  "schedule_read opts len s =
     s\<lparr>in_flight := in_flight s @ [(next_read s, chunk_length opts len s)],
       next_read := next_read s + u32_to_u64 (chunk_length opts len s)\<rparr>"

definition outstanding :: "transfer_state \<Rightarrow> nat" where
  "outstanding s = length (in_flight s) + length (ready s)"

function fill_reads :: "transfer_options \<Rightarrow> u64 \<Rightarrow> transfer_state \<Rightarrow> transfer_state" where
  "fill_reads opts len s =
     (if outstanding s < unat (concurrency opts) \<and> next_read s < len
      then fill_reads opts len (schedule_read opts len s) else s)"
  by pat_completeness auto
termination
  by (relation "measure (\<lambda>(opts, len, s). unat (concurrency opts) - outstanding s)")
    (auto simp: outstanding_def schedule_read_def)

declare fill_reads.simps [simp del]

text \<open>What a read in flight resolves to.\<close>

definition resolve_read :: "(u64 \<Rightarrow> u32 \<Rightarrow> 'e + u8 list) \<Rightarrow> u64 \<times> u32 \<Rightarrow> 'e chunk_error + u8 list" where
  "resolve_read read_chunk = (\<lambda>(offset, len).
     (case read_chunk offset len of
        Inl e \<Rightarrow> Inl (ChunkError e)
      | Inr bytes \<Rightarrow> if length bytes \<noteq> unat len then Inl ShortRead else Inr bytes))"

text \<open>One iteration: \<open>Inl\<close> ends the loop with a result, \<open>Inr\<close> goes on.\<close>

definition write_ready ::
  "(u64 \<Rightarrow> u8 list \<Rightarrow> 'e + u32) \<Rightarrow> u8 list \<Rightarrow> transfer_state \<Rightarrow> 'e transfer_error + transfer_state" where
  "write_ready write_chunk bytes s =
     (let offset = next_write s in
      if 2 ^ 32 \<le> length bytes then Inl ChunkTooLong
      else case write_chunk offset bytes of
        Inl e \<Rightarrow> Inl (TransferFailed offset (transferred s) (ChunkError e))
      | Inr n \<Rightarrow>
          if unat n \<noteq> length bytes then Inl (TransferFailed offset (transferred s) ShortWrite)
          else Inr (s\<lparr>ready := AList.delete offset (ready s), next_write := offset + u32_to_u64 n,
                      transferred := transferred s + u32_to_u64 n, chunks := chunks s + 1,
                      written := written s @ [(offset, bytes)]\<rparr>))"

type_synonym 'e transfer_result = "('e transfer_error + transfer_report) \<times> transfer_state"

definition transfer_step ::
  "(transfer_state \<Rightarrow> nat) \<Rightarrow> (u64 \<Rightarrow> u32 \<Rightarrow> 'e + u8 list) \<Rightarrow> (u64 \<Rightarrow> u8 list \<Rightarrow> 'e + u32) \<Rightarrow>
     transfer_options \<Rightarrow> u64 \<Rightarrow> transfer_state \<Rightarrow> 'e transfer_result + transfer_state" where
  "transfer_step pick read_chunk write_chunk opts len s0 =
     (let s = fill_reads opts len s0 in
      case map_of (ready s) (next_write s) of
        Some bytes \<Rightarrow>
          (case write_ready write_chunk bytes s of
             Inl e \<Rightarrow> Inl (Inl e, s\<lparr>ready := AList.delete (next_write s) (ready s)\<rparr>)
           | Inr s' \<Rightarrow> Inr s')
      | None \<Rightarrow>
          (case in_flight s of
             [] \<Rightarrow>
               if ready s = []
               then Inl (Inr \<lparr>report_bytes = transferred s, report_chunks = chunks s\<rparr>, s)
               else Inl (Inl SchedulerStuck, s)
           | _ \<Rightarrow>
               let i = pick s mod length (in_flight s);
                   s' = s\<lparr>in_flight := take i (in_flight s) @ drop (Suc i) (in_flight s)\<rparr>
               in case resolve_read read_chunk (in_flight s ! i) of
                    Inl e \<Rightarrow> Inl (Inl (TransferFailed (fst (in_flight s ! i)) (transferred s) e), s')
                  | Inr bytes \<Rightarrow> Inr (s'\<lparr>ready := AList.update (fst (in_flight s ! i)) bytes (ready s)\<rparr>)))"

partial_function (option) transfer_loop ::
  "(transfer_state \<Rightarrow> nat) \<Rightarrow> (u64 \<Rightarrow> u32 \<Rightarrow> 'e + u8 list) \<Rightarrow> (u64 \<Rightarrow> u8 list \<Rightarrow> 'e + u32) \<Rightarrow>
     transfer_options \<Rightarrow> u64 \<Rightarrow> transfer_state \<Rightarrow> 'e transfer_result option" where
  "transfer_loop pick read_chunk write_chunk opts len s =
     (case transfer_step pick read_chunk write_chunk opts len s of
        Inl r \<Rightarrow> Some r
      | Inr s' \<Rightarrow> transfer_loop pick read_chunk write_chunk opts len s')"

definition run_transfer ::
  "(transfer_state \<Rightarrow> nat) \<Rightarrow> (u64 \<Rightarrow> u32 \<Rightarrow> 'e + u8 list) \<Rightarrow> (u64 \<Rightarrow> u8 list \<Rightarrow> 'e + u32) \<Rightarrow>
     transfer_options \<Rightarrow> u64 \<Rightarrow> 'e transfer_result option" where
  "run_transfer pick read_chunk write_chunk opts len =
     (if concurrency opts = 0 \<or> chunk_size opts = 0 then Some (Inl InvalidTransferOptions, transfer_start)
      else transfer_loop pick read_chunk write_chunk opts len transfer_start)"

section \<open>The chunks of a file\<close>

text \<open>The length of the chunk at an offset, for a file of \<open>n\<close> bytes cut into chunks of \<open>c\<close>.\<close>

definition chunk_at :: "nat \<Rightarrow> nat \<Rightarrow> nat \<Rightarrow> nat" where
  "chunk_at c n i = min c (n - i)"

text \<open>A chunk boundary: a multiple of the chunk size, or the end of the file.\<close>

definition boundary :: "nat \<Rightarrow> nat \<Rightarrow> nat \<Rightarrow> bool" where
  "boundary c n i \<longleftrightarrow> i \<le> n \<and> (c dvd i \<or> i = n)"

lemma boundary_next:
  assumes "boundary c n i" and "i < n" and "0 < c"
  shows "boundary c n (i + chunk_at c n i)" and "0 < chunk_at c n i" and "i + chunk_at c n i \<le> n"
    and "boundary c n j \<Longrightarrow> i < j \<Longrightarrow> i + chunk_at c n i \<le> j"
proof -
  from assms have dvd: "c dvd i" by (auto simp: boundary_def)
  show "0 < chunk_at c n i" "i + chunk_at c n i \<le> n" using assms by (auto simp: chunk_at_def)
  show "boundary c n (i + chunk_at c n i)"
    using dvd assms(2) by (auto simp: boundary_def chunk_at_def min_def)
  show "i + chunk_at c n i \<le> j" if "boundary c n j" "i < j"
  proof (cases "j = n")
    case False
    with that have "c dvd j" by (simp add: boundary_def)
    with dvd that have "c dvd j - i" and "0 < j - i" by auto
    then have "c \<le> j - i" by (rule dvd_imp_le)
    with that show ?thesis by (simp add: chunk_at_def)
  qed (use assms in \<open>simp add: chunk_at_def\<close>)
qed

section \<open>The invariant of the scheduler\<close>

definition offsets :: "transfer_state \<Rightarrow> u64 list" where
  "offsets s = map fst (in_flight s) @ map fst (ready s)"

text \<open>Written chunks lie one after the other from the start of the file.\<close>

fun contiguous :: "nat \<Rightarrow> (u64 \<times> u8 list) list \<Rightarrow> bool" where
  "contiguous i [] = True"
| "contiguous i ((offset, bytes) # ws) \<longleftrightarrow> unat offset = i \<and> contiguous (i + length bytes) ws"

definition written_bytes :: "transfer_state \<Rightarrow> u8 list" where
  "written_bytes s = concat (map snd (written s))"

lemma contiguous_append:
  "contiguous i (ws @ [(offset, bytes)]) \<longleftrightarrow>
     contiguous i ws \<and> unat offset = i + length (concat (map snd ws))"
  by (induction i ws rule: contiguous.induct) auto

definition transfer_inv :: "(u64 \<Rightarrow> u32 \<Rightarrow> 'e + u8 list) \<Rightarrow> transfer_options \<Rightarrow> u64 \<Rightarrow> transfer_state \<Rightarrow> bool" where
  "transfer_inv read_chunk opts len s \<longleftrightarrow>
     (let c = unat (chunk_size opts); n = unat len in
      boundary c n (unat (next_read s)) \<and> boundary c n (unat (next_write s)) \<and> next_write s \<le> next_read s \<and>
      distinct (offsets s) \<and>
      set (offsets s) = {i. next_write s \<le> i \<and> i < next_read s \<and> boundary c n (unat i)} \<and>
      (\<forall>(i, l) \<in> set (in_flight s). unat l = chunk_at c n (unat i)) \<and>
      (\<forall>(i, bytes) \<in> set (ready s). length bytes = chunk_at c n (unat i) \<and>
         read_chunk i (of_nat (chunk_at c n (unat i))) = Inr bytes) \<and>
      (\<forall>(i, bytes) \<in> set (written s). read_chunk i (of_nat (length bytes)) = Inr bytes \<and>
         length bytes = chunk_at c n (unat i)) \<and>
      outstanding s \<le> unat (concurrency opts) \<and>
      contiguous 0 (written s) \<and> transferred s = next_write s \<and>
      length (written_bytes s) = unat (next_write s) \<and> chunks s = of_nat (length (written s)))"

lemma transfer_inv_start: "transfer_inv read_chunk opts len transfer_start"
  by (auto simp: transfer_inv_def transfer_start_def boundary_def offsets_def outstanding_def written_bytes_def Let_def)

lemma chunk_length_unat:
  assumes "next_read s < len"
  shows "unat (chunk_length opts len s) = chunk_at (unat (chunk_size opts)) (unat len) (unat (next_read s))"
proof -
  have sub: "unat (len - next_read s) = unat len - unat (next_read s)"
    using assms by (simp add: unat_sub word_less_nat_alt less_imp_le word_le_nat_alt)
  have "unat (min (len - next_read s) (u32_to_u64 (chunk_size opts))) \<le> unat (chunk_size opts)"
    by (simp add: unat_min_word unat_u32_to_u64)
  also have "\<dots> < 2 ^ 32" using unsigned_less [of "chunk_size opts", where ?'a = nat] by simp
  finally have "unat (chunk_length opts len s) = unat (min (len - next_read s) (u32_to_u64 (chunk_size opts)))"
    by (simp add: chunk_length_def unsigned_ucast_eq take_bit_nat_eq_self)
  then show ?thesis by (simp add: unat_min_word unat_u32_to_u64 sub chunk_at_def min.commute)
qed

lemmas word_nat = word_less_nat_alt word_le_nat_alt

text \<open>What is left to do, so that every iteration does some of it.\<close>

definition transfer_work :: "u64 \<Rightarrow> transfer_state \<Rightarrow> nat" where
  "transfer_work len s = 3 * (unat len - unat (next_read s)) + 2 * length (in_flight s) + length (ready s)"

lemma schedule_read_inv:
  assumes chunk: "chunk_size opts \<noteq> 0" and inv: "transfer_inv read_chunk opts len s"
    and room: "outstanding s < unat (concurrency opts)" and more: "next_read s < len"
  shows "transfer_inv read_chunk opts len (schedule_read opts len s)"
    and "transfer_work len (schedule_read opts len s) < transfer_work len s"
proof -
  let ?c = "unat (chunk_size opts)" and ?n = "unat len" and ?i = "unat (next_read s)"
  let ?l = "chunk_length opts len s"
  have l: "unat ?l = chunk_at ?c ?n ?i" by (rule chunk_length_unat [OF more])
  have b: "boundary ?c ?n ?i" using inv by (simp add: transfer_inv_def Let_def)
  have "0 < ?c" using chunk by (simp add: unat_gt_0)
  note step = boundary_next [OF b more [unfolded word_less_nat_alt] this]
  have r: "unat (next_read s + u32_to_u64 ?l) = ?i + chunk_at ?c ?n ?i"
    using step(3) unsigned_less [of len, where ?'a = nat]
    by (subst unat_add_fits) (simp_all add: unat_u32_to_u64 l)
  have new: "{i. next_write s \<le> i \<and> i < next_read s + u32_to_u64 ?l \<and> boundary ?c ?n (unat i)} =
      insert (next_read s) {i. next_write s \<le> i \<and> i < next_read s \<and> boundary ?c ?n (unat i)}"
  proof (intro set_eqI iffI)
    fix i assume i: "i \<in> {i. next_write s \<le> i \<and> i < next_read s + u32_to_u64 ?l \<and> boundary ?c ?n (unat i)}"
    then have "\<not> ?i < unat i" using step(4) [of "unat i"] by (auto simp: word_less_nat_alt r)
    then have "i = next_read s \<or> i < next_read s" by (auto simp: word_less_nat_alt word_unat_eq_iff)
    with i show "i \<in> insert (next_read s) {i. next_write s \<le> i \<and> i < next_read s \<and> boundary ?c ?n (unat i)}" by auto
  next
    fix i assume "i \<in> insert (next_read s) {i. next_write s \<le> i \<and> i < next_read s \<and> boundary ?c ?n (unat i)}"
    moreover have "next_write s \<le> next_read s" using inv by (simp add: transfer_inv_def Let_def)
    ultimately show "i \<in> {i. next_write s \<le> i \<and> i < next_read s + u32_to_u64 ?l \<and> boundary ?c ?n (unat i)}"
      using b step(2) by (auto simp: word_less_nat_alt r)
  qed
  let ?s = "schedule_read opts len s"
  have old: "set (offsets s) = {i. next_write s \<le> i \<and> i < next_read s \<and> boundary ?c ?n (unat i)}"
    using inv by (simp add: transfer_inv_def Let_def)
  then have "set (offsets ?s) = {i. next_write ?s \<le> i \<and> i < next_read ?s \<and> boundary ?c ?n (unat i)}"
    using new by (auto simp: offsets_def schedule_read_def)
  moreover have "distinct (offsets ?s)"
    using inv old by (auto simp: offsets_def schedule_read_def transfer_inv_def Let_def)
  moreover have "next_write ?s \<le> next_read ?s"
    using inv by (simp add: schedule_read_def word_le_nat_alt r transfer_inv_def Let_def)
  moreover have "outstanding ?s \<le> unat (concurrency opts)"
    using room by (simp add: outstanding_def schedule_read_def)
  ultimately show "transfer_inv read_chunk opts len ?s"
    using inv step(1) l unfolding transfer_inv_def Let_def by (simp add: schedule_read_def r written_bytes_def)
  show "transfer_work len (schedule_read opts len s) < transfer_work len s"
    using step by (simp add: transfer_work_def schedule_read_def r)
qed

lemma fill_reads_inv:
  assumes "chunk_size opts \<noteq> 0" and "transfer_inv read_chunk opts len s"
  shows "transfer_inv read_chunk opts len (fill_reads opts len s) \<and>
     transfer_work len (fill_reads opts len s) \<le> transfer_work len s \<and>
     (unat (concurrency opts) \<le> outstanding (fill_reads opts len s) \<or> len \<le> next_read (fill_reads opts len s))"
  using assms
proof (induction opts len s rule: fill_reads.induct)
  case (1 opts len s)
  show ?case
  proof (cases "outstanding s < unat (concurrency opts) \<and> next_read s < len")
    case True
    from schedule_read_inv [OF 1(2,3)] True 1(1) [OF True 1(2)] show ?thesis
      by (subst (1 2 3 4) fill_reads.simps) auto
  next
    case False
    then show ?thesis using 1(3) by (subst (1 2 3 4) fill_reads.simps) auto
  qed
qed

lemma ready_entry:
  assumes "transfer_inv read_chunk opts len s" and "map_of (ready s) i = Some bytes"
  shows "length bytes = chunk_at (unat (chunk_size opts)) (unat len) (unat i) \<and>
    read_chunk i (of_nat (length bytes)) = Inr bytes \<and> i \<in> set (offsets s)"
proof -
  have "(i, bytes) \<in> set (ready s)" using assms(2) by (rule map_of_SomeD)
  moreover from this have "i \<in> set (offsets s)" by (force simp: offsets_def)
  ultimately show ?thesis using assms(1) unfolding transfer_inv_def Let_def by auto
qed

lemma chunk_at_u32: "chunk_at (unat (c :: u32)) n i < 2 ^ 32"
  using unsigned_less [of c, where ?'a = nat] by (simp add: chunk_at_def min_less_iff_disj)

lemma delete_offsets:
  assumes "distinct (map fst m)" and "k \<in> set (map fst m)"
  shows "set (map fst (AList.delete k m)) = set (map fst m) - {k}" and "distinct (map fst (AList.delete k m))"
    and "Suc (length (AList.delete k m)) = length m" and "set (AList.delete k m) \<subseteq> set m"
proof -
  show "set (map fst (AList.delete k m)) = set (map fst m) - {k}" by (auto simp: AList.delete_eq)
  show "distinct (map fst (AList.delete k m))" using assms(1) by (rule distinct_delete)
  show "set (AList.delete k m) \<subseteq> set m" by (auto simp: AList.delete_eq)
  show "Suc (length (AList.delete k m)) = length m"
    using assms
  proof (induction m)
    case (Cons x m)
    have "k \<notin> set (map fst m) \<Longrightarrow> AList.delete k m = m"
      by (induction m) auto
    with Cons show ?case by (cases "fst x = k") auto
  qed simp
qed

lemma write_ready_inv:
  assumes chunk: "chunk_size opts \<noteq> 0" and inv: "transfer_inv read_chunk opts len s"
    and ready: "map_of (ready s) (next_write s) = Some bytes" and step: "write_ready write_chunk bytes s = Inr s'"
  shows "transfer_inv read_chunk opts len s' \<and> transfer_work len s' < transfer_work len s"
proof -
  let ?c = "unat (chunk_size opts)" and ?n = "unat len" and ?i = "unat (next_write s)"
  have l: "length bytes = chunk_at ?c ?n ?i" "read_chunk (next_write s) (of_nat (length bytes)) = Inr bytes"
    and mem: "next_write s \<in> set (offsets s)"
    using ready_entry [OF inv ready] by auto
  obtain w where w: "unat w = length bytes" and
    s': "s' = s\<lparr>ready := AList.delete (next_write s) (ready s), next_write := next_write s + u32_to_u64 w,
      transferred := transferred s + u32_to_u64 w, chunks := chunks s + 1, written := written s @ [(next_write s, bytes)]\<rparr>"
    using step by (auto simp: write_ready_def Let_def split: if_splits sum.splits)
  have set: "set (offsets s) = {i. next_write s \<le> i \<and> i < next_read s \<and> boundary ?c ?n (unat i)}"
    and dist: "distinct (offsets s)" and br: "boundary ?c ?n (unat (next_read s))"
    and count: "length (written_bytes s) = ?i" "transferred s = next_write s"
    using inv by (simp_all add: transfer_inv_def Let_def)
  have lt: "?i < unat (next_read s)" and b: "boundary ?c ?n ?i" using mem set by (auto simp: word_less_nat_alt)
  moreover from br have "unat (next_read s) \<le> ?n" by (simp add: boundary_def)
  ultimately have "?i < ?n" by simp
  note next_chunk = boundary_next [OF b this]
  have pos: "0 < ?c" using chunk by (simp add: unat_gt_0)
  have u: "unat (next_write s + u32_to_u64 w) = ?i + chunk_at ?c ?n ?i"
    using next_chunk(3) [OF pos] unsigned_less [of len, where ?'a = nat]
    by (subst unat_add_fits) (simp_all add: unat_u32_to_u64 w l)
  have key: "next_write s \<in> set (map fst (ready s))" using map_of_SomeD [OF ready] by force
  note del = delete_offsets [OF _ key]
  have d: "distinct (map fst (ready s))" "next_write s \<notin> set (map fst (in_flight s))"
    using dist key by (auto simp: offsets_def)
  have "set (offsets s') = set (offsets s) - {next_write s}"
    using d del(1) by (auto simp: offsets_def s')
  also have "\<dots> = {i. next_write s' \<le> i \<and> i < next_read s' \<and> boundary ?c ?n (unat i)}"
    unfolding set using next_chunk(2,4) [OF pos]
    by (auto simp: s' word_nat u word_unat_eq_iff)
  finally have set': "set (offsets s') = {i. next_write s' \<le> i \<and> i < next_read s' \<and> boundary ?c ?n (unat i)}" .
  have "distinct (offsets s')" using dist d del(1,2) by (auto simp: offsets_def s')
  moreover have "next_write s' \<le> next_read s'"
    using next_chunk(4) [OF pos br lt] by (simp add: s' word_le_nat_alt u)
  moreover have "set (ready s') \<subseteq> set (ready s)" using del(4) [OF d(1)] by (simp add: s')
  moreover have "contiguous 0 (written s')" "length (written_bytes s') = unat (next_write s')"
    using inv count l by (auto simp: s' contiguous_append written_bytes_def u transfer_inv_def Let_def)
  moreover have "outstanding s' \<le> unat (concurrency opts)"
    using inv del(3) [OF d(1)] by (simp add: outstanding_def s' transfer_inv_def Let_def)
  ultimately have "transfer_inv read_chunk opts len s'"
    using inv set' next_chunk(1) [OF pos] l u unfolding transfer_inv_def Let_def by (auto simp: s' written_bytes_def)
  then show ?thesis using del(3) [OF d(1)] by (simp add: transfer_work_def s')
qed

lemma update_fresh: "k \<notin> fst ` set m \<Longrightarrow> AList.update k v m = m @ [(k, v)]"
  by (induction m) auto

lemma complete_read_inv:
  assumes inv: "transfer_inv read_chunk opts len s" and i: "i < length (in_flight s)"
    and read: "resolve_read read_chunk (in_flight s ! i) = Inr bytes"
    and s': "s' = s\<lparr>in_flight := take i (in_flight s) @ drop (Suc i) (in_flight s),
      ready := AList.update (fst (in_flight s ! i)) bytes (ready s)\<rparr>"
  shows "transfer_inv read_chunk opts len s' \<and> transfer_work len s' < transfer_work len s"
proof -
  obtain k l where kl: "in_flight s ! i = (k, l)" by fastforce
  obtain xs ys where split: "in_flight s = xs @ (k, l) # ys"
    and parts: "take i (in_flight s) @ drop (Suc i) (in_flight s) = xs @ ys"
    using id_take_nth_drop [OF i] kl by metis
  then have mem: "(k, l) \<in> set (in_flight s)" by simp
  have l: "unat l = chunk_at (unat (chunk_size opts)) (unat len) (unat k)"
    using inv mem unfolding transfer_inv_def Let_def by auto
  have bytes: "read_chunk k l = Inr bytes" "length bytes = unat l"
    using read by (auto simp: kl resolve_read_def split: sum.splits if_splits)
  have of_l: "of_nat (unat l) = l" by simp
  have "distinct (offsets s)" using inv by (simp add: transfer_inv_def Let_def)
  then have fresh: "k \<notin> fst ` set (ready s)" using mem by (force simp: offsets_def)
  have eq: "s' = s\<lparr>in_flight := xs @ ys, ready := ready s @ [(k, bytes)]\<rparr>"
    unfolding s' kl parts fst_conv update_fresh [OF fresh] ..
  have flight: "mset (map fst (in_flight s)) = add_mset k (mset (map fst (in_flight s')))"
    and sub: "set (in_flight s') \<subseteq> set (in_flight s)" and size: "length (in_flight s) = Suc (length (in_flight s'))"
    by (auto simp: eq split)
  then have perm: "mset (offsets s') = mset (offsets s)" by (simp add: offsets_def eq)
  then have "set (offsets s') = set (offsets s)" "distinct (offsets s')"
    using \<open>distinct (offsets s)\<close> mset_eq_setD mset_eq_imp_distinct_iff by blast+
  moreover have "outstanding s' = outstanding s" using size by (simp add: outstanding_def eq)
  ultimately have "transfer_inv read_chunk opts len s'"
    using inv sub bytes l of_l unfolding transfer_inv_def Let_def
    by (auto simp: eq written_bytes_def)
  then show ?thesis using size by (simp add: transfer_work_def eq)
qed

text \<open>One iteration: it ends with a consistent result, or goes on with less to do.\<close>

definition transfer_ends ::
  "(u64 \<Rightarrow> u32 \<Rightarrow> 'e + u8 list) \<Rightarrow> transfer_options \<Rightarrow> u64 \<Rightarrow> 'e transfer_result \<Rightarrow> bool" where
  "transfer_ends read_chunk opts len = (\<lambda>(result, s).
     contiguous 0 (written s) \<and>
     (\<forall>(i, bytes) \<in> set (written s). read_chunk i (of_nat (length bytes)) = Inr bytes) \<and>
     (case result of
        Inr report \<Rightarrow> length (written_bytes s) = unat len \<and> report_bytes report = len \<and>
          report_chunks report = of_nat (length (written s))
      | Inl (TransferFailed offset sent cause) \<Rightarrow> unat sent = length (written_bytes s) \<and> sent \<le> offset
      | Inl e \<Rightarrow> False))"

lemma boundary_between:
  assumes "transfer_inv read_chunk opts len s" and "next_write s < next_read s"
  shows "next_write s \<in> set (offsets s)"
  using assms by (simp add: transfer_inv_def Let_def)

lemma write_ready_error:
  "length bytes < 2 ^ 32 \<Longrightarrow> write_ready write_chunk bytes s = Inl e \<Longrightarrow>
     \<exists>cause. e = TransferFailed (next_write s) (transferred s) cause"
  by (auto simp: write_ready_def Let_def split: sum.splits if_splits)

lemma transfer_step_sound:
  assumes chunk: "chunk_size opts \<noteq> 0" and conc: "concurrency opts \<noteq> 0"
    and inv: "transfer_inv read_chunk opts len s0"
  shows "case transfer_step pick read_chunk write_chunk opts len s0 of
      Inl r \<Rightarrow> transfer_ends read_chunk opts len r
    | Inr s' \<Rightarrow> transfer_inv read_chunk opts len s' \<and> transfer_work len s' < transfer_work len s0"
proof -
  let ?s = "fill_reads opts len s0"
  have inv1: "transfer_inv read_chunk opts len ?s" and work: "transfer_work len ?s \<le> transfer_work len s0"
    and full: "unat (concurrency opts) \<le> outstanding ?s \<or> len \<le> next_read ?s"
    using fill_reads_inv [OF chunk inv] by auto
  have sofar: "contiguous 0 (written ?s)" "\<forall>(i, bytes) \<in> set (written ?s). read_chunk i (of_nat (length bytes)) = Inr bytes"
    "unat (next_write ?s) = length (written_bytes ?s)" "transferred ?s = next_write ?s"
    "chunks ?s = of_nat (length (written ?s))" "next_write ?s \<le> next_read ?s" "unat (next_read ?s) \<le> unat len"
    using inv1 unfolding transfer_inv_def Let_def boundary_def by auto
  show ?thesis
  proof (cases "map_of (ready ?s) (next_write ?s)")
    case (Some bytes)
    have "length bytes < 2 ^ 32" using ready_entry [OF inv1 Some] chunk_at_u32 by auto
    then show ?thesis
      using Some work sofar write_ready_error [of bytes write_chunk ?s] write_ready_inv [OF chunk inv1 Some, of write_chunk]
      by (cases "write_ready write_chunk bytes ?s")
        (auto simp: transfer_step_def Let_def transfer_ends_def written_bytes_def dest: less_le_trans)
  next
    case None
    then have absent: "next_write ?s \<notin> set (map fst (ready ?s))" by (simp add: map_of_eq_None_iff)
    show ?thesis
    proof (cases "in_flight ?s")
      case Nil
      then have "\<not> next_write ?s < next_read ?s"
        using boundary_between [OF inv1] absent by (auto simp: offsets_def)
      then have eq: "next_read ?s = next_write ?s" using sofar by simp
      then have "set (offsets ?s) = {}" using inv1 unfolding transfer_inv_def Let_def by auto
      then have empty: "ready ?s = []" by (simp add: offsets_def)
      then have "len \<le> next_read ?s" using full Nil conc by (auto simp: outstanding_def unat_eq_zero)
      then have "len = next_write ?s" using eq sofar by (simp add: word_nat word_unat_eq_iff)
      then show ?thesis
        using None Nil empty sofar by (simp add: transfer_step_def Let_def transfer_ends_def)
    next
      case (Cons x xs)
      let ?i = "pick ?s mod length (in_flight ?s)"
      have i: "?i < length (in_flight ?s)" using Cons by simp
      have "fst (in_flight ?s ! ?i) \<in> set (offsets ?s)" using i by (simp add: offsets_def)
      then have le: "next_write ?s \<le> fst (in_flight ?s ! ?i)" using inv1 unfolding transfer_inv_def Let_def by auto
      show ?thesis
      proof (cases "resolve_read read_chunk (in_flight ?s ! ?i)")
        case (Inl e)
        then show ?thesis
          using None Cons sofar le by (simp add: transfer_step_def Let_def transfer_ends_def written_bytes_def)
      next
        case (Inr bytes)
        then show ?thesis
          using None Cons complete_read_inv [OF inv1 i Inr refl] work by (simp add: transfer_step_def Let_def)
      qed
    qed
  qed
qed

section \<open>Every transfer returns\<close>

lemma transfer_loop_returns:
  assumes "chunk_size opts \<noteq> 0" and "concurrency opts \<noteq> 0" and "transfer_inv read_chunk opts len s"
    and ok: "\<And>s s'. transfer_inv read_chunk opts len s \<Longrightarrow>
      ok \<longrightarrow> (\<forall>e. transfer_step pick read_chunk write_chunk opts len s \<noteq> Inl (Inl e, s'))"
  shows "\<exists>r s'. transfer_loop pick read_chunk write_chunk opts len s = Some (r, s') \<and>
    transfer_ends read_chunk opts len (r, s') \<and> (ok \<longrightarrow> (\<exists>report. r = Inr report))"
  using assms(3)
proof (induction "transfer_work len s" arbitrary: s rule: less_induct)
  case less
  note step = transfer_step_sound [OF assms(1,2) less.prems, of pick write_chunk]
  show ?case
  proof (cases "transfer_step pick read_chunk write_chunk opts len s")
    case (Inl r)
    then obtain v s' where r: "r = (v, s')" by (cases r)
    have "ok \<longrightarrow> (\<exists>report. v = Inr report)"
      using ok [OF less.prems, of s'] Inl r by (cases v) auto
    with step Inl r show ?thesis by (simp add: transfer_loop.simps)
  next
    case (Inr s')
    with step less.hyps [of s'] show ?thesis
      by (subst transfer_loop.simps) simp
  qed
qed

text \<open>
  C33. Every copy returns, whatever the reads and writes return and in whatever order reads
  complete: the chunks written lie one after the other from the start of the destination and
  hold what the reads returned for their offsets; success reports the whole length and the
  number of chunks; a failure reports exactly the bytes written before it, at an offset at or
  after them; the scheduler never gets stuck.
\<close>

theorem transfer_returns_ordered_prefix:
  assumes "chunk_size opts \<noteq> 0" and "concurrency opts \<noteq> 0"
  shows "\<exists>result s. run_transfer pick read_chunk write_chunk opts len = Some (result, s) \<and>
    contiguous 0 (written s) \<and>
    (\<forall>(i, bytes) \<in> set (written s). read_chunk i (of_nat (length bytes)) = Inr bytes) \<and>
    (case result of
       Inr report \<Rightarrow> length (written_bytes s) = unat len \<and> report_bytes report = len \<and>
         report_chunks report = of_nat (length (written s))
     | Inl (TransferFailed offset sent cause) \<Rightarrow> unat sent = length (written_bytes s) \<and> sent \<le> offset
     | Inl e \<Rightarrow> False)"
  using transfer_loop_returns [OF assms transfer_inv_start, where ok = False and pick = pick and
      write_chunk = write_chunk and len = len and read_chunk = read_chunk] assms
  by (simp add: run_transfer_def transfer_ends_def)

definition sample_source :: "u8 list" where
  "sample_source = [10, 20, 30, 40, 50]"

definition sample_read :: "u64 \<Rightarrow> u32 \<Rightarrow> unit + u8 list" where
  "sample_read offset n = Inr (take (unat n) (drop (unat offset) sample_source))"

definition sample_write :: "u64 \<Rightarrow> u8 list \<Rightarrow> unit + u32" where
  "sample_write offset bytes = Inr (of_nat (length bytes))"

theorem transfer_returns_ordered_prefix_witness:
  "\<exists>result s. run_transfer (\<lambda>_. 1) sample_read sample_write \<lparr>concurrency = 2, chunk_size = 2\<rparr> 5 = Some (result, s) \<and>
     contiguous 0 (written s)"
  using transfer_returns_ordered_prefix [of "\<lparr>concurrency = 2, chunk_size = 2\<rparr>" "\<lambda>_. 1" sample_read sample_write 5]
  by auto

section \<open>A faithful transfer copies the file\<close>

lemma contiguous_copy:
  assumes "contiguous i ws" and "\<forall>(k, bytes) \<in> set ws. bytes = take (length bytes) (drop (unat k) src)"
  shows "concat (map snd ws) = take (length (concat (map snd ws))) (drop i src)"
  using assms
proof (induction i ws rule: contiguous.induct)
  case (2 i offset bytes ws)
  then have "bytes = take (length bytes) (drop i src)" by simp
  moreover from 2 have "concat (map snd ws) = take (length (concat (map snd ws))) (drop (i + length bytes) src)" by simp
  ultimately show ?case by (simp add: take_add add.commute)
qed simp

lemma contiguous_within:
  "contiguous i ws \<Longrightarrow> (k, bytes) \<in> set ws \<Longrightarrow> unat k + length bytes \<le> i + length (concat (map snd ws))"
  by (induction i ws rule: contiguous.induct) auto

lemma transfer_step_ok:
  assumes inv: "transfer_inv read_chunk opts len s0" and chunk: "chunk_size opts \<noteq> 0" and conc: "concurrency opts \<noteq> 0"
    and src: "length src = unat len"
    and reads: "\<And>i n. unat i + unat n \<le> length src \<Longrightarrow> read_chunk i n = Inr (take (unat n) (drop (unat i) src))"
    and writes: "\<And>i bytes. length bytes < 2 ^ 32 \<Longrightarrow> write_chunk i bytes = Inr (of_nat (length bytes))"
  shows "transfer_step pick read_chunk write_chunk opts len s0 \<noteq> Inl (Inl e, s')"
proof
  assume err: "transfer_step pick read_chunk write_chunk opts len s0 = Inl (Inl e, s')"
  let ?s = "fill_reads opts len s0"
  have inv1: "transfer_inv read_chunk opts len ?s" using fill_reads_inv [OF chunk inv] by blast
  have ends: "transfer_ends read_chunk opts len (Inl e, s')"
    using transfer_step_sound [OF chunk conc inv, of pick write_chunk] err by simp
  show False
  proof (cases "map_of (ready ?s) (next_write ?s)")
    case (Some bytes)
    then have "length bytes < 2 ^ 32" using ready_entry [OF inv1 Some] chunk_at_u32 by auto
    then show False
      using err Some writes [of bytes "next_write ?s"]
      by (simp add: transfer_step_def Let_def write_ready_def unat_of_nat)
  next
    case None
    let ?i = "pick ?s mod length (in_flight ?s)"
    obtain k l where kl: "in_flight ?s ! ?i = (k, l)" by fastforce
    have nonempty: "in_flight ?s \<noteq> []" using err None ends
      by (auto simp: transfer_step_def Let_def transfer_ends_def split: if_splits)
    then have mem: "(k, l) \<in> set (in_flight ?s)" using kl by (metis length_greater_0_conv mod_less_divisor nth_mem)
    then have "k \<in> set (offsets ?s)" by (force simp: offsets_def)
    then have "unat k \<le> unat len" and "unat l = chunk_at (unat (chunk_size opts)) (unat len) (unat k)"
      using inv1 mem unfolding transfer_inv_def Let_def boundary_def by auto
    then have "unat k + unat l \<le> length src" using src by (simp add: chunk_at_def)
    then have "resolve_read read_chunk (k, l) = Inr (take (unat l) (drop (unat k) src))"
      using reads [of k l] by (simp add: resolve_read_def)
    then show False
      using err None nonempty kl by (auto simp: transfer_step_def Let_def split: list.splits)
  qed
qed

text \<open>
  C31. A transfer is a copy: when the source answers each read inside the file with the bytes at
  that place and the destination accepts every write in full, then for every chunk size, every
  bound on concurrent reads and every order in which they complete, the transfer succeeds, and
  the bytes it wrote, one chunk after the other, are the source.
\<close>

theorem transfer_copies_source:
  assumes "chunk_size opts \<noteq> 0" and "concurrency opts \<noteq> 0" and src: "length src = unat len"
    and reads: "\<And>i n. unat i + unat n \<le> length src \<Longrightarrow> read_chunk i n = Inr (take (unat n) (drop (unat i) src))"
    and writes: "\<And>i bytes. length bytes < 2 ^ 32 \<Longrightarrow> write_chunk i bytes = Inr (of_nat (length bytes))"
  shows "\<exists>report s. run_transfer pick read_chunk write_chunk opts len = Some (Inr report, s) \<and>
    report_bytes report = len \<and> contiguous 0 (written s) \<and> written_bytes s = src"
proof -
  obtain report s where run: "run_transfer pick read_chunk write_chunk opts len = Some (Inr report, s)"
    and ends: "transfer_ends read_chunk opts len (Inr report, s)"
    using transfer_loop_returns [OF assms(1,2) transfer_inv_start, where ok = True and pick = pick and
        write_chunk = write_chunk and len = len and read_chunk = read_chunk]
      transfer_step_ok [OF _ assms] assms(1,2) by (auto simp: run_transfer_def)
  have "bytes = take (length bytes) (drop (unat k) src)" if "(k, bytes) \<in> set (written s)" for k bytes
  proof -
    let ?n = "unat (of_nat (length bytes) :: u32)"
    have "unat k + length bytes \<le> length src"
      using contiguous_within [of 0 "written s" k bytes] that ends src by (simp add: transfer_ends_def written_bytes_def)
    moreover have n: "?n \<le> length bytes" by (simp add: unat_of_nat)
    ultimately have "bytes = take ?n (drop (unat k) src)"
      using reads [of k "of_nat (length bytes)"] ends that by (auto simp: transfer_ends_def)
    moreover from this have "length bytes \<le> ?n" by (metis length_take min.cobounded2)
    ultimately show ?thesis using n by (metis le_antisym)
  qed
  then have "written_bytes s = take (length (written_bytes s)) src"
    using contiguous_copy [of 0 "written s" src] ends by (auto simp: transfer_ends_def written_bytes_def)
  then show ?thesis using run ends src by (auto simp: transfer_ends_def)
qed

theorem transfer_copies_source_witness:
  "\<exists>report s. run_transfer (\<lambda>_. 1) sample_read sample_write \<lparr>concurrency = 2, chunk_size = 2\<rparr> 5 = Some (Inr report, s) \<and>
     report_bytes report = 5 \<and> contiguous 0 (written s) \<and> written_bytes s = sample_source"
  by (rule transfer_copies_source) (simp_all add: sample_source_def sample_read_def sample_write_def)

end
