(* ===== verification/Domain_Operation.thy ===== *)
theory Domain_Operation
  imports Operation
begin

text \<open>
  The lazy domain operation (domain/operation.rs): a future that calls its start closure at the
  first poll and answers once. A poll event carries what the environment shows at that moment:
  whether the external token is cancelled, the time, and what polling the started future would
  give. A run is a sequence of polls and cancellation requests, ended by the drop.
\<close>

section \<open>Model\<close>

datatype domain_replay = Never | IfUncommitted | Idempotent | DomainDurableReconnectOnly

record operation_context =
  ctx_deadline :: "u64 option"
  ctx_replay :: domain_replay

fun runtime_replay :: "domain_replay \<Rightarrow> replay_policy" where
  "runtime_replay Never = NeverReplay"
| "runtime_replay IfUncommitted = ReplayIfUncommitted"
| "runtime_replay Idempotent = IdempotentReplay"
| "runtime_replay DomainDurableReconnectOnly = DurableReconnectOnly"

datatype 'e domain_error = Cancelled | TimedOut | PolledAfterCompletion | NoFuture | OperationError 'e

definition context_remaining :: "u64 \<Rightarrow> operation_context \<Rightarrow> 'e domain_error + u64 option" where
  "context_remaining now ctx =
     (case ctx_deadline ctx of
        None \<Rightarrow> Inr None
      | Some d \<Rightarrow> if now \<le> d then Inr (Some (d - now)) else Inl TimedOut)"

text \<open>\<open>has_start\<close> and \<open>has_future\<close> say that the options of the struct hold something.\<close>

record domain_operation =
  has_start :: bool
  has_future :: bool
  deadline_of :: "u64 option"
  has_external :: bool
  token_cancelled :: bool
  replay_of :: domain_replay
  started :: bool
  completed :: bool

definition domain_operation_new :: domain_operation where
  "domain_operation_new = \<lparr>has_start = True, has_future = False, deadline_of = None, has_external = False,
     token_cancelled = False, replay_of = Never, started = False, completed = False\<rparr>"

definition with_deadline :: "u64 \<Rightarrow> domain_operation \<Rightarrow> domain_operation" where
  "with_deadline d op = op\<lparr>deadline_of := Some d\<rparr>"

definition with_cancellation :: "domain_operation \<Rightarrow> domain_operation" where
  "with_cancellation op = op\<lparr>has_external := True\<rparr>"

definition with_replay :: "domain_replay \<Rightarrow> domain_operation \<Rightarrow> domain_operation" where
  "with_replay r op = op\<lparr>replay_of := r\<rparr>"

definition request_cancel :: "domain_operation \<Rightarrow> domain_operation" where
  "request_cancel op = op\<lparr>token_cancelled := True\<rparr>"

datatype ('e, 'r) domain_event =
    Poll (external: bool) (time: u64) (inner: "('e + 'r) option")
  | RequestCancel

datatype ('e, 'r) domain_effect =
    StartCalled operation_context
  | FuturePolled
  | PollReady "'e domain_error + 'r"
  | PollPending

text \<open>The biased \<open>select!\<close>: own token, external token, deadline, then the started future.\<close>

definition run_bounded ::
  "bool \<Rightarrow> u64 \<Rightarrow> ('e + 'r) option \<Rightarrow> domain_operation \<Rightarrow>
     domain_operation \<times> ('e, 'r) domain_effect list \<times> ('e domain_error + 'r) option" where
  "run_bounded ext now future op =
     (if token_cancelled op then (op, [], Some (Inl Cancelled))
      else if has_external op \<and> ext then (op\<lparr>token_cancelled := True\<rparr>, [], Some (Inl Cancelled))
      else if (case deadline_of op of None \<Rightarrow> False | Some d \<Rightarrow> d \<le> now)
      then (op\<lparr>token_cancelled := True\<rparr>, [], Some (Inl TimedOut))
      else (op, [FuturePolled], map_option (map_sum OperationError id) future))"

definition poll_future ::
  "bool \<Rightarrow> u64 \<Rightarrow> ('e + 'r) option \<Rightarrow> domain_operation \<Rightarrow> domain_operation \<times> ('e, 'r) domain_effect list" where
  "poll_future ext now future op =
     (case run_bounded ext now future op of
        (op, out, Some r) \<Rightarrow> (op\<lparr>completed := True\<rparr>, out @ [PollReady r])
      | (op, out, None) \<Rightarrow> (op, out @ [PollPending]))"

definition operation_poll ::
  "bool \<Rightarrow> u64 \<Rightarrow> ('e + 'r) option \<Rightarrow> domain_operation \<Rightarrow> domain_operation \<times> ('e, 'r) domain_effect list" where
  "operation_poll ext now future op =
     (if completed op then (op, [PollReady (Inl PolledAfterCompletion)])
      else if \<not> has_future op then
        (if token_cancelled op \<or> has_external op \<and> ext
         then (op\<lparr>completed := True\<rparr>, [PollReady (Inl Cancelled)])
         else if (case deadline_of op of None \<Rightarrow> False | Some d \<Rightarrow> d \<le> now)
         then (op\<lparr>completed := True\<rparr>, [PollReady (Inl TimedOut)])
         else let op = op\<lparr>started := True\<rparr> in
           if \<not> has_start op then (op\<lparr>completed := True\<rparr>, [PollReady (Inl PolledAfterCompletion)])
           else let op = op\<lparr>has_start := False, has_future := True\<rparr>;
                    (op', out) = poll_future ext now future op
                in (op', StartCalled \<lparr>ctx_deadline = deadline_of op, ctx_replay = replay_of op\<rparr> # out))
      else poll_future ext now future op)"

definition operation_drop :: "domain_operation \<Rightarrow> domain_operation" where
  "operation_drop op = (if started op \<and> \<not> completed op then op\<lparr>token_cancelled := True\<rparr> else op)"

fun operation_step :: "domain_operation \<Rightarrow> ('e, 'r) domain_event \<Rightarrow> domain_operation \<times> ('e, 'r) domain_effect list" where
  "operation_step op (Poll ext now future) = operation_poll ext now future op"
| "operation_step op RequestCancel = (request_cancel op, [])"

section \<open>One start, one answer\<close>

definition operation_inv :: "domain_operation \<Rightarrow> bool" where
  "operation_inv op \<longleftrightarrow>
     (has_future op \<longrightarrow> started op \<and> \<not> has_start op) \<and>
     (\<not> has_future op \<longrightarrow> has_start op \<and> \<not> started op)"

fun calls_start :: "('e, 'r) domain_effect \<Rightarrow> bool" where
  "calls_start (StartCalled _) = True"
| "calls_start _ = False"

text \<open>An answer is a ready poll, except the report that the operation has already answered.\<close>

fun answers_poll :: "('e, 'r) domain_effect \<Rightarrow> bool" where
  "answers_poll (PollReady (Inl PolledAfterCompletion)) = False"
| "answers_poll (PollReady _) = True"
| "answers_poll _ = False"

lemma operation_step_inv: "operation_inv op \<Longrightarrow> operation_inv (fst (operation_step op e))"
  by (cases e)
    (auto simp: operation_inv_def operation_poll_def poll_future_def run_bounded_def request_cancel_def Let_def
      split: option.splits prod.splits)

lemma operation_step_started:
  "operation_inv op \<Longrightarrow> started op \<Longrightarrow> started (fst (operation_step op e))"
  by (cases e)
    (auto simp: operation_inv_def operation_poll_def poll_future_def run_bounded_def request_cancel_def Let_def
      split: option.splits prod.splits)

lemma operation_step_completed: "completed op \<Longrightarrow> completed (fst (operation_step op e))"
  by (cases e) (simp_all add: operation_poll_def request_cancel_def)

lemma operation_step_starts:
  "operation_inv op \<Longrightarrow>
     occurrences calls_start (snd (operation_step op e)) =
       (if \<not> started op \<and> started (fst (operation_step op e)) then 1 else 0)"
  by (cases e)
    (auto simp: operation_inv_def operation_poll_def poll_future_def run_bounded_def request_cancel_def Let_def
      split: option.splits prod.splits)

lemma operation_step_answers:
  "operation_inv op \<Longrightarrow>
     occurrences answers_poll (snd (operation_step op e)) =
       (if \<not> completed op \<and> completed (fst (operation_step op e)) then 1 else 0)"
  by (cases e)
    (auto simp: operation_inv_def operation_poll_def poll_future_def run_bounded_def request_cancel_def Let_def
      map_sum_def split: option.splits prod.splits sum.splits)

interpretation domain_start: publishing_reducer operation_step operation_inv started calls_start
  by unfold_locales (simp_all add: operation_step_inv operation_step_started operation_step_starts)

interpretation domain_answer: publishing_reducer operation_step operation_inv completed answers_poll
  by unfold_locales (simp_all add: operation_step_inv operation_step_completed operation_step_answers)

section \<open>An abandoned operation cancels its context\<close>

fun abandons :: "('e, 'r) domain_effect \<Rightarrow> bool" where
  "abandons (PollReady (Inl Cancelled)) = True"
| "abandons (PollReady (Inl TimedOut)) = True"
| "abandons _ = False"

lemma operation_error_not_abandoned [simp]: "\<not> abandons (PollReady (map_sum OperationError id z))"
  by (cases z) simp_all

definition context_released :: "domain_operation \<Rightarrow> bool" where
  "context_released op \<longleftrightarrow> completed op \<and> \<not> started op \<or> token_cancelled op"

lemma context_released_step: "context_released op \<Longrightarrow> context_released (fst (operation_step op e))"
  by (cases e)
    (auto simp: context_released_def operation_poll_def poll_future_def run_bounded_def request_cancel_def Let_def
      split: option.splits prod.splits)

lemma abandon_step:
  "operation_inv op \<Longrightarrow> x \<in> set (snd (operation_step op e)) \<Longrightarrow> abandons x \<Longrightarrow> context_released (fst (operation_step op e))"
  by (cases e)
    (auto simp: context_released_def operation_inv_def operation_poll_def poll_future_def run_bounded_def
      request_cancel_def Let_def split: option.splits prod.splits sum.splits if_splits)

lemma abandon_run:
  "operation_inv op \<Longrightarrow> context_released op \<or> (\<exists>x \<in> set (snd (run_reducer operation_step op es)). abandons x) \<Longrightarrow>
     context_released (fst (run_reducer operation_step op es))"
proof (induction es arbitrary: op)
  case (Cons e es)
  let ?op = "fst (operation_step op e)"
  from Cons.prems have "context_released ?op \<or> (\<exists>x \<in> set (snd (run_reducer operation_step ?op es)). abandons x)"
    by (auto simp: run_reducer_Cons context_released_step dest: abandon_step)
  from Cons.IH [OF operation_step_inv [OF Cons.prems(1)] this] show ?case by (simp add: run_reducer_Cons)
qed simp

lemma cancelled_never_starts:
  "token_cancelled op \<Longrightarrow> \<not> started op \<Longrightarrow> \<not> has_future op \<Longrightarrow> \<not> started (fst (run_reducer operation_step op es))"
proof (induction es arbitrary: op)
  case (Cons e es)
  then have "token_cancelled (fst (operation_step op e))" "\<not> started (fst (operation_step op e))"
    "\<not> has_future (fst (operation_step op e))"
    by (cases e; simp add: operation_poll_def request_cancel_def)+
  with Cons.IH show ?case by (simp add: run_reducer_Cons)
qed simp

definition unpolled :: "domain_operation \<Rightarrow> bool" where
  "unpolled op \<longleftrightarrow> has_start op \<and> \<not> has_future op \<and> \<not> started op \<and> \<not> completed op"

text \<open>
  C35. An operation is lazy, starts once and answers once. Whatever polls and cancellation
  requests an operation sees, its start closure is called at most once, and never if cancellation
  was requested before the first poll. It gives exactly one answer if it completes and none
  otherwise; every poll after that reports the misuse. Dropping an unstarted operation does
  nothing, and when a started one times out, is cancelled or is dropped unanswered, the context
  its work runs under is cancelled.
\<close>

theorem operation_starts_and_answers_once:
  assumes "unpolled op" and "run_reducer operation_step op es = (op', out)"
  shows "occurrences calls_start out = (if started op' then 1 else 0) \<and>
    occurrences answers_poll out = (if completed op' then 1 else 0) \<and>
    (token_cancelled op \<longrightarrow> \<not> started op') \<and>
    (\<not> started op' \<longrightarrow> operation_drop op' = op') \<and>
    (started op' \<and> (\<not> completed op' \<or> list_ex abandons out) \<longrightarrow> token_cancelled (operation_drop op'))"
proof (intro conjI)
  have inv: "operation_inv op" using assms(1) by (auto simp: unpolled_def operation_inv_def)
  show "occurrences calls_start out = (if started op' then 1 else 0)"
    using domain_start.publications_run [OF inv, of es] assms by (simp add: unpolled_def)
  show "occurrences answers_poll out = (if completed op' then 1 else 0)"
    using domain_answer.publications_run [OF inv, of es] assms by (simp add: unpolled_def)
  show "token_cancelled op \<longrightarrow> \<not> started op'"
    using cancelled_never_starts [of op es] assms by (simp add: unpolled_def)
  show "\<not> started op' \<longrightarrow> operation_drop op' = op'" by (simp add: operation_drop_def)
  show "started op' \<and> (\<not> completed op' \<or> list_ex abandons out) \<longrightarrow> token_cancelled (operation_drop op')"
    using abandon_run [OF inv, of es] assms(2)
    by (auto simp: context_released_def operation_drop_def list_ex_iff)
qed

text \<open>A timed operation, polled before its deadline, at its deadline and once too often.\<close>

definition sample_events :: "(unit, unit) domain_event list" where
  "sample_events = [Poll False 2 None, Poll False 10 (Some (Inr ())), Poll False 11 None]"

definition sample_operation :: domain_operation where
  "sample_operation = with_cancellation (with_deadline 10 domain_operation_new)"

lemmas operation_evaluate = sample_operation_def sample_events_def run_reducer.simps with_cancellation_def
  with_deadline_def domain_operation_new_def operation_poll_def poll_future_def run_bounded_def

lemma sample_run:
  "run_reducer operation_step sample_operation sample_events =
     (\<lparr>has_start = False, has_future = True, deadline_of = Some 10, has_external = True,
       token_cancelled = True, replay_of = Never, started = True, completed = True\<rparr>,
      [StartCalled \<lparr>ctx_deadline = Some 10, ctx_replay = Never\<rparr>, FuturePolled, PollPending,
       PollReady (Inl TimedOut), PollReady (Inl PolledAfterCompletion)])"
  by (simp add: operation_evaluate)

theorem operation_starts_and_answers_once_witness:
  "unpolled sample_operation \<and>
   (case run_reducer operation_step sample_operation sample_events of
      (op', out) \<Rightarrow> occurrences calls_start out = 1 \<and> occurrences answers_poll out = 1 \<and>
        token_cancelled (operation_drop op'))"
proof -
  have "unpolled sample_operation" by (simp add: unpolled_def operation_evaluate)
  with operation_starts_and_answers_once [OF this sample_run] show ?thesis by (simp add: sample_run)
qed

end
