(* ===== verification/Domain_Batch.thy ===== *)
theory Domain_Batch
  imports Prelude
begin

text \<open>
  Batches of domain commands (domain/batch.rs). A member is what its action returns when it is
  awaited, with the reference it depends on; \<open>batch_execute\<close> also returns the indices of the
  members whose action was started, in order.
\<close>

section \<open>Model\<close>

datatype batch_ref = BatchRef (ref_batch: u64) (ref_index: nat)

record ('e, 'v) member =
  action :: "'e + 'v"
  dependency :: "batch_ref option"

record ('e, 'v) batch =
  batch_id :: u64
  members :: "('e, 'v) member list"

datatype ('e, 'v) member_outcome = Success 'v | Failed 'e | DependencyFailed

datatype batch_error = InvalidDependency

definition batch_new :: "u64 \<Rightarrow> ('e, 'v) batch" where
  "batch_new i = \<lparr>batch_id = i, members = []\<rparr>"

definition batch_push :: "('e, 'v) member \<Rightarrow> ('e, 'v) batch \<Rightarrow> ('e, 'v) batch \<times> batch_ref" where
  "batch_push m b = (b\<lparr>members := members b @ [m]\<rparr>, BatchRef (batch_id b) (length (members b)))"

definition batch_after :: "batch_ref \<Rightarrow> ('e, 'v) member \<Rightarrow> ('e, 'v) member" where
  "batch_after r m = m\<lparr>dependency := Some r\<rparr>"

definition bad_dependency :: "u64 \<Rightarrow> nat \<times> ('e, 'v) member \<Rightarrow> bool" where
  "bad_dependency i = (\<lambda>(index, m).
     (case dependency m of None \<Rightarrow> False | Some r \<Rightarrow> ref_batch r \<noteq> i \<or> index \<le> ref_index r))"

fun is_success :: "('e, 'v) member_outcome option \<Rightarrow> bool" where
  "is_success (Some (Success _)) = True"
| "is_success _ = False"

definition outcome_get :: "('e, 'v) member_outcome list \<Rightarrow> nat \<Rightarrow> ('e, 'v) member_outcome option" where
  "outcome_get outcomes i = (if i < length outcomes then Some (outcomes ! i) else None)"

fun execute_members ::
  "('e, 'v) member list \<Rightarrow> ('e, 'v) member_outcome list \<Rightarrow> nat list \<Rightarrow> ('e, 'v) member_outcome list \<times> nat list" where
  "execute_members [] outcomes started = (outcomes, started)"
| "execute_members (m # ms) outcomes started =
     (if (case dependency m of None \<Rightarrow> False | Some r \<Rightarrow> \<not> is_success (outcome_get outcomes (ref_index r)))
      then execute_members ms (outcomes @ [DependencyFailed]) started
      else (case action m of
              Inr v \<Rightarrow> execute_members ms (outcomes @ [Success v]) (started @ [length outcomes])
            | Inl e \<Rightarrow> execute_members ms (outcomes @ [Failed e]) (started @ [length outcomes])))"

definition batch_execute :: "('e, 'v) batch \<Rightarrow> batch_error + ('e, 'v) member_outcome list \<times> nat list" where
  "batch_execute b =
     (if list_ex (bad_dependency (batch_id b)) (enumerate 0 (members b)) then Inl InvalidDependency
      else Inr (execute_members (members b) [] []))"

text \<open>A success is handed out only if its value has the type the reference names (\<open>downcast_ref\<close>).\<close>

definition batch_outcome ::
  "('v \<Rightarrow> 't option) \<Rightarrow> ('e, 'v) member_outcome list \<Rightarrow> batch_ref \<Rightarrow> ('e, 't) member_outcome option" where
  "batch_outcome downcast outcomes r =
     (case outcome_get outcomes (ref_index r) of
        None \<Rightarrow> None
      | Some (Success v) \<Rightarrow> map_option Success (downcast v)
      | Some (Failed e) \<Rightarrow> Some (Failed e)
      | Some DependencyFailed \<Rightarrow> Some DependencyFailed)"

section \<open>Failures spread along dependencies only\<close>

text \<open>The specification: what becomes of a member, given what becomes of the earlier ones.\<close>

definition member_spec :: "(nat \<Rightarrow> ('e, 'v) member_outcome option) \<Rightarrow> ('e, 'v) member \<Rightarrow> ('e, 'v) member_outcome" where
  "member_spec earlier m =
     (if (case dependency m of None \<Rightarrow> False | Some r \<Rightarrow> \<not> is_success (earlier (ref_index r))) then DependencyFailed
      else (case action m of Inr v \<Rightarrow> Success v | Inl e \<Rightarrow> Failed e))"

definition executed_ok :: "('e, 'v) member list \<Rightarrow> ('e, 'v) member_outcome list \<times> nat list \<Rightarrow> bool" where
  "executed_ok ms = (\<lambda>(outcomes, started). length outcomes = length ms \<and>
     (\<forall>i < length ms. outcomes ! i = member_spec (outcome_get (take i outcomes)) (ms ! i)) \<and>
     started = filter (\<lambda>i. outcomes ! i \<noteq> DependencyFailed) [0 ..< length ms])"

lemma executed_ok_step:
  assumes "executed_ok ms (outcomes, started)" and "out = member_spec (outcome_get outcomes) m"
  shows "executed_ok (ms @ [m]) (outcomes @ [out], if out = DependencyFailed then started else started @ [length outcomes])"
proof -
  have "filter (\<lambda>i. (outcomes @ [out]) ! i \<noteq> DependencyFailed) [0 ..< length ms] =
      filter (\<lambda>i. outcomes ! i \<noteq> DependencyFailed) [0 ..< length ms]"
    using assms(1) by (intro filter_cong) (auto simp: executed_ok_def nth_append)
  then show ?thesis
    using assms by (auto simp: executed_ok_def nth_append less_Suc_eq)
qed

lemma execute_members_ok:
  "executed_ok before (outcomes, started) \<Longrightarrow> executed_ok (before @ ms) (execute_members ms outcomes started)"
proof (induction ms arbitrary: before outcomes started)
  case (Cons m ms)
  let ?out = "member_spec (outcome_get outcomes) m"
  have "execute_members (m # ms) outcomes started =
      execute_members ms (outcomes @ [?out]) (if ?out = DependencyFailed then started else started @ [length outcomes])"
    by (auto simp: member_spec_def split: option.splits sum.splits)
  then show ?case using Cons.IH [OF executed_ok_step [OF Cons.prems refl]] by simp
qed simp

text \<open>A member is healthy if its action, and the action of every member it depends on, succeeds.\<close>

function healthy :: "('e, 'v) member list \<Rightarrow> nat \<Rightarrow> bool" where
  "healthy ms i =
     ((case action (ms ! i) of Inr _ \<Rightarrow> True | Inl _ \<Rightarrow> False) \<and>
      (case dependency (ms ! i) of None \<Rightarrow> True | Some r \<Rightarrow> if ref_index r < i then healthy ms (ref_index r) else False))"
  by pat_completeness auto
termination by (relation "measure snd") auto

declare healthy.simps [simp del]

definition dependencies_earlier :: "('e, 'v) member list \<Rightarrow> bool" where
  "dependencies_earlier ms = (\<forall>i < length ms. \<forall>r. dependency (ms ! i) = Some r \<longrightarrow> ref_index r < i)"

lemma bad_dependency_iff:
  "bad_dependency b (i, m) \<longleftrightarrow> (\<exists>r. dependency m = Some r \<and> \<not> (ref_batch r = b \<and> ref_index r < i))"
  by (cases "dependency m") (auto simp: bad_dependency_def)

lemma accepted_dependencies:
  "\<not> list_ex (bad_dependency b) (enumerate 0 ms) \<Longrightarrow> dependencies_earlier ms"
  unfolding dependencies_earlier_def
proof (intro allI impI)
  fix i r
  assume "\<not> list_ex (bad_dependency b) (enumerate 0 ms)" and "i < length ms" and r: "dependency (ms ! i) = Some r"
  then have "\<not> bad_dependency b (i, ms ! i)" by (force simp: list_ex_iff in_set_enumerate_eq)
  with r show "ref_index r < i" by (simp add: bad_dependency_def)
qed

lemma outcome_healthy:
  assumes ok: "executed_ok ms (outcomes, started)" and earlier: "dependencies_earlier ms"
  shows "i < length ms \<Longrightarrow> is_success (Some (outcomes ! i)) = healthy ms i"
proof (induction i rule: less_induct)
  case (less i)
  have out: "outcomes ! i = member_spec (outcome_get (take i outcomes)) (ms ! i)" and len: "length outcomes = length ms"
    using ok less.prems by (simp_all add: executed_ok_def)
  show ?case
  proof (cases "dependency (ms ! i)")
    case None
    then show ?thesis by (simp add: out member_spec_def healthy.simps [of ms i] split: sum.splits)
  next
    case (Some r)
    with earlier less.prems have r: "ref_index r < i" by (auto simp: dependencies_earlier_def)
    with less.IH [OF r] less.prems have "is_success (Some (outcomes ! ref_index r)) = healthy ms (ref_index r)" by simp
    with Some r len less.prems show ?thesis
      by (simp add: out member_spec_def outcome_get_def healthy.simps [of ms i] split: sum.splits)
  qed
qed

lemma executed_outcome:
  assumes ok: "executed_ok ms (outcomes, started)" and earlier: "dependencies_earlier ms" and i: "i < length ms"
  shows "outcomes ! i =
    (if \<exists>r. dependency (ms ! i) = Some r \<and> \<not> healthy ms (ref_index r) then DependencyFailed
     else (case action (ms ! i) of Inr v \<Rightarrow> Success v | Inl e \<Rightarrow> Failed e))"
proof (cases "dependency (ms ! i)")
  case None
  with ok i show ?thesis by (simp add: executed_ok_def member_spec_def)
next
  case (Some r)
  with earlier i have r: "ref_index r < i" by (auto simp: dependencies_earlier_def)
  then have "is_success (Some (outcomes ! ref_index r)) = healthy ms (ref_index r)"
    using outcome_healthy [OF ok earlier] i by simp
  with Some r ok i show ?thesis by (simp add: executed_ok_def member_spec_def outcome_get_def)
qed

text \<open>
  C36. A batch is refused, before any action runs, exactly when some member depends on something
  other than an earlier member of the same batch. Otherwise failures spread along dependencies
  only: a member is skipped exactly when it depends on a member whose own action, or that of a
  member further up its chain, failed, and every other member has the result of its own action.
  The actions that run are those of the members not skipped, each once, in the order pushed.
\<close>

theorem batch_failures_follow_dependencies:
  "(batch_execute b = Inl InvalidDependency \<longleftrightarrow>
     (\<exists>i r. i < length (members b) \<and> dependency (members b ! i) = Some r \<and>
        \<not> (ref_batch r = batch_id b \<and> ref_index r < i))) \<and>
   (case batch_execute b of
      Inl e \<Rightarrow> e = InvalidDependency
    | Inr (outcomes, started) \<Rightarrow>
       outcomes = map (\<lambda>m. if \<exists>r. dependency m = Some r \<and> \<not> healthy (members b) (ref_index r) then DependencyFailed
                           else (case action m of Inr v \<Rightarrow> Success v | Inl e \<Rightarrow> Failed e)) (members b) \<and>
       started = filter (\<lambda>i. outcomes ! i \<noteq> DependencyFailed) [0 ..< length (members b)])"
proof (intro conjI)
  have "list_ex (bad_dependency (batch_id b)) (enumerate 0 (members b)) \<longleftrightarrow>
     (\<exists>i r. i < length (members b) \<and> dependency (members b ! i) = Some r \<and>
        \<not> (ref_batch r = batch_id b \<and> ref_index r < i))"
    by (auto simp: list_ex_iff Bex_def in_set_enumerate_eq bad_dependency_iff)
  then show "batch_execute b = Inl InvalidDependency \<longleftrightarrow>
     (\<exists>i r. i < length (members b) \<and> dependency (members b ! i) = Some r \<and>
        \<not> (ref_batch r = batch_id b \<and> ref_index r < i))"
    by (simp add: batch_execute_def)
next
  show "case batch_execute b of
      Inl e \<Rightarrow> e = InvalidDependency
    | Inr (outcomes, started) \<Rightarrow>
       outcomes = map (\<lambda>m. if \<exists>r. dependency m = Some r \<and> \<not> healthy (members b) (ref_index r) then DependencyFailed
                           else (case action m of Inr v \<Rightarrow> Success v | Inl e \<Rightarrow> Failed e)) (members b) \<and>
       started = filter (\<lambda>i. outcomes ! i \<noteq> DependencyFailed) [0 ..< length (members b)]"
  proof (cases "list_ex (bad_dependency (batch_id b)) (enumerate 0 (members b))")
    case True
    then show ?thesis by (simp add: batch_execute_def)
  next
    case False
    obtain outcomes started where run: "execute_members (members b) [] [] = (outcomes, started)"
      by fastforce
    have "executed_ok ([] @ members b) (execute_members (members b) [] [])"
      by (rule execute_members_ok) (simp add: executed_ok_def)
    then have ok: "executed_ok (members b) (outcomes, started)" by (simp add: run)
    have "outcomes = map (\<lambda>m. if \<exists>r. dependency m = Some r \<and> \<not> healthy (members b) (ref_index r) then DependencyFailed
        else (case action m of Inr v \<Rightarrow> Success v | Inl e \<Rightarrow> Failed e)) (members b)"
      using ok executed_outcome [OF ok accepted_dependencies [OF False]]
      by (intro nth_equalityI) (simp_all add: executed_ok_def)
    moreover have "started = filter (\<lambda>i. outcomes ! i \<noteq> DependencyFailed) [0 ..< length (members b)]"
      using ok by (simp add: executed_ok_def)
    ultimately show ?thesis using False by (simp add: batch_execute_def run)
  qed
qed

end
