(* ===== verification/Domain_Cursor.thy ===== *)
theory Domain_Cursor
  imports Prelude
begin

text \<open>
  The file cursor (domain/cursor.rs): a position over the positioned operations of a file, with
  one read and one write possibly in flight. A future in flight is the request it was made for;
  what polling it gives is an argument of the poll. \<open>ReadBuf\<close> is the capacity it still has.
\<close>

section \<open>Model\<close>

datatype io_error = SeekOverflow | SeekBeforeStart | LengthTooLarge | PositionOverflow | SeekWhilePending | FileError

datatype 'a poll = Pending | Ready 'a | Panicked

datatype seek_from = SeekStart u64 | SeekCurrent "64 word" | SeekEnd "64 word"

record file_cursor =
  position :: u64
  pending_read :: "(u64 \<times> u32) option"
  pending_write :: "(u64 \<times> u8 list) option"

definition cursor_new :: file_cursor where
  "cursor_new = \<lparr>position = 0, pending_read = None, pending_write = None\<rparr>"

text \<open>The delta is an \<open>i64\<close>: \<open>sint\<close> reads it, and \<open>unsigned_abs\<close> is its negation at the same width.\<close>

definition unsigned_abs :: "64 word \<Rightarrow> u64" where
  "unsigned_abs d = (if sint d < 0 then - d else d)"

definition checked_sub :: "'a::len word \<Rightarrow> 'a word \<Rightarrow> 'a word option" where
  "checked_sub a b = (if b \<le> a then Some (a - b) else None)"

definition cursor_seek_from :: "u64 \<Rightarrow> 64 word \<Rightarrow> io_error + u64" where
  "cursor_seek_from base delta =
     (if 0 \<le> sint delta
      then (case checked_add base delta of Some p \<Rightarrow> Inr p | None \<Rightarrow> Inl SeekOverflow)
      else (case checked_sub base (unsigned_abs delta) of Some p \<Rightarrow> Inr p | None \<Rightarrow> Inl SeekBeforeStart))"

definition advance_position :: "usize \<Rightarrow> file_cursor \<Rightarrow> io_error + file_cursor" where
  "advance_position n c =
     (case checked_add (position c) n of
        Some p \<Rightarrow> Inr (c\<lparr>position := p\<rparr>)
      | None \<Rightarrow> Inl PositionOverflow)"

text \<open>
  \<open>put_slice\<close> panics if the bytes do not fit the buffer of this poll. A read returns the bytes
  it put there.
\<close>

definition poll_read ::
  "usize \<Rightarrow> (io_error + u8 list) option \<Rightarrow> file_cursor \<Rightarrow> file_cursor \<times> (io_error + u8 list) poll" where
  "poll_read remaining io c =
     (if remaining = 0 then (c, Ready (Inr []))
      else if pending_read c = None \<and> 2 ^ 32 \<le> unat remaining then (c, Ready (Inl LengthTooLarge))
      else let c = (if pending_read c = None then c\<lparr>pending_read := Some (position c, ucast remaining)\<rparr> else c) in
        (case io of
           None \<Rightarrow> (c, Pending)
         | Some (Inr bytes) \<Rightarrow>
             let c = c\<lparr>pending_read := None\<rparr> in
             if unat remaining < length bytes then (c, Panicked)
             else (case advance_position (of_nat (length bytes)) c of
                     Inr c \<Rightarrow> (c, Ready (Inr bytes))
                   | Inl e \<Rightarrow> (c, Ready (Inl e)))
         | Some (Inl e) \<Rightarrow> (c\<lparr>pending_read := None\<rparr>, Ready (Inl e))))"

definition poll_write ::
  "u8 list \<Rightarrow> (io_error + usize) option \<Rightarrow> file_cursor \<Rightarrow> file_cursor \<times> (io_error + usize) poll" where
  "poll_write buffer io c =
     (if buffer = [] then (c, Ready (Inr 0))
      else let c = (if pending_write c = None then c\<lparr>pending_write := Some (position c, buffer)\<rparr> else c) in
        (case io of
           None \<Rightarrow> (c, Pending)
         | Some (Inr n) \<Rightarrow>
             let c = c\<lparr>pending_write := None\<rparr> in
             (case advance_position n c of
                Inr c \<Rightarrow> (c, Ready (Inr n))
              | Inl e \<Rightarrow> (c, Ready (Inl e)))
         | Some (Inl e) \<Rightarrow> (c\<lparr>pending_write := None\<rparr>, Ready (Inl e))))"

definition start_seek :: "u64 \<Rightarrow> seek_from \<Rightarrow> file_cursor \<Rightarrow> file_cursor \<times> (io_error + unit)" where
  "start_seek opened_len target c =
     (if pending_read c \<noteq> None \<or> pending_write c \<noteq> None then (c, Inl SeekWhilePending)
      else (case (case target of
               SeekStart p \<Rightarrow> Inr p
             | SeekCurrent delta \<Rightarrow> cursor_seek_from (position c) delta
             | SeekEnd delta \<Rightarrow> cursor_seek_from opened_len delta) of
          Inr p \<Rightarrow> (c\<lparr>position := p\<rparr>, Inr ())
        | Inl e \<Rightarrow> (c, Inl e)))"

definition poll_complete :: "file_cursor \<Rightarrow> io_error + u64" where
  "poll_complete c = Inr (position c)"

text \<open>A caller's calls in order, with the number of bytes each moved if it completed.\<close>

datatype cursor_call =
    CallRead usize "(io_error + u8 list) option"
  | CallWrite "u8 list" "(io_error + usize) option"
  | CallSeek seek_from

fun cursor_step :: "u64 \<Rightarrow> cursor_call \<Rightarrow> file_cursor \<Rightarrow> file_cursor \<times> nat option" where
  "cursor_step opened_len (CallRead remaining io) c =
     (case poll_read remaining io c of
        (c, Ready (Inr bytes)) \<Rightarrow> (c, Some (length bytes))
      | (c, _) \<Rightarrow> (c, None))"
| "cursor_step opened_len (CallWrite buffer io) c =
     (case poll_write buffer io c of
        (c, Ready (Inr n)) \<Rightarrow> (c, Some (unat n))
      | (c, _) \<Rightarrow> (c, None))"
| "cursor_step opened_len (CallSeek target) c =
     (case start_seek opened_len target c of
        (c, Inr _) \<Rightarrow> (c, Some 0)
      | (c, Inl _) \<Rightarrow> (c, None))"

fun cursor_calls :: "u64 \<Rightarrow> cursor_call list \<Rightarrow> file_cursor \<Rightarrow> file_cursor \<times> (cursor_call \<times> nat option) list" where
  "cursor_calls opened_len [] c = (c, [])"
| "cursor_calls opened_len (call # calls) c =
     (case cursor_step opened_len call c of
        (c, moved) \<Rightarrow> (case cursor_calls opened_len calls c of (c, log) \<Rightarrow> (c, (call, moved) # log)))"

section \<open>Seeking is integer arithmetic\<close>

lemma sint_by_uint: "sint d = (if uint d < 2 ^ 63 then uint d else uint d - 2 ^ 64)" for d :: "64 word"
proof -
  have bounds: "0 \<le> uint d" "uint d < 2 ^ 64" using uint_bounded [of d] by simp_all
  then have "uint d div 2 ^ 63 = (if uint d < 2 ^ 63 then 0 else 1)" by simp arith
  then have "bit (uint d) 63 \<longleftrightarrow> \<not> uint d < 2 ^ 63" by (simp add: bit_iff_odd)
  with bounds show ?thesis
    by (simp add: sint_uint signed_take_bit_eq_take_bit_minus take_bit_int_eq_self)
qed

lemma checked_add_value:
  "checked_add a b = (let s = uint a + uint b in if s < 2 ^ 64 then Some (word_of_int s) else None)" for a b :: u64
proof -
  have "unat a + unat b < 2 ^ 64 \<longleftrightarrow> uint a + uint b < 2 ^ 64"
    by (simp only: uint_nat of_nat_add [symmetric] of_nat_less_numeral_power_cancel_iff)
  moreover have "word_of_int (uint a + uint b) = a + b" by simp
  ultimately show ?thesis by (simp add: checked_add_def Let_def)
qed

lemma checked_sub_value:
  "checked_sub a b = (let s = uint a - uint b in if s < 0 then None else Some (word_of_int s))" for a b :: u64
  by (simp add: checked_sub_def Let_def word_le_def wi_hom_syms)

lemma seek_from_value:
  "cursor_seek_from base delta =
     (let p = uint base + sint delta in
      if p < 0 then Inl SeekBeforeStart else if 2 ^ 64 \<le> p then Inl SeekOverflow else Inr (word_of_int p))"
proof (cases "0 \<le> sint delta")
  case True
  then have "sint delta = uint delta" using uint_bounded [of delta] by (auto simp: sint_by_uint split: if_splits)
  moreover have "\<not> uint base + uint delta < 0" by (simp add: not_less)
  ultimately show ?thesis using True by (simp add: cursor_seek_from_def checked_add_value Let_def)
next
  case False
  have bound: "uint delta < 2 ^ 64" using uint_bounded [of delta] by simp
  from False have high: "2 ^ 63 \<le> uint delta" by (simp add: sint_by_uint split: if_splits)
  then have "uint (- delta) = 2 ^ 64 - uint delta"
    using bound by (simp add: uint_word_arith_bintrs(4) take_bit_eq_mod zmod_zminus1_eq_if)
  then have "uint (unsigned_abs delta) = - sint delta"
    using False high by (simp add: unsigned_abs_def sint_by_uint)
  moreover have "uint base < 2 ^ 64" using uint_bounded [of base] by simp
  ultimately show ?thesis using False by (simp add: cursor_seek_from_def checked_sub_value Let_def)
qed

text \<open>Where a seek asks to go, as an integer: before the start or past \<open>u64::MAX\<close> included.\<close>

fun seek_target :: "u64 \<Rightarrow> int \<Rightarrow> seek_from \<Rightarrow> int" where
  "seek_target opened_len p (SeekStart q) = uint q"
| "seek_target opened_len p (SeekCurrent delta) = p + sint delta"
| "seek_target opened_len p (SeekEnd delta) = uint opened_len + sint delta"

lemma uint_u64_less: "uint w < 2 ^ 64" for w :: u64
  using uint_bounded [of w] by simp

text \<open>
  A seek is exact integer arithmetic: it is refused while a read or a write is pending, and
  otherwise moves the cursor to the target computed over the integers exactly when that fits a
  \<open>u64\<close>, says on which side it does not fit, and leaves the cursor alone in every refusal.
\<close>

theorem seek_is_exact:
  "start_seek opened_len target c =
     (let p = seek_target opened_len (uint (position c)) target in
      if \<not> (pending_read c = None \<and> pending_write c = None) then (c, Inl SeekWhilePending)
      else if p < 0 then (c, Inl SeekBeforeStart)
      else if 2 ^ 64 \<le> p then (c, Inl SeekOverflow)
      else (c\<lparr>position := word_of_int p\<rparr>, Inr ()))"
proof (cases target)
  case (SeekStart q)
  then show ?thesis using uint_u64_less [of q] by (simp add: start_seek_def Let_def)
qed (simp_all add: start_seek_def seek_from_value Let_def)

section \<open>The position follows what completed\<close>

lemma uint_add_sint:
  "0 \<le> uint b + sint d \<Longrightarrow> uint b + sint d < 2 ^ 64 \<Longrightarrow> uint (b + d) = uint b + sint d" for b d :: u64
proof -
  assume "0 \<le> uint b + sint d" and "uint b + sint d < 2 ^ 64"
  then have "uint (word_of_int (uint b + sint d) :: u64) = uint b + sint d"
    by (simp only: uint_word_of_int mod_pos_pos_trivial) simp
  then show ?thesis by simp
qed

lemma start_seek_position:
  "start_seek opened_len target c = (c', r) \<Longrightarrow>
     uint (position c') = (case r of Inr _ \<Rightarrow> seek_target opened_len (uint (position c)) target | Inl _ \<Rightarrow> uint (position c))"
proof (cases target)
  case (SeekStart q)
  then show "start_seek opened_len target c = (c', r) \<Longrightarrow> ?thesis"
    by (auto simp: start_seek_def split: if_splits)
qed (auto simp: start_seek_def seek_from_value Let_def uint_add_sint split: if_splits)

lemma advance_position_Inr:
  "advance_position n c = Inr c' \<Longrightarrow> uint (position c') = uint (position c) + uint n \<and> pending_read c' = pending_read c"
proof (cases "checked_add (position c) n")
  case (Some p)
  moreover assume "advance_position n c = Inr c'"
  ultimately show ?thesis
    using arg_cong [OF checked_add_unat [OF Some], of int] by (auto simp: advance_position_def)
qed (simp add: advance_position_def)

lemma poll_read_position:
  "poll_read remaining io c = (c', r) \<Longrightarrow>
     uint (position c') = (case r of Ready (Inr bytes) \<Rightarrow> uint (position c) + int (length bytes) | _ \<Rightarrow> uint (position c))"
proof (cases "\<exists>bytes. io = Some (Inr bytes) \<and> length bytes \<le> unat remaining")
  case False
  moreover assume "poll_read remaining io c = (c', r)"
  ultimately show ?thesis
    by (auto simp: poll_read_def Let_def split: if_splits option.splits sum.splits)
next
  case True
  then obtain bytes where io: "io = Some (Inr bytes)" and fits: "length bytes \<le> unat remaining" by blast
  then have "uint (of_nat (length bytes) :: usize) = int (length bytes)"
    using unsigned_less [of remaining, where ?'a = nat] by (simp add: uint_nat unat_of_nat del: of_nat_unat)
  moreover assume "poll_read remaining io c = (c', r)"
  ultimately show ?thesis using io fits
    by (auto simp: poll_read_def Let_def dest!: advance_position_Inr split: if_splits sum.splits)
qed

lemma poll_write_position:
  "poll_write buffer io c = (c', r) \<Longrightarrow>
     uint (position c') = (case r of Ready (Inr n) \<Rightarrow> uint (position c) + uint n | _ \<Rightarrow> uint (position c))"
  by (auto simp: poll_write_def Let_def dest!: advance_position_Inr split: if_splits option.splits sum.splits)

text \<open>The ideal cursor: an integer that completed transfers add to and accepted seeks replace.\<close>

fun ideal_position :: "u64 \<Rightarrow> int \<Rightarrow> (cursor_call \<times> nat option) list \<Rightarrow> int" where
  "ideal_position opened_len p [] = p"
| "ideal_position opened_len p ((call, None) # log) = ideal_position opened_len p log"
| "ideal_position opened_len p ((CallSeek target, Some n) # log) =
     ideal_position opened_len (seek_target opened_len p target) log"
| "ideal_position opened_len p ((CallRead remaining io, Some n) # log) = ideal_position opened_len (p + int n) log"
| "ideal_position opened_len p ((CallWrite buffer io, Some n) # log) = ideal_position opened_len (p + int n) log"

lemma cursor_step_position:
  "cursor_step opened_len call c = (c', moved) \<Longrightarrow>
     ideal_position opened_len (uint (position c)) ((call, moved) # log) = ideal_position opened_len (uint (position c')) log"
  by (cases call)
    (auto dest!: poll_read_position poll_write_position start_seek_position
      split: prod.splits poll.splits sum.splits)

text \<open>
  C39. The cursor refines an ideal integer position: whatever reads, writes and seeks a caller
  makes, in any order, pending, failed and panicking ones included, the position is the one the
  completed transfers and accepted seeks give over the integers. It never wraps, and a call
  that did not complete does not move it.
\<close>

theorem cursor_refines_ideal_position:
  "cursor_calls opened_len calls c = (c', log) \<Longrightarrow>
     uint (position c') = ideal_position opened_len (uint (position c)) log"
proof (induction calls arbitrary: c log)
  case (Cons call calls)
  then obtain c1 moved log1 where first: "cursor_step opened_len call c = (c1, moved)"
    and rest: "cursor_calls opened_len calls c1 = (c', log1)" and log: "log = (call, moved) # log1"
    by (auto split: prod.splits)
  show ?case using Cons.IH [OF rest] cursor_step_position [OF first, of log1] by (simp add: log)
qed simp

theorem cursor_refines_ideal_position_witness:
  "uint (position (fst (cursor_calls 100 [CallSeek (SeekEnd (- 4)), CallRead 8 None, CallRead 8 (Some (Inr [1, 2, 3])),
      CallSeek (SeekCurrent (- 100))] cursor_new))) = 99"
  using cursor_refines_ideal_position [OF surjective_pairing, of 100
      "[CallSeek (SeekEnd (- 4)), CallRead 8 None, CallRead 8 (Some (Inr [1, 2, 3])), CallSeek (SeekCurrent (- 100))]"
      cursor_new]
  by (simp add: cursor_new_def poll_read_def start_seek_def seek_from_value advance_position_def checked_add_def)

section \<open>A pending read resumed with a smaller buffer\<close>

text \<open>
  The read in flight keeps the length of the buffer it was first polled with; resumed with a
  smaller one, its bytes do not fit.
\<close>

lemma resumed_read_panics:
  "snd (poll_read 2 (Some (Inr [1, 2, 3])) (fst (poll_read 8 None cursor_new))) = Panicked"
  by (simp add: poll_read_def cursor_new_def Let_def)

text \<open>The write in flight likewise reports the bytes of the earlier buffer.\<close>

lemma resumed_write_overreports:
  "snd (poll_write [1] (Some (Inr 3)) (fst (poll_write [1, 2, 3] None cursor_new))) = Ready (Inr 3)"
  by (simp add: poll_write_def cursor_new_def Let_def advance_position_def checked_add_def)

end
