(* ===== verification/Wire_Header.thy ===== *)
theory Wire_Header
  imports Operation
begin

unbundle bit_operations_syntax

text \<open>
  The 64-byte SMB2 header (smb-msg/header.rs) as bytes: what \<open>Header::write\<close> puts on the wire and
  what \<open>Header::read\<close> makes of it. The codec derives both from the field order of the struct:
  little-endian integers, a magic, the constant structure size, and the two layouts chosen by
  the \<open>async_command\<close> flag.
\<close>

section \<open>Little-endian integers\<close>

type_synonym u128 = "128 word"
type_synonym bytes = "u8 list"

definition le_bytes :: "'a::len word \<Rightarrow> bytes" where
  "le_bytes w = map (\<lambda>i. ucast (drop_bit (8 * i) w)) [0 ..< LENGTH('a) div 8]"

primrec le_word :: "bytes \<Rightarrow> 'a::len word" where
  "le_word [] = 0"
| "le_word (b # bs) = (ucast b OR push_bit 8 (le_word bs))"

definition field :: "nat \<Rightarrow> nat \<Rightarrow> bytes \<Rightarrow> bytes" where
  "field off n bs = take n (drop off bs)"

section \<open>The header\<close>

fun command_code :: "command \<Rightarrow> u16" where
  "command_code CmdNegotiate = 0"
| "command_code CmdSessionSetup = 1"
| "command_code CmdLogoff = 2"
| "command_code CmdTreeConnect = 3"
| "command_code CmdTreeDisconnect = 4"
| "command_code CmdCreate = 5"
| "command_code CmdClose = 6"
| "command_code CmdFlush = 7"
| "command_code CmdRead = 8"
| "command_code CmdWrite = 9"
| "command_code CmdLock = 0xA"
| "command_code CmdIoctl = 0xB"
| "command_code CmdCancel = 0xC"
| "command_code CmdEcho = 0xD"
| "command_code CmdQueryDirectory = 0xE"
| "command_code CmdChangeNotify = 0xF"
| "command_code CmdQueryInfo = 0x10"
| "command_code CmdSetInfo = 0x11"
| "command_code CmdOplockBreak = 0x12"
| "command_code CmdServerToClientNotification = 0x13"

definition commands :: "command list" where
  "commands = [CmdNegotiate, CmdSessionSetup, CmdLogoff, CmdTreeConnect, CmdTreeDisconnect, CmdCreate, CmdClose,
     CmdFlush, CmdRead, CmdWrite, CmdLock, CmdIoctl, CmdCancel, CmdEcho, CmdQueryDirectory, CmdChangeNotify,
     CmdQueryInfo, CmdSetInfo, CmdOplockBreak, CmdServerToClientNotification]"

definition command_of_code :: "u16 \<Rightarrow> command option" where
  "command_of_code code = List.find (\<lambda>c. command_code c = code) commands"

text \<open>The flags are kept as the 32 bits the bit field is stored in, lowest field first.\<close>

type_synonym header_flags = u32

definition flag_server_to_redir :: "header_flags \<Rightarrow> bool" where
  "flag_server_to_redir f = bit f 0"

definition flag_async_command :: "header_flags \<Rightarrow> bool" where
  "flag_async_command f = bit f 1"

definition flag_signed :: "header_flags \<Rightarrow> bool" where
  "flag_signed f = bit f 3"

definition set_signed :: "header_flags \<Rightarrow> header_flags" where
  "set_signed f = set_bit 3 f"

record header =
  hd_credit_charge :: u16
  hd_status :: u32
  hd_command :: command
  hd_credit_request :: u16
  hd_flags :: header_flags
  hd_next_command :: u32
  hd_message_id :: u64
  hd_tree_id :: "u32 option"
  hd_async_id :: "u64 option"
  hd_session_id :: u64
  hd_signature :: u128

definition header_magic :: bytes where
  "header_magic = [0xFE, 0x53, 0x4D, 0x42]"

definition optional :: "'a::len word option \<Rightarrow> bytes" where
  "optional v = (case v of None \<Rightarrow> [] | Some w \<Rightarrow> le_bytes w)"

text \<open>Writing fails if the tree identifier is there and the header is asynchronous, or neither.\<close>

definition header_write :: "header \<Rightarrow> bytes option" where
  "header_write h =
     (if (hd_tree_id h \<noteq> None) = flag_async_command (hd_flags h) then None
      else Some (header_magic @ le_bytes (64 :: u16) @ le_bytes (hd_credit_charge h) @ le_bytes (hd_status h) @
        le_bytes (command_code (hd_command h)) @ le_bytes (hd_credit_request h) @ le_bytes (hd_flags h) @
        le_bytes (hd_next_command h) @ le_bytes (hd_message_id h) @
        (if flag_async_command (hd_flags h) then optional (hd_async_id h)
         else le_bytes (0 :: u32) @ optional (hd_tree_id h)) @
        le_bytes (hd_session_id h) @ le_bytes (hd_signature h)))"

definition header_read :: "bytes \<Rightarrow> header option" where
  "header_read bs =
     (if length bs < 64 \<or> field 0 4 bs \<noteq> header_magic \<or> le_word (field 4 2 bs) \<noteq> (64 :: u16) then None
      else (case command_of_code (le_word (field 12 2 bs)) of
        None \<Rightarrow> None
      | Some c \<Rightarrow> (let flags = le_word (field 16 4 bs) in Some
          \<lparr>hd_credit_charge = le_word (field 6 2 bs), hd_status = le_word (field 8 4 bs), hd_command = c,
           hd_credit_request = le_word (field 14 2 bs), hd_flags = flags,
           hd_next_command = le_word (field 20 4 bs), hd_message_id = le_word (field 24 8 bs),
           hd_tree_id = (if flag_async_command flags then None else Some (le_word (field 36 4 bs))),
           hd_async_id = (if flag_async_command flags then Some (le_word (field 32 8 bs)) else None),
           hd_session_id = le_word (field 40 8 bs), hd_signature = le_word (field 48 16 bs)\<rparr>)))"

section \<open>Round trip\<close>

lemma length_le_bytes [simp]: "length (le_bytes (w :: 'a::len word)) = LENGTH('a) div 8"
  by (simp add: le_bytes_def)

lemma bit_le_word:
  "bit (le_word bs :: 'a::len word) k \<longleftrightarrow> k < LENGTH('a) \<and> k div 8 < length bs \<and> bit (bs ! (k div 8)) (k mod 8)"
proof (induction bs arbitrary: k)
  case (Cons b bs)
  show ?case
  proof (cases "k < 8")
    case True
    then show ?thesis by (auto simp: bit_or_iff bit_push_bit_iff bit_ucast_iff)
  next
    case False
    then have "k div 8 = Suc ((k - 8) div 8)" "k mod 8 = (k - 8) mod 8" by (simp_all add: le_div_geq le_mod_geq)
    moreover have "\<not> bit b k" using False bit_imp_le_length [of b k] by auto
    ultimately show ?thesis using False
      by (auto simp: bit_or_iff bit_push_bit_iff bit_ucast_iff Cons.IH)
  qed
qed simp

lemma le_word_le_bytes [simp]:
  "8 dvd LENGTH('a) \<Longrightarrow> le_word (le_bytes w) = (w :: 'a::len word)"
proof (rule bit_word_eqI)
  fix k assume d: "8 dvd LENGTH('a)" and k: "k < LENGTH('a)"
  then have "k div 8 < LENGTH('a) div 8" by (auto elim!: dvdE)
  with k show "bit (le_word (le_bytes w) :: 'a word) k = bit w k"
    by (auto simp: bit_le_word le_bytes_def bit_ucast_iff bit_drop_bit_eq)
qed

lemma command_of_code_code [simp]: "command_of_code (command_code c) = Some c"
  by (cases c) (simp_all add: command_of_code_def commands_def)

text \<open>A header whose two identifiers agree with its flag.\<close>

definition header_wf :: "header \<Rightarrow> bool" where
  "header_wf h \<longleftrightarrow>
     (hd_tree_id h = None \<longleftrightarrow> flag_async_command (hd_flags h)) \<and>
     (hd_async_id h = None \<longleftrightarrow> \<not> flag_async_command (hd_flags h))"

lemma header_write_length:
  "header_wf h \<Longrightarrow> header_write h = Some bs \<Longrightarrow> length bs = 64"
  by (auto simp: header_wf_def header_write_def header_magic_def optional_def split: if_splits option.splits)

lemma header_read_write:
  assumes wf: "header_wf h" and bs: "header_write h = Some bs"
  shows "header_read (bs @ rest) = Some h"
proof (cases "flag_async_command (hd_flags h)")
  case True
  with wf obtain a where "hd_tree_id h = None" "hd_async_id h = Some a" by (auto simp: header_wf_def)
  with True bs show ?thesis
    by (cases h) (auto simp: header_write_def header_read_def field_def header_magic_def optional_def Let_def)
next
  case False
  with wf obtain t where "hd_async_id h = None" "hd_tree_id h = Some t" by (auto simp: header_wf_def)
  with False bs show ?thesis
    by (cases h) (auto simp: header_write_def header_read_def field_def header_magic_def optional_def Let_def)
qed

end
