(* ===== verification/Dialects.thy ===== *)
theory Dialects
  imports Wire_Header
begin

text \<open>
  Dialects and what was negotiated: the dialect order (smb-msg/negotiate.rs), the constants a
  dialect selects and the checks it makes of a negotiate response (dialects.rs), the part of the
  connection configuration that decides protection (connection/config.rs, signing.rs), and the
  preauthentication hash chain (connection/preauth_hash.rs). The cryptographic libraries are the
  fields of the record \<open>crypto\<close>.
\<close>

section \<open>Dialects\<close>

datatype dialect = Smb0202 | Smb021 | Smb030 | Smb0302 | Smb0311

fun dialect_code :: "dialect \<Rightarrow> nat" where
  "dialect_code Smb0202 = 0x0202"
| "dialect_code Smb021 = 0x0210"
| "dialect_code Smb030 = 0x0300"
| "dialect_code Smb0302 = 0x0302"
| "dialect_code Smb0311 = 0x0311"

lemma dialect_code_inj: "dialect_code a = dialect_code b \<Longrightarrow> a = b"
  by (cases a; cases b) simp_all

instantiation dialect :: linorder
begin

definition less_eq_dialect :: "dialect \<Rightarrow> dialect \<Rightarrow> bool" where
  "less_eq_dialect a b \<longleftrightarrow> dialect_code a \<le> dialect_code b"

definition less_dialect :: "dialect \<Rightarrow> dialect \<Rightarrow> bool" where
  "less_dialect a b \<longleftrightarrow> dialect_code a < dialect_code b"

instance
  by standard (auto simp: less_eq_dialect_def less_dialect_def dest: dialect_code_inj)

end

definition is_smb3 :: "dialect \<Rightarrow> bool" where
  "is_smb3 d \<longleftrightarrow> Smb030 \<le> d"

lemma is_smb3_cases: "is_smb3 d \<longleftrightarrow> d \<in> {Smb030, Smb0302, Smb0311}"
  by (cases d) (simp_all add: is_smb3_def less_eq_dialect_def)

section \<open>Algorithms and the cryptographic libraries\<close>

datatype signing_algorithm = HmacSha256 | AesCmac | AesGmac

datatype cipher = Aes128Ccm | Aes128Gcm | Aes256Ccm | Aes256Gcm

record ('s, 'c) crypto =
  kbkdf :: "bytes \<Rightarrow> bytes \<Rightarrow> bytes \<Rightarrow> bytes"
  make_signing_algo :: "signing_algorithm \<Rightarrow> bytes \<Rightarrow> 's option"
  make_encrypting_algo :: "cipher \<Rightarrow> bytes \<Rightarrow> 'c option"
  encrypting_algos :: "cipher list"
  signing_algos :: "signing_algorithm list"

datatype session_error = InvalidState | InvalidMessage | CryptoFailed | SessionInvalidated | NegotiationFailed

definition bytes_of :: "string \<Rightarrow> bytes" where
  "bytes_of s = map (\<lambda>c. of_nat (of_char c :: nat)) s"

definition get_signing_derive_label :: "dialect \<Rightarrow> session_error + bytes" where
  "get_signing_derive_label d =
     (case d of
        Smb0311 \<Rightarrow> Inr (bytes_of ''SMBSigningKey'' @ [0])
      | Smb0302 \<Rightarrow> Inr (bytes_of ''SMB2AESCMAC'' @ [0])
      | Smb030 \<Rightarrow> Inr (bytes_of ''SMB2AESCMAC'' @ [0])
      | _ \<Rightarrow> Inl InvalidState)"

definition default_signing_algo :: "dialect \<Rightarrow> signing_algorithm" where
  "default_signing_algo d = (case d of Smb0202 \<Rightarrow> HmacSha256 | Smb021 \<Rightarrow> HmacSha256 | _ \<Rightarrow> AesCmac)"

definition supports_compression :: "dialect \<Rightarrow> bool" where
  "supports_compression d \<longleftrightarrow> d = Smb0311"

definition supports_encryption :: "dialect \<Rightarrow> bool" where
  "supports_encryption d \<longleftrightarrow> is_smb3 d"

definition s2c_encrypt_key_derive_label :: "dialect \<Rightarrow> session_error + bytes" where
  "s2c_encrypt_key_derive_label d =
     (case d of
        Smb0311 \<Rightarrow> Inr (bytes_of ''SMBS2CCipherKey'' @ [0])
      | Smb0302 \<Rightarrow> Inr (bytes_of ''SMB2AESCCM'' @ [0])
      | Smb030 \<Rightarrow> Inr (bytes_of ''SMB2AESCCM'' @ [0])
      | _ \<Rightarrow> Inl InvalidState)"

definition c2s_encrypt_key_derive_label :: "dialect \<Rightarrow> session_error + bytes" where
  "c2s_encrypt_key_derive_label d =
     (case d of
        Smb0311 \<Rightarrow> Inr (bytes_of ''SMBC2SCipherKey'' @ [0])
      | Smb0302 \<Rightarrow> Inr (bytes_of ''SMB2AESCCM'' @ [0])
      | Smb030 \<Rightarrow> Inr (bytes_of ''SMB2AESCCM'' @ [0])
      | _ \<Rightarrow> Inl InvalidState)"

section \<open>The preauthentication hash\<close>

text \<open>\<open>sha\<close> is SHA-512 of the concatenation of what the hasher is fed.\<close>

datatype preauth_hash_state = PreauthUnsupported | PreauthInProgress bytes | PreauthFinished bytes

definition preauth_begin :: preauth_hash_state where
  "preauth_begin = PreauthInProgress (replicate 64 0)"

fun preauth_next :: "(bytes \<Rightarrow> bytes) \<Rightarrow> bytes \<Rightarrow> preauth_hash_state \<Rightarrow> session_error + preauth_hash_state" where
  "preauth_next sha msg (PreauthInProgress h) = Inr (PreauthInProgress (sha (h @ msg)))"
| "preauth_next sha msg PreauthUnsupported = Inr PreauthUnsupported"
| "preauth_next sha msg (PreauthFinished h) = Inl InvalidState"

fun preauth_finish :: "preauth_hash_state \<Rightarrow> session_error + preauth_hash_state" where
  "preauth_finish (PreauthInProgress h) = Inr (PreauthFinished h)"
| "preauth_finish PreauthUnsupported = Inr PreauthUnsupported"
| "preauth_finish (PreauthFinished h) = Inl InvalidState"

section \<open>Configuration and negotiated properties\<close>

datatype encryption_mode = EncAllowed | EncRequired | EncDisabled

datatype signing_policy = PolicyRequired | PolicyWhenRequired

definition policy_required :: "signing_policy \<Rightarrow> bool \<Rightarrow> bool" where
  "policy_required p server_requires \<longleftrightarrow> p = PolicyRequired \<or> server_requires"

record connection_config =
  encryption_mode :: encryption_mode
  signing_policy :: signing_policy
  allow_unsigned_guest_access :: bool
  compression_enabled :: bool

datatype compression_algorithm = CompNone | LZNT1 | LZ77 | LZ77Huffman | PatternV1 | LZ4

record compression_capabilities =
  comp_chained :: bool
  comp_algorithms :: "compression_algorithm list"

record negotiated_properties =
  np_signing_required :: bool
  np_signing_algo :: "signing_algorithm option"
  np_encryption_cipher :: "cipher option"
  np_compression :: "compression_capabilities option"
  np_dialect_rev :: dialect

record connection_info =
  ci_negotiation :: negotiated_properties
  ci_dialect :: dialect
  ci_config :: connection_config
  ci_preauth_hash :: preauth_hash_state

section \<open>Negotiate responses\<close>

text \<open>A negotiate context of a response, as far as the dialect looks at it.\<close>

datatype negotiate_context =
    CtxPreauth "nat list"
  | CtxSigning "signing_algorithm list"
  | CtxEncryption "cipher list"
  | CtxCompression compression_capabilities
  | CtxOther nat

record negotiate_response =
  nr_contexts :: "negotiate_context list option"
  nr_encryption_cap :: bool

fun ctx_preauth :: "negotiate_context \<Rightarrow> nat list option" where
  "ctx_preauth (CtxPreauth hs) = Some hs"
| "ctx_preauth _ = None"

fun ctx_signing :: "negotiate_context \<Rightarrow> signing_algorithm list option" where
  "ctx_signing (CtxSigning as) = Some as"
| "ctx_signing _ = None"

fun ctx_encryption :: "negotiate_context \<Rightarrow> cipher list option" where
  "ctx_encryption (CtxEncryption cs) = Some cs"
| "ctx_encryption _ = None"

fun ctx_compression :: "negotiate_context \<Rightarrow> compression_capabilities option" where
  "ctx_compression (CtxCompression c) = Some c"
| "ctx_compression _ = None"

definition first_ctx :: "(negotiate_context \<Rightarrow> 'a option) \<Rightarrow> negotiate_context list \<Rightarrow> 'a option" where
  "first_ctx f cs = (case List.map_filter f cs of [] \<Rightarrow> None | x # _ \<Rightarrow> Some x)"

text \<open>SHA-512 is hash algorithm 1, the only one supported.\<close>

definition smb311_process ::
  "('s, 'c) crypto \<Rightarrow> negotiate_response \<Rightarrow> connection_config \<Rightarrow> negotiated_properties \<Rightarrow> session_error + negotiated_properties" where
  "smb311_process cr response config np =
     (case nr_contexts response of
        None \<Rightarrow> Inl InvalidMessage
      | Some cs \<Rightarrow>
          let signing = first_ctx ctx_signing cs; ciphers = first_ctx ctx_encryption cs;
              first_cipher = (case ciphers of Some (c # _) \<Rightarrow> Some c | _ \<Rightarrow> None) in
          if length (List.map_filter ctx_preauth cs) \<noteq> 1 then Inl NegotiationFailed
          else if 1 < length (List.map_filter ctx_signing cs) then Inl NegotiationFailed
          else if (case signing of None \<Rightarrow> False | Some as \<Rightarrow> length as \<noteq> 1 \<or> hd as \<notin> set (signing_algos cr)) then Inl NegotiationFailed
          else if first_ctx ctx_preauth cs \<noteq> Some [1] then Inl NegotiationFailed
          else if (case first_cipher of None \<Rightarrow> encryption_mode config = EncRequired | Some c \<Rightarrow> c \<notin> set (encrypting_algos cr))
          then Inl NegotiationFailed
          else Inr (np\<lparr>np_signing_algo := map_option hd signing, np_encryption_cipher := first_cipher,
                       np_compression := first_ctx ctx_compression cs\<rparr>))"

definition process_negotiate_request ::
  "('s, 'c) crypto \<Rightarrow> dialect \<Rightarrow> negotiate_response \<Rightarrow> connection_config \<Rightarrow> negotiated_properties \<Rightarrow>
     session_error + negotiated_properties" where
  "process_negotiate_request cr d response config np =
     (if d = Smb0311 then smb311_process cr response config np
      else if nr_contexts response \<noteq> None then Inl InvalidMessage
      else if is_smb3 d \<and> encryption_mode config = EncRequired \<and> \<not> nr_encryption_cap response then Inl NegotiationFailed
      else Inr np)"

end
