(* ===== verification/Session_State.thy ===== *)
theory Session_State
  imports Dialects
begin

text \<open>
  The state of a session (session/state.rs): key derivation for the signer and the ciphers, the
  state machine Initial, SettingUp, Ready, Invalid, and what each state says about signing and
  encryption. Signers and ciphers are opaque values made by the cryptographic libraries.
\<close>

section \<open>Keys\<close>

record 'c session_algos =
  encryptor :: "'c option"
  decryptor :: "'c option"

definition preauth_hash_or :: "bytes option \<Rightarrow> bytes \<Rightarrow> bytes" where
  "preauth_hash_or h other = (case h of Some v \<Rightarrow> v | None \<Rightarrow> other)"

definition smb3xx_make_cipher_pair ::
  "('s, 'c) crypto \<Rightarrow> bytes \<Rightarrow> connection_info \<Rightarrow> bytes option \<Rightarrow> session_error + ('c \<times> 'c) option" where
  "smb3xx_make_cipher_pair cr key info h =
     (if \<not> supports_encryption (ci_dialect info) then Inr None
      else if encryption_mode (ci_config info) = EncDisabled then Inr None
      else (case (if np_dialect_rev (ci_negotiation info) = Smb0311 then np_encryption_cipher (ci_negotiation info)
                  else Some Aes128Ccm) of
          None \<Rightarrow> Inr None
        | Some cipher \<Rightarrow>
            if cipher \<notin> set (encrypting_algos cr) then Inr None
            else (case c2s_encrypt_key_derive_label (ci_dialect info) of
                Inl e \<Rightarrow> Inl e
              | Inr c2s \<Rightarrow>
                  (case s2c_encrypt_key_derive_label (ci_dialect info) of
                     Inl e \<Rightarrow> Inl e
                   | Inr s2c \<Rightarrow>
                       (case (make_encrypting_algo cr cipher (kbkdf cr key c2s (preauth_hash_or h (bytes_of ''ServerIn '' @ [0]))),
                              make_encrypting_algo cr cipher (kbkdf cr key s2c (preauth_hash_or h (bytes_of ''ServerOut'' @ [0])))) of
                          (Some enc, Some dec) \<Rightarrow> Inr (Some (enc, dec))
                        | _ \<Rightarrow> Inl CryptoFailed)))))"

definition smb3xx_make_ciphers ::
  "('s, 'c) crypto \<Rightarrow> bytes \<Rightarrow> connection_info \<Rightarrow> bytes option \<Rightarrow> session_error + 'c session_algos" where
  "smb3xx_make_ciphers cr key info h =
     (case smb3xx_make_cipher_pair cr key info h of
        Inl e \<Rightarrow> Inl e
      | Inr (Some (enc, dec)) \<Rightarrow> Inr \<lparr>encryptor = Some enc, decryptor = Some dec\<rparr>
      | Inr None \<Rightarrow>
          if encryption_mode (ci_config info) = EncRequired then Inl InvalidMessage
          else Inr \<lparr>encryptor = None, decryptor = None\<rparr>)"

definition new_session_algos ::
  "('s, 'c) crypto \<Rightarrow> bytes \<Rightarrow> bytes option \<Rightarrow> connection_info \<Rightarrow> session_error + 'c session_algos" where
  "new_session_algos cr key h info =
     (if (np_dialect_rev (ci_negotiation info) = Smb0311) \<noteq> (h \<noteq> None) then Inl InvalidMessage
      else if is_smb3 (np_dialect_rev (ci_negotiation info)) then smb3xx_make_ciphers cr key info h
      else Inr \<lparr>encryptor = None, decryptor = None\<rparr>)"

definition smb3xx_make_signer ::
  "('s, 'c) crypto \<Rightarrow> bytes \<Rightarrow> signing_algorithm option \<Rightarrow> dialect \<Rightarrow> bytes option \<Rightarrow> session_error + 's" where
  "smb3xx_make_signer cr key algo d h =
     (case get_signing_derive_label d of
        Inl e \<Rightarrow> Inl e
      | Inr label \<Rightarrow>
          (case make_signing_algo cr (case algo of Some a \<Rightarrow> a | None \<Rightarrow> default_signing_algo d)
                  (kbkdf cr key label (preauth_hash_or h (bytes_of ''SmbSign'' @ [0]))) of
             None \<Rightarrow> Inl CryptoFailed
           | Some s \<Rightarrow> Inr s))"

definition smb2_make_signer :: "('s, 'c) crypto \<Rightarrow> bytes \<Rightarrow> session_error + 's" where
  "smb2_make_signer cr key = (case make_signing_algo cr HmacSha256 key of None \<Rightarrow> Inl CryptoFailed | Some s \<Rightarrow> Inr s)"

section \<open>Channels\<close>

record 's channel_info =
  chan_id :: u32
  chan_signer_algo :: 's
  chan_valid :: bool
  chan_binding :: bool

definition channel_new ::
  "('s, 'c) crypto \<Rightarrow> u32 \<Rightarrow> bytes \<Rightarrow> bytes option \<Rightarrow> connection_info \<Rightarrow> session_error + 's channel_info" where
  "channel_new cr cid key h info =
     (case (if is_smb3 (np_dialect_rev (ci_negotiation info))
            then smb3xx_make_signer cr key (np_signing_algo (ci_negotiation info)) (ci_dialect info) h
            else smb2_make_signer cr key) of
        Inl e \<Rightarrow> Inl e
      | Inr s \<Rightarrow> Inr \<lparr>chan_id = cid, chan_signer_algo = s, chan_valid = True, chan_binding = False\<rparr>)"

definition channel_signer :: "'s channel_info \<Rightarrow> session_error + 's" where
  "channel_signer c = (if chan_valid c then Inr (chan_signer_algo c) else Inl InvalidState)"

section \<open>The state machine\<close>

record session_flags =
  is_guest :: bool
  is_null_session :: bool
  encrypt_data :: bool

definition is_guest_or_null_session :: "session_flags \<Rightarrow> bool" where
  "is_guest_or_null_session f \<longleftrightarrow> is_guest f \<or> is_null_session f"

datatype 'c session_info_state =
    SessionInitial
  | SettingUp "'c session_algos" (su_allow_unsigned: bool)
  | SessionReady "'c session_algos" (ready_flags: session_flags) (ready_force_encryption: bool) (ready_signing_required: bool)
  | SessionInvalid

record 'c session_info =
  si_session_id :: u64
  si_state :: "'c session_info_state"

definition session_new :: "u64 \<Rightarrow> 'c session_info" where
  "session_new i = \<lparr>si_session_id = i, si_state = SessionInitial\<rparr>"

definition is_initial :: "'c session_info \<Rightarrow> bool" where
  "is_initial s = (case si_state s of SessionInitial \<Rightarrow> True | _ \<Rightarrow> False)"

definition is_setting_up :: "'c session_info \<Rightarrow> bool" where
  "is_setting_up s = (case si_state s of SettingUp _ _ \<Rightarrow> True | _ \<Rightarrow> False)"

definition is_ready :: "'c session_info \<Rightarrow> bool" where
  "is_ready s = (case si_state s of SessionReady _ _ _ _ \<Rightarrow> True | _ \<Rightarrow> False)"

definition is_invalid :: "'c session_info \<Rightarrow> bool" where
  "is_invalid s = (case si_state s of SessionInvalid \<Rightarrow> True | _ \<Rightarrow> False)"

definition session_setup ::
  "('s, 'c) crypto \<Rightarrow> bytes \<Rightarrow> bytes option \<Rightarrow> connection_info \<Rightarrow> 'c session_info \<Rightarrow> session_error + 'c session_info" where
  "session_setup cr key h info s =
     (if \<not> is_initial s then Inl InvalidState
      else (case new_session_algos cr key h info of
              Inl e \<Rightarrow> Inl e
            | Inr algos \<Rightarrow> Inr (s\<lparr>si_state := SettingUp algos (allow_unsigned_guest_access (ci_config info))\<rparr>)))"

definition session_ready :: "session_flags \<Rightarrow> connection_info \<Rightarrow> 'c session_info \<Rightarrow> session_error + 'c session_info" where
  "session_ready flags info s =
     (case si_state s of
        SettingUp algos _ \<Rightarrow>
          if encryption_mode (ci_config info) = EncRequired \<and> (encryptor algos = None \<or> decryptor algos = None)
          then Inl InvalidMessage
          else if is_guest_or_null_session flags \<and>
            (\<not> allow_unsigned_guest_access (ci_config info) \<or> np_signing_required (ci_negotiation info))
          then Inl InvalidMessage
          else Inr (s\<lparr>si_state := SessionReady algos flags (encryption_mode (ci_config info) = EncRequired)
                 (policy_required (signing_policy (ci_config info)) (np_signing_required (ci_negotiation info)))\<rparr>)
      | _ \<Rightarrow> Inl InvalidState)"

definition invalidate :: "'c session_info \<Rightarrow> 'c session_info" where
  "invalidate s = s\<lparr>si_state := SessionInvalid\<rparr>"

definition should_encrypt :: "'c session_info \<Rightarrow> session_error + bool" where
  "should_encrypt s =
     (case si_state s of
        SessionReady _ flags force _ \<Rightarrow> Inr (encrypt_data flags \<or> force)
      | _ \<Rightarrow> Inl InvalidState)"

definition allow_unsigned :: "'c session_info \<Rightarrow> session_error + bool" where
  "allow_unsigned s =
     (case si_state s of
        SessionReady _ flags _ signing \<Rightarrow> Inr (is_guest_or_null_session flags \<or> \<not> signing)
      | SettingUp _ allow \<Rightarrow> Inr allow
      | _ \<Rightarrow> Inl InvalidState)"

definition is_guest_or_anonymous :: "'c session_info \<Rightarrow> session_error + bool" where
  "is_guest_or_anonymous s =
     (case si_state s of SessionReady _ flags _ _ \<Rightarrow> Inr (is_guest_or_null_session flags) | _ \<Rightarrow> Inl InvalidState)"

definition session_encryptor :: "'c session_info \<Rightarrow> session_error + 'c option" where
  "session_encryptor s = (case si_state s of SessionReady algos _ _ _ \<Rightarrow> Inr (encryptor algos) | _ \<Rightarrow> Inl InvalidState)"

definition session_decryptor :: "'c session_info \<Rightarrow> session_error + 'c option" where
  "session_decryptor s = (case si_state s of SessionReady algos _ _ _ \<Rightarrow> Inr (decryptor algos) | _ \<Rightarrow> Inl InvalidState)"

text \<open>The calls a session sees in its life; a refused call leaves it as it was.\<close>

datatype session_call = CallSetup bytes "bytes option" | CallReady session_flags | CallInvalidate

fun session_step :: "('s, 'c) crypto \<Rightarrow> connection_info \<Rightarrow> 'c session_info \<Rightarrow> session_call \<Rightarrow> 'c session_info" where
  "session_step cr info s (CallSetup key h) = (case session_setup cr key h info s of Inr s' \<Rightarrow> s' | Inl _ \<Rightarrow> s)"
| "session_step cr info s (CallReady flags) = (case session_ready flags info s of Inr s' \<Rightarrow> s' | Inl _ \<Rightarrow> s)"
| "session_step cr info s CallInvalidate = invalidate s"

definition session_life :: "('s, 'c) crypto \<Rightarrow> connection_info \<Rightarrow> u64 \<Rightarrow> session_call list \<Rightarrow> 'c session_info" where
  "session_life cr info i calls = foldl (session_step cr info) (session_new i) calls"

section \<open>The policy is never relaxed\<close>

text \<open>
  Algorithms come in pairs, exist only where the dialect and the configuration admit them, and
  a ready session has what its policy calls for.
\<close>

definition algos_typed :: "connection_info \<Rightarrow> 'c session_algos \<Rightarrow> bool" where
  "algos_typed info algos \<longleftrightarrow>
     (encryptor algos = None \<longleftrightarrow> decryptor algos = None) \<and>
     (encryptor algos \<noteq> None \<longrightarrow>
        is_smb3 (np_dialect_rev (ci_negotiation info)) \<and> encryption_mode (ci_config info) \<noteq> EncDisabled)"

fun session_typed :: "connection_info \<Rightarrow> 'c session_info_state \<Rightarrow> bool" where
  "session_typed info SessionInitial = True"
| "session_typed info (SettingUp algos allow) \<longleftrightarrow>
     algos_typed info algos \<and> allow = allow_unsigned_guest_access (ci_config info)"
| "session_typed info (SessionReady algos flags force signing) \<longleftrightarrow>
     algos_typed info algos \<and>
     force = (encryption_mode (ci_config info) = EncRequired) \<and> (force \<longrightarrow> encryptor algos \<noteq> None) \<and>
     signing = policy_required (signing_policy (ci_config info)) (np_signing_required (ci_negotiation info)) \<and>
     (is_guest_or_null_session flags \<longrightarrow>
        allow_unsigned_guest_access (ci_config info) \<and> \<not> np_signing_required (ci_negotiation info))"
| "session_typed info SessionInvalid = True"

lemma new_session_algos_typed:
  "new_session_algos cr key h info = Inr algos \<Longrightarrow> algos_typed info algos"
  by (auto simp: new_session_algos_def smb3xx_make_ciphers_def smb3xx_make_cipher_pair_def algos_typed_def
    split: if_splits sum.splits option.splits prod.splits)

lemma session_step_typed: "session_typed info (si_state s) \<Longrightarrow> session_typed info (si_state (session_step cr info s call))"
proof (cases call)
  case (CallSetup key h)
  then show "session_typed info (si_state s) \<Longrightarrow> ?thesis"
    by (auto simp: session_setup_def new_session_algos_typed split: sum.splits)
next
  case (CallReady flags)
  then show "session_typed info (si_state s) \<Longrightarrow> ?thesis"
    by (auto simp: session_ready_def algos_typed_def split: sum.splits session_info_state.splits if_splits)
qed (simp add: invalidate_def)

lemma session_life_typed: "session_typed info (si_state (session_life cr info i calls))"
  unfolding session_life_def
  by (induction calls rule: rev_induct) (simp_all add: session_new_def session_step_typed)

lemma session_step_id [simp]: "si_session_id (session_step cr info s call) = si_session_id s"
  by (cases call)
    (auto simp: session_setup_def session_ready_def invalidate_def split: sum.splits session_info_state.splits if_splits)

lemma session_life_id [simp]: "si_session_id (session_life cr info i calls) = i"
  unfolding session_life_def
  by (induction calls rule: rev_induct) (simp_all add: session_new_def)

end
