(* ===== verification/Wire_Out.thy ===== *)
theory Wire_Out
  imports Wire_Header
begin

text \<open>
  The builder of outgoing frames (smb-msg/wire_out.rs): one or more requests encoded into one
  metadata arena, payloads attached by reference, offsets sealed, signatures patched in member
  order, and the immutable message handed on. A request is its header and the bytes its content
  encodes to. Lengths are naturals, with the overflow checks of the code written out.
\<close>

section \<open>Model\<close>

datatype build_error =
    NoRequests
  | ZeroSegmentLimit
  | CodecFailed
  | MetadataOverflow
  | MemberTooLong
  | HeaderEscaped
  | InvalidTransition
  | SegmentLimitExceeded
  | MemberOutOfBounds
  | RangeEscaped
  | MemberTooShort
  | PatchOrder
  | UnsignedMembers
  | PartiallySigned

datatype build_state = Encoded | OffsetsFinalized | Protected

record plain_request =
  req_header :: header
  req_body :: bytes

record wire_builder =
  metadata :: bytes
  payloads :: "bytes list"
  member_ranges :: "(nat \<times> nat) list"
  segment_limit :: nat
  build_state :: build_state
  patched_members :: nat

record wire_message =
  wm_metadata :: bytes
  wm_payloads :: "bytes list"
  wm_ranges :: "(nat \<times> nat) list"
  wm_total_len :: nat

definition usize_add :: "nat \<Rightarrow> nat \<Rightarrow> nat option" where
  "usize_add a b = (if a + b < 2 ^ 64 then Some (a + b) else None)"

definition request_write :: "plain_request \<Rightarrow> bytes option" where
  "request_write r =
     (if flag_server_to_redir (hd_flags (req_header r)) then None
      else map_option (\<lambda>bs. bs @ req_body r) (header_write (req_header r)))"

definition set_next_command :: "nat \<Rightarrow> plain_request \<Rightarrow> plain_request" where
  "set_next_command n r = r\<lparr>req_header := (req_header r)\<lparr>hd_next_command := of_nat n\<rparr>\<rparr>"

definition patch_header :: "bytes \<Rightarrow> nat \<Rightarrow> header \<Rightarrow> build_error + bytes" where
  "patch_header m start h =
     (if usize_add start 64 = None \<or> length m < start + 64 then Inl HeaderEscaped
      else (case header_write h of
              None \<Rightarrow> Inl CodecFailed
            | Some bs \<Rightarrow> Inr (take start m @ bs @ drop (start + length bs) m)))"

definition pad_member :: "bytes \<Rightarrow> nat \<Rightarrow> plain_request \<Rightarrow> build_error + bytes \<times> plain_request" where
  "pad_member m start r =
     (case usize_add (length m) 7 of
        None \<Rightarrow> Inl MetadataOverflow
      | Some e \<Rightarrow>
          let aligned = 8 * (e div 8); m = m @ replicate (aligned - length m) 0 in
          if 2 ^ 32 \<le> aligned - start then Inl MemberTooLong
          else let r = set_next_command (aligned - start) r in
            (case patch_header m start (req_header r) of Inl err \<Rightarrow> Inl err | Inr m \<Rightarrow> Inr (m, r)))"

text \<open>The loop over the requests, which also updates their headers; the last is not padded.\<close>

fun encode_members ::
  "plain_request list \<Rightarrow> bytes \<Rightarrow> build_error + bytes \<times> (nat \<times> nat) list \<times> plain_request list" where
  "encode_members [] m = Inr (m, [], [])"
| "encode_members (r # rs) m =
     (let start = length m; r = set_next_command 0 r in
      (case request_write r of
         None \<Rightarrow> Inl CodecFailed
       | Some bs \<Rightarrow>
           (case (if rs = [] then Inr (m @ bs, r) else pad_member (m @ bs) start r) of
              Inl err \<Rightarrow> Inl err
            | Inr (m, r) \<Rightarrow>
                (case encode_members rs m of
                   Inl err \<Rightarrow> Inl err
                 | Inr (m', ranges, rs') \<Rightarrow> Inr (m', (start, length m) # ranges, r # rs')))))"

definition wire_encode :: "plain_request list \<Rightarrow> nat \<Rightarrow> build_error + wire_builder \<times> plain_request list" where
  "wire_encode requests limit =
     (if requests = [] then Inl NoRequests
      else if limit = 0 then Inl ZeroSegmentLimit
      else (case encode_members requests [] of
              Inl err \<Rightarrow> Inl err
            | Inr (m, ranges, requests') \<Rightarrow>
                Inr (\<lparr>metadata = m, payloads = [], member_ranges = (if 1 < length requests then ranges else []),
                  segment_limit = limit, build_state = Encoded, patched_members = 0\<rparr>, requests')))"

definition attach_payload :: "bytes \<Rightarrow> wire_builder \<Rightarrow> build_error + wire_builder" where
  "attach_payload payload b =
     (if build_state b \<noteq> Encoded then Inl InvalidTransition
      else if payload = [] then Inr b
      else if segment_limit b \<le> 1 + length (payloads b) then Inl SegmentLimitExceeded
      else Inr (b\<lparr>payloads := payloads b @ [payload]\<rparr>))"

definition finalize_offsets :: "wire_builder \<Rightarrow> build_error + wire_builder" where
  "finalize_offsets b =
     (if build_state b \<noteq> Encoded then Inl InvalidTransition else Inr (b\<lparr>build_state := OffsetsFinalized\<rparr>))"

definition member_count :: "wire_builder \<Rightarrow> nat" where
  "member_count b = max (length (member_ranges b)) 1"

definition builder_member_range :: "nat \<Rightarrow> wire_builder \<Rightarrow> build_error + nat \<times> nat" where
  "builder_member_range i b =
     (if member_ranges b = [] then (if i = 0 then Inr (0, length (metadata b)) else Inl MemberOutOfBounds)
      else if i < length (member_ranges b) then Inr (member_ranges b ! i)
      else Inl MemberOutOfBounds)"

text \<open>\<open>slice::get\<close> of a range.\<close>

definition get_range :: "nat \<times> nat \<Rightarrow> bytes \<Rightarrow> bytes option" where
  "get_range r bs = (if fst r \<le> snd r \<and> snd r \<le> length bs then Some (take (snd r - fst r) (drop (fst r) bs)) else None)"

definition signing_segments :: "nat \<Rightarrow> wire_builder \<Rightarrow> build_error + bytes list" where
  "signing_segments i b =
     (if build_state b \<noteq> OffsetsFinalized then Inl InvalidTransition
      else (case builder_member_range i b of
              Inl err \<Rightarrow> Inl err
            | Inr r \<Rightarrow>
                (case get_range r (metadata b) of
                   None \<Rightarrow> Inl RangeEscaped
                 | Some m \<Rightarrow> Inr (m # (if member_count b = 1 then payloads b else [])))))"

definition owned_signing_segments :: "nat \<Rightarrow> wire_builder \<Rightarrow> build_error + bytes list" where
  "owned_signing_segments i b =
     (case signing_segments i b of
        Inl err \<Rightarrow> Inl err
      | Inr segments \<Rightarrow>
          (case segments of
             [] \<Rightarrow> Inl RangeEscaped
           | m # ps \<Rightarrow>
               if length m < 64 then Inl MemberTooShort
               else Inr ((take 48 m @ replicate 16 0 @ drop 64 m) # ps)))"

definition patch_signature :: "nat \<Rightarrow> u128 \<Rightarrow> wire_builder \<Rightarrow> build_error + wire_builder" where
  "patch_signature i signature b =
     (if build_state b \<noteq> OffsetsFinalized then Inl InvalidTransition
      else if i \<noteq> patched_members b then Inl PatchOrder
      else (case builder_member_range i b of
              Inl err \<Rightarrow> Inl err
            | Inr (start, _) \<Rightarrow>
                if length (metadata b) < start + 64 then Inl RangeEscaped
                else Inr (b\<lparr>metadata := take (start + 48) (metadata b) @ le_bytes signature @ drop (start + 64) (metadata b),
                            patched_members := patched_members b + 1\<rparr>)))"

definition finish_signed :: "wire_builder \<Rightarrow> build_error + wire_builder" where
  "finish_signed b =
     (if build_state b \<noteq> OffsetsFinalized then Inl InvalidTransition
      else if patched_members b \<noteq> member_count b then Inl UnsignedMembers
      else Inr (b\<lparr>build_state := Protected\<rparr>))"

definition finish_unsigned :: "wire_builder \<Rightarrow> build_error + wire_builder" where
  "finish_unsigned b =
     (if build_state b \<noteq> OffsetsFinalized then Inl InvalidTransition
      else if patched_members b \<noteq> 0 then Inl PartiallySigned
      else Inr (b\<lparr>build_state := Protected\<rparr>))"

definition seal :: "wire_builder \<Rightarrow> build_error + wire_message" where
  "seal b =
     (if build_state b \<noteq> Protected then Inl InvalidTransition
      else (case foldl (\<lambda>sum p. Option.bind sum (\<lambda>t. usize_add t (length p))) (Some (length (metadata b))) (payloads b) of
              None \<Rightarrow> Inl MetadataOverflow
            | Some len \<Rightarrow> Inr \<lparr>wm_metadata = metadata b, wm_payloads = payloads b, wm_ranges = member_ranges b,
                wm_total_len = len\<rparr>))"

definition into_segments :: "wire_message \<Rightarrow> bytes list" where
  "into_segments m = wm_metadata m # wm_payloads m"

definition into_contiguous :: "nat \<Rightarrow> wire_message \<Rightarrow> build_error + bytes" where
  "into_contiguous prefix m =
     (case usize_add prefix (wm_total_len m) of
        None \<Rightarrow> Inl MetadataOverflow
      | Some _ \<Rightarrow> Inr (replicate prefix 0 @ wm_metadata m @ concat (wm_payloads m)))"

section \<open>The layout of an encoded frame\<close>

text \<open>
  What the builder promises: the members one after the other, each as long as its
  \<open>NextCommand\<close> says, the last one unpadded.
\<close>

definition padded_len :: "plain_request \<Rightarrow> nat" where
  "padded_len r = 8 * ((64 + length (req_body r) + 7) div 8)"

fun laid_out :: "plain_request list \<Rightarrow> plain_request list" where
  "laid_out [] = []"
| "laid_out [r] = [set_next_command 0 r]"
| "laid_out (r # rs) = set_next_command (padded_len r) r # laid_out rs"

definition member_bytes :: "plain_request \<Rightarrow> bytes" where
  "member_bytes r =
     the (header_write (req_header r)) @ req_body r @
     replicate (unat (hd_next_command (req_header r)) - (64 + length (req_body r))) 0"

fun offsets :: "nat \<Rightarrow> bytes list \<Rightarrow> (nat \<times> nat) list" where
  "offsets s [] = []"
| "offsets s (m # ms) = (s, s + length m) # offsets (s + length m) ms"

lemma length_offsets [simp]: "length (offsets s ms) = length ms"
  by (induction ms arbitrary: s) simp_all

lemma offsets_nth:
  "i < length ms \<Longrightarrow> offsets s ms ! i = (s + length (concat (take i ms)), s + length (concat (take (Suc i) ms)))"
  by (induction ms arbitrary: s i) (auto simp: less_Suc_eq_0_disj)

abbreviation request_wf :: "plain_request \<Rightarrow> bool" where
  "request_wf r \<equiv> header_wf (req_header r)"

lemma header_write_Some: "header_wf h \<Longrightarrow> \<exists>bs. header_write h = Some bs \<and> length bs = 64"
  by (cases "header_write h") (auto dest: header_write_length
    simp: header_write_def header_wf_def header_magic_def optional_def split: if_splits)

lemma set_next_command_wf [simp]: "header_wf (req_header (set_next_command n r)) = header_wf (req_header r)"
  by (simp add: set_next_command_def header_wf_def)

lemma set_next_command_body [simp]: "req_body (set_next_command n r) = req_body r"
  by (simp add: set_next_command_def)

lemma set_next_command_twice [simp]: "set_next_command n (set_next_command k r) = set_next_command n r"
  by (simp add: set_next_command_def)

lemma padded_len_bounds: "64 + length (req_body r) \<le> padded_len r" "8 dvd padded_len r" "padded_len r \<noteq> 0"
  by (simp_all add: padded_len_def)

lemma length_member_bytes:
  assumes "request_wf r"
  shows "length (member_bytes r) = max (64 + length (req_body r)) (unat (hd_next_command (req_header r)))"
  using header_write_Some [OF assms] by (auto simp: member_bytes_def)

lemma align_up: "8 dvd n \<Longrightarrow> 8 * ((n + k + 7) div 8) = n + 8 * ((k + 7) div 8)" for n k :: nat
proof -
  assume "8 dvd n"
  then obtain j where n: "n = 8 * j" by (elim dvdE)
  have "(8 * j + (k + 7)) div 8 = j + (k + 7) div 8" by (rule div_mult_self4 [THEN trans]) simp_all
  then show ?thesis by (simp only: n add.assoc distrib_left)
qed

lemma pad_member_layout:
  assumes wf: "request_wf r" and bs: "request_write r = Some bs" and aligned: "8 dvd length m"
    and pad: "pad_member (m @ bs) (length m) r = Inr (m', r')"
  shows "r' = set_next_command (padded_len r) r \<and> m' = m @ member_bytes r' \<and> padded_len r < 2 ^ 32 \<and>
    length (member_bytes r') = padded_len r"
proof -
  from wf bs obtain hb where hb: "bs = hb @ req_body r" "length hb = 64"
    using header_write_Some [OF wf] by (auto simp: request_write_def split: if_splits)
  let ?r = "set_next_command (padded_len r) r"
  obtain hb' where hb': "header_write (req_header ?r) = Some hb'" "length hb' = 64"
    using header_write_Some [of "req_header ?r"] wf by auto
  have "padded_len r = 8 * ((length bs + 7) div 8)" by (simp add: hb padded_len_def)
  then have e: "8 * ((length m + length bs + 7) div 8) = length m + padded_len r"
    by (simp only: align_up [OF aligned])
  from pad have fits: "padded_len r < 2 ^ 32" and r': "r' = ?r"
    and m': "Inr m' = patch_header (m @ bs @ replicate (length m + padded_len r - (length m + length bs)) 0) (length m) (req_header ?r)"
    by (auto simp: pad_member_def usize_add_def Let_def e split: if_splits sum.splits)
  have nc: "unat (of_nat (padded_len r) :: u32) = padded_len r"
    using fits by (simp add: unat_of_nat)
  have bytes: "member_bytes ?r = hb' @ req_body r @ replicate (padded_len r - (64 + length (req_body r))) 0"
    unfolding member_bytes_def hb' by (simp add: set_next_command_def nc)
  from m' have "m' = m @ hb' @ drop 64 (bs @ replicate (padded_len r - length bs) 0)"
    unfolding patch_header_def hb' by (simp add: hb' split: if_splits)
  with padded_len_bounds(1) [of r] fits show ?thesis by (simp add: r' bytes hb hb')
qed

lemma laid_out_Cons: "rs \<noteq> [] \<Longrightarrow> laid_out (r # rs) = set_next_command (padded_len r) r # laid_out rs"
  by (cases rs) simp_all

lemma unpadded_member_bytes:
  "request_write (set_next_command 0 r) = Some bs \<Longrightarrow> member_bytes (set_next_command 0 r) = bs"
  by (auto simp: request_write_def member_bytes_def set_next_command_def split: if_splits)

lemma encode_members_layout:
  assumes "\<forall>r \<in> set rs. request_wf r" and "8 dvd length m" and "encode_members rs m = Inr (m', ranges, rs')"
  shows "rs' = laid_out rs \<and> m' = m @ concat (map member_bytes rs') \<and>
    ranges = offsets (length m) (map member_bytes rs') \<and> (\<forall>r \<in> set (butlast rs). padded_len r < 2 ^ 32)"
  using assms
proof (induction rs arbitrary: m m' ranges rs')
  case (Cons r rs)
  let ?r = "set_next_command 0 r"
  from Cons.prems(3) obtain bs where bs: "request_write ?r = Some bs"
    by (auto simp: Let_def split: option.splits)
  show ?case
  proof (cases "rs = []")
    case True
    with Cons.prems(3) bs show ?thesis by (auto simp: Let_def unpadded_member_bytes [OF bs])
  next
    case False
    with Cons.prems(3) bs obtain m1 r1 ranges1 rs1 where pad: "pad_member (m @ bs) (length m) ?r = Inr (m1, r1)"
      and rest: "encode_members rs m1 = Inr (m', ranges1, rs1)"
      and out: "rs' = r1 # rs1" "ranges = (length m, length m1) # ranges1"
      by (auto simp: Let_def split: sum.splits prod.splits)
    have padded: "padded_len ?r = padded_len r" by (simp add: padded_len_def)
    from pad_member_layout [OF _ bs Cons.prems(2) pad] Cons.prems(1)
    have m1: "m1 = m @ member_bytes r1" "length (member_bytes r1) = padded_len r" "r1 = set_next_command (padded_len r) r"
      and fits: "padded_len r < 2 ^ 32"
      by (auto simp: padded)
    have "8 dvd length m1" using Cons.prems(2) padded_len_bounds(2) [of r] by (simp add: m1(1) m1(2))
    from Cons.IH [OF _ this rest] Cons.prems(1) show ?thesis
      using False fits by (auto simp: out m1 laid_out_Cons)
  qed
qed simp

text \<open>A builder holds the members \<open>rs\<close>: their bytes in order, and a range for each.\<close>

definition holds_members :: "wire_builder \<Rightarrow> plain_request list \<Rightarrow> bool" where
  "holds_members b rs \<longleftrightarrow>
     rs \<noteq> [] \<and> (\<forall>r \<in> set rs. request_wf r) \<and> metadata b = concat (map member_bytes rs) \<and>
     member_count b = length rs \<and>
     (\<forall>i < length rs. builder_member_range i b =
        Inr (length (concat (take i (map member_bytes rs))), length (concat (take (Suc i) (map member_bytes rs)))))"

lemma laid_out_wf: "\<forall>r \<in> set rs. request_wf r \<Longrightarrow> \<forall>r \<in> set (laid_out rs). request_wf r"
  by (induction rs rule: laid_out.induct) auto

lemma length_laid_out [simp]: "length (laid_out rs) = length rs"
  by (induction rs rule: laid_out.induct) auto

lemma wire_encode_layout:
  assumes wf: "\<forall>r \<in> set rs. request_wf r" and enc: "wire_encode rs limit = Inr (b, rs')"
  shows "holds_members b rs' \<and> rs' = laid_out rs \<and> build_state b = Encoded \<and> payloads b = [] \<and> patched_members b = 0 \<and>
    (\<forall>r \<in> set (butlast rs). padded_len r < 2 ^ 32)"
proof -
  from enc obtain m ranges where ne: "rs \<noteq> []" and members: "encode_members rs [] = Inr (m, ranges, rs')"
    and b: "b = \<lparr>metadata = m, payloads = [], member_ranges = (if 1 < length rs then ranges else []),
      segment_limit = limit, build_state = Encoded, patched_members = 0\<rparr>"
    by (auto simp: wire_encode_def split: if_splits sum.splits)
  from encode_members_layout [OF wf _ members]
  have lay: "rs' = laid_out rs" "m = concat (map member_bytes rs')" "ranges = offsets 0 (map member_bytes rs')"
    and fits: "\<forall>r \<in> set (butlast rs). padded_len r < 2 ^ 32" by auto
  have len: "length rs' = length rs" by (simp add: lay)
  have "member_count b = length rs'"
    using ne by (cases rs) (auto simp: b member_count_def lay)
  moreover have "builder_member_range i b =
      Inr (length (concat (take i (map member_bytes rs'))), length (concat (take (Suc i) (map member_bytes rs'))))"
    if "i < length rs'" for i
  proof (cases "1 < length rs")
    case True
    then have "ranges \<noteq> []" by (cases rs rule: laid_out.cases) (auto simp: lay)
    with True that show ?thesis
      by (simp add: builder_member_range_def b lay(3) offsets_nth)
  next
    case False
    with that len have "i = 0" "length rs' = 1" by auto
    with False show ?thesis by (auto simp: builder_member_range_def b lay(2) length_Suc_conv)
  qed
  moreover have "rs' \<noteq> []" using ne len by (cases rs) auto
  moreover have "\<forall>r \<in> set rs'. request_wf r" using laid_out_wf [OF wf] by (simp add: lay(1))
  ultimately show ?thesis unfolding holds_members_def using lay(1,2) b fits by simp
qed

lemma laid_out_nth:
  "i < length rs \<Longrightarrow> laid_out rs ! i = set_next_command (if Suc i = length rs then 0 else padded_len (rs ! i)) (rs ! i)"
proof (induction rs arbitrary: i)
  case (Cons r rs)
  show ?case
  proof (cases "rs = []")
    case False
    then show ?thesis using Cons by (cases i) (simp_all add: laid_out_Cons)
  qed (use Cons.prems in simp)
qed simp

lemma laid_out_length:
  assumes wf: "request_wf (rs ! i)" and i: "Suc i < length rs" and fits: "\<forall>r \<in> set (butlast rs). padded_len r < 2 ^ 32"
  shows "unat (hd_next_command (req_header (laid_out rs ! i))) = length (member_bytes (laid_out rs ! i))"
proof -
  have "rs ! i \<in> set (butlast rs)" using i by (auto simp: in_set_conv_nth nth_butlast intro!: exI [of _ i])
  then have "unat (of_nat (padded_len (rs ! i)) :: u32) = padded_len (rs ! i)" using fits by (simp add: unat_of_nat)
  moreover have "laid_out rs ! i = set_next_command (padded_len (rs ! i)) (rs ! i)" using i by (simp add: laid_out_nth)
  ultimately show ?thesis
    using wf padded_len_bounds(1) [of "rs ! i"] length_member_bytes [of "laid_out rs ! i"]
    by (simp add: set_next_command_def header_wf_def max_def)
qed

section \<open>Signatures change only the signature field\<close>

definition with_signature :: "u128 \<Rightarrow> plain_request \<Rightarrow> plain_request" where
  "with_signature s r = r\<lparr>req_header := (req_header r)\<lparr>hd_signature := s\<rparr>\<rparr>"

lemma header_wf_signature [simp]: "header_wf (h\<lparr>hd_signature := s\<rparr>) = header_wf h"
  by (simp add: header_wf_def)

lemma with_signature_simps [simp]:
  "req_body (with_signature s r) = req_body r"
  "req_header (with_signature s r) = (req_header r)\<lparr>hd_signature := s\<rparr>"
  by (simp_all add: with_signature_def)

lemma header_write_signature:
  assumes wf: "header_wf h" and bs: "header_write h = Some bs"
  shows "header_write (h\<lparr>hd_signature := s\<rparr>) = Some (take 48 bs @ le_bytes s)"
proof (cases "flag_async_command (hd_flags h)")
  case True
  with wf obtain a where "hd_tree_id h = None" "hd_async_id h = Some a" by (auto simp: header_wf_def)
  with True bs show ?thesis by (auto simp: header_write_def header_magic_def optional_def)
next
  case False
  with wf obtain t where "hd_async_id h = None" "hd_tree_id h = Some t" by (auto simp: header_wf_def)
  with False bs show ?thesis by (auto simp: header_write_def header_magic_def optional_def)
qed

lemma member_bytes_signature:
  assumes wf: "request_wf r"
  shows "member_bytes (with_signature s r) = take 48 (member_bytes r) @ le_bytes s @ drop 64 (member_bytes r)"
proof -
  obtain bs where bs: "header_write (req_header r) = Some bs" "length bs = 64" using header_write_Some [OF wf] by auto
  show ?thesis by (simp add: member_bytes_def header_write_signature [OF wf bs(1)] bs)
qed

lemma member_bytes_long: "request_wf r \<Longrightarrow> 64 \<le> length (member_bytes r)"
  by (simp add: length_member_bytes)

lemma length_concat_take_update:
  "length x = length (xss ! i) \<Longrightarrow> length (concat (take k (xss[i := x]))) = length (concat (take k xss))"
proof (cases "i < length xss")
  case True
  moreover assume "length x = length (xss ! i)"
  ultimately have "map length (xss[i := x]) = map length xss" by (simp add: map_update list_update_same_conv)
  then show ?thesis by (simp add: length_concat take_map [symmetric])
qed (simp add: list_update_beyond)

lemma concat_split_at: "i < length xss \<Longrightarrow> concat xss = concat (take i xss) @ xss ! i @ concat (drop (Suc i) xss)"
  by (subst id_take_nth_drop [of i xss]) simp_all

lemma concat_update: "i < length xss \<Longrightarrow> concat (xss[i := x]) = concat (take i xss) @ x @ concat (drop (Suc i) xss)"
  by (simp add: upd_conv_take_nth_drop)

lemma signing_segments_member:
  assumes "holds_members b rs" and "build_state b = OffsetsFinalized" and "i < length rs"
  shows "signing_segments i b = Inr (member_bytes (rs ! i) # (if length rs = 1 then payloads b else []))"
proof -
  let ?ms = "map member_bytes rs"
  have "metadata b = concat (take i ?ms) @ member_bytes (rs ! i) @ concat (drop (Suc i) ?ms)"
    using assms concat_split_at [of i ?ms] by (simp add: holds_members_def)
  moreover have "length (concat (take (Suc i) ?ms)) = length (concat (take i ?ms)) + length (member_bytes (rs ! i))"
    using assms(3) by (simp add: take_Suc_conv_app_nth)
  moreover have "builder_member_range i b = Inr (length (concat (take i ?ms)), length (concat (take (Suc i) ?ms)))"
    and "member_count b = length rs" using assms by (simp_all add: holds_members_def)
  ultimately show ?thesis using assms(2) by (simp add: signing_segments_def get_range_def)
qed

lemma patch_signature_member:
  assumes holds: "holds_members b rs" and i: "i < length rs" and patch: "patch_signature i s b = Inr b'"
  shows "holds_members b' (rs[i := with_signature s (rs ! i)]) \<and> build_state b' = build_state b \<and>
    payloads b' = payloads b \<and> patched_members b' = Suc i"
proof -
  let ?ms = "map member_bytes rs" and ?m = "member_bytes (rs ! i)" and ?rs = "rs[i := with_signature s (rs ! i)]"
  let ?A = "concat (take i ?ms)" and ?B = "concat (drop (Suc i) ?ms)"
  have wf: "request_wf (rs ! i)" using holds i by (simp add: holds_members_def)
  have meta: "metadata b = ?A @ ?m @ ?B" using holds i concat_split_at [of i ?ms] by (simp add: holds_members_def)
  have new: "map member_bytes ?rs = ?ms[i := take 48 ?m @ le_bytes s @ drop 64 ?m]"
    using wf by (simp add: map_update member_bytes_signature)
  have len: "length (take 48 ?m @ le_bytes s @ drop 64 ?m) = length (?ms ! i)"
    using member_bytes_long [OF wf] i by simp
  from patch holds i have b': "b' = b\<lparr>metadata := take (length ?A + 48) (metadata b) @ le_bytes s @
      drop (length ?A + 64) (metadata b), patched_members := patched_members b + 1\<rparr>" and pos: "i = patched_members b"
    by (auto simp: patch_signature_def holds_members_def split: if_splits)
  have lens: "length (concat (take k (map member_bytes ?rs))) = length (concat (take k ?ms))" for k
    unfolding new by (rule length_concat_take_update [OF len])
  have "metadata b' = concat (map member_bytes ?rs)"
    using member_bytes_long [OF wf] i by (simp add: b' meta new concat_update)
  moreover have "\<forall>r \<in> set ?rs. request_wf r"
    using holds wf by (auto simp: holds_members_def dest!: set_update_subset_insert [THEN subsetD])
  moreover have "builder_member_range k b' = builder_member_range k b" for k
    using member_bytes_long [OF wf] by (simp add: b' meta builder_member_range_def)
  moreover have "member_count b' = member_count b" by (simp add: b' member_count_def)
  ultimately have "holds_members b' ?rs" using holds unfolding holds_members_def lens by simp
  then show ?thesis by (simp add: b' pos)
qed

end
