(* ===== verification/Session_Channel.thy ===== *)
theory Session_Channel
  imports Session_State Wire_Out
begin

text \<open>
  A channel of a session (session/channel.rs): the protection it gives the requests it sends and
  the checks it makes of the responses it is handed, over the session state and the negotiated
  properties. Requests and responses are those of command.rs; a response keeps its header, its
  bytes and the form in which it arrived.
\<close>

section \<open>Requests and responses\<close>

datatype protection = ProtNone | SignWithChannel | SnapshotKdfSign bytes | ProtEncrypt

record command_request =
  creq_message :: plain_request
  creq_additional_data :: "bytes option"
  creq_security :: "protection option"

record message_form =
  form_compressed :: bool
  form_encrypted :: bool
  form_signed :: bool
  form_recovery_hint :: bool

definition signed_or_encrypted :: "message_form \<Rightarrow> bool" where
  "signed_or_encrypted f \<longleftrightarrow> form_signed f \<or> form_encrypted f"

record wire_response =
  wr_header :: header
  wr_raw :: bytes
  wr_form :: message_form

section \<open>The channel\<close>

definition requires_signing :: "connection_info option \<Rightarrow> 'c session_info \<Rightarrow> command \<Rightarrow> session_error + bool" where
  "requires_signing conn s c =
     (case conn of
        None \<Rightarrow> Inl InvalidState
      | Some info \<Rightarrow>
          if np_signing_required (ci_negotiation info) then Inr True
          else if \<not> is_ready s then Inr False
          else (case is_guest_or_anonymous s of
                  Inl e \<Rightarrow> Inl e
                | Inr guest \<Rightarrow> Inr (\<not> guest \<and> np_dialect_rev (ci_negotiation info) = Smb0311 \<and> c = CmdTreeConnect)))"

definition infer_protection :: "connection_info option \<Rightarrow> 'c session_info \<Rightarrow> command \<Rightarrow> session_error + protection" where
  "infer_protection conn s c =
     (if is_invalid s then Inl InvalidState
      else if is_ready s \<or> is_setting_up s then
        (case (if is_ready s then should_encrypt s else Inr False) of
           Inl e \<Rightarrow> Inl e
         | Inr True \<Rightarrow> Inr ProtEncrypt
         | Inr False \<Rightarrow>
             (case allow_unsigned s of
                Inl e \<Rightarrow> Inl e
              | Inr False \<Rightarrow> Inr SignWithChannel
              | Inr True \<Rightarrow>
                  (case requires_signing conn s c of
                     Inl e \<Rightarrow> Inl e
                   | Inr req \<Rightarrow> Inr (if req then SignWithChannel else ProtNone))))
      else Inr ProtNone)"

fun signs :: "protection \<Rightarrow> bool" where
  "signs SignWithChannel = True"
| "signs (SnapshotKdfSign _) = True"
| "signs _ = False"

definition stamp :: "u64 \<Rightarrow> protection \<Rightarrow> command_request \<Rightarrow> command_request" where
  "stamp session_id p m =
     (let h = req_header (creq_message m);
          h = (if signs p then h\<lparr>hd_flags := set_signed (hd_flags h)\<rparr> else h)
      in m\<lparr>creq_security := Some p, creq_message := (creq_message m)\<lparr>req_header := h\<lparr>hd_session_id := session_id\<rparr>\<rparr>\<rparr>)"

definition channel_prepare ::
  "connection_info option \<Rightarrow> u64 \<Rightarrow> 'c session_info \<Rightarrow> command_request \<Rightarrow> session_error + command_request" where
  "channel_prepare conn session_id s m =
     (case (case creq_security m of
              Some p \<Rightarrow> Inr p
            | None \<Rightarrow> infer_protection conn s (hd_command (req_header (creq_message m)))) of
        Inl e \<Rightarrow> Inl e
      | Inr p \<Rightarrow> Inr (stamp session_id p m))"

definition verify_incoming ::
  "connection_info option \<Rightarrow> u64 \<Rightarrow> 'c session_info \<Rightarrow> wire_response \<Rightarrow> session_error + unit" where
  "verify_incoming conn session_id s r =
     (case status_try_from (hd_status (wr_header r)) of
        None \<Rightarrow> Inl InvalidMessage
      | Some st \<Rightarrow>
          if st = status_user_session_deleted \<or> st = status_network_session_expired then Inl SessionInvalidated
          else (case (if is_ready s then should_encrypt s else Inr False) of
              Inl e \<Rightarrow> Inl e
            | Inr encryption_required \<Rightarrow>
                (case (case allow_unsigned s of
                         Inl e \<Rightarrow> Inl e
                       | Inr False \<Rightarrow> Inr False
                       | Inr True \<Rightarrow> (case requires_signing conn s (hd_command (wr_header r)) of
                                       Inl e \<Rightarrow> Inl e
                                     | Inr req \<Rightarrow> Inr (\<not> req))) of
                   Inl e \<Rightarrow> Inl e
                 | Inr unsigned_allowed \<Rightarrow>
                     if hd_session_id (wr_header r) = 0 then Inl InvalidMessage
                     else if hd_session_id (wr_header r) \<noteq> session_id then Inl InvalidMessage
                     else if \<not> form_encrypted (wr_form r) \<and> encryption_required then Inl InvalidMessage
                     else if \<not> signed_or_encrypted (wr_form r) \<and> \<not> unsigned_allowed then Inl InvalidMessage
                     else Inr ())))"

section \<open>What the policy guarantees\<close>

text \<open>When a session may send or accept an unprotected message.\<close>

definition may_be_plain :: "connection_info \<Rightarrow> session_flags \<Rightarrow> command \<Rightarrow> bool" where
  "may_be_plain info flags c \<longleftrightarrow>
     encryption_mode (ci_config info) \<noteq> EncRequired \<and> \<not> encrypt_data flags \<and>
     \<not> np_signing_required (ci_negotiation info) \<and>
     (if is_guest_or_null_session flags then allow_unsigned_guest_access (ci_config info)
      else signing_policy (ci_config info) \<noteq> PolicyRequired \<and>
        \<not> (np_dialect_rev (ci_negotiation info) = Smb0311 \<and> c = CmdTreeConnect))"

lemma accepted_plain_response:
  assumes "verify_incoming (Some info) i s r = Inr ()" and "session_typed info (si_state s)"
    and "si_state s = SessionReady algos flags force signing" and "\<not> signed_or_encrypted (wr_form r)"
  shows "may_be_plain info flags (hd_command (wr_header r))"
  using assms
  by (auto simp: verify_incoming_def may_be_plain_def is_ready_def should_encrypt_def allow_unsigned_def
      requires_signing_def is_guest_or_anonymous_def policy_required_def signed_or_encrypted_def
      split: option.splits if_splits bool.splits)

lemma infer_protection_ready:
  assumes "si_state s = SessionReady algos flags force signing"
  shows "infer_protection (Some info) s c = Inr
    (if encrypt_data flags \<or> force then ProtEncrypt
     else if \<not> is_guest_or_null_session flags \<and> signing then SignWithChannel
     else if np_signing_required (ci_negotiation info) \<or>
       \<not> is_guest_or_null_session flags \<and> np_dialect_rev (ci_negotiation info) = Smb0311 \<and> c = CmdTreeConnect
     then SignWithChannel else ProtNone)"
  using assms
  by (cases "encrypt_data flags"; cases force; cases signing; cases "is_guest_or_null_session flags")
    (simp_all add: infer_protection_def is_ready_def is_invalid_def should_encrypt_def allow_unsigned_def
      requires_signing_def is_guest_or_anonymous_def)

lemma verify_incoming_ready:
  assumes typed: "session_typed info (si_state s)" and ready: "si_state s = SessionReady algos flags force signing"
  shows "verify_incoming (Some info) i s r = Inr () \<longleftrightarrow>
      hd_status (wr_header r) \<in> set status_codes - {status_user_session_deleted, status_network_session_expired} \<and>
      hd_session_id (wr_header r) = i \<and> i \<noteq> 0 \<and>
      (encryption_mode (ci_config info) = EncRequired \<or> encrypt_data flags \<longrightarrow> form_encrypted (wr_form r)) \<and>
      (signed_or_encrypted (wr_form r) \<or> may_be_plain info flags (hd_command (wr_header r)))"
proof -
  have "force = (encryption_mode (ci_config info) = EncRequired)" using typed by (simp add: ready)
  then show ?thesis using typed
    by (cases "encrypt_data flags"; cases force; cases signing; cases "is_guest_or_null_session flags")
      (auto simp: verify_incoming_def ready may_be_plain_def is_ready_def should_encrypt_def allow_unsigned_def
        requires_signing_def is_guest_or_anonymous_def policy_required_def signed_or_encrypted_def status_try_from_def
        split: if_splits)
qed


text \<open>A session of an encrypted connection, with keys that show through.\<close>

definition sample_crypto :: "(bytes, bytes) crypto" where
  "sample_crypto = \<lparr>kbkdf = (\<lambda>key label context. key), make_signing_algo = (\<lambda>_ key. Some key),
     make_encrypting_algo = (\<lambda>_ key. Some key), encrypting_algos = [Aes128Gcm], signing_algos = [AesCmac]\<rparr>"

definition sample_info :: connection_info where
  "sample_info = \<lparr>ci_negotiation = \<lparr>np_signing_required = True, np_signing_algo = Some AesCmac,
       np_encryption_cipher = Some Aes128Gcm, np_compression = None, np_dialect_rev = Smb0311\<rparr>,
     ci_dialect = Smb0311,
     ci_config = \<lparr>encryption_mode = EncRequired, signing_policy = PolicyRequired, allow_unsigned_guest_access = False,
       compression_enabled = False\<rparr>,
     ci_preauth_hash = PreauthInProgress [0]\<rparr>"

definition sample_flags :: session_flags where
  "sample_flags = \<lparr>is_guest = False, is_null_session = False, encrypt_data = False\<rparr>"

definition sample_session :: "bytes session_info" where
  "sample_session = session_life sample_crypto sample_info 7 [CallSetup [1, 2] (Some [0]), CallReady sample_flags]"

definition sample_header :: header where
  "sample_header = \<lparr>hd_credit_charge = 1, hd_status = 0, hd_command = CmdRead, hd_credit_request = 1, hd_flags = 0,
     hd_next_command = 0, hd_message_id = 5, hd_tree_id = Some 3, hd_async_id = None, hd_session_id = 7, hd_signature = 0\<rparr>"

definition sample_request :: command_request where
  "sample_request = \<lparr>creq_message = \<lparr>req_header = sample_header, req_body = [1, 2, 3]\<rparr>, creq_additional_data = None,
     creq_security = None\<rparr>"

lemma sample_session_ready:
  "si_state sample_session =
     SessionReady \<lparr>encryptor = Some [1, 2], decryptor = Some [1, 2]\<rparr> sample_flags True True"
  by (simp add: sample_session_def session_life_def session_new_def session_setup_def session_ready_def is_initial_def
      new_session_algos_def smb3xx_make_ciphers_def smb3xx_make_cipher_pair_def sample_info_def sample_crypto_def
      supports_encryption_def is_smb3_cases c2s_encrypt_key_derive_label_def s2c_encrypt_key_derive_label_def
      sample_flags_def is_guest_or_null_session_def policy_required_def)


end
