(* ===== verification/Compression.thy ===== *)
theory Compression
  imports Dialects
begin

text \<open>
  Message compression (compression.rs, smb-msg/compressed.rs): the chained and the unchained
  method over the algorithms built in, the pattern and the stored one concretely, LZ4 as the
  library's pair of functions. A panic of the code is the error \<open>CompPanicked\<close>.
\<close>

section \<open>Model\<close>

datatype compression_error =
    UnsupportedAlgorithm
  | InvalidDecompressedMessage
  | InvalidCompressedMessage
  | ChainedCompressionFailed
  | UnsupportedCompressionMethod
  | NoSupportedCompressionAlgorithm
  | DecompressedSizeLimitExceeded
  | Lz4Failed
  | CompPanicked

text \<open>LZ4: compression, and decompression into a buffer of a given size.\<close>

record lz4 =
  lz4_compress :: "bytes \<Rightarrow> bytes"
  lz4_decompress :: "bytes \<Rightarrow> nat \<Rightarrow> bytes option"

record chained_item =
  item_algorithm :: compression_algorithm
  item_flags :: u16
  item_original_size :: "u32 option"
  item_payload :: bytes

datatype compressed_message =
    Unchained (unchained_original_size: u32) (unchained_algorithm: compression_algorithm) (unchained_data: bytes)
  | Chained (chained_original_size: u32) (chained_items: "chained_item list")

definition default_max_frame_size :: nat where
  "default_max_frame_size = 0x00ffffff"

definition original_size_required :: "compression_algorithm \<Rightarrow> bool" where
  "original_size_required a \<longleftrightarrow> a \<in> {LZNT1, LZ77, LZ77Huffman, LZ4}"

definition pattern_write :: "u8 \<Rightarrow> u32 \<Rightarrow> bytes" where
  "pattern_write p n = p # 0 # le_bytes (0 :: u16) @ le_bytes n"

definition pattern_decompress :: "bytes \<Rightarrow> compression_error + bytes" where
  "pattern_decompress payload =
     (if length payload \<noteq> 8 then Inl CompPanicked
      else Inr (replicate (unat (le_word (field 4 4 payload) :: u32)) (hd payload)))"

definition pattern_compress :: "bytes \<Rightarrow> compression_error + bytes" where
  "pattern_compress bs =
     (case bs of
        [] \<Rightarrow> Inl NoSupportedCompressionAlgorithm
      | b # _ \<Rightarrow> if list_all (\<lambda>x. x = b) bs then Inr (pattern_write b (of_nat (length bs)))
                  else Inl NoSupportedCompressionAlgorithm)"

text \<open>What one algorithm appends to the output.\<close>

definition algorithm_decompress ::
  "lz4 \<Rightarrow> compression_algorithm \<Rightarrow> bytes \<Rightarrow> u32 option \<Rightarrow> compression_error + bytes" where
  "algorithm_decompress z a payload sz =
     (case a of
        CompNone \<Rightarrow> Inr payload
      | PatternV1 \<Rightarrow> pattern_decompress payload
      | LZ4 \<Rightarrow>
          (case sz of
             None \<Rightarrow> Inl InvalidCompressedMessage
           | Some n \<Rightarrow>
               (case lz4_decompress z payload (unat n) of
                  None \<Rightarrow> Inl Lz4Failed
                | Some out \<Rightarrow> if length out \<noteq> unat n then Inl Lz4Failed else Inr out))
      | _ \<Rightarrow> Inl UnsupportedAlgorithm)"

definition algorithm_compress :: "lz4 \<Rightarrow> compression_algorithm \<Rightarrow> bytes \<Rightarrow> compression_error + bytes" where
  "algorithm_compress z a bs =
     (case a of
        CompNone \<Rightarrow> Inr bs
      | PatternV1 \<Rightarrow> pattern_compress bs
      | LZ4 \<Rightarrow> Inr (lz4_compress z bs)
      | _ \<Rightarrow> Inl UnsupportedAlgorithm)"

definition unchained_decompress :: "lz4 \<Rightarrow> compressed_message \<Rightarrow> compression_error + bytes" where
  "unchained_decompress z m =
     (case m of
        Unchained sz a payload \<Rightarrow>
          (case algorithm_decompress z a payload (Some sz) of
             Inl e \<Rightarrow> Inl e
           | Inr out \<Rightarrow> if length out \<noteq> unat sz then Inl InvalidDecompressedMessage else Inr out)
      | Chained _ _ \<Rightarrow> Inl UnsupportedCompressionMethod)"

fun decompress_items :: "lz4 \<Rightarrow> nat \<Rightarrow> chained_item list \<Rightarrow> bytes \<Rightarrow> compression_error + bytes" where
  "decompress_items z limit [] out = Inr out"
| "decompress_items z limit (i # is) out =
     (case algorithm_decompress z (item_algorithm i) (item_payload i) (item_original_size i) of
        Inl e \<Rightarrow> Inl e
      | Inr new \<Rightarrow>
          if limit < length (out @ new) then Inl ChainedCompressionFailed
          else if (case item_original_size i of None \<Rightarrow> False | Some n \<Rightarrow> length new \<noteq> unat n) then Inl ChainedCompressionFailed
          else decompress_items z limit is (out @ new))"

definition chained_decompress :: "lz4 \<Rightarrow> compressed_message \<Rightarrow> compression_error + bytes" where
  "chained_decompress z m =
     (case m of
        Chained sz items \<Rightarrow>
          if sz < 64 then Inl InvalidCompressedMessage
          else (case decompress_items z (unat sz) items [] of
                  Inl e \<Rightarrow> Inl e
                | Inr out \<Rightarrow> if length out \<noteq> unat sz then Inl ChainedCompressionFailed else Inr out)
      | Unchained _ _ _ \<Rightarrow> Inl UnsupportedCompressionMethod)"

definition original_size :: "compressed_message \<Rightarrow> u32" where
  "original_size m = (case m of Unchained sz _ _ \<Rightarrow> sz | Chained sz _ \<Rightarrow> sz)"

text \<open>The bytes that come out, and then the response that is read from them.\<close>

definition decompress_bytes :: "lz4 \<Rightarrow> compression_capabilities \<Rightarrow> compressed_message \<Rightarrow> compression_error + bytes" where
  "decompress_bytes z caps m =
     (if default_max_frame_size < unat (original_size m) then Inl DecompressedSizeLimitExceeded
      else (case m of
              Unchained _ _ _ \<Rightarrow> unchained_decompress z m
            | Chained _ _ \<Rightarrow> if comp_chained caps then chained_decompress z m else Inl UnsupportedCompressionMethod))"

definition decompress ::
  "lz4 \<Rightarrow> (bytes \<Rightarrow> 'r option) \<Rightarrow> compression_capabilities \<Rightarrow> compressed_message \<Rightarrow> compression_error + 'r \<times> bytes" where
  "decompress z response caps m =
     (case decompress_bytes z caps m of
        Inl e \<Rightarrow> Inl e
      | Inr bs \<Rightarrow> (case response bs of None \<Rightarrow> Inl InvalidDecompressedMessage | Some r \<Rightarrow> Inr (r, bs)))"

definition unchained_compress :: "lz4 \<Rightarrow> compression_algorithm list \<Rightarrow> bytes \<Rightarrow> compression_error + compressed_message" where
  "unchained_compress z algorithms bs =
     (if LZ4 \<in> set algorithms
      then (case algorithm_compress z LZ4 bs of Inl e \<Rightarrow> Inl e | Inr d \<Rightarrow> Inr (Unchained (of_nat (length bs)) LZ4 d))
      else Inl NoSupportedCompressionAlgorithm)"

definition stored_item :: "u16 \<Rightarrow> bytes \<Rightarrow> chained_item" where
  "stored_item flags bs = \<lparr>item_algorithm = CompNone, item_flags = flags, item_original_size = None, item_payload = bs\<rparr>"

definition compress_rest :: "lz4 \<Rightarrow> compression_algorithm list \<Rightarrow> bytes \<Rightarrow> chained_item" where
  "compress_rest z algorithms bs =
     (if LZ4 \<in> set algorithms \<and> length (lz4_compress z bs) < length bs
      then \<lparr>item_algorithm = LZ4, item_flags = 0, item_original_size = Some (of_nat (length bs)), item_payload = lz4_compress z bs\<rparr>
      else (case (if PatternV1 \<in> set algorithms then pattern_compress bs else Inl NoSupportedCompressionAlgorithm) of
              Inr p \<Rightarrow> \<lparr>item_algorithm = PatternV1, item_flags = 0, item_original_size = None, item_payload = p\<rparr>
            | Inl _ \<Rightarrow> stored_item 0 bs))"

definition chained_compress :: "lz4 \<Rightarrow> compression_algorithm list \<Rightarrow> bytes \<Rightarrow> compression_error + compressed_message" where
  "chained_compress z algorithms bs =
     (if length bs < 64 then Inl InvalidCompressedMessage
      else Inr (Chained (of_nat (length bs))
        (stored_item 1 (take 64 bs) # (if drop 64 bs = [] then [] else [compress_rest z algorithms (drop 64 bs)]))))"

definition compress :: "lz4 \<Rightarrow> compression_capabilities \<Rightarrow> bytes \<Rightarrow> compression_error + compressed_message" where
  "compress z caps bs =
     (if comp_chained caps then chained_compress z (comp_algorithms caps) bs
      else unchained_compress z (comp_algorithms caps) bs)"

text \<open>
  The unchained form as bytes, written after a prefix reserved for an encryption header, and
  read back: magic, original size, algorithm, no flags, no offset.
\<close>

definition compressed_magic :: bytes where
  "compressed_magic = [0xFC, 0x53, 0x4D, 0x42]"

definition unchained_header :: "u32 \<Rightarrow> bytes" where
  "unchained_header sz = compressed_magic @ le_bytes sz @ le_bytes (5 :: u16) @ le_bytes (0 :: u16) @ le_bytes (0 :: u32)"

definition compress_transform ::
  "lz4 \<Rightarrow> compression_capabilities \<Rightarrow> nat \<Rightarrow> bytes \<Rightarrow> compression_error + bytes" where
  "compress_transform z caps prefix bs =
     (if LZ4 \<notin> set (comp_algorithms caps) then Inl NoSupportedCompressionAlgorithm
      else if 2 ^ 32 \<le> length bs then Inl InvalidCompressedMessage
      else Inr (replicate prefix 0 @ unchained_header (of_nat (length bs)) @ lz4_compress z bs))"

definition algorithm_of_code :: "u16 \<Rightarrow> compression_algorithm option" where
  "algorithm_of_code c =
     (if c = 0 then Some CompNone else if c = 1 then Some LZNT1 else if c = 2 then Some LZ77
      else if c = 3 then Some LZ77Huffman else if c = 4 then Some PatternV1 else if c = 5 then Some LZ4 else None)"

fun algorithm_code :: "compression_algorithm \<Rightarrow> u16" where
  "algorithm_code CompNone = 0"
| "algorithm_code LZNT1 = 1"
| "algorithm_code LZ77 = 2"
| "algorithm_code LZ77Huffman = 3"
| "algorithm_code PatternV1 = 4"
| "algorithm_code LZ4 = 5"

text \<open>A message as bytes. An item whose size field does not fit its algorithm, a length that does not fit its
  field, and an unchained message without an algorithm are refused.\<close>

definition write_item :: "chained_item \<Rightarrow> bytes option" where
  "write_item i =
     (let sized = original_size_required (item_algorithm i); n = length (item_payload i) + (if sized then 4 else 0) in
      if (item_original_size i = None) = sized \<or> 2 ^ 32 \<le> n then None
      else Some (le_bytes (algorithm_code (item_algorithm i)) @ le_bytes (item_flags i) @ le_bytes (of_nat n :: u32) @
        (case item_original_size i of None \<Rightarrow> [] | Some sz \<Rightarrow> le_bytes sz) @ item_payload i))"

fun write_items :: "chained_item list \<Rightarrow> bytes option" where
  "write_items [] = Some []"
| "write_items (i # is) = (case (write_item i, write_items is) of (Some b, Some bs) \<Rightarrow> Some (b @ bs) | _ \<Rightarrow> None)"

definition write_compressed :: "compressed_message \<Rightarrow> bytes option" where
  "write_compressed m =
     (case m of
        Unchained sz a payload \<Rightarrow>
          if a = CompNone then None
          else Some (compressed_magic @ le_bytes sz @ le_bytes (algorithm_code a) @ le_bytes (0 :: u16) @ le_bytes (0 :: u32) @ payload)
      | Chained sz items \<Rightarrow> map_option (\<lambda>bs. compressed_magic @ le_bytes sz @ bs) (write_items items))"

definition read_unchained :: "bytes \<Rightarrow> compressed_message option" where
  "read_unchained bs =
     (if length bs < 16 \<or> field 0 4 bs \<noteq> compressed_magic \<or> le_word (field 10 2 bs) \<noteq> (0 :: u16) then None
      else (case algorithm_of_code (le_word (field 8 2 bs)) of
              None \<Rightarrow> None
            | Some CompNone \<Rightarrow> None
            | Some a \<Rightarrow> Some (Unchained (le_word (field 4 4 bs)) a (drop (16 + unat (le_word (field 12 4 bs) :: u32)) bs))))"

text \<open>
  The chained form is read item by item to the end of the bytes: an item cut off in its header
  ends the list, a payload shorter than its length is taken as it is, and the subtraction of the
  size field from a length below four wraps around, so that the payload runs to the end.
\<close>

function read_items :: "bytes \<Rightarrow> chained_item list option" where
  "read_items bs =
     (if length bs < 8 then Some []
      else (case algorithm_of_code (le_word (field 0 2 bs)) of
              None \<Rightarrow> None
            | Some a \<Rightarrow>
                let sized = original_size_required a; n = unat (le_word (field 4 4 bs) :: u32);
                    start = (if sized then 12 else 8);
                    len = (if \<not> sized then n else if n < 4 then length bs else n - 4) in
                if length bs < start then Some []
                else map_option ((#) \<lparr>item_algorithm = a, item_flags = le_word (field 2 2 bs),
                       item_original_size = (if sized then Some (le_word (field 8 4 bs)) else None),
                       item_payload = take len (drop start bs)\<rparr>)
                     (read_items (drop (start + len) bs))))"
  by pat_completeness auto
termination by (relation "measure length") (auto simp: Let_def split: if_splits)

declare read_items.simps [simp del]

definition read_chained :: "bytes \<Rightarrow> compressed_message option" where
  "read_chained bs =
     (if length bs < 8 \<or> field 0 4 bs \<noteq> compressed_magic then None
      else map_option (Chained (le_word (field 4 4 bs))) (read_items (drop 8 bs)))"

definition read_compressed :: "bytes \<Rightarrow> compressed_message option" where
  "read_compressed bs = (case read_unchained bs of Some m \<Rightarrow> Some m | None \<Rightarrow> read_chained bs)"

section \<open>What comes out is as long as announced\<close>

lemma decompress_items_length:
  "decompress_items z limit is out = Inr res \<Longrightarrow> length out \<le> limit \<Longrightarrow> length res \<le> limit"
  by (induction "is" arbitrary: out) (auto split: sum.splits if_splits)

lemma decompress_length:
  "decompress_bytes z caps m = Inr bs \<Longrightarrow> length bs = unat (original_size m) \<and> length bs \<le> default_max_frame_size"
  by (auto simp: decompress_bytes_def unchained_decompress_def chained_decompress_def original_size_def
    split: if_splits compressed_message.splits sum.splits)

section \<open>Round trip\<close>

lemma pattern_round_trip:
  "pattern_compress bs = Inr p \<Longrightarrow> length bs < 2 ^ 32 \<Longrightarrow> pattern_decompress p = Inr bs"
proof (cases bs)
  case (Cons b rest)
  assume p: "pattern_compress bs = Inr p" and len: "length bs < 2 ^ 32"
  from p Cons have same: "list_all (\<lambda>x. x = b) bs" and p_is: "p = pattern_write b (of_nat (length bs))"
    by (auto simp: pattern_compress_def split: if_splits)
  have "unat (of_nat (length bs) :: u32) = length bs" using len by (simp add: unat_of_nat)
  moreover have "bs = replicate (length bs) b" using same by (simp add: list_all_iff replicate_eqI)
  ultimately show ?thesis by (simp add: p_is pattern_decompress_def pattern_write_def field_def)
qed (simp add: pattern_compress_def)

definition lz4_faithful :: "lz4 \<Rightarrow> bool" where
  "lz4_faithful z \<longleftrightarrow> (\<forall>bs. lz4_decompress z (lz4_compress z bs) (length bs) = Some bs)"

lemma compress_rest_round_trip:
  assumes z: "lz4_faithful z" and len: "length bs < 2 ^ 32"
  shows "algorithm_decompress z (item_algorithm (compress_rest z as bs)) (item_payload (compress_rest z as bs))
      (item_original_size (compress_rest z as bs)) = Inr bs \<and>
    (case item_original_size (compress_rest z as bs) of None \<Rightarrow> True | Some n \<Rightarrow> unat n = length bs)"
proof -
  have "unat (of_nat (length bs) :: u32) = length bs" using len by (simp add: unat_of_nat)
  with z pattern_round_trip [OF _ len] show ?thesis
    by (auto simp: compress_rest_def stored_item_def algorithm_decompress_def lz4_faithful_def split: sum.splits if_splits)
qed

lemma chained_round_trip:
  assumes z: "lz4_faithful z" and len: "length bs < 2 ^ 32" and m: "chained_compress z as bs = Inr m"
  shows "chained_decompress z m = Inr bs \<and> original_size m = of_nat (length bs)"
proof -
  have unat: "unat (of_nat (length bs) :: u32) = length bs" using len by (simp add: unat_of_nat)
  from m have "64 \<le> length bs" and m_is: "m = Chained (of_nat (length bs))
      (stored_item 1 (take 64 bs) # (if drop 64 bs = [] then [] else [compress_rest z as (drop 64 bs)]))"
    by (auto simp: chained_compress_def split: if_splits)
  then have big: "\<not> (of_nat (length bs) :: u32) < 64" by (simp add: word_less_nat_alt unat)
  have "length (drop 64 bs) < 2 ^ 32" using len by simp
  note rest = compress_rest_round_trip [OF z this, of as]
  show ?thesis
  proof (cases "drop 64 bs = []")
    case True
    then show ?thesis using big
      by (simp add: m_is chained_decompress_def stored_item_def algorithm_decompress_def unat original_size_def)
  next
    case False
    have "decompress_items z (length bs) [compress_rest z as (drop 64 bs)] (take 64 bs) = Inr (take 64 bs @ drop 64 bs)"
      using rest by (auto split: option.splits)
    then show ?thesis using False big
      by (simp add: m_is chained_decompress_def stored_item_def algorithm_decompress_def unat original_size_def)
  qed
qed

lemma unchained_round_trip:
  assumes "lz4_faithful z" and "length bs < 2 ^ 32"
  shows "unchained_decompress z (Unchained (of_nat (length bs)) LZ4 (lz4_compress z bs)) = Inr bs"
  using assms by (simp add: unchained_decompress_def algorithm_decompress_def lz4_faithful_def unat_of_nat)

lemma read_unchained_header:
  "read_unchained (unchained_header sz @ payload) = Some (Unchained sz LZ4 payload)"
  by (simp add: read_unchained_def unchained_header_def compressed_magic_def field_def algorithm_of_code_def)

lemma algorithm_of_code_code [simp]: "algorithm_of_code (algorithm_code a) = Some a"
  by (cases a) (simp_all add: algorithm_of_code_def)

lemma read_write_item:
  assumes "write_item i = Some b"
  shows "read_items (b @ rest) = map_option ((#) i) (read_items rest)"
proof -
  obtain a f sz p where i: "i = \<lparr>item_algorithm = a, item_flags = f, item_original_size = sz, item_payload = p\<rparr>" by (cases i)
  let ?n = "length p + (if original_size_required a then 4 else 0)"
  from assms have sz: "(sz = None) \<noteq> original_size_required a" and n: "?n < 2 ^ 32"
    and b: "b = le_bytes (algorithm_code a) @ le_bytes f @ le_bytes (of_nat ?n :: u32) @
        (case sz of None \<Rightarrow> [] | Some v \<Rightarrow> le_bytes v) @ p"
    by (auto simp: write_item_def i Let_def split: if_splits)
  have "unat (of_nat k :: u32) = k" if "k < 2 ^ 32" for k using that by (simp add: unat_of_nat)
  from this [OF n] have unat: "unat (of_nat ?n :: u32) = ?n" .
  show ?thesis
  proof (cases sz)
    case None
    with sz unat show ?thesis by (subst read_items.simps) (simp add: b i field_def Let_def)
  next
    case (Some v)
    with sz unat show ?thesis by (subst read_items.simps) (simp add: b i field_def Let_def)
  qed
qed

lemma read_write_items: "write_items is = Some bs \<Longrightarrow> read_items bs = Some is"
proof (induction "is" arbitrary: bs)
  case (Cons i "is")
  then obtain b bs' where "write_item i = Some b" "write_items is = Some bs'" "bs = b @ bs'"
    by (auto split: option.splits)
  with Cons.IH show ?case by (simp add: read_write_item)
qed (simp add: read_items.simps)

text \<open>The first item tells a chained message from an unchained one: it is stored, with a flag.\<close>

lemma read_write_compressed:
  assumes "write_compressed m = Some bs"
    and "case m of Unchained _ _ _ \<Rightarrow> True | Chained _ items \<Rightarrow> items \<noteq> [] \<and> item_flags (hd items) \<noteq> 0"
  shows "read_compressed bs = Some m"
proof (cases m)
  case (Unchained sz a payload)
  with assms(1) have "a \<noteq> CompNone" and "bs = compressed_magic @ le_bytes sz @ le_bytes (algorithm_code a) @
      le_bytes (0 :: u16) @ le_bytes (0 :: u32) @ payload" by (auto simp: write_compressed_def split: if_splits)
  then have "read_unchained bs = Some m"
    by (simp add: Unchained read_unchained_def compressed_magic_def field_def split: compression_algorithm.split)
  then show ?thesis by (simp add: read_compressed_def)
next
  case (Chained sz items)
  with assms obtain i "is" b cs where items: "items = i # is" "item_flags i \<noteq> 0" "write_item i = Some b" "write_items is = Some cs"
    and bs: "bs = compressed_magic @ le_bytes sz @ b @ cs"
    by (cases items) (auto simp: write_compressed_def split: option.splits)
  have read: "read_items (b @ cs) = Some items" using items by (intro read_write_items) simp
  have "field 10 2 bs = le_bytes (item_flags i)"
    using items(3) by (auto simp: bs write_item_def compressed_magic_def field_def Let_def split: if_splits)
  then have "read_unchained bs = None" using items(2) by (simp add: read_unchained_def)
  moreover have "read_chained bs = Some m"
    using read by (simp add: read_chained_def bs Chained compressed_magic_def field_def)
  ultimately show ?thesis by (simp add: read_compressed_def)
qed

lemma write_item_fits:
  "(item_original_size i = None) \<noteq> original_size_required (item_algorithm i) \<Longrightarrow> length (item_payload i) + 4 < 2 ^ 32 \<Longrightarrow>
     \<exists>b. write_item i = Some b"
  by (simp add: write_item_def Let_def)

lemma compress_rest_fits:
  assumes "length bs + 8 < 2 ^ 32"
  shows "\<exists>b. write_item (compress_rest z as bs) = Some b"
proof (rule write_item_fits)
  show "(item_original_size (compress_rest z as bs) = None) \<noteq> original_size_required (item_algorithm (compress_rest z as bs))"
    by (auto simp: compress_rest_def stored_item_def original_size_required_def split: sum.split)
  have "length p = 8" if "pattern_compress bs = Inr p" for p
    using that by (auto simp: pattern_compress_def pattern_write_def split: list.splits if_splits)
  then show "length (item_payload (compress_rest z as bs)) + 4 < 2 ^ 32"
    using assms by (auto simp: compress_rest_def stored_item_def split: sum.splits if_splits)
qed

lemma compressed_is_written:
  assumes "compress z caps bs = Inr m" and "length bs \<le> default_max_frame_size"
  shows "\<exists>out. write_compressed m = Some out \<and> read_compressed out = Some m"
proof -
  have item: "\<exists>b. write_item (stored_item f (take 64 bs)) = Some b" for f
    by (rule write_item_fits) (simp_all add: stored_item_def original_size_required_def)
  have rest: "\<exists>b. write_item (compress_rest z as (drop 64 bs)) = Some b" for as
    using assms(2) by (intro compress_rest_fits) (simp add: default_max_frame_size_def)
  have "\<exists>out. write_compressed m = Some out"
    using assms(1) item [of 1] rest [of "comp_algorithms caps"]
    by (auto simp: compress_def chained_compress_def unchained_compress_def algorithm_compress_def write_compressed_def
        split: if_splits)
  moreover have "case m of Unchained _ _ _ \<Rightarrow> True | Chained _ items \<Rightarrow> items \<noteq> [] \<and> item_flags (hd items) \<noteq> 0"
    using assms(1)
    by (auto simp: compress_def chained_compress_def unchained_compress_def algorithm_compress_def stored_item_def split: if_splits)
  ultimately show ?thesis using read_write_compressed by blast
qed

text \<open>
  C28. Compression is lossless: a message that fits a frame, compressed by the chained or the
  unchained method with whatever algorithms were negotiated, is a message that can be written,
  whose bytes read back to it, and that decompresses to the given one: the decompressor returns
  exactly its bytes, with the response read from them, and refuses only bytes that are no
  response. The same holds for the transform that is sent, behind its reserved prefix. And
  whatever a peer sends, a successful decompression yields exactly the announced number of bytes,
  at most a frame, and they read as the response.
\<close>

theorem compression_round_trip:
  assumes z: "lz4_faithful z" and fits: "length bs \<le> default_max_frame_size"
  shows "(compress z caps bs = Inr m \<longrightarrow>
      (\<exists>out. write_compressed m = Some out \<and> read_compressed out = Some m) \<and>
      decompress z response caps m = (case response bs of None \<Rightarrow> Inl InvalidDecompressedMessage | Some r \<Rightarrow> Inr (r, bs))) \<and>
    (compress_transform z caps prefix bs = Inr sent \<longrightarrow>
      (\<exists>m'. read_compressed (drop prefix sent) = Some m' \<and>
        decompress z response caps m' = (case response bs of None \<Rightarrow> Inl InvalidDecompressedMessage | Some r \<Rightarrow> Inr (r, bs)))) \<and>
    (decompress z response caps m = Inr (r, res) \<longrightarrow>
      response res = Some r \<and> length res = unat (original_size m) \<and> length res \<le> default_max_frame_size)"
proof (intro conjI impI)
  have len: "length bs < 2 ^ 32" using fits by (simp add: default_max_frame_size_def)
  then have unat: "unat (of_nat (length bs) :: u32) = length bs" by (simp add: unat_of_nat)
  note un = unchained_round_trip [OF z len]
  have plain: "decompress_bytes z caps (Unchained (of_nat (length bs)) LZ4 (lz4_compress z bs)) = Inr bs"
    using fits un by (simp add: decompress_bytes_def original_size_def unat)
  have bytes: "decompress_bytes z caps m = Inr bs" if m: "compress z caps bs = Inr m"
  proof (cases "comp_chained caps")
    case True
    with m have c: "chained_compress z (comp_algorithms caps) bs = Inr m" by (simp add: compress_def)
    then obtain sz "is" where "m = Chained sz is" by (auto simp: chained_compress_def split: if_splits)
    with True chained_round_trip [OF z len c] fits show ?thesis by (simp add: decompress_bytes_def unat)
  next
    case False
    with m plain show ?thesis
      by (auto simp: compress_def unchained_compress_def algorithm_compress_def split: if_splits)
  qed
  show "\<exists>out. write_compressed m = Some out \<and> read_compressed out = Some m" if "compress z caps bs = Inr m"
    using compressed_is_written [OF that fits] .
  show "decompress z response caps m = (case response bs of None \<Rightarrow> Inl InvalidDecompressedMessage | Some r \<Rightarrow> Inr (r, bs))"
    if "compress z caps bs = Inr m"
    by (simp add: decompress_def bytes [OF that])
  show "\<exists>m'. read_compressed (drop prefix sent) = Some m' \<and>
      decompress z response caps m' = (case response bs of None \<Rightarrow> Inl InvalidDecompressedMessage | Some r \<Rightarrow> Inr (r, bs))"
    if "compress_transform z caps prefix bs = Inr sent"
    using that plain
    by (auto simp: compress_transform_def read_compressed_def read_unchained_header decompress_def split: if_splits)
qed (auto simp: decompress_def split: sum.splits option.splits dest: decompress_length)

definition sample_lz4 :: lz4 where
  "sample_lz4 = \<lparr>lz4_compress = (\<lambda>bs. bs), lz4_decompress = (\<lambda>bs n. if length bs = n then Some bs else None)\<rparr>"

definition sample_caps :: compression_capabilities where
  "sample_caps = \<lparr>comp_chained = True, comp_algorithms = [PatternV1]\<rparr>"

definition sample_data :: bytes where
  "sample_data = replicate 66 7"

lemma sample_lz4_faithful: "lz4_faithful sample_lz4"
  by (simp add: lz4_faithful_def sample_lz4_def)

theorem compression_round_trip_witness:
  "lz4_faithful sample_lz4 \<and>
   (\<exists>m out. compress sample_lz4 sample_caps sample_data = Inr m \<and> write_compressed m = Some out \<and>
      read_compressed out = Some m \<and> decompress sample_lz4 Some sample_caps m = Inr (sample_data, sample_data))"
proof -
  note z = sample_lz4_faithful
  have "\<exists>m. compress sample_lz4 sample_caps sample_data = Inr m"
    by (simp add: compress_def chained_compress_def sample_caps_def sample_data_def)
  with z compression_round_trip [OF z, of sample_data sample_caps _ Some] show ?thesis
    by (auto simp: sample_data_def default_max_frame_size_def)
qed

section \<open>What is sent for a message\<close>

text \<open>
  The bytes that go out, or into an envelope, for a message: the message itself, or, where
  compression was negotiated and the message is longer than the threshold, a transform that
  parses and decompresses to it.
\<close>

definition sent_as :: "lz4 \<Rightarrow> compression_capabilities option \<Rightarrow> bytes \<Rightarrow> bytes \<Rightarrow> bool" where
  "sent_as z caps plain sent \<longleftrightarrow>
     (if caps = None \<or> length plain \<le> 1024 then sent = plain
      else (\<exists>m. read_compressed sent = Some m \<and> unat (original_size m) = length plain \<and> unchained_decompress z m = Inr plain))"

lemma transform_sent_as:
  assumes "lz4_faithful z" and "compress_transform z caps prefix plain = Inr out" and "1024 < length plain"
  shows "sent_as z (Some caps) plain (drop prefix out)"
proof -
  from assms(2) have len: "length plain < 2 ^ 32" and
    out: "drop prefix out = unchained_header (of_nat (length plain)) @ lz4_compress z plain"
    by (auto simp: compress_transform_def split: if_splits)
  let ?m = "Unchained (of_nat (length plain)) LZ4 (lz4_compress z plain)"
  have "read_compressed (drop prefix out) = Some ?m" by (simp add: out read_compressed_def read_unchained_header)
  moreover have "unat (original_size ?m) = length plain" using len by (simp add: original_size_def unat_of_nat)
  ultimately show ?thesis
    using assms(3) unchained_round_trip [OF assms(1) len] by (auto simp: sent_as_def)
qed

section \<open>Payloads a peer controls\<close>

text \<open>A pattern payload of the wrong length panics, and a pattern expands before its size is checked.\<close>

lemma short_pattern_panics:
  "decompress z response sample_caps (Chained 64 [\<lparr>item_algorithm = PatternV1, item_flags = 0, item_original_size = None,
     item_payload = [7, 0, 0]\<rparr>]) = Inl CompPanicked"
  by (simp add: decompress_def decompress_bytes_def original_size_def default_max_frame_size_def sample_caps_def chained_decompress_def
      algorithm_decompress_def pattern_decompress_def)

lemma pattern_expands_unbounded:
  "\<exists>out. algorithm_decompress z PatternV1 (pattern_write 7 0xFFFFFFFF) None = Inr out \<and> length out = 0xFFFFFFFF"
  by (simp add: algorithm_decompress_def pattern_decompress_def pattern_write_def field_def)

end
