(* ===== verification/Message_Security.thy ===== *)
theory Message_Security
  imports Session_Channel Compression
begin

text \<open>
  Signing, encryption and framing of single messages: the signer (session/signer.rs), the
  encrypted envelope (smb-msg/encrypted.rs) with the encryptor and decryptor
  (session/encryptor_decryptor.rs), the three kinds of response (smb-msg/message.rs) and the
  outgoing frame (smb-transport/frame.rs). The MAC, the AEAD cipher, the hash and the parser of
  response bodies are the fields of \<open>primitives\<close>.
\<close>

section \<open>Model\<close>

record ('s, 'c) primitives =
  sign_segments :: "'s \<Rightarrow> header \<Rightarrow> bytes \<Rightarrow> bytes list \<Rightarrow> u128 option"
  sha512 :: "bytes \<Rightarrow> bytes"
  aead_encrypt :: "'c \<Rightarrow> bytes \<Rightarrow> bytes \<Rightarrow> bytes \<Rightarrow> (bytes \<times> u128) option"
  aead_decrypt :: "'c \<Rightarrow> bytes \<Rightarrow> bytes \<Rightarrow> bytes \<Rightarrow> u128 \<Rightarrow> bytes option"
  nonce_size :: "'c \<Rightarrow> nat"
  content_readable :: "header \<Rightarrow> bytes \<Rightarrow> bool"
  lz4_lib :: lz4

datatype transform_phase = EncodeDecode | SignVerify | CompressDecompress | EncryptDecrypt

datatype wire_error =
    WireSession session_error
  | WireBuild build_error
  | WireCompression compression_error
  | TransformFailed transform_phase
  | SignatureVerificationFailed
  | WireCrypto
  | WireInvalidMessage
  | WireInvalidArgument
  | WireInvalidState
  | WireCodec
  | WireFrame
  | WireCancelled

subsection \<open>Signatures\<close>

definition zero_signature :: "header \<Rightarrow> header" where
  "zero_signature h = h\<lparr>hd_signature := 0\<rparr>"

definition signature_for_segments ::
  "('s, 'c) primitives \<Rightarrow> 's \<Rightarrow> header \<Rightarrow> bytes list \<Rightarrow> wire_error + u128" where
  "signature_for_segments pr k h segments =
     (case segments of
        [] \<Rightarrow> Inl WireInvalidMessage
      | s # ss \<Rightarrow>
          if length s < 64 then Inl WireInvalidMessage
          else (case header_write (zero_signature h) of
                  None \<Rightarrow> Inl WireCodec
                | Some hb \<Rightarrow>
                    (case sign_segments pr k h (take 64 (hb @ replicate 64 0)) (drop 64 s # ss) of
                       None \<Rightarrow> Inl WireCrypto
                     | Some sig \<Rightarrow> Inr sig)))"

definition calculate_signature_bytes :: "('s, 'c) primitives \<Rightarrow> 's \<Rightarrow> header \<Rightarrow> bytes \<Rightarrow> wire_error + u128" where
  "calculate_signature_bytes pr k h bs =
     (if length bs < 64 then Inl WireInvalidMessage
      else (case sign_segments pr k h (take 48 bs @ replicate 16 0) [drop 64 bs] of
              None \<Rightarrow> Inl WireCrypto
            | Some sig \<Rightarrow> Inr sig))"

definition verify_signature :: "('s, 'c) primitives \<Rightarrow> 's \<Rightarrow> header \<Rightarrow> bytes \<Rightarrow> wire_error + unit" where
  "verify_signature pr k h bs =
     (case calculate_signature_bytes pr k h bs of
        Inl e \<Rightarrow> Inl e
      | Inr sig \<Rightarrow> if sig \<noteq> hd_signature h then Inl SignatureVerificationFailed else Inr ())"

subsection \<open>The encrypted envelope\<close>

record encrypted_header =
  eh_signature :: u128
  eh_nonce :: bytes
  eh_original_size :: u32
  eh_session_id :: u64

definition encrypted_magic :: bytes where
  "encrypted_magic = [0xFD, 0x53, 0x4D, 0x42]"

definition encrypted_header_write :: "encrypted_header \<Rightarrow> bytes" where
  "encrypted_header_write h =
     encrypted_magic @ le_bytes (eh_signature h) @ eh_nonce h @ le_bytes (eh_original_size h) @
     le_bytes (0 :: u16) @ le_bytes (1 :: u16) @ le_bytes (eh_session_id h)"

definition aead_bytes :: "encrypted_header \<Rightarrow> bytes" where
  "aead_bytes h = drop 20 (encrypted_header_write h)"

definition encrypted_header_read :: "bytes \<Rightarrow> encrypted_header option" where
  "encrypted_header_read bs =
     (if length bs < 52 \<or> field 0 4 bs \<noteq> encrypted_magic \<or> le_word (field 42 2 bs) \<noteq> (1 :: u16) then None
      else Some \<lparr>eh_signature = le_word (field 4 16 bs), eh_nonce = field 20 16 bs,
        eh_original_size = le_word (field 36 4 bs), eh_session_id = le_word (field 44 8 bs)\<rparr>)"

definition gen_nonce :: "('s, 'c) primitives \<Rightarrow> 'c \<Rightarrow> bytes \<Rightarrow> bytes" where
  "gen_nonce pr c random = take (nonce_size pr c) random @ replicate (16 - nonce_size pr c) 0"

definition encrypt_message ::
  "('s, 'c) primitives \<Rightarrow> 'c \<Rightarrow> bytes \<Rightarrow> u64 \<Rightarrow> bytes \<Rightarrow> wire_error + encrypted_header \<times> bytes" where
  "encrypt_message pr c random session_id message =
     (if 2 ^ 32 \<le> length message then Inl WireInvalidMessage
      else let h = \<lparr>eh_signature = 0, eh_nonce = gen_nonce pr c random, eh_original_size = of_nat (length message),
                    eh_session_id = session_id\<rparr> in
        (case aead_encrypt pr c message (aead_bytes h) (eh_nonce h) of
           None \<Rightarrow> Inl WireCrypto
         | Some (ciphertext, sig) \<Rightarrow> Inr (h\<lparr>eh_signature := sig\<rparr>, ciphertext)))"

subsection \<open>Responses\<close>

datatype response =
    RespPlain header
  | RespEncrypted encrypted_header bytes
  | RespCompressed compressed_message

definition response_read :: "('s, 'c) primitives \<Rightarrow> bytes \<Rightarrow> response option" where
  "response_read pr bs =
     (case header_read bs of
        Some h \<Rightarrow>
          if flag_server_to_redir (hd_flags h) \<and> content_readable pr h (drop 64 bs) then Some (RespPlain h) else None
      | None \<Rightarrow>
          (case encrypted_header_read bs of
             Some h \<Rightarrow> Some (RespEncrypted h (drop 52 bs))
           | None \<Rightarrow> map_option RespCompressed (read_compressed bs)))"

definition decrypt_message ::
  "('s, 'c) primitives \<Rightarrow> 'c \<Rightarrow> encrypted_header \<Rightarrow> bytes \<Rightarrow> wire_error + response \<times> bytes" where
  "decrypt_message pr c h ciphertext =
     (if length ciphertext \<noteq> unat (eh_original_size h) then Inl WireInvalidMessage
      else if list_ex (\<lambda>b. b \<noteq> 0) (drop (nonce_size pr c) (eh_nonce h)) then Inl WireInvalidMessage
      else (case aead_decrypt pr c ciphertext (aead_bytes h) (eh_nonce h) (eh_signature h) of
              None \<Rightarrow> Inl WireCrypto
            | Some plain \<Rightarrow>
                (case response_read pr plain of None \<Rightarrow> Inl WireCodec | Some r \<Rightarrow> Inr (r, plain))))"

subsection \<open>Outgoing frames\<close>

definition send_frame_from_segments :: "bytes list \<Rightarrow> nat option \<Rightarrow> wire_error + bytes list" where
  "send_frame_from_segments segments maximum =
     (if segments = [] then Inl WireFrame
      else if (case maximum of None \<Rightarrow> False | Some n \<Rightarrow> n < length segments) then Inl WireFrame
      else if concat segments = [] then Inl WireFrame
      else if 2 ^ 32 \<le> length (concat segments) then Inl WireFrame
      else Inr segments)"

section \<open>The envelope round trip\<close>

text \<open>Decryption undoes encryption, and what is encrypted keeps its length.\<close>

definition aead_faithful :: "('s, 'c) primitives \<Rightarrow> bool" where
  "aead_faithful pr \<longleftrightarrow>
     (\<forall>c m ad n. nonce_size pr c \<le> 16 \<and>
       (\<forall>ct sig. aead_encrypt pr c m ad n = Some (ct, sig) \<longrightarrow>
          length ct = length m \<and> aead_decrypt pr c ct ad n sig = Some m))"

lemma length_encrypted_header_write: "length (eh_nonce h) = 16 \<Longrightarrow> length (encrypted_header_write h) = 52"
  by (simp add: encrypted_header_write_def encrypted_magic_def)

lemma encrypted_header_read_write:
  "length (eh_nonce h) = 16 \<Longrightarrow> encrypted_header_read (encrypted_header_write h @ rest) = Some h"
  by (cases h) (simp add: encrypted_header_read_def encrypted_header_write_def encrypted_magic_def field_def)

lemma header_read_encrypted: "header_read (encrypted_header_write h @ rest) = None"
  by (simp add: header_read_def encrypted_header_write_def encrypted_magic_def header_magic_def field_def)

lemma aead_bytes_signature [simp]: "aead_bytes (h\<lparr>eh_signature := sig\<rparr>) = aead_bytes h"
  by (simp add: aead_bytes_def encrypted_header_write_def encrypted_magic_def)

lemma encrypt_decrypt:
  assumes aead: "aead_faithful pr" and random: "length random = 16"
    and enc: "encrypt_message pr c random session_id m = Inr (h, ct)" and read: "response_read pr m = Some r"
  shows "response_read pr (encrypted_header_write h @ ct) = Some (RespEncrypted h ct) \<and>
    decrypt_message pr c h ct = Inr (r, m) \<and> eh_session_id h = session_id"
proof -
  have n: "nonce_size pr c \<le> 16" using aead by (auto simp: aead_faithful_def)
  from enc have len: "length m < 2 ^ 32" by (simp add: encrypt_message_def split: if_splits)
  let ?h = "\<lparr>eh_signature = 0, eh_nonce = gen_nonce pr c random, eh_original_size = of_nat (length m), eh_session_id = session_id\<rparr>"
  from enc obtain sig where h: "h = ?h\<lparr>eh_signature := sig\<rparr>"
    and ct: "aead_encrypt pr c m (aead_bytes ?h) (eh_nonce ?h) = Some (ct, sig)"
    by (auto simp: encrypt_message_def Let_def split: if_splits option.splits)
  from aead ct have dec: "length ct = length m" "aead_decrypt pr c ct (aead_bytes ?h) (eh_nonce ?h) sig = Some m"
    unfolding aead_faithful_def by blast+
  have nonce: "length (eh_nonce h) = 16" using n random by (simp add: h gen_nonce_def)
  have "drop (nonce_size pr c) (eh_nonce h) = replicate (16 - nonce_size pr c) 0"
    using n random by (simp add: h gen_nonce_def)
  moreover have "unat (of_nat (length m) :: u32) = length m" using len by (simp add: unat_of_nat)
  moreover have "aead_bytes h = aead_bytes ?h" by (simp only: h aead_bytes_signature)
  moreover have "eh_nonce h = eh_nonce ?h" "eh_signature h = sig" "eh_original_size h = of_nat (length m)" by (simp_all add: h)
  ultimately have "decrypt_message pr c h ct = Inr (r, m)"
    using dec read by (simp only: decrypt_message_def) (simp add: list_ex_iff)
  moreover have "response_read pr (encrypted_header_write h @ ct) = Some (RespEncrypted h ct)"
    using encrypted_header_read_write [OF nonce] length_encrypted_header_write [OF nonce]
    by (simp add: response_read_def header_read_encrypted)
  ultimately show ?thesis by (simp add: h)
qed

end
