(* ===== verification/Wire_Pipeline.thy ===== *)
theory Wire_Pipeline
  imports Message_Security
begin

text \<open>
  The wire pipeline of a connection (runtime/wire.rs): from requests to protected frames and from
  frames to verified responses, over the table of sessions, the negotiated configuration, the
  preauthentication hash and the one-shot signers of session setup. Operations that change the
  state return it with their result, also when they fail. Locks are taken one at a time and never
  held across a call, so a call is a function of the state; where the code runs the MAC (inline,
  on a worker, in a batch) does not show.
\<close>

section \<open>State\<close>

record ('s, 'c) session_entry =
  se_session :: "'c session_info"
  se_channel :: "'s channel_info option"

record ('s, 'c) wire_pipeline =
  wp_sessions :: "(u64, ('s, 'c) session_entry) table"
  wp_compress :: "compression_capabilities option"
  wp_negotiated :: bool
  wp_conn_info :: "connection_info option"
  wp_preauth :: preauth_hash_state
  wp_setup_signers :: "(u64, 's) table"

definition wire_default :: "('s, 'c) wire_pipeline" where
  "wire_default = \<lparr>wp_sessions = [], wp_compress = None, wp_negotiated = False, wp_conn_info = None,
     wp_preauth = PreauthUnsupported, wp_setup_signers = []\<rparr>"

definition wire_negotiated :: "connection_info \<Rightarrow> ('s, 'c) wire_pipeline \<Rightarrow> wire_error + ('s, 'c) wire_pipeline" where
  "wire_negotiated info w =
     (if wp_negotiated w then Inl WireInvalidState
      else Inr (w\<lparr>wp_compress := (if supports_compression (ci_dialect info) \<and> compression_enabled (ci_config info)
                                 then np_compression (ci_negotiation info) else wp_compress w),
                  wp_preauth := ci_preauth_hash info, wp_conn_info := Some info, wp_negotiated := True\<rparr>))"

definition snapshot_preauth_finalized :: "('s, 'c) wire_pipeline \<Rightarrow> wire_error + bytes option" where
  "snapshot_preauth_finalized w =
     (case preauth_finish (wp_preauth w) of
        Inl e \<Rightarrow> Inl (WireSession e)
      | Inr (PreauthFinished v) \<Rightarrow> Inr (Some v)
      | Inr PreauthUnsupported \<Rightarrow> Inr None
      | Inr (PreauthInProgress _) \<Rightarrow> Inl WireInvalidState)"

definition reset_preauth_to_negotiate :: "('s, 'c) wire_pipeline \<Rightarrow> wire_error + ('s, 'c) wire_pipeline" where
  "reset_preauth_to_negotiate w =
     (case wp_conn_info w of
        None \<Rightarrow> Inl WireInvalidState
      | Some info \<Rightarrow> Inr (w\<lparr>wp_preauth := ci_preauth_hash info, wp_setup_signers := []\<rparr>))"

definition derive_setup_phase_signer :: "('s, 'c) crypto \<Rightarrow> bytes \<Rightarrow> ('s, 'c) wire_pipeline \<Rightarrow> wire_error + 's" where
  "derive_setup_phase_signer cr key w =
     (case wp_conn_info w of
        None \<Rightarrow> Inl WireInvalidState
      | Some info \<Rightarrow>
          (case snapshot_preauth_finalized w of
             Inl e \<Rightarrow> Inl e
           | Inr h \<Rightarrow>
               (case channel_new cr (- 1) key h info of
                  Inl e \<Rightarrow> Inl (WireSession e)
                | Inr c \<Rightarrow> (case channel_signer c of Inl e \<Rightarrow> Inl (WireSession e) | Inr s \<Rightarrow> Inr s))))"

definition participates_in_preauth_outgoing :: "header \<Rightarrow> bool" where
  "participates_in_preauth_outgoing h \<longleftrightarrow> hd_command h \<in> {CmdNegotiate, CmdSessionSetup}"

definition status_more_processing_required :: status where
  "status_more_processing_required = 0xC0000016"

definition participates_in_preauth_incoming :: "header \<Rightarrow> bool" where
  "participates_in_preauth_incoming h \<longleftrightarrow>
     hd_command h = CmdNegotiate \<or> hd_command h = CmdSessionSetup \<and> hd_status h = status_more_processing_required"

definition session_started :: "('s, 'c) session_entry \<Rightarrow> ('s, 'c) wire_pipeline \<Rightarrow> wire_error + ('s, 'c) wire_pipeline" where
  "session_started e w =
     (if \<not> wp_negotiated w then Inl WireInvalidState
      else Inr (w\<lparr>wp_sessions := AList.update (si_session_id (se_session e)) e (wp_sessions w)\<rparr>))"

definition session_ended :: "u64 \<Rightarrow> ('s, 'c) wire_pipeline \<Rightarrow> wire_error + ('s, 'c) wire_pipeline" where
  "session_ended i w =
     (case map_of (wp_sessions w) i of
        None \<Rightarrow> Inl WireInvalidState
      | Some _ \<Rightarrow> Inr (w\<lparr>wp_sessions := AList.delete i (wp_sessions w)\<rparr>))"

definition get_signer :: "u64 \<Rightarrow> ('s, 'c) wire_pipeline \<Rightarrow> wire_error + 's option" where
  "get_signer i w =
     (case map_of (wp_sessions w) i of
        None \<Rightarrow> Inl WireInvalidState
      | Some e \<Rightarrow>
          (case se_channel e of
             Some c \<Rightarrow> (case channel_signer c of Inl err \<Rightarrow> Inl (WireSession err) | Inr s \<Rightarrow> Inr (Some s))
           | None \<Rightarrow> Inr (map_of (wp_setup_signers w) i)))"

definition wire_is_binding :: "u64 \<Rightarrow> ('s, 'c) wire_pipeline \<Rightarrow> wire_error + bool" where
  "wire_is_binding i w =
     (case map_of (wp_sessions w) i of
        None \<Rightarrow> Inl WireInvalidState
      | Some e \<Rightarrow> Inr (case se_channel e of Some c \<Rightarrow> chan_binding c | None \<Rightarrow> False))"

definition get_encryptor :: "u64 \<Rightarrow> ('s, 'c) wire_pipeline \<Rightarrow> wire_error + 'c option" where
  "get_encryptor i w =
     (case map_of (wp_sessions w) i of
        None \<Rightarrow> Inl WireInvalidState
      | Some e \<Rightarrow> (case session_encryptor (se_session e) of Inl err \<Rightarrow> Inl (WireSession err) | Inr c \<Rightarrow> Inr c))"

definition get_decryptor :: "u64 \<Rightarrow> ('s, 'c) wire_pipeline \<Rightarrow> wire_error + 'c option" where
  "get_decryptor i w =
     (case map_of (wp_sessions w) i of
        None \<Rightarrow> Inl WireInvalidState
      | Some e \<Rightarrow> (case session_decryptor (se_session e) of Inl err \<Rightarrow> Inl (WireSession err) | Inr c \<Rightarrow> Inr c))"

section \<open>Outgoing\<close>

definition build :: "build_error + 'a \<Rightarrow> wire_error + 'a" where
  "build r = (case r of Inl e \<Rightarrow> Inl (WireBuild e) | Inr x \<Rightarrow> Inr x)"

definition protect_wire_with ::
  "('s, 'c) primitives \<Rightarrow> wire_message \<Rightarrow> compression_capabilities option \<Rightarrow> 'c option \<Rightarrow> bytes \<Rightarrow> u64 \<Rightarrow> wire_error + bytes list" where
  "protect_wire_with pr wire compressor cipher random i =
     (if compressor = None \<and> cipher = None then send_frame_from_segments (into_segments wire) None
      else
        let prefix = (if cipher = None then 0 else 52) in
        (case (case compressor of
                 Some caps \<Rightarrow>
                   (case into_contiguous 0 wire of
                      Inl e \<Rightarrow> Inl (WireBuild e)
                    | Inr plain \<Rightarrow> (case compress_transform (lz4_lib pr) caps prefix plain of
                                     Inl e \<Rightarrow> Inl (WireCompression e) | Inr t \<Rightarrow> Inr t))
               | None \<Rightarrow> build (into_contiguous prefix wire)) of
           Inl e \<Rightarrow> Inl e
         | Inr transformed \<Rightarrow>
             (case cipher of
                None \<Rightarrow> if transformed = [] then Inl WireFrame else send_frame_from_segments [transformed] (Some 1)
              | Some c \<Rightarrow>
                  (case encrypt_message pr c random i (drop 52 transformed) of
                     Inl e \<Rightarrow> Inl e
                   | Inr (h, ct) \<Rightarrow> send_frame_from_segments [encrypted_header_write h @ ct] (Some 1)))))"

definition protect_wire ::
  "('s, 'c) primitives \<Rightarrow> wire_message \<Rightarrow> bool \<Rightarrow> bytes \<Rightarrow> u64 \<Rightarrow> ('s, 'c) wire_pipeline \<Rightarrow> wire_error + bytes list" where
  "protect_wire pr wire encrypt random i w =
     (let compressor = (if 1024 < wm_total_len wire then wp_compress w else None) in
      if encrypt then
        (case get_encryptor i w of
           Inl e \<Rightarrow> Inl e
         | Inr None \<Rightarrow> Inl (TransformFailed EncryptDecrypt)
         | Inr (Some c) \<Rightarrow> protect_wire_with pr wire compressor (Some c) random i)
      else protect_wire_with pr wire compressor None random i)"

definition sign_member ::
  "('s, 'c) primitives \<Rightarrow> 's \<Rightarrow> nat \<Rightarrow> header \<Rightarrow> wire_builder \<Rightarrow> wire_error + wire_builder" where
  "sign_member pr k i h b =
     (case signing_segments i b of
        Inl e \<Rightarrow> Inl (WireBuild e)
      | Inr segments \<Rightarrow>
          if 2 ^ 64 \<le> length (concat segments) then Inl WireInvalidMessage
          else (case signature_for_segments pr k h segments of
                  Inl e \<Rightarrow> Inl e
                | Inr sig \<Rightarrow> build (patch_signature i sig b)))"

fun sign_members ::
  "('s, 'c) primitives \<Rightarrow> 's \<Rightarrow> nat \<Rightarrow> plain_request list \<Rightarrow> wire_builder \<Rightarrow> wire_error + wire_builder" where
  "sign_members pr k i [] b = Inr b"
| "sign_members pr k i (r # rs) b =
     (case sign_member pr k i (req_header r) b of
        Inl e \<Rightarrow> Inl e
      | Inr b \<Rightarrow> sign_members pr k (Suc i) rs b)"

definition seal_signed :: "wire_builder \<Rightarrow> wire_error + wire_message" where
  "seal_signed b = (case finish_signed b of Inl e \<Rightarrow> Inl (WireBuild e) | Inr b \<Rightarrow> build (seal b))"

definition seal_unsigned :: "wire_builder \<Rightarrow> wire_error + wire_message" where
  "seal_unsigned b = (case finish_unsigned b of Inl e \<Rightarrow> Inl (WireBuild e) | Inr b \<Rightarrow> build (seal b))"

definition encode_requests ::
  "plain_request list \<Rightarrow> nat \<Rightarrow> bytes option \<Rightarrow> wire_error + wire_builder \<times> plain_request list" where
  "encode_requests rs limit extra =
     (case wire_encode rs limit of
        Inl e \<Rightarrow> Inl (WireBuild e)
      | Inr (b, rs') \<Rightarrow>
          (case (case extra of None \<Rightarrow> Inr b | Some p \<Rightarrow> attach_payload p b) of
             Inl e \<Rightarrow> Inl (WireBuild e)
           | Inr b \<Rightarrow> (case finalize_offsets b of Inl e \<Rightarrow> Inl (WireBuild e) | Inr b \<Rightarrow> Inr (b, rs'))))"

definition compound_wire ::
  "('s, 'c) primitives \<Rightarrow> command_request list \<Rightarrow> ('s, 'c) wire_pipeline \<Rightarrow> wire_error + wire_message" where
  "compound_wire pr msgs w =
     (case encode_requests (map creq_message msgs) 1 None of
        Inl e \<Rightarrow> Inl e
      | Inr (b, rs) \<Rightarrow>
          let encrypt = (creq_security (hd msgs) = Some ProtEncrypt);
              should_sign = (\<not> encrypt \<and> flag_signed (hd_flags (req_header (hd rs)))) in
          if list_ex (\<lambda>m. (creq_security m = Some ProtEncrypt) \<noteq> encrypt) msgs then Inl WireInvalidArgument
          else if list_ex (\<lambda>r. flag_signed (hd_flags (req_header r)) \<noteq> should_sign) rs then Inl WireInvalidArgument
          else if should_sign then
            (case get_signer (hd_session_id (req_header (hd rs))) w of
               Inl e \<Rightarrow> Inl e
             | Inr None \<Rightarrow> Inl (TransformFailed SignVerify)
             | Inr (Some k) \<Rightarrow> (case sign_members pr k 0 rs b of Inl e \<Rightarrow> Inl e | Inr b \<Rightarrow> seal_signed b))
          else seal_unsigned b)"

definition compound_member_error :: "command_request \<Rightarrow> wire_error option" where
  "compound_member_error m =
     (if creq_additional_data m \<noteq> None then Some WireInvalidArgument
      else if creq_security m = None then Some WireInvalidState else None)"

definition transform_outgoing_compound ::
  "('s, 'c) primitives \<Rightarrow> bytes \<Rightarrow> command_request list \<Rightarrow> ('s, 'c) wire_pipeline \<Rightarrow> wire_error + bytes list" where
  "transform_outgoing_compound pr random msgs w =
     (if msgs = [] then Inl WireInvalidArgument
      else (case List.map_filter compound_member_error msgs of
          e # _ \<Rightarrow> Inl e
        | [] \<Rightarrow>
            (case compound_wire pr msgs w of
               Inl e \<Rightarrow> Inl e
             | Inr wire \<Rightarrow> protect_wire pr wire (creq_security (hd msgs) = Some ProtEncrypt) random
                 (hd_session_id (req_header (creq_message (hd msgs)))) w)))"

definition ingest :: "('s, 'c) primitives \<Rightarrow> bytes \<Rightarrow> ('s, 'c) wire_pipeline \<Rightarrow> wire_error + ('s, 'c) wire_pipeline" where
  "ingest pr bs w =
     (case preauth_next (sha512 pr) bs (wp_preauth w) of
        Inl e \<Rightarrow> Inl (WireSession e)
      | Inr h \<Rightarrow> Inr (w\<lparr>wp_preauth := h\<rparr>))"

definition outgoing_signer ::
  "('s, 'c) crypto \<Rightarrow> protection \<Rightarrow> u64 \<Rightarrow> ('s, 'c) wire_pipeline \<Rightarrow> wire_error + 's" where
  "outgoing_signer cr p i w =
     (case p of
        SnapshotKdfSign key \<Rightarrow> derive_setup_phase_signer cr key w
      | _ \<Rightarrow> (case get_signer i w of
                Inl e \<Rightarrow> Inl e
              | Inr None \<Rightarrow> Inl (TransformFailed SignVerify)
              | Inr (Some k) \<Rightarrow> Inr k))"

text \<open>After the final setup request was signed: it joins the transcript, and the signer of the
  response is derived from that.\<close>

definition setup_response_signer ::
  "('s, 'c) primitives \<Rightarrow> ('s, 'c) crypto \<Rightarrow> protection \<Rightarrow> u64 \<Rightarrow> bytes \<Rightarrow> ('s, 'c) wire_pipeline \<Rightarrow>
     ('s, 'c) wire_pipeline \<times> (wire_error + unit)" where
  "setup_response_signer pr cr p i signed_request w =
     (case p of
        SnapshotKdfSign key \<Rightarrow>
          (case ingest pr signed_request w of
             Inl e \<Rightarrow> (w, Inl e)
           | Inr w \<Rightarrow>
               (case derive_setup_phase_signer cr key w of
                  Inl e \<Rightarrow> (w, Inl e)
                | Inr k \<Rightarrow> (w\<lparr>wp_setup_signers := AList.update i k (wp_setup_signers w)\<rparr>, Inr ())))
      | _ \<Rightarrow> (w, Inr ()))"

definition outgoing_wire ::
  "('s, 'c) primitives \<Rightarrow> ('s, 'c) crypto \<Rightarrow> protection \<Rightarrow> wire_builder \<Rightarrow> header \<Rightarrow> ('s, 'c) wire_pipeline \<Rightarrow> wire_error + wire_message" where
  "outgoing_wire pr cr p b h w =
     (if signs p then
        (case outgoing_signer cr p (hd_session_id h) w of
           Inl e \<Rightarrow> Inl e
         | Inr k \<Rightarrow> (case sign_member pr k 0 h b of Inl e \<Rightarrow> Inl e | Inr b \<Rightarrow> seal_signed b))
      else seal_unsigned b)"

definition transform_outgoing ::
  "('s, 'c) primitives \<Rightarrow> ('s, 'c) crypto \<Rightarrow> bytes \<Rightarrow> bool \<Rightarrow> command_request \<Rightarrow> ('s, 'c) wire_pipeline \<Rightarrow>
     ('s, 'c) wire_pipeline \<times> (wire_error + bytes list)" where
  "transform_outgoing pr cr random cancelled m w =
     (if cancelled then (w, Inl WireCancelled)
      else (case creq_security m of
        None \<Rightarrow> (w, Inl WireInvalidState)
      | Some p \<Rightarrow>
          (case encode_requests [creq_message m] (2 ^ 64 - 1) (creq_additional_data m) of
             Inl e \<Rightarrow> (w, Inl e)
           | Inr (b, rs) \<Rightarrow>
               let h = req_header (hd rs) in
               (case (if participates_in_preauth_outgoing h \<and> \<not> (hd_command h = CmdSessionSetup \<and> flag_signed (hd_flags h))
                      then ingest pr (metadata b) w else Inr w) of
                  Inl e \<Rightarrow> (w, Inl e)
                | Inr w \<Rightarrow>
                    (case outgoing_wire pr cr p b h w of
                       Inl e \<Rightarrow> (w, Inl e)
                     | Inr wire \<Rightarrow>
                         (case setup_response_signer pr cr p (hd_session_id h) (wm_metadata wire) w of
                            (w, Inl e) \<Rightarrow> (w, Inl e)
                          | (w, Inr _) \<Rightarrow>
                              (w, protect_wire pr wire (p = ProtEncrypt) random (hd_session_id h) w)))))))"

section \<open>Incoming\<close>

definition is_binding_session_setup_signed :: "header \<Rightarrow> ('s, 'c) wire_pipeline \<Rightarrow> bool" where
  "is_binding_session_setup_signed h w \<longleftrightarrow>
     hd_command h = CmdSessionSetup \<and> hd_signature h \<noteq> 0 \<and> wire_is_binding (hd_session_id h) w = Inr True"

definition verify_plain_incoming ::
  "('s, 'c) primitives \<Rightarrow> header \<Rightarrow> bytes \<Rightarrow> message_form \<Rightarrow> ('s, 'c) wire_pipeline \<Rightarrow>
     ('s, 'c) wire_pipeline \<times> (wire_error + message_form)" where
  "verify_plain_incoming pr h raw form w =
     (if hd_status h = status_user_session_deleted \<or> hd_status h = status_network_session_expired
      then (w, Inr (form\<lparr>form_recovery_hint := True\<rparr>))
      else if form_encrypted form \<or> hd_message_id h = - 1 \<or> hd_status h = status_pending \<or>
        \<not> (flag_signed (hd_flags h) \<or> is_binding_session_setup_signed h w)
      then (w, Inr form)
      else (case get_signer (hd_session_id h) w of
              Inl e \<Rightarrow> (w, Inl e)
            | Inr None \<Rightarrow> (w, Inl (TransformFailed SignVerify))
            | Inr (Some k) \<Rightarrow>
                (case verify_signature pr k h raw of
                   Inl e \<Rightarrow> (w, Inl e)
                 | Inr _ \<Rightarrow>
                     (if hd_command h = CmdSessionSetup \<and> hd_status h = 0
                      then w\<lparr>wp_setup_signers := AList.delete (hd_session_id h) (wp_setup_signers w)\<rparr> else w,
                      Inr (form\<lparr>form_signed := True\<rparr>)))))"

definition member_slice :: "header \<Rightarrow> bytes \<Rightarrow> bytes" where
  "member_slice h remaining =
     (let next_offset = unat (hd_next_command h) in if 0 < next_offset then take next_offset remaining else remaining)"

definition ingest_incoming ::
  "('s, 'c) primitives \<Rightarrow> header \<Rightarrow> bytes \<Rightarrow> ('s, 'c) wire_pipeline \<Rightarrow> wire_error + ('s, 'c) wire_pipeline" where
  "ingest_incoming pr h bs w = (if participates_in_preauth_incoming h then ingest pr bs w else Inr w)"

text \<open>The walk over the members of a compound frame; each step takes a member off the front.\<close>

function walk_chain ::
  "('s, 'c) primitives \<Rightarrow> message_form \<Rightarrow> header \<Rightarrow> bytes \<Rightarrow> ('s, 'c) wire_pipeline \<Rightarrow>
     ('s, 'c) wire_pipeline \<times> (wire_error + wire_response list)" where
  "walk_chain pr form h remaining w =
     (let next_offset = unat (hd_next_command h); this_slice = member_slice h remaining in
      if length remaining < next_offset then (w, Inl WireInvalidMessage)
      else (case ingest_incoming pr h this_slice w of
          Inl e \<Rightarrow> (w, Inl e)
        | Inr w \<Rightarrow>
            (case verify_plain_incoming pr h this_slice form w of
               (w, Inl e) \<Rightarrow> (w, Inl (TransformFailed SignVerify))
             | (w, Inr form') \<Rightarrow>
                 let r = \<lparr>wr_header = h, wr_raw = this_slice, wr_form = form'\<rparr> in
                 if next_offset = 0 then (w, Inr [r])
                 else (case response_read pr (drop next_offset remaining) of
                         Some (RespPlain h') \<Rightarrow>
                           (case walk_chain pr form h' (drop next_offset remaining) w of
                              (w, Inl e) \<Rightarrow> (w, Inl e)
                            | (w, Inr rs) \<Rightarrow> (w, Inr (r # rs)))
                       | Some _ \<Rightarrow> (w, Inl WireInvalidMessage)
                       | None \<Rightarrow> (w, Inl WireCodec)))))"
  by pat_completeness auto
termination
  by (relation "measure (\<lambda>(pr, form, h, remaining, w). length remaining)") (auto simp: Let_def)

declare walk_chain.simps [simp del]

definition plain_form :: message_form where
  "plain_form = \<lparr>form_compressed = False, form_encrypted = False, form_signed = False, form_recovery_hint = False\<rparr>"

definition decrypt_chain ::
  "('s, 'c) primitives \<Rightarrow> response \<Rightarrow> bytes \<Rightarrow> ('s, 'c) wire_pipeline \<Rightarrow> wire_error + response \<times> bytes \<times> message_form" where
  "decrypt_chain pr r raw w =
     (case r of
        RespEncrypted eh ct \<Rightarrow>
          (case get_decryptor (eh_session_id eh) w of
             Inl e \<Rightarrow> Inl e
           | Inr None \<Rightarrow> Inl (TransformFailed EncryptDecrypt)
           | Inr (Some c) \<Rightarrow>
               (case decrypt_message pr c eh ct of
                  Inl e \<Rightarrow> Inl e
                | Inr (r', raw') \<Rightarrow> Inr (r', raw', plain_form\<lparr>form_encrypted := True\<rparr>)))
      | _ \<Rightarrow> Inr (r, raw, plain_form))"

definition decompress_chain ::
  "('s, 'c) primitives \<Rightarrow> response \<Rightarrow> bytes \<Rightarrow> message_form \<Rightarrow> ('s, 'c) wire_pipeline \<Rightarrow> wire_error + response \<times> bytes \<times> message_form" where
  "decompress_chain pr r raw form w =
     (case r of
        RespCompressed m \<Rightarrow>
          (case wp_compress w of
             None \<Rightarrow> Inl (TransformFailed CompressDecompress)
           | Some caps \<Rightarrow>
               (case decompress (lz4_lib pr) (response_read pr) caps m of
                  Inl e \<Rightarrow> Inl (WireCompression e)
                | Inr (r', bs) \<Rightarrow> Inr (r', bs, form\<lparr>form_compressed := True\<rparr>)))
      | _ \<Rightarrow> Inr (r, raw, form))"

definition transform_incoming_all ::
  "('s, 'c) primitives \<Rightarrow> bytes \<Rightarrow> ('s, 'c) wire_pipeline \<Rightarrow> ('s, 'c) wire_pipeline \<times> (wire_error + wire_response list)" where
  "transform_incoming_all pr frame w =
     (case response_read pr frame of
        None \<Rightarrow> (w, Inl WireCodec)
      | Some r \<Rightarrow>
          (case decrypt_chain pr r frame w of
             Inl e \<Rightarrow> (w, Inl e)
           | Inr (r, raw, form) \<Rightarrow>
               (case decompress_chain pr r raw form w of
                  Inl e \<Rightarrow> (w, Inl e)
                | Inr (RespPlain h, raw, form) \<Rightarrow> walk_chain pr form h raw w
                | Inr (_, _, _) \<Rightarrow> (w, Inl WireInvalidMessage))))"

end
