(* ===== verification/Segmented_Bytes.thy ===== *)
theory Segmented_Bytes
  imports Wire_Header
begin

text \<open>
  Positions in a message that is kept as a list of segments: a segment and an offset in it, as
  the readers and writers of segmented messages move them.
\<close>

text \<open>What a position has left of its message.\<close>

definition left_at :: "bytes list \<Rightarrow> nat \<Rightarrow> nat \<Rightarrow> bytes" where
  "left_at segs i off = drop off (concat (drop i segs))"

definition position_ok :: "bytes list \<Rightarrow> nat \<Rightarrow> nat \<Rightarrow> bool" where
  "position_ok segs i off \<longleftrightarrow> (if i < length segs then off \<le> length (segs ! i) else off = 0)"

lemma position_next:
  assumes "i < length segs" and "off < length (segs ! i)" and n: "n \<le> length (segs ! i) - off"
  shows "position_ok segs i (off + n)" and "left_at segs i (off + n) = drop n (left_at segs i off)"
    and "take n (drop off (segs ! i)) = take n (left_at segs i off)" and "n \<le> length (left_at segs i off)"
proof -
  have "concat (drop i segs) = segs ! i @ concat (drop (i + 1) segs)"
    using assms(1) by (simp flip: Cons_nth_drop_Suc)
  then show "position_ok segs i (off + n)" "left_at segs i (off + n) = drop n (left_at segs i off)"
    "take n (drop off (segs ! i)) = take n (left_at segs i off)" "n \<le> length (left_at segs i off)"
    using assms by (simp_all add: left_at_def position_ok_def add.commute)
qed

lemma left_at_segment:
  assumes "i < length segs"
  shows "left_at segs i (length (segs ! i)) = left_at segs (i + 1) 0"
    and "off \<le> length (segs ! i) \<Longrightarrow> left_at segs i off = drop off (segs ! i) @ concat (drop (i + 1) segs)"
proof -
  have "concat (drop i segs) = segs ! i @ concat (drop (i + 1) segs)" using assms by (simp flip: Cons_nth_drop_Suc)
  then show "left_at segs i (length (segs ! i)) = left_at segs (i + 1) 0"
    and "off \<le> length (segs ! i) \<Longrightarrow> left_at segs i off = drop off (segs ! i) @ concat (drop (i + 1) segs)"
    by (simp_all add: left_at_def)
qed

lemma left_at_past: "position_ok segs i off \<Longrightarrow> length segs \<le> i \<Longrightarrow> left_at segs i off = []"
  by (simp add: left_at_def)

end
