(* ===== verification/Cmac_Batch.thy ===== *)
theory Cmac_Batch
  imports Segmented_Bytes
begin

unbundle bit_operations_syntax

text \<open>
  AES-CMAC over several messages at once (crypto/cmac_batch.rs): four lanes advance one block
  of four different messages per cipher call and are refilled as messages end. The block cipher
  is a parameter. An arithmetic or indexing panic of the code is the value \<open>CmacPanic\<close>.
\<close>

section \<open>Model\<close>

datatype cmac_error = CmacInputTooLong | CmacPanic

type_synonym block = bytes

definition zero_block :: block where
  "zero_block = replicate 16 0"

definition portable_cmac_lanes :: nat where
  "portable_cmac_lanes = 4"

definition xor_block :: "block \<Rightarrow> block \<Rightarrow> block" where
  "xor_block target input = map2 (XOR) target input @ drop (length input) target"

fun shift_left :: "block \<Rightarrow> block \<times> u8" where
  "shift_left [] = ([], 0)"
| "shift_left (b # bs) = (let (bs', carry) = shift_left bs in ((push_bit 1 b OR carry) # bs', drop_bit 7 b))"

definition double_block :: "block \<Rightarrow> block" where
  "double_block input =
     (let (output, carry) = shift_left input in if carry \<noteq> 0 then output[15 := output ! 15 XOR 0x87] else output)"

record batch_cmac =
  bc_cipher :: "block \<Rightarrow> block"
  complete_subkey :: block
  partial_subkey :: block

definition batch_cmac_new :: "(block \<Rightarrow> block) \<Rightarrow> batch_cmac" where
  "batch_cmac_new cipher =
     (let complete = double_block (cipher zero_block) in
      \<lparr>bc_cipher = cipher, complete_subkey = complete, partial_subkey = double_block complete\<rparr>)"

record message_cursor =
  cur_segments :: "bytes list"
  segment_index :: nat
  segment_offset :: nat
  total_len :: nat
  blocks_remaining :: nat

fun checked_total :: "nat \<Rightarrow> bytes list \<Rightarrow> nat option" where
  "checked_total n [] = Some n"
| "checked_total n (s # ss) = (if n + length s < 2 ^ 64 then checked_total (n + length s) ss else None)"

definition message_cursor_new :: "bytes list \<Rightarrow> message_cursor option" where
  "message_cursor_new segments =
     map_option (\<lambda>n. \<lparr>cur_segments = segments, segment_index = 0, segment_offset = 0, total_len = n,
       blocks_remaining = max ((n + 15) div 16) 1\<rparr>) (checked_total 0 segments)"

text \<open>The loop of \<open>read_block\<close>: position, the block and how much of it is filled. A position
  behind the end of its segment would make the slice panic.\<close>

function read_loop :: "bytes list \<Rightarrow> nat \<Rightarrow> nat \<Rightarrow> block \<Rightarrow> nat \<Rightarrow> (nat \<times> nat \<times> block \<times> nat) option" where
  "read_loop segs i off b filled =
     (if filled < 16 \<and> i < length segs then
        let s = segs ! i in
        if off = length s then read_loop segs (i + 1) 0 b filled
        else if length s < off then None
        else let n = min (length s - off) (16 - filled) in
          read_loop segs i (off + n) (take filled b @ take n (drop off s) @ drop (filled + n) b) (filled + n)
      else Some (i, off, b, filled))"
  by pat_completeness auto
termination
  by (relation "measures [\<lambda>(segs, i, off, b, filled). length segs - i, \<lambda>(segs, i, off, b, filled). 16 - filled]")
    (auto simp: min_def Let_def)

declare read_loop.simps [simp del]

definition read_block :: "message_cursor \<Rightarrow> (message_cursor \<times> block \<times> nat) option" where
  "read_block c =
     map_option (\<lambda>(i, off, b, filled). (c\<lparr>segment_index := i, segment_offset := off\<rparr>, b, filled))
       (read_loop (cur_segments c) (segment_index c) (segment_offset c) zero_block 0)"

definition is_complete_final_block :: "message_cursor \<Rightarrow> bool" where
  "is_complete_final_block c \<longleftrightarrow> total_len c \<noteq> 0 \<and> total_len c mod 16 = 0"

record lane =
  input_index :: nat
  lane_cursor :: message_cursor
  lane_state :: block

fun fill_idle_lanes ::
  "lane option list \<Rightarrow> message_cursor option list \<Rightarrow> nat \<Rightarrow> lane option list \<times> message_cursor option list \<times> nat" where
  "fill_idle_lanes [] cs nxt = ([], cs, nxt)"
| "fill_idle_lanes (Some l # ls) cs nxt = (let (ls', r) = fill_idle_lanes ls cs nxt in (Some l # ls', r))"
| "fill_idle_lanes (None # ls) cs nxt =
     (case (if nxt < length cs then cs ! nxt else None) of
        None \<Rightarrow> (None # ls, cs, nxt)
      | Some c \<Rightarrow>
          let (ls', r) = fill_idle_lanes ls (cs[nxt := None]) (nxt + 1) in
          (Some \<lparr>input_index = nxt, lane_cursor = c, lane_state = zero_block\<rparr> # ls', r))"

text \<open>The block a lane gives to the cipher.\<close>

definition lane_input :: "batch_cmac \<Rightarrow> lane \<Rightarrow> (lane \<times> block) option" where
  "lane_input bc l =
     (case read_block (lane_cursor l) of
        None \<Rightarrow> None
      | Some (c, b, filled) \<Rightarrow>
          (case (if blocks_remaining c = 1 then
                   if is_complete_final_block c then Some (xor_block b (complete_subkey bc))
                   else if filled < 16 then Some (xor_block (b[filled := 0x80]) (partial_subkey bc)) else None
                 else Some b) of
             None \<Rightarrow> None
           | Some b \<Rightarrow> Some (l\<lparr>lane_cursor := c\<rparr>, xor_block (lane_state l) b)))"

fun lane_inputs :: "batch_cmac \<Rightarrow> lane option list \<Rightarrow> (lane option \<times> block) list option" where
  "lane_inputs bc [] = Some []"
| "lane_inputs bc (None # ls) = map_option ((#) (None, zero_block)) (lane_inputs bc ls)"
| "lane_inputs bc (Some l # ls) =
     (case lane_input bc l of
        None \<Rightarrow> None
      | Some (l', b) \<Rightarrow> map_option ((#) (Some l', b)) (lane_inputs bc ls))"

text \<open>What becomes of a lane when the cipher has run: its signature is stored when its message is done.\<close>

definition lane_output :: "lane \<Rightarrow> block \<Rightarrow> u128 list \<Rightarrow> (lane option \<times> u128 list) option" where
  "lane_output l state sigs =
     (let c = lane_cursor l in
      if blocks_remaining c = 0 then None
      else if blocks_remaining c = 1 then
        if input_index l < length sigs then Some (None, sigs[input_index l := le_word state]) else None
      else Some (Some (l\<lparr>lane_state := state, lane_cursor := c\<lparr>blocks_remaining := blocks_remaining c - 1\<rparr>\<rparr>), sigs))"

fun lane_outputs :: "(lane option \<times> block) list \<Rightarrow> u128 list \<Rightarrow> (lane option list \<times> u128 list) option" where
  "lane_outputs [] sigs = Some ([], sigs)"
| "lane_outputs ((None, state) # ls) sigs = map_option (\<lambda>(ls', sigs). (None # ls', sigs)) (lane_outputs ls sigs)"
| "lane_outputs ((Some l, state) # ls) sigs =
     (case lane_output l state sigs of
        None \<Rightarrow> None
      | Some (l', sigs) \<Rightarrow> map_option (\<lambda>(ls', sigs). (l' # ls', sigs)) (lane_outputs ls sigs))"

definition step_lanes :: "batch_cmac \<Rightarrow> lane option list \<Rightarrow> u128 list \<Rightarrow> (lane option list \<times> u128 list) option" where
  "step_lanes bc ls sigs =
     (case lane_inputs bc ls of
        None \<Rightarrow> None
      | Some inputs \<Rightarrow> lane_outputs (map (\<lambda>(l, b). (l, bc_cipher bc b)) inputs) sigs)"

partial_function (option) lanes_loop ::
  "batch_cmac \<Rightarrow> lane option list \<Rightarrow> message_cursor option list \<Rightarrow> nat \<Rightarrow> u128 list \<Rightarrow> (cmac_error + u128 list) option" where
  "lanes_loop bc ls cs nxt sigs =
     (if list_ex (\<lambda>l. l \<noteq> None) ls then
        (case step_lanes bc ls sigs of
           None \<Rightarrow> Some (Inl CmacPanic)
         | Some (ls, sigs) \<Rightarrow> (case fill_idle_lanes ls cs nxt of (ls, cs, nxt) \<Rightarrow> lanes_loop bc ls cs nxt sigs))
      else Some (Inr sigs))"

definition sign_batch :: "batch_cmac \<Rightarrow> bytes list list \<Rightarrow> (cmac_error + u128 list) option" where
  "sign_batch bc inputs =
     (let cursors = map message_cursor_new inputs in
      if None \<in> set cursors then Some (Inl CmacInputTooLong)
      else (case fill_idle_lanes (replicate portable_cmac_lanes None) cursors 0 of
              (ls, cs, nxt) \<Rightarrow> lanes_loop bc ls cs nxt (replicate (length inputs) 0)))"

section \<open>The reference\<close>

text \<open>AES-CMAC as RFC 4493 defines it, on the joined message.\<close>

function cmac_chain :: "batch_cmac \<Rightarrow> block \<Rightarrow> bytes \<Rightarrow> block" where
  "cmac_chain bc x m =
     (if length m \<le> 16 then
        bc_cipher bc (xor_block x (if length m = 16 then xor_block m (complete_subkey bc)
          else xor_block (m @ 0x80 # replicate (15 - length m) 0) (partial_subkey bc)))
      else cmac_chain bc (bc_cipher bc (xor_block x (take 16 m))) (drop 16 m))"
  by pat_completeness auto
termination
  by (relation "measure (\<lambda>(bc, x, m). length m)") auto

declare cmac_chain.simps [simp del]

definition cmac :: "batch_cmac \<Rightarrow> bytes \<Rightarrow> u128" where
  "cmac bc m = le_word (cmac_chain bc zero_block m)"

section \<open>One lane\<close>

lemma read_loop_inside:
  assumes "filled < 16" and i: "i < length segs" and off: "off < length (segs ! i)" and pre: "length pre = filled"
    and n: "n = min (length (segs ! i) - off) (16 - filled)"
  shows "read_loop segs i off (pre @ replicate (16 - filled) 0) filled =
    read_loop segs i (off + n) ((pre @ take n (left_at segs i off)) @ replicate (16 - (filled + n)) 0) (filled + n)"
proof -
  have "read_loop segs i off (pre @ replicate (16 - filled) 0) filled =
    read_loop segs i (off + n) (pre @ take n (drop off (segs ! i)) @ drop n (replicate (16 - filled) 0)) (filled + n)"
    using assms by (subst read_loop.simps) (simp add: Let_def)
  also have "take n (drop off (segs ! i)) = take n (left_at segs i off)"
    by (rule position_next(3) [OF i off]) (simp add: n)
  finally show ?thesis by simp
qed

lemma read_loop_reads:
  "position_ok segs i off \<Longrightarrow> length pre = filled \<Longrightarrow> filled \<le> 16 \<Longrightarrow> b = pre @ replicate (16 - filled) 0 \<Longrightarrow>
   \<exists>i' off'. read_loop segs i off b filled =
       Some (i', off', pre @ take (16 - filled) (left_at segs i off) @
         replicate (16 - filled - length (left_at segs i off)) 0, filled + min (16 - filled) (length (left_at segs i off))) \<and>
     position_ok segs i' off' \<and> left_at segs i' off' = drop (16 - filled) (left_at segs i off)"
proof (induction "(length segs - i) + (16 - filled)" arbitrary: i off pre filled b rule: less_induct)
  case less
  note ok = less.prems(1) and pre = less.prems(2) and le = less.prems(3) and b = less.prems(4)
  show ?case
  proof (cases "filled < 16 \<and> i < length segs")
    case False
    then have "read_loop segs i off b filled = Some (i, off, b, filled)" by (subst read_loop.simps) auto
    moreover have "filled = 16 \<or> left_at segs i off = []" using False ok le by (auto simp: left_at_def position_ok_def)
    ultimately show ?thesis using ok b by (elim disjE) (simp_all add: pre)
  next
    case True
    show ?thesis
    proof (cases "off = length (segs ! i)")
      case at_end: True
      have "concat (drop i segs) = segs ! i @ concat (drop (i + 1) segs)" using True by (simp flip: Cons_nth_drop_Suc)
      then have "left_at segs i off = left_at segs (i + 1) 0" by (simp add: left_at_def at_end)
      moreover have "read_loop segs i off b filled = read_loop segs (i + 1) 0 b filled"
        using True at_end by (subst read_loop.simps) (simp add: Let_def)
      moreover have "position_ok segs (i + 1) 0" by (simp add: position_ok_def)
      moreover have "length segs - (i + 1) + (16 - filled) < length segs - i + (16 - filled)" using True by linarith
      ultimately show ?thesis using less.hyps [OF _ _ pre le b, of "i + 1" 0] by simp
    next
      case inside: False
      let ?s = "segs ! i" and ?L = "left_at segs i off"
      define n where "n = min (length ?s - off) (16 - filled)"
      have off: "off < length ?s" using inside ok True by (simp add: position_ok_def)
      have n: "n \<le> length ?s - off" "filled + n \<le> 16" using le by (auto simp: n_def)
      note next_pos = position_next [OF conjunct2 [OF True] off n(1)]
      have step: "read_loop segs i off b filled =
          read_loop segs i (off + n) ((pre @ take n ?L) @ replicate (16 - (filled + n)) 0) (filled + n)"
        using read_loop_inside [OF _ _ off pre n_def] True by (simp add: b)
      let ?L' = "drop n ?L"
      have len: "length (pre @ take n ?L) = filled + n" using pre next_pos(4) by simp
      have "0 < n" using True off by (simp add: n_def)
      then have "length segs - i + (16 - (filled + n)) < length segs - i + (16 - filled)" using True by linarith
      from less.hyps [OF this next_pos(1) len n(2) refl] obtain i' off'
        where out: "read_loop segs i off b filled = Some (i', off', (pre @ take n ?L) @ take (16 - (filled + n)) ?L' @
          replicate (16 - (filled + n) - length ?L') 0, filled + n + min (16 - (filled + n)) (length ?L'))"
        and pos: "position_ok segs i' off'" "left_at segs i' off' = drop (16 - (filled + n)) ?L'"
        unfolding step next_pos(2) by blast
      have "take (16 - filled) ?L = take n ?L @ take (16 - (filled + n)) ?L'"
        using n(2) take_add [of n "16 - (filled + n)" ?L] by simp
      moreover have "filled + n + min (16 - (filled + n)) (length ?L') = filled + min (16 - filled) (length ?L)"
        using n(2) next_pos(4) by (simp add: min_def) linarith
      moreover have "16 - (filled + n) - length ?L' = 16 - filled - length ?L" using n(2) next_pos(4) by simp
      moreover have "drop (16 - (filled + n)) ?L' = drop (16 - filled) ?L" using n(2) by simp
      ultimately show ?thesis using out pos by simp
    qed
  qed
qed

definition cursor_left :: "message_cursor \<Rightarrow> bytes" where
  "cursor_left c = left_at (cur_segments c) (segment_index c) (segment_offset c)"

definition cursor_ok :: "message_cursor \<Rightarrow> bool" where
  "cursor_ok c \<longleftrightarrow> position_ok (cur_segments c) (segment_index c) (segment_offset c) \<and>
     blocks_remaining c = max 1 ((length (cursor_left c) + 15) div 16) \<and>
     (is_complete_final_block c \<longleftrightarrow> cursor_left c \<noteq> [] \<and> length (cursor_left c) mod 16 = 0)"

lemma read_block_reads:
  assumes "cursor_ok c"
  shows "\<exists>c'. read_block c = Some (c', take 16 (cursor_left c) @ replicate (16 - length (cursor_left c)) 0,
      min 16 (length (cursor_left c))) \<and>
    position_ok (cur_segments c') (segment_index c') (segment_offset c') \<and> cursor_left c' = drop 16 (cursor_left c) \<and>
    blocks_remaining c' = blocks_remaining c \<and> is_complete_final_block c' = is_complete_final_block c"
  using assms read_loop_reads [of "cur_segments c" "segment_index c" "segment_offset c" "[]" 0 zero_block]
  by (auto simp: cursor_ok_def read_block_def cursor_left_def zero_block_def is_complete_final_block_def)

text \<open>What the message of a lane will be signed with.\<close>

definition lane_value :: "batch_cmac \<Rightarrow> lane \<Rightarrow> block" where
  "lane_value bc l = cmac_chain bc (lane_state l) (cursor_left (lane_cursor l))"

lemma one_block: "max 1 ((n + 15) div 16) = Suc 0 \<longleftrightarrow> n \<le> 16" for n :: nat
  by linarith

lemma lane_last:
  assumes ok: "cursor_ok (lane_cursor l)" and one: "blocks_remaining (lane_cursor l) = 1"
  shows "\<exists>l' b. lane_input bc l = Some (l', b) \<and> bc_cipher bc b = lane_value bc l \<and>
    input_index l' = input_index l \<and> blocks_remaining (lane_cursor l') = 1"
proof -
  let ?c = "lane_cursor l" and ?m = "cursor_left (lane_cursor l)"
  from read_block_reads [OF ok] obtain c' where rb: "read_block ?c = Some (c', take 16 ?m @ replicate (16 - length ?m) 0, min 16 (length ?m))"
    and c': "blocks_remaining c' = 1" "is_complete_final_block c' = is_complete_final_block ?c" using one by auto
  have short: "length ?m \<le> 16" using ok one one_block [of "length ?m"] by (simp add: cursor_ok_def)
  show ?thesis
  proof (cases "length ?m = 16")
    case True
    then have "is_complete_final_block c'" using c'(2) ok by (auto simp: cursor_ok_def)
    with True show ?thesis by (simp add: lane_input_def rb c' lane_value_def cmac_chain.simps [of bc _ ?m])
  next
    case False
    with short have lt: "length ?m < 16" by simp
    then have "length ?m mod 16 = length ?m" by simp
    then have partial: "\<not> is_complete_final_block c'" using c'(2) ok by (auto simp: cursor_ok_def)
    have "replicate (16 - length ?m) (0 :: u8) = 0 # replicate (15 - length ?m) 0"
      using lt by (simp flip: replicate_Suc add: Suc_diff_le)
    then have "(?m @ replicate (16 - length ?m) 0)[length ?m := 0x80] = ?m @ 0x80 # replicate (15 - length ?m) 0" by simp
    with lt partial show ?thesis
      by (simp add: lane_input_def rb c' lane_value_def cmac_chain.simps [of bc _ ?m] min_def)
  qed
qed

lemma lane_more:
  assumes ok: "cursor_ok (lane_cursor l)" and more: "blocks_remaining (lane_cursor l) \<noteq> 1"
  shows "\<exists>l' b. lane_input bc l = Some (l', b) \<and>
    (\<forall>sigs. \<exists>l''. lane_output l' (bc_cipher bc b) sigs = Some (Some l'', sigs) \<and> cursor_ok (lane_cursor l'') \<and>
       lane_value bc l'' = lane_value bc l \<and> input_index l'' = input_index l \<and>
       Suc (blocks_remaining (lane_cursor l'')) = blocks_remaining (lane_cursor l))"
proof -
  let ?c = "lane_cursor l" and ?m = "cursor_left (lane_cursor l)"
  have n: "blocks_remaining ?c = max 1 ((length ?m + 15) div 16)" using ok by (simp add: cursor_ok_def)
  then have positive: "0 < blocks_remaining ?c" by simp
  have long: "16 < length ?m" using n more one_block [of "length ?m"] by simp
  from read_block_reads [OF ok] long obtain c' where rb: "read_block ?c = Some (c', take 16 ?m, 16)"
    and pos: "position_ok (cur_segments c') (segment_index c') (segment_offset c')" and left: "cursor_left c' = drop 16 ?m"
    and c': "blocks_remaining c' = blocks_remaining ?c" "is_complete_final_block c' = is_complete_final_block ?c" by auto
  let ?b = "xor_block (lane_state l) (take 16 ?m)" and ?n = "blocks_remaining c' - 1"
  have inp: "lane_input bc l = Some (l\<lparr>lane_cursor := c'\<rparr>, ?b)" using more by (simp add: lane_input_def rb c')
  let ?l = "l\<lparr>lane_state := bc_cipher bc ?b, lane_cursor := c'\<lparr>blocks_remaining := ?n\<rparr>\<rparr>"
  have outp: "lane_output (l\<lparr>lane_cursor := c'\<rparr>) (bc_cipher bc ?b) sigs = Some (Some ?l, sigs)" for sigs
    using more positive by (simp add: lane_output_def c' Let_def)
  have "(length ?m + 15) div 16 = Suc ((length ?m - 16 + 15) div 16)" using long by linarith
  moreover have "1 \<le> (length ?m - 16 + 15) div 16" using long by linarith
  ultimately have blocks: "?n = max 1 ((length ?m - 16 + 15) div 16)" "Suc ?n = blocks_remaining ?c" by (simp_all add: c' n)
  have "length ?m mod 16 = (length ?m - 16) mod 16" using long by (simp add: le_mod_geq)
  then have "cursor_ok (lane_cursor ?l)"
    using pos ok blocks(1) long c'(2) left by (auto simp: cursor_ok_def cursor_left_def is_complete_final_block_def)
  moreover have "lane_value bc ?l = lane_value bc l"
  proof -
    have "cursor_left (lane_cursor ?l) = drop 16 ?m" using left by (simp add: cursor_left_def)
    then show ?thesis using long by (simp add: lane_value_def cmac_chain.simps [of bc "lane_state l" ?m])
  qed
  moreover have "Suc (blocks_remaining (lane_cursor ?l)) = blocks_remaining ?c" using blocks(2) by simp
  moreover have "input_index ?l = input_index l" by simp
  ultimately have "\<forall>sigs. \<exists>l''. lane_output (l\<lparr>lane_cursor := c'\<rparr>) (bc_cipher bc ?b) sigs = Some (Some l'', sigs) \<and>
      cursor_ok (lane_cursor l'') \<and> lane_value bc l'' = lane_value bc l \<and> input_index l'' = input_index l \<and>
      Suc (blocks_remaining (lane_cursor l'')) = blocks_remaining ?c" using outp by blast
  with inp show ?thesis by blast
qed

section \<open>All lanes\<close>

definition lane_ok :: "batch_cmac \<Rightarrow> bytes list \<Rightarrow> lane \<Rightarrow> bool" where
  "lane_ok bc ms l \<longleftrightarrow> cursor_ok (lane_cursor l) \<and> input_index l < length ms \<and>
     le_word (lane_value bc l) = cmac bc (ms ! input_index l)"

abbreviation lanes_ok :: "batch_cmac \<Rightarrow> bytes list \<Rightarrow> lane option list \<Rightarrow> bool" where
  "lanes_ok bc ms ls \<equiv> \<forall>l. Some l \<in> set ls \<longrightarrow> lane_ok bc ms l"

fun lane_blocks :: "lane option \<Rightarrow> nat" where
  "lane_blocks None = 0"
| "lane_blocks (Some l) = blocks_remaining (lane_cursor l)"

text \<open>The signatures after some steps: changed only to the right value.\<close>

definition advanced :: "batch_cmac \<Rightarrow> bytes list \<Rightarrow> u128 list \<Rightarrow> u128 list \<Rightarrow> bool" where
  "advanced bc ms sigs sigs' \<longleftrightarrow> length sigs' = length sigs \<and>
     (\<forall>i < length sigs. sigs' ! i = sigs ! i \<or> sigs' ! i = cmac bc (ms ! i))"

lemma advanced_refl [simp]: "advanced bc ms sigs sigs"
  by (simp add: advanced_def)

lemma advanced_trans: "advanced bc ms s s' \<Longrightarrow> advanced bc ms s' s'' \<Longrightarrow> advanced bc ms s s''"
  by (auto simp: advanced_def) metis

lemma advanced_keeps: "advanced bc ms s s' \<Longrightarrow> i < length s \<Longrightarrow> s ! i = cmac bc (ms ! i) \<Longrightarrow> s' ! i = cmac bc (ms ! i)"
  by (auto simp: advanced_def)

lemma lane_step:
  assumes ok: "lane_ok bc ms l" and len: "length sigs = length ms"
  shows "\<exists>l' b x sigs'. lane_input bc l = Some (l', b) \<and> lane_output l' (bc_cipher bc b) sigs = Some (x, sigs') \<and>
    advanced bc ms sigs sigs' \<and> Suc (lane_blocks x) = lane_blocks (Some l) \<and>
    (case x of None \<Rightarrow> sigs' ! input_index l = cmac bc (ms ! input_index l)
     | Some l'' \<Rightarrow> lane_ok bc ms l'' \<and> input_index l'' = input_index l)"
proof (cases "blocks_remaining (lane_cursor l) = 1")
  case True
  have "cursor_ok (lane_cursor l)" using ok by (simp add: lane_ok_def)
  from lane_last [OF this True] obtain l' b where "lane_input bc l = Some (l', b)" "bc_cipher bc b = lane_value bc l"
    "input_index l' = input_index l" "blocks_remaining (lane_cursor l') = 1" by blast
  with True ok len show ?thesis by (auto simp: lane_output_def lane_ok_def advanced_def nth_list_update)
next
  case False
  have "cursor_ok (lane_cursor l)" using ok by (simp add: lane_ok_def)
  from lane_more [OF this False] obtain l' b where inp: "lane_input bc l = Some (l', b)"
    and outp: "\<forall>sigs. \<exists>l''. lane_output l' (bc_cipher bc b) sigs = Some (Some l'', sigs) \<and> cursor_ok (lane_cursor l'') \<and>
       lane_value bc l'' = lane_value bc l \<and> input_index l'' = input_index l \<and>
       Suc (blocks_remaining (lane_cursor l'')) = blocks_remaining (lane_cursor l)" by blast
  from outp [rule_format, of sigs] obtain l'' where "lane_output l' (bc_cipher bc b) sigs = Some (Some l'', sigs)"
    "cursor_ok (lane_cursor l'')" "lane_value bc l'' = lane_value bc l" "input_index l'' = input_index l"
    "Suc (blocks_remaining (lane_cursor l'')) = blocks_remaining (lane_cursor l)" by blast
  with inp ok show ?thesis
    by (intro exI [of _ l'] exI [of _ b] exI [of _ "Some l''"] exI [of _ sigs]) (simp add: lane_ok_def)
qed

lemma step_lanes_simps:
  "step_lanes bc [] sigs = Some ([], sigs)"
  "step_lanes bc (None # ls) sigs = map_option (\<lambda>(ls', sigs). (None # ls', sigs)) (step_lanes bc ls sigs)"
  "lane_input bc l = Some (l', b) \<Longrightarrow> lane_output l' (bc_cipher bc b) sigs = Some (x, sigs') \<Longrightarrow>
     step_lanes bc (Some l # ls) sigs = map_option (\<lambda>(ls', sigs). (x # ls', sigs)) (step_lanes bc ls sigs')"
  by (simp_all add: step_lanes_def split: option.split)

lemma step_lanes_ok:
  assumes "lanes_ok bc ms ls" and "length sigs = length ms"
  shows "\<exists>ls' sigs'. step_lanes bc ls sigs = Some (ls', sigs') \<and> length ls' = length ls \<and> lanes_ok bc ms ls' \<and>
    advanced bc ms sigs sigs' \<and>
    sum_list (map lane_blocks ls') + length (filter (\<lambda>l. l \<noteq> None) ls) = sum_list (map lane_blocks ls) \<and>
    (\<forall>l. Some l \<in> set ls \<longrightarrow> sigs' ! input_index l = cmac bc (ms ! input_index l) \<or>
       (\<exists>l'. Some l' \<in> set ls' \<and> input_index l' = input_index l))"
  using assms
proof (induction ls arbitrary: sigs)
  case (Cons x ls)
  show ?case
  proof (cases x)
    case None
    with Cons show ?thesis by (fastforce simp: step_lanes_simps)
  next
    case (Some l)
    with Cons.prems obtain l' b y sigs1 where inp: "lane_input bc l = Some (l', b)"
      and outp: "lane_output l' (bc_cipher bc b) sigs = Some (y, sigs1)" and adv: "advanced bc ms sigs sigs1"
      and blocks: "Suc (lane_blocks y) = lane_blocks (Some l)"
      and y: "case y of None \<Rightarrow> sigs1 ! input_index l = cmac bc (ms ! input_index l)
        | Some l'' \<Rightarrow> lane_ok bc ms l'' \<and> input_index l'' = input_index l"
      using lane_step [of bc ms l sigs] by auto
    have len: "length sigs1 = length ms" using adv Cons.prems(2) by (simp add: advanced_def)
    from Cons.IH [OF _ len] Cons.prems(1) obtain ls' sigs' where rest: "step_lanes bc ls sigs1 = Some (ls', sigs')"
      "length ls' = length ls" "lanes_ok bc ms ls'" "advanced bc ms sigs1 sigs'"
      "sum_list (map lane_blocks ls') + length (filter (\<lambda>l. l \<noteq> None) ls) = sum_list (map lane_blocks ls)"
      "\<forall>l. Some l \<in> set ls \<longrightarrow> sigs' ! input_index l = cmac bc (ms ! input_index l) \<or>
         (\<exists>l'. Some l' \<in> set ls' \<and> input_index l' = input_index l)" by auto
    have "input_index l < length sigs1" using Cons.prems(1) Some len by (auto simp: lane_ok_def)
    then have mine: "sigs' ! input_index l = cmac bc (ms ! input_index l) \<or>
        (\<exists>l'. Some l' \<in> set (y # ls') \<and> input_index l' = input_index l)"
      using y advanced_keeps [OF rest(4)] by (auto split: option.splits)
    have "step_lanes bc (x # ls) sigs = Some (y # ls', sigs')"
      using rest(1) by (simp add: Some step_lanes_simps(3) [OF inp outp])
    moreover have "lanes_ok bc ms (y # ls')" using rest(3) y by (auto split: option.splits)
    moreover have "sum_list (map lane_blocks (y # ls')) + length (filter (\<lambda>l. l \<noteq> None) (x # ls)) =
        sum_list (map lane_blocks (x # ls))" using rest(5) blocks Some by simp
    moreover have "\<forall>k. Some k \<in> set (x # ls) \<longrightarrow> sigs' ! input_index k = cmac bc (ms ! input_index k) \<or>
         (\<exists>l'. Some l' \<in> set (y # ls') \<and> input_index l' = input_index k)" using rest(6) mine Some by auto
    ultimately show ?thesis using rest(2) advanced_trans [OF adv rest(4)] by auto
  qed
qed (simp add: step_lanes_simps)

definition waiting :: "bytes list \<Rightarrow> message_cursor option list \<Rightarrow> nat \<Rightarrow> bool" where
  "waiting ms cs nxt \<longleftrightarrow> length cs = length ms \<and> nxt \<le> length ms \<and>
     (\<forall>i < length ms. if i < nxt then cs ! i = None else \<exists>c. cs ! i = Some c \<and> cursor_ok c \<and> cursor_left c = ms ! i)"

definition waiting_blocks :: "message_cursor option list \<Rightarrow> nat" where
  "waiting_blocks cs = sum_list (map (case_option 0 blocks_remaining) cs)"

lemma waiting_take:
  assumes "waiting ms cs nxt" and "nxt < length ms" and "cs ! nxt = Some c"
  shows "waiting ms (cs[nxt := None]) (Suc nxt)" and "waiting_blocks (cs[nxt := None]) + blocks_remaining c = waiting_blocks cs"
proof -
  show "waiting ms (cs[nxt := None]) (Suc nxt)" using assms by (auto simp: waiting_def nth_list_update)
  have nxt: "nxt < length cs" using assms by (simp add: waiting_def)
  then have "blocks_remaining c \<le> waiting_blocks cs"
    using assms(3) elem_le_sum_list [of nxt "map (case_option 0 blocks_remaining) cs"] by (simp add: waiting_blocks_def)
  then show "waiting_blocks (cs[nxt := None]) + blocks_remaining c = waiting_blocks cs"
    using nxt assms(3) sum_list_update [of nxt "map (case_option 0 blocks_remaining) cs" 0]
    by (simp add: waiting_blocks_def map_update)
qed

lemma fresh_lane_ok:
  "waiting ms cs nxt \<Longrightarrow> nxt < length ms \<Longrightarrow> cs ! nxt = Some c \<Longrightarrow>
     lane_ok bc ms \<lparr>input_index = nxt, lane_cursor = c, lane_state = zero_block\<rparr>"
  by (auto simp: waiting_def lane_ok_def lane_value_def cmac_def)

lemma fill_idle_lanes_ok:
  assumes "lanes_ok bc ms ls" and "waiting ms cs nxt" and "fill_idle_lanes ls cs nxt = (ls', cs', nxt')"
  shows "length ls' = length ls \<and> lanes_ok bc ms ls' \<and> waiting ms cs' nxt' \<and> (\<forall>l. Some l \<in> set ls \<longrightarrow> Some l \<in> set ls') \<and>
    (\<forall>i < nxt'. i < nxt \<or> (\<exists>l. Some l \<in> set ls' \<and> input_index l = i)) \<and> (None \<in> set ls' \<longrightarrow> nxt' = length ms) \<and>
    sum_list (map lane_blocks ls') + waiting_blocks cs' = sum_list (map lane_blocks ls) + waiting_blocks cs"
  using assms
proof (induction ls cs nxt arbitrary: ls' rule: fill_idle_lanes.induct)
  case (2 l ls cs nxt)
  then show ?case by (fastforce split: prod.splits)
next
  case (3 ls cs nxt)
  have len: "length cs = length ms" using 3(3) by (simp add: waiting_def)
  show ?case
  proof (cases "nxt < length ms")
    case False
    then have "nxt = length ms" using 3(3) by (simp add: waiting_def)
    moreover have "ls' = None # ls" "cs' = cs" "nxt' = nxt" using 3(4) False len by simp_all
    ultimately show ?thesis using 3(2,3) by simp
  next
    case True
    then obtain c where c: "cs ! nxt = Some c" using 3(3) by (auto simp: waiting_def dest!: spec [of _ nxt])
    let ?l = "\<lparr>input_index = nxt, lane_cursor = c, lane_state = zero_block\<rparr>"
    from 3(4) True c len obtain ls1 where rest: "fill_idle_lanes ls (cs[nxt := None]) (nxt + 1) = (ls1, cs', nxt')"
      and ls': "ls' = Some ?l # ls1" by (auto split: prod.splits)
    have look: "(if nxt < length cs then cs ! nxt else None) = Some c" using True c len by simp
    note w = waiting_take [OF 3(3) True c]
    have "lanes_ok bc ms ls" using 3(2) by simp
    from 3(1) [OF look this _ rest] w(1)
    have ih: "length ls1 = length ls" "lanes_ok bc ms ls1" "waiting ms cs' nxt'" "\<forall>l. Some l \<in> set ls \<longrightarrow> Some l \<in> set ls1"
      "\<forall>i < nxt'. i < nxt + 1 \<or> (\<exists>l. Some l \<in> set ls1 \<and> input_index l = i)" "None \<in> set ls1 \<longrightarrow> nxt' = length ms"
      "sum_list (map lane_blocks ls1) + waiting_blocks cs' = sum_list (map lane_blocks ls) + waiting_blocks (cs[nxt := None])"
      by simp_all
    have "\<forall>i < nxt'. i < nxt \<or> (\<exists>l. Some l \<in> set ls' \<and> input_index l = i)"
    proof (intro allI impI)
      fix i assume "i < nxt'"
      with ih(5) consider "i < nxt" | "i = nxt" | "\<exists>l. Some l \<in> set ls1 \<and> input_index l = i" by fastforce
      then show "i < nxt \<or> (\<exists>l. Some l \<in> set ls' \<and> input_index l = i)" by cases (auto simp: ls')
    qed
    moreover have "lanes_ok bc ms ls'" using ih(2) fresh_lane_ok [OF 3(3) True c] by (auto simp: ls')
    ultimately show ?thesis using ih w(2) by (auto simp: ls')
  qed
qed auto

text \<open>Every message before \<open>nxt\<close> is signed or in a lane.\<close>

definition batch_inv :: "batch_cmac \<Rightarrow> bytes list \<Rightarrow> lane option list \<Rightarrow> message_cursor option list \<Rightarrow> nat \<Rightarrow> u128 list \<Rightarrow> bool" where
  "batch_inv bc ms ls cs nxt sigs \<longleftrightarrow> lanes_ok bc ms ls \<and> waiting ms cs nxt \<and> length sigs = length ms \<and> ls \<noteq> [] \<and>
     (None \<in> set ls \<longrightarrow> nxt = length ms) \<and>
     (\<forall>i < nxt. sigs ! i = cmac bc (ms ! i) \<or> (\<exists>l. Some l \<in> set ls \<and> input_index l = i))"

lemma batch_inv_fill:
  assumes "lanes_ok bc ms ls" and "waiting ms cs nxt" and "fill_idle_lanes ls cs nxt = (ls', cs', nxt')"
    and "length sigs = length ms" and "ls \<noteq> []"
    and "\<forall>i < nxt. sigs ! i = cmac bc (ms ! i) \<or> (\<exists>l. Some l \<in> set ls \<and> input_index l = i)"
  shows "batch_inv bc ms ls' cs' nxt' sigs"
proof -
  note f = fill_idle_lanes_ok [OF assms(1-3)]
  have "sigs ! i = cmac bc (ms ! i) \<or> (\<exists>l. Some l \<in> set ls' \<and> input_index l = i)" if "i < nxt'" for i
  proof (cases "i < nxt")
    case True
    then show ?thesis using assms(6) f by metis
  qed (use f that in auto)
  moreover have "ls' \<noteq> []" using f assms(5) by auto
  ultimately show ?thesis using f assms(4) unfolding batch_inv_def by blast
qed

lemma batch_inv_done:
  assumes inv: "batch_inv bc ms ls cs nxt sigs" and idle: "\<not> list_ex (\<lambda>l. l \<noteq> None) ls"
  shows "sigs = map (cmac bc) ms"
proof -
  have "\<forall>l. Some l \<notin> set ls" using idle by (auto simp: list_ex_iff)
  moreover have "hd ls \<in> set ls" using inv by (simp add: batch_inv_def)
  ultimately have "None \<in> set ls" by (cases "hd ls") auto
  with inv \<open>\<forall>l. Some l \<notin> set ls\<close> show ?thesis by (auto simp: batch_inv_def intro!: nth_equalityI)
qed

lemma lanes_loop_ok:
  "batch_inv bc ms ls cs nxt sigs \<Longrightarrow> lanes_loop bc ls cs nxt sigs = Some (Inr (map (cmac bc) ms))"
proof (induction "sum_list (map lane_blocks ls) + waiting_blocks cs" arbitrary: ls cs nxt sigs rule: less_induct)
  case less
  show ?case
  proof (cases "list_ex (\<lambda>l. l \<noteq> None) ls")
    case False
    then show ?thesis using batch_inv_done [OF less.prems] by (subst lanes_loop.simps) simp
  next
    case True
    note inv = less.prems [unfolded batch_inv_def]
    from step_lanes_ok [of ls bc ms sigs] inv obtain ls1 sigs1 where step: "step_lanes bc ls sigs = Some (ls1, sigs1)"
      and s: "length ls1 = length ls" "lanes_ok bc ms ls1" "advanced bc ms sigs sigs1"
        "sum_list (map lane_blocks ls1) + length (filter (\<lambda>l. l \<noteq> None) ls) = sum_list (map lane_blocks ls)"
      and done_or_lane: "\<forall>l. Some l \<in> set ls \<longrightarrow> sigs1 ! input_index l = cmac bc (ms ! input_index l) \<or>
         (\<exists>l'. Some l' \<in> set ls1 \<and> input_index l' = input_index l)" by blast
    obtain ls2 cs2 nxt2 where fill: "fill_idle_lanes ls1 cs nxt = (ls2, cs2, nxt2)" by (cases "fill_idle_lanes ls1 cs nxt") auto
    have "\<forall>i < nxt. sigs1 ! i = cmac bc (ms ! i) \<or> (\<exists>l. Some l \<in> set ls1 \<and> input_index l = i)"
      using inv done_or_lane advanced_keeps [OF s(3)] by (auto simp: waiting_def)
    then have inv2: "batch_inv bc ms ls2 cs2 nxt2 sigs1"
      using inv s by (intro batch_inv_fill [OF s(2) _ fill]) (auto simp: advanced_def)
    have "0 < length (filter (\<lambda>l. l \<noteq> None) ls)" using True by (auto simp: list_ex_iff filter_empty_conv)
    then have "sum_list (map lane_blocks ls1) < sum_list (map lane_blocks ls)" using s(4) by linarith
    then have "sum_list (map lane_blocks ls2) + waiting_blocks cs2 < sum_list (map lane_blocks ls) + waiting_blocks cs"
      using fill_idle_lanes_ok [OF s(2) _ fill] inv by simp
    from less.hyps [OF this inv2] True step fill show ?thesis by (subst lanes_loop.simps) simp
  qed
qed

section \<open>The subkeys\<close>

text \<open>A block as a big-endian number, and doubling in the field of the subkeys.\<close>

definition block_word :: "block \<Rightarrow> u128" where
  "block_word b = le_word (rev b)"

definition gf_double :: "u128 \<Rightarrow> u128" where
  "gf_double x = push_bit 1 x XOR (if bit x 127 then 0x87 else 0)"

lemma shift_left_carry: "snd (shift_left bs) = (case bs of [] \<Rightarrow> 0 | b # _ \<Rightarrow> drop_bit 7 b)"
  by (cases bs) (simp_all add: split_def Let_def)

lemma length_shift_left [simp]: "length (fst (shift_left bs)) = length bs"
  by (induction bs) (simp_all add: split_def Let_def)

lemma shift_left_nth:
  "i < length bs \<Longrightarrow> fst (shift_left bs) ! i = push_bit 1 (bs ! i) OR (if Suc i < length bs then drop_bit 7 (bs ! Suc i) else 0)"
  by (induction bs arbitrary: i)
    (auto simp: split_def Let_def nth_Cons shift_left_carry split: nat.splits list.splits)

lemma bit_block_word:
  "length b = 16 \<Longrightarrow> bit (block_word b) k \<longleftrightarrow> k < 128 \<and> bit (b ! (15 - k div 8)) (k mod 8)"
  by (auto simp: block_word_def bit_le_word rev_nth)

lemma bit_block_word':
  "length b = 16 \<Longrightarrow> r < 8 \<Longrightarrow> q < 16 \<Longrightarrow> bit (block_word b) (8 * q + r) \<longleftrightarrow> bit (b ! (15 - q)) r"
  by (simp add: bit_block_word)

lemma shift_left_word:
  assumes len: "length b = 16"
  shows "block_word (fst (shift_left b)) = push_bit 1 (block_word b)"
proof (rule bit_word_eqI)
  fix k assume "k < LENGTH(128)"
  moreover define q r where "q = k div 8" and "r = k mod 8"
  ultimately have k: "k = 8 * q + r" and r: "r < 8" and q: "q < 16" by (auto simp: less_mult_imp_div_less)
  have here: "bit (block_word (fst (shift_left b))) k =
      bit (push_bit 1 (b ! (15 - q)) OR (if 0 < q then drop_bit 7 (b ! (16 - q)) else 0)) r"
  proof -
    have "Suc (15 - q) = 16 - q" using q by simp
    then show ?thesis using q by (simp add: k bit_block_word' r len shift_left_nth)
  qed
  show "bit (block_word (fst (shift_left b))) k = bit (push_bit 1 (block_word b)) k"
  proof (cases r)
    case (Suc r')
    have "bit (push_bit 1 (block_word b)) k = bit (b ! (15 - q)) r'"
      unfolding bit_push_bit_iff using Suc q r bit_block_word' [OF len, of r' q] by (simp add: k)
    then show ?thesis using r unfolding here Suc bit_or_iff bit_push_bit_iff
      by (auto simp: bit_drop_bit_eq dest: bit_imp_le_length)
  next
    case r0: 0
    show ?thesis
    proof (cases q)
      case (Suc q')
      have "bit (push_bit 1 (block_word b)) k = bit (b ! (15 - q')) 7"
        unfolding bit_push_bit_iff using Suc q r0 bit_block_word' [OF len, of 7 q'] by (simp add: k add.commute)
      then show ?thesis unfolding here r0 Suc bit_or_iff bit_push_bit_iff by (simp add: bit_drop_bit_eq)
    next
      case 0
      then show ?thesis unfolding here bit_or_iff bit_push_bit_iff using r0 by (simp add: k)
    qed
  qed
qed

lemma double_block_word:
  assumes len: "length b = 16"
  shows "length (double_block b) = 16 \<and> block_word (double_block b) = gf_double (block_word b)"
proof -
  obtain out carry where s: "shift_left b = (out, carry)" by (cases "shift_left b") auto
  have out: "length out = 16" "block_word out = push_bit 1 (block_word b)"
    using shift_left_word [OF len] length_shift_left [of b] by (simp_all add: s len)
  have "carry = drop_bit 7 (b ! 0)" using shift_left_carry [of b, unfolded s] len by (cases b) (simp_all del: shift_left.simps)
  moreover have "drop_bit 7 x \<noteq> 0 \<longleftrightarrow> bit x 7" for x :: u8
  proof
    assume "drop_bit 7 x \<noteq> 0"
    then obtain n where "bit (drop_bit 7 x) n" by (auto simp: bit_eq_iff)
    then have n: "bit x (7 + n)" by (simp add: bit_drop_bit_eq)
    with bit_imp_le_length [OF n] show "bit x 7" by simp
  next
    assume "bit x 7"
    then have "bit (drop_bit 7 x) 0" by (simp add: bit_drop_bit_eq)
    then show "drop_bit 7 x \<noteq> 0" by auto
  qed
  ultimately have carry: "carry \<noteq> 0 \<longleftrightarrow> bit (block_word b) 127" using bit_block_word' [OF len, of 7 15] by simp
  have "block_word (out[15 := out ! 15 XOR 0x87]) = block_word out XOR 0x87"
  proof (rule bit_word_eqI)
    fix k assume "k < LENGTH(128)"
    moreover define q r where "q = k div 8" and "r = k mod 8"
    ultimately have k: "k = 8 * q + r" and r: "r < 8" and q: "q < 16" by (auto simp: less_mult_imp_div_less)
    have "bit (0x87 :: u128) k \<longleftrightarrow> q = 0 \<and> bit (0x87 :: u8) r"
      using r by (cases q) (auto simp: k bit_numeral_rec less_Suc_eq numeral_eq_Suc)
    then show "bit (block_word (out[15 := out ! 15 XOR 0x87])) k = bit (block_word out XOR 0x87) k"
      using r q by (auto simp: k bit_block_word' out(1) bit_xor_iff nth_list_update)
  qed
  then show ?thesis using out carry by (simp add: double_block_def s gf_double_def)
qed

section \<open>The batch computes CMAC\<close>

lemma checked_total_eq:
  "n < 2 ^ 64 \<Longrightarrow> checked_total n ss = (if n + length (concat ss) < 2 ^ 64 then Some (n + length (concat ss)) else None)"
  by (induction ss arbitrary: n) auto

lemma fresh_cursor:
  assumes "message_cursor_new segs = Some c"
  shows "cursor_ok c \<and> cursor_left c = concat segs"
proof -
  let ?m = "concat segs"
  from assms have c: "c = \<lparr>cur_segments = segs, segment_index = 0, segment_offset = 0, total_len = length ?m,
      blocks_remaining = max ((length ?m + 15) div 16) 1\<rparr>"
    by (simp add: message_cursor_new_def checked_total_eq split: if_splits)
  have left: "cursor_left c = ?m" by (simp add: c cursor_left_def left_at_def)
  have "blocks_remaining c = max 1 ((length ?m + 15) div 16)" unfolding c by (simp only: message_cursor.simps max.commute)
  moreover have "is_complete_final_block c \<longleftrightarrow> ?m \<noteq> [] \<and> length ?m mod 16 = 0"
    unfolding c is_complete_final_block_def message_cursor.simps length_0_conv ..
  moreover have "position_ok (cur_segments c) (segment_index c) (segment_offset c)" by (simp add: c position_ok_def)
  ultimately show ?thesis unfolding cursor_ok_def left by blast
qed

lemma message_cursor_new_None: "message_cursor_new segs = None \<longleftrightarrow> 2 ^ 64 \<le> length (concat segs)"
  by (simp add: message_cursor_new_def checked_total_eq)

lemma sign_batch_cmac:
  "sign_batch bc inputs = Some (if list_ex (\<lambda>segs. 2 ^ 64 \<le> length (concat segs)) inputs then Inl CmacInputTooLong
     else Inr (map (\<lambda>segs. cmac bc (concat segs)) inputs))"
proof (cases "None \<in> set (map message_cursor_new inputs)")
  case True
  then obtain segs where "segs \<in> set inputs" "message_cursor_new segs = None" by (auto simp: image_iff dest: sym)
  then have "list_ex (\<lambda>segs. 2 ^ 64 \<le> length (concat segs)) inputs"
    unfolding list_ex_iff message_cursor_new_None by blast
  with True show ?thesis by (simp add: sign_batch_def del: set_map)
next
  case False
  let ?cs = "map message_cursor_new inputs" and ?ms = "map concat inputs" and ?ls = "replicate portable_cmac_lanes None"
  have fits: "\<not> list_ex (\<lambda>segs. 2 ^ 64 \<le> length (concat segs)) inputs"
    using False unfolding list_ex_iff message_cursor_new_None [symmetric] by (metis in_set_conv_nth length_map nth_map)
  obtain ls cs nxt where fill: "fill_idle_lanes ?ls ?cs 0 = (ls, cs, nxt)" by (cases "fill_idle_lanes ?ls ?cs 0") auto
  have "\<exists>c. message_cursor_new (inputs ! i) = Some c" if "i < length inputs" for i
    using False that by (metis length_map not_None_eq nth_map nth_mem)
  then have "waiting ?ms ?cs 0" using fresh_cursor by (auto simp: waiting_def) blast
  then have "batch_inv bc ?ms ls cs nxt (replicate (length inputs) 0)"
    by (intro batch_inv_fill [OF _ _ fill]) (simp_all add: portable_cmac_lanes_def)
  from lanes_loop_ok [OF this] False fits fill show ?thesis by (simp add: sign_batch_def)
qed

text \<open>
  C4. Signing a batch in lanes computes AES-CMAC. For every block cipher and every batch,
  whatever the number, the lengths and the segmentation of the messages, the lanes return (they
  neither loop nor panic) and give each message, in order, the signature RFC 4493 defines for
  its joined bytes; the batch is refused exactly when a message is longer than the address space. The subkeys
  are the cipher of the zero block doubled once and twice in the field of 128-bit blocks.
\<close>

theorem batch_signatures_are_cmac:
  assumes "length (cipher zero_block) = 16"
  shows "let bc = batch_cmac_new cipher in
    sign_batch bc inputs = Some (if list_ex (\<lambda>segs. 2 ^ 64 \<le> length (concat segs)) inputs then Inl CmacInputTooLong
      else Inr (map (\<lambda>segs. cmac bc (concat segs)) inputs)) \<and>
    block_word (complete_subkey bc) = gf_double (block_word (cipher zero_block)) \<and>
    block_word (partial_subkey bc) = gf_double (gf_double (block_word (cipher zero_block)))"
  using double_block_word [OF assms] double_block_word [of "double_block (cipher zero_block)"]
  by (simp add: Let_def sign_batch_cmac) (simp add: batch_cmac_new_def Let_def)

theorem batch_signatures_are_cmac_witness:
  "sign_batch (batch_cmac_new rev) [[[1], [2, 3]], []] =
     Some (Inr [cmac (batch_cmac_new rev) [1, 2, 3], cmac (batch_cmac_new rev) []])"
  using batch_signatures_are_cmac [of rev "[[[1], [2, 3]], []]"] by (simp add: zero_block_def Let_def)

end
