(* ===== verification/Signing_Algorithms.thy ===== *)
theory Signing_Algorithms
  imports Cmac_Batch Message_Security
begin

text \<open>
  The signing algorithms (crypto/signing.rs): HMAC-SHA256, AES-CMAC and AES-GMAC behind one
  type, each good for one signature. The MAC implementations come from libraries; their objects
  take input in pieces and answer for all of it, so an object is its key and the input so far.
\<close>

section \<open>Model\<close>

record mac_lib =
  hmac_sha256 :: "bytes \<Rightarrow> bytes \<Rightarrow> bytes"
  cmac_aes128 :: "bytes \<Rightarrow> bytes \<Rightarrow> bytes"
  gcm_tag :: "bytes \<Rightarrow> bytes \<Rightarrow> bytes \<Rightarrow> bytes"
  aes128_block :: "bytes \<Rightarrow> block \<Rightarrow> block"

type_synonym mac_object = "bytes \<times> bytes"

definition mac_new :: "bytes \<Rightarrow> mac_object" where
  "mac_new key = (key, [])"

definition mac_update :: "bytes \<Rightarrow> mac_object \<Rightarrow> mac_object" where
  "mac_update bs m = (fst m, snd m @ bs)"

text \<open>A signer keeps its object until it has signed. The batch state of a CMAC signer is shared by
  its clones and known by its address.\<close>

datatype signing_algo =
    HmacSha256Signer "mac_object option"
  | Cmac128Signer "mac_object option" batch_cmac nat
  | Gmac128Signer bytes "bytes option" bytes

definition make_signing_algo_of :: "mac_lib \<Rightarrow> nat \<Rightarrow> signing_algorithm \<Rightarrow> bytes \<Rightarrow> signing_algo" where
  "make_signing_algo_of lib address alg key =
     (case alg of
        HmacSha256 \<Rightarrow> HmacSha256Signer (Some (mac_new key))
      | AesCmac \<Rightarrow> Cmac128Signer (Some (mac_new key)) (batch_cmac_new (aes128_block lib key)) address
      | AesGmac \<Rightarrow> Gmac128Signer key None [])"

definition make_nonce :: "header \<Rightarrow> bytes" where
  "make_nonce h =
     le_bytes (hd_message_id h) @
     [(if flag_server_to_redir (hd_flags h) then 1 else 0) OR (if hd_command h = CmdCancel then 2 else 0), 0, 0, 0]"

text \<open>The signature and the used-up signer; \<open>None\<close> is the panic of a signer that is used again.\<close>

definition hmac_sign_segments :: "mac_lib \<Rightarrow> mac_object option \<Rightarrow> bytes \<Rightarrow> bytes list \<Rightarrow> (signing_algo \<times> u128) option" where
  "hmac_sign_segments lib m first segments =
     map_option (\<lambda>m. let m = fold mac_update segments (mac_update first m) in
       (HmacSha256Signer None, le_word (take 16 (hmac_sha256 lib (fst m) (snd m))))) m"

definition cmac_sign_segments ::
  "mac_lib \<Rightarrow> mac_object option \<Rightarrow> batch_cmac \<Rightarrow> nat \<Rightarrow> bytes \<Rightarrow> bytes list \<Rightarrow> (signing_algo \<times> u128) option" where
  "cmac_sign_segments lib m batch address first segments =
     map_option (\<lambda>m. let m = fold mac_update segments (mac_update first m) in
       (Cmac128Signer None batch address, le_word (cmac_aes128 lib (fst m) (snd m)))) m"

definition gmac_sign_segments ::
  "mac_lib \<Rightarrow> bytes \<Rightarrow> bytes option \<Rightarrow> bytes \<Rightarrow> header \<Rightarrow> bytes \<Rightarrow> bytes list \<Rightarrow> (signing_algo \<times> u128) option" where
  "gmac_sign_segments lib key nonce buffer h first segments =
     (if nonce \<noteq> None then None
      else let n = make_nonce h; buffer = foldl (@) (buffer @ first) segments in
        Some (Gmac128Signer key (Some n) buffer, le_word (gcm_tag lib key n buffer)))"

fun algo_sign_segments ::
  "mac_lib \<Rightarrow> signing_algo \<Rightarrow> header \<Rightarrow> bytes \<Rightarrow> bytes list \<Rightarrow> (signing_algo \<times> u128) option" where
  "algo_sign_segments lib (HmacSha256Signer m) h first segments = hmac_sign_segments lib m first segments"
| "algo_sign_segments lib (Cmac128Signer m batch address) h first segments =
     cmac_sign_segments lib m batch address first segments"
| "algo_sign_segments lib (Gmac128Signer key nonce buffer) h first segments =
     gmac_sign_segments lib key nonce buffer h first segments"

fun sign_cmac_batch :: "signing_algo \<Rightarrow> bytes list list \<Rightarrow> (cmac_error + u128 list) option option" where
  "sign_cmac_batch (Cmac128Signer m batch address) inputs = Some (sign_batch batch inputs)"
| "sign_cmac_batch _ inputs = None"

fun is_batchable_cmac :: "signing_algo \<Rightarrow> bool" where
  "is_batchable_cmac (Cmac128Signer m batch address) = True"
| "is_batchable_cmac _ = False"

fun batch_cmac_key_id :: "signing_algo \<Rightarrow> nat option" where
  "batch_cmac_key_id (Cmac128Signer m batch address) = Some address"
| "batch_cmac_key_id _ = None"

section \<open>Signatures depend on the message only\<close>

lemma fold_mac_update: "fold mac_update segments m = (fst m, snd m @ concat segments)"
  by (induction segments arbitrary: m) (simp_all add: mac_update_def)

lemma foldl_append: "foldl (@) b segments = b @ concat segments"
  by (induction segments arbitrary: b) simp_all

lemma make_nonce_signature: "make_nonce (zero_signature h) = make_nonce h"
  by (simp add: make_nonce_def zero_signature_def)

lemma length_make_nonce: "length (make_nonce h) = 12"
  by (simp add: make_nonce_def)

text \<open>The MAC of a whole message under a fresh signer.\<close>

fun algo_mac :: "mac_lib \<Rightarrow> signing_algo \<Rightarrow> header \<Rightarrow> bytes \<Rightarrow> u128 option" where
  "algo_mac lib (HmacSha256Signer m) h bs = map_option (\<lambda>m. le_word (take 16 (hmac_sha256 lib (fst m) (snd m @ bs)))) m"
| "algo_mac lib (Cmac128Signer m batch address) h bs = map_option (\<lambda>m. le_word (cmac_aes128 lib (fst m) (snd m @ bs))) m"
| "algo_mac lib (Gmac128Signer key nonce buffer) h bs =
     (if nonce \<noteq> None then None else Some (le_word (gcm_tag lib key (make_nonce h) (buffer @ bs))))"

lemma algo_sign_segments_mac:
  "map_option snd (algo_sign_segments lib k h first segments) = algo_mac lib k (zero_signature h) (first @ concat segments)"
  by (cases k) (simp_all add: hmac_sign_segments_def cmac_sign_segments_def gmac_sign_segments_def fold_mac_update
    foldl_append make_nonce_signature mac_update_def option.map_comp comp_def Let_def)

text \<open>
  The MAC depends on the header fields it takes (the message identifier and flags of the GMAC
  nonce, never the signature) and on the signed bytes, not on how they are cut into segments.
\<close>

definition mac_faithful :: "('s, 'c) primitives \<Rightarrow> bool" where
  "mac_faithful pr \<longleftrightarrow>
     (\<exists>mac. \<forall>k h s ss. sign_segments pr k h s ss = mac k (zero_signature h) (s @ concat ss))"

lemma mac_faithful_eq:
  assumes "mac_faithful pr" and "zero_signature h = zero_signature h'" and "s @ concat ss = s' @ concat ss'"
  shows "sign_segments pr k h s ss = sign_segments pr k h' s' ss'"
  using assms unfolding mac_faithful_def by fastforce

text \<open>The pipeline's signing primitive is this code.\<close>

definition signs_with :: "('s, 'c) primitives \<Rightarrow> mac_lib \<Rightarrow> ('s \<Rightarrow> signing_algo) \<Rightarrow> bool" where
  "signs_with pr lib algo \<longleftrightarrow>
     (\<forall>k h first segments. sign_segments pr k h first segments = map_option snd (algo_sign_segments lib (algo k) h first segments))"

lemma signs_with_mac_faithful: "signs_with pr lib algo \<Longrightarrow> mac_faithful pr"
  unfolding signs_with_def mac_faithful_def algo_sign_segments_mac by (rule exI [of _ "\<lambda>k. algo_mac lib (algo k)"]) simp

text \<open>A signer signs once.\<close>

lemma algo_signs_once:
  "algo_sign_segments lib k h first segments = Some (k', sig) \<Longrightarrow> algo_sign_segments lib k' h' first' segments' = None"
  by (cases k) (auto simp: hmac_sign_segments_def cmac_sign_segments_def gmac_sign_segments_def Let_def split: if_splits)

text \<open>A library and primitives to compute with.\<close>

definition sample_lib :: mac_lib where
  "sample_lib = \<lparr>hmac_sha256 = (\<lambda>k m. le_bytes (of_nat (length m) :: 256 word)),
     cmac_aes128 = (\<lambda>k m. cmac_chain (batch_cmac_new (map2 (XOR) k)) zero_block m),
     gcm_tag = (\<lambda>k n m. le_bytes (of_nat (length m) :: u128)), aes128_block = (\<lambda>k. map2 (XOR) k)\<rparr>"

definition sample_signer :: "bytes \<Rightarrow> signing_algo" where
  "sample_signer k = make_signing_algo_of sample_lib 0 HmacSha256 k"

definition sample_primitives :: "(bytes, bytes) primitives" where
  "sample_primitives = \<lparr>sign_segments = (\<lambda>k h s ss. map_option snd (algo_sign_segments sample_lib (sample_signer k) h s ss)),
     sha512 = (\<lambda>bs. bs), aead_encrypt = (\<lambda>c m ad n. Some (m, 0)), aead_decrypt = (\<lambda>c m ad n sig. Some m),
     nonce_size = (\<lambda>c. 12), content_readable = (\<lambda>h bs. True), lz4_lib = sample_lz4\<rparr>"

lemma sample_signs_with: "signs_with sample_primitives sample_lib sample_signer"
  by (simp add: signs_with_def sample_primitives_def)

end
