(* ===== verification/Wire_Signing.thy ===== *)
theory Wire_Signing
  imports Wire_Pipeline Signing_Algorithms
begin

text \<open>
  What the pipeline signs verifies. The signer works on the segments of a member while its
  frame is still under construction, the verifier on the finished bytes; both see the same
  message, for a single request with its payload and for every member of a compound.
\<close>

section \<open>One member\<close>

lemma le_bytes_zero: "le_bytes (0 :: u128) = replicate 16 0"
  by (simp add: le_bytes_def map_replicate_const)

lemma signature_verifies:
  assumes mac: "mac_faithful pr" and wf: "request_wf r"
    and sig: "signature_for_segments pr k (req_header r) (member_bytes r # ps) = Inr s"
  shows "verify_signature pr k (req_header (with_signature s r)) (member_bytes (with_signature s r) @ concat ps) = Inr ()"
proof -
  let ?h = "req_header r" and ?m = "member_bytes r" and ?h' = "req_header (with_signature s r)"
  let ?bytes = "member_bytes (with_signature s r) @ concat ps"
  obtain bs where bs: "header_write ?h = Some bs" "length bs = 64" using header_write_Some [OF wf] by auto
  have long: "64 \<le> length ?m" by (rule member_bytes_long [OF wf])
  have m: "take 48 ?m = take 48 bs" by (simp add: member_bytes_def bs)
  have zero: "header_write (zero_signature ?h) = Some (take 48 bs @ replicate 16 0)"
    using header_write_signature [OF wf bs(1), of 0] by (simp add: zero_signature_def le_bytes_zero)
  from sig long zero bs have signed: "sign_segments pr k ?h (take 48 bs @ replicate 16 0) (drop 64 ?m # ps) = Some s"
    by (simp add: signature_for_segments_def split: option.splits if_splits)
  have "sign_segments pr k ?h' (take 48 ?bytes @ replicate 16 0) [drop 64 ?bytes] = Some s"
    unfolding signed [symmetric]
    by (rule mac_faithful_eq [OF mac])
      (use long bs(2) in \<open>simp_all add: zero_signature_def member_bytes_signature [OF wf] m\<close>)
  moreover have "64 \<le> length ?bytes" using member_bytes_long [of "with_signature s r"] wf by simp
  ultimately show ?thesis by (simp add: verify_signature_def calculate_signature_bytes_def)
qed

section \<open>All members of a frame\<close>

definition signed_by :: "('s, 'c) primitives \<Rightarrow> 's \<Rightarrow> bytes \<Rightarrow> plain_request \<Rightarrow> plain_request \<Rightarrow> bool" where
  "signed_by pr k payload r r' \<longleftrightarrow>
     (\<exists>s. r' = with_signature s r) \<and> verify_signature pr k (req_header r') (member_bytes r' @ payload) = Inr ()"

lemma sign_member_verifies:
  assumes mac: "mac_faithful pr" and holds: "holds_members b rs" and i: "i < length rs"
    and sign: "sign_member pr k i (req_header (rs ! i)) b = Inr b'"
  shows "\<exists>r'. signed_by pr k (if length rs = 1 then concat (payloads b) else []) (rs ! i) r' \<and> holds_members b' (rs[i := r']) \<and>
    build_state b' = OffsetsFinalized \<and> payloads b' = payloads b \<and> patched_members b' = Suc i"
proof -
  let ?ps = "if length rs = 1 then payloads b else []"
  have final: "build_state b = OffsetsFinalized"
    using sign by (auto simp: sign_member_def signing_segments_def split: if_splits)
  from sign obtain s where s: "signature_for_segments pr k (req_header (rs ! i)) (member_bytes (rs ! i) # ?ps) = Inr s"
    and patch: "patch_signature i s b = Inr b'"
    unfolding sign_member_def signing_segments_member [OF holds final i]
    by (auto simp: build_def split: if_splits sum.splits)
  have "request_wf (rs ! i)" using holds i by (simp add: holds_members_def)
  from signature_verifies [OF mac this s] patch_signature_member [OF holds i patch] final
  show ?thesis by (intro exI [of _ "with_signature s (rs ! i)"]) (auto simp: signed_by_def split: if_splits)
qed

lemma sign_members_verify:
  assumes mac: "mac_faithful pr"
  shows "holds_members b (dn @ todo) \<Longrightarrow> sign_members pr k (length dn) todo b = Inr b' \<Longrightarrow>
    todo \<noteq> [] \<Longrightarrow> payloads b = [] \<Longrightarrow>
    \<exists>signed. list_all2 (signed_by pr k []) todo signed \<and> holds_members b' (dn @ signed) \<and> payloads b' = []"
proof (induction todo arbitrary: dn b)
  case (Cons r todo)
  from Cons.prems(2) obtain b1 where one: "sign_member pr k (length dn) (req_header ((dn @ r # todo) ! length dn)) b = Inr b1"
    and rest: "sign_members pr k (Suc (length dn)) todo b1 = Inr b'" by (auto split: sum.splits)
  from sign_member_verifies [OF mac Cons.prems(1) _ one] Cons.prems(4) obtain r'
    where r': "signed_by pr k [] r r'" and b1: "holds_members b1 ((dn @ [r']) @ todo)" "payloads b1 = []"
    by (auto simp: list_update_append split: if_splits)
  show ?case
  proof (cases "todo = []")
    case False
    from rest have "sign_members pr k (length (dn @ [r'])) todo b1 = Inr b'" by simp
    from Cons.IH [OF b1(1) this False b1(2)] r' show ?thesis
      by (elim exE conjE, intro exI [of _ "r' # _"]) auto
  qed (use r' b1 rest in auto)
qed simp

lemma member_bytes_read:
  assumes "request_wf r"
  shows "header_read (member_bytes r @ rest) = Some (req_header r) \<and> (\<exists>n. drop 64 (member_bytes r) = req_body r @ replicate n 0)"
  using header_write_Some [OF assms] header_read_write [OF assms] by (auto simp: member_bytes_def)

lemma encode_requests_layout:
  assumes "\<forall>r \<in> set rs. request_wf r" and "encode_requests rs limit extra = Inr (b, rs')"
  shows "holds_members b rs' \<and> rs' = laid_out rs \<and> payloads b = (case extra of Some p \<Rightarrow> if p = [] then [] else [p] | None \<Rightarrow> []) \<and>
    (\<forall>r \<in> set (butlast rs). padded_len r < 2 ^ 32)"
proof -
  from assms(2) obtain b0 where enc: "wire_encode rs limit = Inr (b0, rs')"
    and b: "metadata b = metadata b0" "member_ranges b = member_ranges b0"
      "payloads b = payloads b0 @ (case extra of Some p \<Rightarrow> if p = [] then [] else [p] | None \<Rightarrow> [])"
    by (auto simp: encode_requests_def attach_payload_def finalize_offsets_def split: sum.splits option.splits if_splits)
  have "holds_members b rs' = holds_members b0 rs'"
    by (simp add: holds_members_def member_count_def builder_member_range_def b)
  with wire_encode_layout [OF assms(1) enc] b(3) show ?thesis by auto
qed

lemma seal_signed_segments: "seal_signed b = Inr wire \<Longrightarrow> into_segments wire = metadata b # payloads b"
  by (auto simp: seal_signed_def finish_signed_def seal_def build_def into_segments_def
    split: sum.splits if_splits option.splits)

text \<open>The length that a sealed frame records is that of its segments.\<close>

lemma segment_sum:
  "foldl (\<lambda>sum p. Option.bind sum (\<lambda>t. usize_add t (length p))) acc ps = Some len \<Longrightarrow>
     \<exists>n. acc = Some n \<and> len = n + length (concat ps)"
proof (induction ps arbitrary: acc)
  case (Cons p ps)
  from Cons.IH [OF Cons.prems [unfolded foldl_Cons]] show ?case
    by (cases acc) (auto simp: usize_add_def split: if_splits)
qed simp

definition sealed :: "wire_message \<Rightarrow> bool" where
  "sealed wire \<longleftrightarrow> wm_total_len wire = length (concat (into_segments wire))"

lemma seal_sealed: "seal b = Inr wire \<Longrightarrow> sealed wire"
  by (auto simp: seal_def sealed_def into_segments_def split: if_splits option.splits dest!: segment_sum)

lemma seal_signed_sealed: "seal_signed b = Inr wire \<Longrightarrow> sealed wire" "seal_unsigned b = Inr wire \<Longrightarrow> sealed wire"
  by (auto simp: seal_signed_def seal_unsigned_def build_def split: sum.splits intro: seal_sealed)

lemma compound_wire_sealed: "compound_wire pr msgs w = Inr wire \<Longrightarrow> sealed wire"
  by (auto simp: compound_wire_def Let_def split: sum.splits option.splits if_splits intro: seal_signed_sealed)

lemma protect_plain:
  assumes z: "lz4_faithful (lz4_lib pr)" and wire: "sealed wire" and out: "protect_wire pr wire False random i w = Inr frame"
  shows "sent_as (lz4_lib pr) (wp_compress w) (concat (into_segments wire)) (concat frame)"
proof (cases "wp_compress w = None \<or> wm_total_len wire \<le> 1024")
  case True
  with wire out show ?thesis
    by (auto simp: protect_wire_def protect_wire_with_def send_frame_from_segments_def sent_as_def sealed_def split: if_splits)
next
  case False
  then obtain caps where caps: "wp_compress w = Some caps" and long: "1024 < length (concat (into_segments wire))"
    using wire by (auto simp: sealed_def)
  obtain t where t: "compress_transform (lz4_lib pr) caps 0 (concat (into_segments wire)) = Inr t" and frame: "frame = [t]"
    using out False caps
    by (auto simp: protect_wire_def protect_wire_with_def send_frame_from_segments_def into_contiguous_def into_segments_def
        split: if_splits sum.splits option.splits)
  from transform_sent_as [OF z t long] show ?thesis by (simp add: caps frame)
qed

lemma laid_out_Nil_iff [simp]: "laid_out rs = [] \<longleftrightarrow> rs = []"
  by (cases rs rule: laid_out.cases) simp_all

lemma compound_signed:
  assumes mac: "mac_faithful pr" and wf: "\<forall>m \<in> set msgs. request_wf (creq_message m)"
    and signed: "flag_signed (hd_flags (req_header (creq_message (hd msgs))))"
    and plain: "creq_security (hd msgs) \<noteq> Some ProtEncrypt" and ne: "msgs \<noteq> []"
    and wire: "compound_wire pr msgs w = Inr wire"
  shows "\<exists>k rs. get_signer (hd_session_id (req_header (creq_message (hd msgs)))) w = Inr (Some k) \<and>
    list_all2 (signed_by pr k []) (laid_out (map creq_message msgs)) rs \<and> into_segments wire = [concat (map member_bytes rs)] \<and>
    (\<forall>r \<in> set rs. request_wf r) \<and> (\<forall>r \<in> set (butlast (map creq_message msgs)). padded_len r < 2 ^ 32)"
proof -
  let ?rs = "map creq_message msgs"
  have head: "req_header (hd (laid_out ?rs)) = (req_header (creq_message (hd msgs)))\<lparr>hd_next_command :=
      hd_next_command (req_header (hd (laid_out ?rs)))\<rparr>"
    using ne laid_out_nth [of 0 ?rs] by (simp add: hd_conv_nth set_next_command_def flip: length_greater_0_conv)
  from wire obtain b where enc: "encode_requests ?rs 1 None = Inr (b, laid_out ?rs)"
    using encode_requests_layout [of ?rs] wf by (fastforce simp: compound_wire_def split: sum.splits)
  note lay = encode_requests_layout [OF _ enc]
  have flag: "flag_signed (hd_flags (req_header (hd (laid_out ?rs))))" and sid:
    "hd_session_id (req_header (hd (laid_out ?rs))) = hd_session_id (req_header (creq_message (hd msgs)))"
    by (subst head, simp add: signed)+
  from wire enc flag sid plain obtain k b' where k: "get_signer (hd_session_id (req_header (creq_message (hd msgs)))) w = Inr (Some k)"
    and sign: "sign_members pr k (length ([] :: plain_request list)) (laid_out ?rs) b = Inr b'" and sealed: "seal_signed b' = Inr wire"
    by (auto simp: compound_wire_def Let_def split: sum.splits option.splits if_splits)
  have holds: "holds_members b ([] @ laid_out ?rs)" and "payloads b = []" using lay wf by auto
  from sign_members_verify [OF mac holds sign _ this(2)] ne obtain rs
    where rs: "list_all2 (signed_by pr k []) (laid_out ?rs) rs" "holds_members b' rs" "payloads b' = []"
    by auto
  then have "into_segments wire = [concat (map member_bytes rs)]" "\<forall>r \<in> set rs. request_wf r"
    using seal_signed_segments [OF sealed] by (simp_all add: holds_members_def)
  with k rs(1) lay wf show ?thesis by auto
qed

lemma signed_member_slice:
  assumes i: "i < length rs" and wf: "request_wf (rs ! i)" and fits: "\<forall>r \<in> set (butlast rs). padded_len r < 2 ^ 32"
    and signed: "signed_by pr k [] (laid_out rs ! i) r'"
  shows "\<exists>h n. header_read (member_bytes r') = Some h \<and> verify_signature pr k h (member_bytes r') = Inr () \<and>
    unat (hd_next_command h) = (if Suc i = length rs then 0 else length (member_bytes r')) \<and>
    zero_signature (h\<lparr>hd_next_command := 0\<rparr>) = zero_signature ((req_header (rs ! i))\<lparr>hd_next_command := 0\<rparr>) \<and>
    drop 64 (member_bytes r') = req_body (rs ! i) @ replicate n 0"
proof -
  let ?l = "laid_out rs ! i"
  from signed obtain s where s: "r' = with_signature s ?l"
    and ok: "verify_signature pr k (req_header r') (member_bytes r') = Inr ()" unfolding signed_by_def append_Nil2 by blast
  have l: "?l = set_next_command (if Suc i = length rs then 0 else padded_len (rs ! i)) (rs ! i)"
    by (rule laid_out_nth [OF i])
  have wf': "request_wf ?l" "request_wf r'" using wf by (simp_all add: s l)
  have same: "length (member_bytes r') = length (member_bytes ?l)"
    using wf' by (simp add: length_member_bytes s)
  have "unat (hd_next_command (req_header r')) = (if Suc i = length rs then 0 else length (member_bytes r'))"
  proof (cases "Suc i = length rs")
    case False
    with i laid_out_length [OF wf _ fits] same show ?thesis by (simp add: s)
  qed (simp add: s l set_next_command_def)
  moreover have "zero_signature ((req_header r')\<lparr>hd_next_command := 0\<rparr>) =
      zero_signature ((req_header (rs ! i))\<lparr>hd_next_command := 0\<rparr>)"
    and "req_body r' = req_body (rs ! i)"
    by (simp_all add: s l set_next_command_def zero_signature_def)
  moreover from member_bytes_read [OF wf'(2), of "[]"] obtain n
    where "header_read (member_bytes r') = Some (req_header r')" "drop 64 (member_bytes r') = req_body r' @ replicate n 0" by auto
  ultimately show ?thesis using ok by (intro exI [of _ "req_header r'"] exI [of _ n]) simp
qed

text \<open>
  C3. What is signed verifies. Every member of a compound that goes out signed can be checked
  from the frame alone: the frame, or what it decompresses to if it was compressed (which happens
  where compression was negotiated, above its threshold), is the members one after the other, each starts with the
  header of its request, which points exactly to the next one (the last to none), its body
  follows intact, padded with zeros, and the signature in the header is the one the verifier of
  the same key computes over the bytes of that member.
\<close>

theorem signed_compound_verifies:
  assumes signer: "signs_with pr lib algo" and wf: "\<forall>m \<in> set msgs. request_wf (creq_message m)"
    and signed: "flag_signed (hd_flags (req_header (creq_message (hd msgs))))"
    and plain: "creq_security (hd msgs) \<noteq> Some ProtEncrypt" and compress: "lz4_faithful (lz4_lib pr)"
    and out: "transform_outgoing_compound pr random msgs w = Inr frame"
  shows "\<exists>k slices. get_signer (hd_session_id (req_header (creq_message (hd msgs)))) w = Inr (Some k) \<and>
    sent_as (lz4_lib pr) (wp_compress w) (concat slices) (concat frame) \<and> length slices = length msgs \<and>
    (\<forall>i < length msgs. \<exists>h n.
       header_read (slices ! i) = Some h \<and> verify_signature pr k h (slices ! i) = Inr () \<and>
       unat (hd_next_command h) = (if Suc i = length msgs then 0 else length (slices ! i)) \<and>
       zero_signature (h\<lparr>hd_next_command := 0\<rparr>) =
         zero_signature ((req_header (creq_message (msgs ! i)))\<lparr>hd_next_command := 0\<rparr>) \<and>
       drop 64 (slices ! i) = req_body (creq_message (msgs ! i)) @ replicate n 0)"
proof -
  let ?rs = "map creq_message msgs"
  from out plain obtain wire where ne: "msgs \<noteq> []" and wire: "compound_wire pr msgs w = Inr wire"
    and protect: "protect_wire pr wire False random (hd_session_id (req_header (creq_message (hd msgs)))) w = Inr frame"
    by (auto simp: transform_outgoing_compound_def split: if_splits list.splits sum.splits)
  from compound_signed [OF signs_with_mac_faithful [OF signer] wf signed plain ne wire] obtain k rs
    where k: "get_signer (hd_session_id (req_header (creq_message (hd msgs)))) w = Inr (Some k)"
      and rs: "list_all2 (signed_by pr k []) (laid_out ?rs) rs" and seg: "into_segments wire = [concat (map member_bytes rs)]"
      and wf': "\<forall>r \<in> set rs. request_wf r" and fits: "\<forall>r \<in> set (butlast ?rs). padded_len r < 2 ^ 32" by blast
  have len: "length rs = length msgs" using list_all2_lengthD [OF rs] by simp
  have "\<exists>h n. header_read (map member_bytes rs ! i) = Some h \<and> verify_signature pr k h (map member_bytes rs ! i) = Inr () \<and>
      unat (hd_next_command h) = (if Suc i = length msgs then 0 else length (map member_bytes rs ! i)) \<and>
      zero_signature (h\<lparr>hd_next_command := 0\<rparr>) =
        zero_signature ((req_header (creq_message (msgs ! i)))\<lparr>hd_next_command := 0\<rparr>) \<and>
      drop 64 (map member_bytes rs ! i) = req_body (creq_message (msgs ! i)) @ replicate n 0" if i: "i < length msgs" for i
  proof -
    have "map member_bytes rs ! i = member_bytes (rs ! i)" using i len by simp
    then show ?thesis using signed_member_slice [of i ?rs pr k "rs ! i"] list_all2_nthD [OF rs, of i] i wf fits
      by (simp only:) (simp split del: if_split)
  qed
  moreover have "sent_as (lz4_lib pr) (wp_compress w) (concat (map member_bytes rs)) (concat frame)"
    using protect_plain [OF compress compound_wire_sealed [OF wire] protect] seg by simp
  ultimately show ?thesis using k len by (intro exI [of _ k] exI [of _ "map member_bytes rs"]) simp
qed

text \<open>A connection with one session, its primitives, and two reads sent to it as one compound.\<close>

definition sample_wire :: "(bytes, bytes) wire_pipeline" where
  "sample_wire = wire_default\<lparr>wp_sessions := [(7, \<lparr>se_session = sample_session,
     se_channel = Some \<lparr>chan_id = 1, chan_signer_algo = [1, 2], chan_valid = True, chan_binding = False\<rparr>\<rparr>)]\<rparr>"

definition sample_member :: command_request where
  "sample_member = \<lparr>creq_message = \<lparr>req_header = sample_header\<lparr>hd_flags := 8\<rparr>, req_body = [1, 2, 3]\<rparr>,
     creq_additional_data = None, creq_security = Some SignWithChannel\<rparr>"

definition sample_compound :: "command_request list" where
  "sample_compound = [sample_member, sample_member]"

lemma sample_encoded:
  "\<exists>m. length m = 139 \<and> encode_requests (map creq_message sample_compound) 1 None =
     Inr (\<lparr>metadata = m, payloads = [], member_ranges = [(0, 72), (72, 139)], segment_limit = 1,
       build_state = OffsetsFinalized, patched_members = 0\<rparr>, laid_out (map creq_message sample_compound))"
  by (simp add: encode_requests_def finalize_offsets_def wire_encode_def sample_compound_def sample_member_def
      sample_header_def Let_def request_write_def header_write_def set_next_command_def padded_len_def
      flag_async_command_def flag_server_to_redir_def bit_numeral_rec pad_member_def usize_add_def header_magic_def
      patch_header_def optional_def)

lemma sample_compound_goes_out:
  "\<exists>frame. transform_outgoing_compound sample_primitives [] sample_compound sample_wire = Inr frame"
proof -
  obtain m where m: "length m = 139" and enc: "encode_requests (map creq_message sample_compound) 1 None =
     Inr (\<lparr>metadata = m, payloads = [], member_ranges = [(0, 72), (72, 139)], segment_limit = 1,
       build_state = OffsetsFinalized, patched_members = 0\<rparr>, laid_out (map creq_message sample_compound))"
    using sample_encoded by blast
  have "get_signer 7 sample_wire = Inr (Some [1, 2])"
    by (simp add: get_signer_def sample_wire_def channel_signer_def)
  with m have "\<exists>wire. compound_wire sample_primitives sample_compound sample_wire = Inr wire \<and>
      wm_payloads wire = [] \<and> length (wm_metadata wire) = 139"
    unfolding compound_wire_def enc
    by (simp add: sample_compound_def sample_member_def sample_header_def set_next_command_def flag_signed_def
        bit_numeral_rec sign_member_def signing_segments_def builder_member_range_def get_range_def member_count_def
        signature_for_segments_def zero_signature_def header_write_def flag_async_command_def sample_primitives_def
        sample_signer_def make_signing_algo_of_def hmac_sign_segments_def Let_def patch_signature_def build_def seal_signed_def finish_signed_def seal_def)
  then show ?thesis
    by (auto simp: transform_outgoing_compound_def sample_compound_def sample_member_def map_filter_def compound_member_error_def
        protect_wire_def protect_wire_with_def sample_wire_def wire_default_def send_frame_from_segments_def into_segments_def)
qed

lemma sample_compound_wf: "\<forall>m \<in> set sample_compound. request_wf (creq_message m)"
  by (simp add: sample_compound_def sample_member_def sample_header_def header_wf_def flag_async_command_def bit_numeral_rec)

lemma sample_compound_signed:
  "flag_signed (hd_flags (req_header (creq_message (hd sample_compound))))"
  "creq_security (hd sample_compound) \<noteq> Some ProtEncrypt" "lz4_faithful (lz4_lib sample_primitives)"
  by (simp_all add: sample_compound_def sample_member_def flag_signed_def bit_numeral_rec sample_primitives_def sample_lz4_faithful)

theorem signed_compound_verifies_witness:
  "\<exists>frame slices. transform_outgoing_compound sample_primitives [] sample_compound sample_wire = Inr frame \<and>
     concat frame = concat slices \<and> length slices = 2 \<and>
     (\<exists>h. header_read (slices ! 1) = Some h \<and> verify_signature sample_primitives [1, 2] h (slices ! 1) = Inr ())"
proof -
  have signer: "get_signer 7 sample_wire = Inr (Some [1, 2])"
    by (simp add: get_signer_def sample_wire_def channel_signer_def)
  from sample_compound_goes_out obtain frame
    where frame: "transform_outgoing_compound sample_primitives [] sample_compound sample_wire = Inr frame" by blast
  from signed_compound_verifies [OF sample_signs_with sample_compound_wf sample_compound_signed frame] obtain k slices
    where k: "get_signer (hd_session_id (req_header (creq_message (hd sample_compound)))) sample_wire = Inr (Some k)"
      and sent: "sent_as (lz4_lib sample_primitives) (wp_compress sample_wire) (concat slices) (concat frame)"
      and slices: "length slices = length sample_compound"
      and all: "\<forall>i < length sample_compound. \<exists>h n. header_read (slices ! i) = Some h \<and>
        verify_signature sample_primitives k h (slices ! i) = Inr () \<and>
        unat (hd_next_command h) = (if Suc i = length sample_compound then 0 else length (slices ! i)) \<and>
        zero_signature (h\<lparr>hd_next_command := 0\<rparr>) =
          zero_signature ((req_header (creq_message (sample_compound ! i)))\<lparr>hd_next_command := 0\<rparr>) \<and>
        drop 64 (slices ! i) = req_body (creq_message (sample_compound ! i)) @ replicate n 0" by blast
  have two: "length sample_compound = 2" "1 < length sample_compound" by (simp_all add: sample_compound_def)
  have "k = [1, 2]" using k signer by (simp add: sample_compound_def sample_member_def sample_header_def)
  moreover have "concat frame = concat slices" using sent by (simp add: sent_as_def sample_wire_def wire_default_def)
  ultimately show ?thesis using frame slices all [rule_format, OF two(2)] two(1) by auto
qed

end
