(* ===== verification/Wire_Contract.thy ===== *)
theory Wire_Contract
  imports Wire_Signing
begin

text \<open>
  What the wire pipeline guarantees together with the session channel: responses that a session
  takes are authenticated, and what is signed verifies.
\<close>

section \<open>What a frame is made of\<close>

lemma response_read_plain: "response_read pr bs = Some (RespPlain h) \<Longrightarrow> header_read bs = Some h"
  by (auto simp: response_read_def split: option.splits if_splits)

lemma field_take: "off + n \<le> m \<Longrightarrow> field off n (take m bs) = field off n bs"
  by (simp add: field_def take_drop min_def)

lemma header_read_take: "64 \<le> n \<Longrightarrow> header_read (take n bs) = header_read bs"
  by (cases "length bs < 64") (simp_all add: header_read_def field_take Let_def min_less_iff_disj cong: option.case_cong)

section \<open>Authenticated responses\<close>

text \<open>The state after some members of a frame: sessions as before, setup signers used up.\<close>

definition consumed :: "('s, 'c) wire_pipeline \<Rightarrow> ('s, 'c) wire_pipeline \<Rightarrow> bool" where
  "consumed w w' \<longleftrightarrow> wp_sessions w' = wp_sessions w \<and> map_of (wp_setup_signers w') \<subseteq>\<^sub>m map_of (wp_setup_signers w)"

lemma consumed_refl [simp]: "consumed w w"
  by (simp add: consumed_def)

lemma consumed_trans: "consumed w w' \<Longrightarrow> consumed w' w'' \<Longrightarrow> consumed w w''"
  by (auto simp: consumed_def intro: map_le_trans)

lemma consumed_ingest: "ingest pr bs w = Inr w' \<Longrightarrow> consumed w w'"
  by (auto simp: ingest_def consumed_def split: sum.splits)

lemma consumed_ingest_incoming: "ingest_incoming pr h bs w = Inr w' \<Longrightarrow> consumed w w'"
  by (auto simp: ingest_incoming_def consumed_ingest split: if_splits)

lemma consumed_verify: "verify_plain_incoming pr h raw form w = (w', res) \<Longrightarrow> consumed w w'"
  by (auto simp: verify_plain_incoming_def consumed_def table map_le_def
    split: if_splits sum.splits option.splits)

lemma get_signer_consumed: "consumed w w' \<Longrightarrow> get_signer i w' = Inr (Some k) \<Longrightarrow> get_signer i w = Inr (Some k)"
  by (auto simp: consumed_def get_signer_def map_le_def dom_def split: option.splits sum.splits)

lemma get_decryptor_consumed: "consumed w w' \<Longrightarrow> get_decryptor i w' = get_decryptor i w"
  by (simp add: consumed_def get_decryptor_def)

text \<open>A member whose signature was checked, with the signer of the session its header names.\<close>

definition signature_checked :: "('s, 'c) primitives \<Rightarrow> ('s, 'c) wire_pipeline \<Rightarrow> wire_response \<Rightarrow> bool" where
  "signature_checked pr w r \<longleftrightarrow>
     (\<exists>k. get_signer (hd_session_id (wr_header r)) w = Inr (Some k) \<and>
       verify_signature pr k (wr_header r) (wr_raw r) = Inr () \<and>
       header_read (wr_raw r) = Some (wr_header r))"

lemma verify_plain_signed:
  assumes "verify_plain_incoming pr h raw form w = (w', Inr form')" and "\<not> form_signed form" and "form_signed form'"
  shows "\<exists>k. get_signer (hd_session_id h) w = Inr (Some k) \<and> verify_signature pr k h raw = Inr ()"
  using assms by (auto simp: verify_plain_incoming_def split: if_splits sum.splits option.splits)

lemma verify_plain_encrypted:
  "verify_plain_incoming pr h raw form w = (w', Inr form') \<Longrightarrow> form_encrypted form' = form_encrypted form"
  by (auto simp: verify_plain_incoming_def split: if_splits sum.splits option.splits)

lemma verified_is_long: "verify_signature pr k h raw = Inr () \<Longrightarrow> 64 \<le> length raw"
  by (auto simp: verify_signature_def calculate_signature_bytes_def split: sum.splits if_splits)

lemma walk_chain_Inr:
  assumes "walk_chain pr form h remaining w = (w', Inr rs)"
  shows "\<exists>w1 w2 form'. ingest_incoming pr h (member_slice h remaining) w = Inr w1 \<and>
    verify_plain_incoming pr h (member_slice h remaining) form w1 = (w2, Inr form') \<and>
    unat (hd_next_command h) \<le> length remaining \<and>
    (let r = \<lparr>wr_header = h, wr_raw = member_slice h remaining, wr_form = form'\<rparr>; n = unat (hd_next_command h) in
     if n = 0 then w' = w2 \<and> rs = [r]
     else \<exists>h' rs'. response_read pr (drop n remaining) = Some (RespPlain h') \<and>
       walk_chain pr form h' (drop n remaining) w2 = (w', Inr rs') \<and> rs = r # rs')"
  using assms unfolding walk_chain.simps [of pr form h remaining w]
  by (auto simp: Let_def split: if_splits sum.splits prod.splits option.splits response.splits)

lemma member_slice_header:
  "header_read remaining = Some h \<Longrightarrow> 64 \<le> length (member_slice h remaining) \<Longrightarrow>
     header_read (member_slice h remaining) = Some h"
  by (auto simp: member_slice_def Let_def header_read_take split: if_splits)

lemma walk_chain_checked:
  "walk_chain pr form h remaining w = (w', Inr rs) \<Longrightarrow> \<not> form_signed form \<Longrightarrow> header_read remaining = Some h \<Longrightarrow>
     r \<in> set rs \<Longrightarrow> form_encrypted (wr_form r) = form_encrypted form \<and> (form_signed (wr_form r) \<longrightarrow> signature_checked pr w r)"
proof (induction "length remaining" arbitrary: h remaining w rs rule: less_induct)
  case less
  let ?n = "unat (hd_next_command h)" and ?slice = "member_slice h remaining"
  from walk_chain_Inr [OF less.prems(1)] obtain w1 w2 form' where ingest: "ingest_incoming pr h ?slice w = Inr w1"
    and verify: "verify_plain_incoming pr h ?slice form w1 = (w2, Inr form')" and n: "?n \<le> length remaining"
    and rest: "let r = \<lparr>wr_header = h, wr_raw = ?slice, wr_form = form'\<rparr> in
      if ?n = 0 then w' = w2 \<and> rs = [r]
      else \<exists>h' rs'. response_read pr (drop ?n remaining) = Some (RespPlain h') \<and>
        walk_chain pr form h' (drop ?n remaining) w2 = (w', Inr rs') \<and> rs = r # rs'"
    by (auto simp: Let_def)
  let ?r = "\<lparr>wr_header = h, wr_raw = ?slice, wr_form = form'\<rparr>"
  have w1: "consumed w w1" by (rule consumed_ingest_incoming [OF ingest])
  have w2: "consumed w w2" by (rule consumed_trans [OF w1 consumed_verify [OF verify]])
  have "signature_checked pr w ?r" if "form_signed form'"
  proof -
    from verify_plain_signed [OF verify less.prems(2) that] obtain k
      where k: "get_signer (hd_session_id h) w1 = Inr (Some k)" and ok: "verify_signature pr k h ?slice = Inr ()" by blast
    with get_signer_consumed [OF w1] member_slice_header [OF less.prems(3) verified_is_long [OF ok]]
    show ?thesis unfolding signature_checked_def by auto
  qed
  then have here: "form_encrypted (wr_form ?r) = form_encrypted form \<and> (form_signed (wr_form ?r) \<longrightarrow> signature_checked pr w ?r)"
    using verify_plain_encrypted [OF verify] by simp
  show ?case
  proof (cases "r = ?r")
    case False
    with rest less.prems(4) obtain h' rs' where read: "response_read pr (drop ?n remaining) = Some (RespPlain h')"
      and walk: "walk_chain pr form h' (drop ?n remaining) w2 = (w', Inr rs')" and r: "r \<in> set rs'" and "?n \<noteq> 0"
      by (auto simp: Let_def split: if_splits)
    then have "length (drop ?n remaining) < length remaining" using n by simp
    from less.hyps [OF this walk less.prems(2) response_read_plain [OF read] r] get_signer_consumed [OF w2]
    show ?thesis unfolding signature_checked_def by blast
  qed (use here in simp)
qed

text \<open>A frame that was decrypted with the cipher of the session its envelope names.\<close>

definition decrypted :: "('s, 'c) primitives \<Rightarrow> ('s, 'c) wire_pipeline \<Rightarrow> bytes \<Rightarrow> bool" where
  "decrypted pr w frame \<longleftrightarrow>
     (\<exists>eh ct c res. response_read pr frame = Some (RespEncrypted eh ct) \<and>
       get_decryptor (eh_session_id eh) w = Inr (Some c) \<and> decrypt_message pr c eh ct = Inr res)"

lemma decrypt_chain_Inr:
  assumes "decrypt_chain pr r frame w = Inr (r', raw, form)" and "response_read pr frame = Some r"
  shows "response_read pr raw = Some r' \<and> \<not> form_signed form \<and> (form_encrypted form \<longrightarrow> decrypted pr w frame)"
  using assms
  by (auto simp: decrypt_chain_def decrypted_def plain_form_def decrypt_message_def
    split: response.splits sum.splits option.splits if_splits)

lemma decompress_chain_Inr:
  assumes "decompress_chain pr r raw form w = Inr (r', raw', form')" and "response_read pr raw = Some r"
  shows "response_read pr raw' = Some r' \<and> form_signed form' = form_signed form \<and> form_encrypted form' = form_encrypted form"
  using assms
  by (auto simp: decompress_chain_def decompress_def split: response.splits sum.splits option.splits)

lemma incoming_forms:
  assumes "transform_incoming_all pr frame w = (w', Inr rs)" and "r \<in> set rs"
  shows "(form_encrypted (wr_form r) \<longrightarrow> decrypted pr w frame) \<and> (form_signed (wr_form r) \<longrightarrow> signature_checked pr w r)"
proof -
  from assms(1) obtain r0 r1 raw1 form1 h raw2 form2 where read: "response_read pr frame = Some r0"
    and dec: "decrypt_chain pr r0 frame w = Inr (r1, raw1, form1)"
    and comp: "decompress_chain pr r1 raw1 form1 w = Inr (RespPlain h, raw2, form2)"
    and walk: "walk_chain pr form2 h raw2 w = (w', Inr rs)"
    by (auto simp: transform_incoming_all_def split: option.splits sum.splits prod.splits response.splits)
  note one = decrypt_chain_Inr [OF dec read]
  note two = decompress_chain_Inr [OF comp conjunct1 [OF one]]
  from walk_chain_checked [OF walk _ response_read_plain [OF conjunct1 [OF two]] assms(2)] one two
  show ?thesis by auto
qed

lemma verify_incoming_Inr:
  assumes "verify_incoming conn i s r = Inr ()"
  shows "hd_session_id (wr_header r) = i \<and> i \<noteq> 0 \<and>
    (si_state s = SessionReady algos flags force signing \<longrightarrow> encrypt_data flags \<or> force \<longrightarrow> form_encrypted (wr_form r))"
  using assms by (auto simp: verify_incoming_def is_ready_def should_encrypt_def split: option.splits sum.splits if_splits)

lemma decrypted_single:
  assumes aead: "aead_faithful pr" and random: "length random = 16"
    and enc: "encrypt_message pr c random j m = Inr (eh, ct)" and key: "get_decryptor j w = Inr (Some c)"
    and plain: "response_read pr m = Some (RespPlain h)" and last: "hd_next_command h = 0"
    and ordinary: "hd_command h \<notin> {CmdNegotiate, CmdSessionSetup}"
      "hd_status h \<noteq> status_user_session_deleted" "hd_status h \<noteq> status_network_session_expired"
  shows "transform_incoming_all pr (encrypted_header_write eh @ ct) w =
    (w, Inr [\<lparr>wr_header = h, wr_raw = m, wr_form = plain_form\<lparr>form_encrypted := True\<rparr>\<rparr>])"
  using encrypt_decrypt [OF aead random enc plain] key last ordinary
  by (simp add: transform_incoming_all_def decrypt_chain_def decompress_chain_def walk_chain.simps member_slice_def
      ingest_incoming_def participates_in_preauth_incoming_def verify_plain_incoming_def plain_form_def)

text \<open>
  C2. A response that a session takes is authenticated. Whatever frame arrives and whatever it
  is made of (compressed, encrypted, a chain of members), a response that the wire pipeline
  decodes from it and that the channel of a ready session accepts names this session in its
  header, and unless the policy permits a plain one, either the frame was decrypted with the key
  of a session of the connection, or the signature of this very member was verified over its own
  bytes with the signer of this session. If the configuration or the server demands encryption,
  it was decrypted.
\<close>

theorem accepted_response_is_authentic:
  assumes s: "s = session_life cr info i calls" and ready: "si_state s = SessionReady algos flags force signing"
    and incoming: "transform_incoming_all pr frame w = (w', Inr rs)" and r: "r \<in> set rs"
    and accepted: "verify_incoming (Some info) i s r = Inr ()"
  shows "hd_session_id (wr_header r) = i \<and>
    (may_be_plain info flags (hd_command (wr_header r)) \<or> decrypted pr w frame \<or> signature_checked pr w r) \<and>
    (encrypt_data flags \<or> encryption_mode (ci_config info) = EncRequired \<longrightarrow> decrypted pr w frame)"
proof -
  have typed: "session_typed info (si_state s)" by (simp add: s session_life_typed)
  note forms = incoming_forms [OF incoming r]
  note checked = verify_incoming_Inr [OF accepted, of algos flags force signing]
  have "may_be_plain info flags (hd_command (wr_header r)) \<or> signed_or_encrypted (wr_form r)"
    using accepted_plain_response [OF accepted typed ready] by blast
  moreover have "force = (encryption_mode (ci_config info) = EncRequired)" using typed by (simp add: ready)
  ultimately show ?thesis using forms checked ready by (auto simp: signed_or_encrypted_def)
qed

text \<open>A read response sent to the encrypted session of the sample connection.\<close>

definition sample_reply :: bytes where
  "sample_reply = the (header_write (sample_header\<lparr>hd_flags := 1\<rparr>))"

definition sample_envelope :: encrypted_header where
  "sample_envelope = \<lparr>eh_signature = 0, eh_nonce = replicate 16 0, eh_original_size = of_nat (length sample_reply), eh_session_id = 7\<rparr>"

lemma sample_reply_read:
  "response_read sample_primitives sample_reply = Some (RespPlain (sample_header\<lparr>hd_flags := 1\<rparr>))"
proof -
  let ?h = "sample_header\<lparr>hd_flags := 1\<rparr>"
  have wf: "header_wf ?h" by (simp add: header_wf_def sample_header_def flag_async_command_def bit_1_iff)
  then obtain bs where bs: "header_write ?h = Some bs" using header_write_Some by blast
  with header_read_write [OF wf bs, of "[]"] show ?thesis
    by (simp add: sample_reply_def response_read_def sample_primitives_def flag_server_to_redir_def)
qed

lemma sample_reply_length: "length sample_reply = 64"
  by (simp add: sample_reply_def sample_header_def header_write_def flag_async_command_def bit_1_iff
      header_magic_def optional_def)

lemma sample_incoming:
  "transform_incoming_all sample_primitives (encrypted_header_write sample_envelope @ sample_reply) sample_wire =
     (sample_wire, Inr [\<lparr>wr_header = sample_header\<lparr>hd_flags := 1\<rparr>, wr_raw = sample_reply,
        wr_form = plain_form\<lparr>form_encrypted := True\<rparr>\<rparr>])"
proof (rule decrypted_single)
  show "aead_faithful sample_primitives" by (simp add: aead_faithful_def sample_primitives_def)
  show "encrypt_message sample_primitives [1, 2] (replicate 16 0) 7 sample_reply = Inr (sample_envelope, sample_reply)"
    by (simp add: encrypt_message_def sample_primitives_def gen_nonce_def sample_envelope_def sample_reply_length
        Let_def flip: replicate_add)
  show "get_decryptor 7 sample_wire = Inr (Some [1, 2])"
    by (simp add: get_decryptor_def sample_wire_def session_decryptor_def sample_session_ready)
qed (simp_all add: sample_reply_read sample_header_def)

theorem accepted_response_is_authentic_witness:
  "\<exists>r. transform_incoming_all sample_primitives (encrypted_header_write sample_envelope @ sample_reply) sample_wire =
      (sample_wire, Inr [r]) \<and>
    verify_incoming (Some sample_info) 7 sample_session r = Inr () \<and>
    decrypted sample_primitives sample_wire (encrypted_header_write sample_envelope @ sample_reply)"
proof -
  let ?r = "\<lparr>wr_header = sample_header\<lparr>hd_flags := 1\<rparr>, wr_raw = sample_reply, wr_form = plain_form\<lparr>form_encrypted := True\<rparr>\<rparr>"
  have ok: "verify_incoming (Some sample_info) 7 sample_session ?r = Inr ()"
    by (simp add: verify_incoming_def status_try_from_def status_codes_def is_ready_def sample_session_ready
        should_encrypt_def allow_unsigned_def sample_flags_def is_guest_or_null_session_def sample_header_def
        signed_or_encrypted_def)
  from accepted_response_is_authentic [OF sample_session_def sample_session_ready sample_incoming _ ok]
  have "decrypted sample_primitives sample_wire (encrypted_header_write sample_envelope @ sample_reply)"
    by (simp add: sample_info_def)
  with ok sample_incoming show ?thesis by blast
qed

section \<open>The envelope of another session\<close>

text \<open>
  The session an envelope names is not compared with the session its message names: a message for
  session \<open>i\<close> that was encrypted under the key of session \<open>j\<close> is taken by session \<open>i\<close>.
\<close>

lemma foreign_envelope_accepted:
  assumes "aead_faithful pr" and "length random = 16" and "encrypt_message pr c random j m = Inr (eh, ct)"
    and "get_decryptor j w = Inr (Some c)" and "response_read pr m = Some (RespPlain h)" and "hd_next_command h = 0"
    and "hd_command h = CmdRead" and "hd_status h = 0" and "hd_session_id h = i" and "i \<noteq> 0" and "i \<noteq> j"
    and ready: "si_state s = SessionReady algos flags force signing"
  shows "\<exists>r. transform_incoming_all pr (encrypted_header_write eh @ ct) w = (w, Inr [r]) \<and>
    verify_incoming (Some info) i s r = Inr ()"
proof -
  let ?r = "\<lparr>wr_header = h, wr_raw = m, wr_form = plain_form\<lparr>form_encrypted := True\<rparr>\<rparr>"
  have "transform_incoming_all pr (encrypted_header_write eh @ ct) w = (w, Inr [?r])"
    by (rule decrypted_single) (use assms in simp_all)
  moreover have "verify_incoming (Some info) i s ?r = Inr ()"
    using assms by (simp add: verify_incoming_def status_try_from_def status_codes_def is_ready_def should_encrypt_def
        allow_unsigned_def requires_signing_def is_guest_or_anonymous_def signed_or_encrypted_def split: bool.split)
  ultimately show ?thesis by blast
qed

end
