(* ===== verification/Cmac_Batcher.thy ===== *)
theory Cmac_Batcher
  imports Wire_Signing "HOL-Library.Multiset"
begin

text \<open>
  The coordinator that gathers CMAC jobs of one key into batches (runtime/cmac_batcher.rs). The
  first job to arrive makes its task the leader; after one turn of the scheduler the leader
  takes jobs off the queue, up to four of the same key at a time, until none are left. An event
  is one section of the code under the lock; a job is known by its answer channel.
\<close>

section \<open>Model\<close>

definition minimum_batch_cmac_bytes :: nat where
  "minimum_batch_cmac_bytes = 1024"

definition maximum_inline_batch_cmac_bytes :: nat where
  "maximum_inline_batch_cmac_bytes = 64 * 1024 - 1"

definition should_batch :: "nat \<Rightarrow> bool" where
  "should_batch n \<longleftrightarrow> minimum_batch_cmac_bytes \<le> n \<and> n \<le> maximum_inline_batch_cmac_bytes"

datatype batch_failure = NotBatchable | BatchCalculationFailed | LeaderCancelled

record batch_job =
  job_key_id :: nat
  job_signer :: signing_algo
  job_segments :: "bytes list"
  job_complete :: nat

text \<open>Where the task of the leader stands: it has yielded to other tasks, or it is draining.\<close>

datatype leader_task = NoLeader | LeaderYielded | LeaderDraining

record batcher =
  bt_queue :: "batch_job list"
  bt_leader_active :: bool
  bt_leader :: leader_task

definition batcher_default :: batcher where
  "batcher_default = \<lparr>bt_queue = [], bt_leader_active = False, bt_leader = NoLeader\<rparr>"

type_synonym batch_answer = "nat \<times> (batch_failure + u128)"

definition batcher_sign :: "signing_algo \<Rightarrow> bytes list \<Rightarrow> nat \<Rightarrow> batcher \<Rightarrow> batcher \<times> batch_answer list" where
  "batcher_sign signer segments complete b =
     (case batch_cmac_key_id signer of
        None \<Rightarrow> (b, [(complete, Inl NotBatchable)])
      | Some key_id \<Rightarrow>
          let b = b\<lparr>bt_queue := bt_queue b @ [\<lparr>job_key_id = key_id, job_signer = signer, job_segments = segments,
                job_complete = complete\<rparr>]\<rparr> in
          (if bt_leader_active b then b else b\<lparr>bt_leader_active := True, bt_leader := LeaderYielded\<rparr>, []))"

text \<open>The jobs of one key, the first of them each time, until the lanes are full.\<close>

fun pick_jobs :: "nat \<Rightarrow> nat \<Rightarrow> batch_job list \<Rightarrow> batch_job list \<times> batch_job list" where
  "pick_jobs key 0 q = ([], q)"
| "pick_jobs key (Suc n) q =
     (case List.extract (\<lambda>j. job_key_id j = key) q of
        None \<Rightarrow> ([], q)
      | Some (before, j, after) \<Rightarrow> (let (js, q') = pick_jobs key n (before @ after) in (j # js, q')))"

definition complete_jobs :: "batch_job list \<Rightarrow> batch_answer list" where
  "complete_jobs jobs =
     (case sign_cmac_batch (job_signer (hd jobs)) (map job_segments jobs) of
        Some (Some (Inr signatures)) \<Rightarrow>
          if length signatures = length jobs then zip (map job_complete jobs) (map Inr signatures)
          else map (\<lambda>j. (job_complete j, Inl BatchCalculationFailed)) jobs
      | _ \<Rightarrow> map (\<lambda>j. (job_complete j, Inl BatchCalculationFailed)) jobs)"

definition drain_round :: "batcher \<Rightarrow> batcher \<times> batch_answer list" where
  "drain_round b =
     (case bt_queue b of
        [] \<Rightarrow> (b\<lparr>bt_leader_active := False, bt_leader := NoLeader\<rparr>, [])
      | j # q \<Rightarrow>
          let (js, q') = pick_jobs (job_key_id j) (portable_cmac_lanes - 1) q in
          (b\<lparr>bt_queue := q', bt_leader := LeaderDraining\<rparr>, complete_jobs (j # js)))"

definition leader_dropped :: "batcher \<Rightarrow> batcher \<times> batch_answer list" where
  "leader_dropped b =
     (b\<lparr>bt_leader_active := False, bt_queue := [], bt_leader := NoLeader\<rparr>,
      map (\<lambda>j. (job_complete j, Inl LeaderCancelled)) (bt_queue b))"

datatype batch_event =
    JobSubmitted signing_algo "bytes list" nat
  | DrainRound
  | LeaderDropped

text \<open>Only a leader drains, and its guard is armed until it starts to.\<close>

fun batcher_step :: "batcher \<Rightarrow> batch_event \<Rightarrow> batcher \<times> batch_answer list" where
  "batcher_step b (JobSubmitted signer segments complete) = batcher_sign signer segments complete b"
| "batcher_step b DrainRound = (if bt_leader b = NoLeader then (b, []) else drain_round b)"
| "batcher_step b LeaderDropped = (if bt_leader b = LeaderYielded then leader_dropped b else (b, []))"

fun batcher_run :: "batcher \<Rightarrow> batch_event list \<Rightarrow> batcher \<times> batch_answer list" where
  "batcher_run b [] = (b, [])"
| "batcher_run b (e # es) = (let (b, out) = batcher_step b e; (b, out') = batcher_run b es in (b, out @ out'))"

fun submission :: "batch_event \<Rightarrow> (signing_algo \<times> bytes list \<times> nat) option" where
  "submission (JobSubmitted signer segments complete) = Some (signer, segments, complete)"
| "submission _ = None"

abbreviation submissions :: "batch_event list \<Rightarrow> (signing_algo \<times> bytes list \<times> nat) list" where
  "submissions es \<equiv> List.map_filter submission es"

section \<open>Every job is answered once, with its own signature\<close>

lemma pick_jobs_split:
  "pick_jobs key n q = (js, q') \<Longrightarrow>
     mset js + mset q' = mset q \<and> (\<forall>j \<in> set js. job_key_id j = key) \<and> length js \<le> n"
proof (induction key n q arbitrary: js rule: pick_jobs.induct)
  case (2 key n q)
  show ?case
  proof (cases "List.extract (\<lambda>j. job_key_id j = key) q")
    case (Some x)
    obtain before j after where x: "x = (before, j, after)" by (cases x)
    have q: "q = before @ j # after" "job_key_id j = key" using Some unfolding x extract_Some_iff by auto
    from 2(2) Some obtain js' where js: "pick_jobs key n (before @ after) = (js', q')" "js = j # js'"
      by (auto simp: x split: prod.splits)
    from 2(1) [OF Some x [symmetric] refl js(1)] q js(2) show ?thesis by auto
  qed (use 2 in auto)
qed simp

fun batch_of :: "signing_algo \<Rightarrow> batch_cmac option" where
  "batch_of (Cmac128Signer m batch address) = Some batch"
| "batch_of _ = None"

lemma sign_cmac_batch_of: "sign_cmac_batch k inputs = map_option (\<lambda>batch. sign_batch batch inputs) (batch_of k)"
  by (cases k) simp_all

lemma key_id_batch: "batch_cmac_key_id k = Some a \<Longrightarrow> \<exists>batch. batch_of k = Some batch"
  by (cases k) simp_all

text \<open>The address of a batch state determines it, among the signers that are in use.\<close>

definition addresses_unique :: "(signing_algo \<times> bytes list \<times> nat) list \<Rightarrow> bool" where
  "addresses_unique subs \<longleftrightarrow>
     (\<forall>(k, _) \<in> set subs. \<forall>(k', _) \<in> set subs. batch_cmac_key_id k = batch_cmac_key_id k' \<longrightarrow> batch_of k = batch_of k')"

text \<open>The signature a job should get.\<close>

definition job_cmac :: "signing_algo \<Rightarrow> bytes list \<Rightarrow> u128 option" where
  "job_cmac k segments = map_option (\<lambda>batch. cmac batch (concat segments)) (batch_of k)"

abbreviation too_long :: "bytes list \<Rightarrow> bool" where
  "too_long segments \<equiv> 2 ^ 64 \<le> length (concat segments)"

definition right_answer :: "(signing_algo \<times> bytes list \<times> nat) list \<Rightarrow> batch_answer \<Rightarrow> bool" where
  "right_answer subs a \<longleftrightarrow>
     (\<exists>k segments. (k, segments, fst a) \<in> set subs \<and>
        (case snd a of
           Inr v \<Rightarrow> job_cmac k segments = Some v
         | Inl NotBatchable \<Rightarrow> batch_of k = None
         | Inl BatchCalculationFailed \<Rightarrow> (\<exists>(k', segments', i) \<in> set subs. too_long segments')
         | Inl LeaderCancelled \<Rightarrow> True))"

definition job_of :: "(signing_algo \<times> bytes list \<times> nat) list \<Rightarrow> batch_job \<Rightarrow> bool" where
  "job_of subs j \<longleftrightarrow> (job_signer j, job_segments j, job_complete j) \<in> set subs \<and> batch_cmac_key_id (job_signer j) = Some (job_key_id j)"

lemma complete_jobs_right:
  assumes unique: "addresses_unique subs" and jobs: "\<forall>j \<in> set (j0 # js). job_of subs j \<and> job_key_id j = job_key_id j0"
  shows "map fst (complete_jobs (j0 # js)) = map job_complete (j0 # js) \<and> (\<forall>a \<in> set (complete_jobs (j0 # js)). right_answer subs a)"
proof -
  let ?js = "j0 # js" and ?k = "job_signer j0"
  have "batch_cmac_key_id ?k = Some (job_key_id j0)" using jobs by (simp add: job_of_def)
  from key_id_batch [OF this] obtain batch where b0: "batch_of ?k = Some batch" by blast
  have same: "batch_of (job_signer j) = Some batch" if "j \<in> set ?js" for j
  proof -
    have "(job_signer j, job_segments j, job_complete j) \<in> set subs" "(?k, job_segments j0, job_complete j0) \<in> set subs"
      "batch_cmac_key_id (job_signer j) = batch_cmac_key_id ?k" using jobs that by (auto simp: job_of_def)
    then show ?thesis using unique b0 unfolding addresses_unique_def by fastforce
  qed
  show ?thesis
  proof (cases "list_ex too_long (map job_segments ?js)")
    case True
    then have "complete_jobs ?js = map (\<lambda>j. (job_complete j, Inl BatchCalculationFailed)) ?js"
      unfolding complete_jobs_def list.sel sign_cmac_batch_of b0 by (simp add: sign_batch_cmac del: list.map)
    moreover have "\<exists>(k', segments', i) \<in> set subs. too_long segments'"
      using True jobs by (fastforce simp: list_ex_iff job_of_def)
    ultimately show ?thesis using jobs by (fastforce simp: right_answer_def job_of_def)
  next
    case False
    then have eq: "complete_jobs ?js = map (\<lambda>j. (job_complete j, Inr (cmac batch (concat (job_segments j))))) ?js"
      unfolding complete_jobs_def list.sel sign_cmac_batch_of b0
      by (simp add: sign_batch_cmac comp_def zip_map_map zip_same_conv_map del: list.map)
    then show ?thesis using jobs same by (fastforce simp: right_answer_def job_of_def job_cmac_def)
  qed
qed

text \<open>
  The state after a run: answered and queued jobs together are the submitted ones, a queued job
  has a leader, and every answer is the right one.
\<close>

definition batcher_inv :: "(signing_algo \<times> bytes list \<times> nat) list \<Rightarrow> batcher \<Rightarrow> batch_answer list \<Rightarrow> bool" where
  "batcher_inv subs b out \<longleftrightarrow>
     mset (map fst out) + mset (map job_complete (bt_queue b)) = mset (map (\<lambda>(k, s, i). i) subs) \<and>
     (\<forall>j \<in> set (bt_queue b). job_of subs j) \<and> (\<forall>a \<in> set out. right_answer subs a) \<and>
     (bt_leader_active b \<longleftrightarrow> bt_leader b \<noteq> NoLeader) \<and> (bt_queue b \<noteq> [] \<longrightarrow> bt_leader_active b)"

lemma job_of_mono: "job_of subs j \<Longrightarrow> job_of (subs @ subs') j"
  by (auto simp: job_of_def)

lemma right_answer_mono: "right_answer subs a \<Longrightarrow> right_answer (subs @ subs') a"
  unfolding right_answer_def set_append
  by (elim exE conjE, intro exI conjI, rule UnI1, assumption)
    (auto split: sum.splits batch_failure.splits)

lemma drain_round_inv:
  assumes unique: "addresses_unique subs" and inv: "batcher_inv subs b out" and leader: "bt_leader b \<noteq> NoLeader"
    and drain: "drain_round b = (b', out')"
  shows "batcher_inv subs b' (out @ out') \<and> (bt_queue b \<noteq> [] \<longrightarrow> length (bt_queue b') < length (bt_queue b))"
proof (cases "bt_queue b")
  case Nil
  with drain inv show ?thesis by (auto simp: drain_round_def batcher_inv_def)
next
  case (Cons j q)
  obtain js q' where pick: "pick_jobs (job_key_id j) (portable_cmac_lanes - 1) q = (js, q')"
    by (cases "pick_jobs (job_key_id j) (portable_cmac_lanes - 1) q")
  note split = pick_jobs_split [OF pick]
  from drain Cons pick have b': "b' = b\<lparr>bt_queue := q', bt_leader := LeaderDraining\<rparr>" and out': "out' = complete_jobs (j # js)"
    by (auto simp: drain_round_def)
  have q: "mset q = mset js + mset q'" using split by simp
  then have sets: "set q = set js \<union> set q'" by (metis set_mset_mset set_mset_union)
  then have "\<forall>x \<in> set (j # js). job_of subs x \<and> job_key_id x = job_key_id j" "\<forall>x \<in> set q'. job_of subs x"
    using inv split Cons by (auto simp: batcher_inv_def)
  note right = complete_jobs_right [OF unique this(1)] and rest = this(2)
  have "mset (map job_complete q) = mset (map job_complete js) + mset (map job_complete q')" by (simp add: q)
  then have "mset (map fst out') + mset (map job_complete q') = mset (map job_complete (j # q))"
    unfolding out' conjunct1 [OF right] by simp
  then have "mset (map fst (out @ out')) + mset (map job_complete q') = mset (map (\<lambda>(k, s, i). i) subs)"
    using inv Cons by (simp add: batcher_inv_def add.assoc del: mset_map)
  moreover have "\<forall>a \<in> set (out @ out'). right_answer subs a" using inv right by (auto simp: batcher_inv_def out')
  moreover have "bt_leader_active b" using inv leader by (simp add: batcher_inv_def)
  moreover have "length q' \<le> length q" using arg_cong [OF q, of size] by simp
  ultimately show ?thesis using rest Cons by (simp add: batcher_inv_def b')
qed

lemma batcher_sign_inv:
  assumes inv: "batcher_inv subs b out" and sign: "batcher_sign k segments i b = (b', out')"
  shows "batcher_inv (subs @ [(k, segments, i)]) b' (out @ out')"
proof (cases "batch_cmac_key_id k")
  case None
  then have "batch_of k = None" by (cases k) simp_all
  with None sign inv show ?thesis
    by (auto simp: batcher_sign_def batcher_inv_def job_of_mono right_answer_mono) (auto simp: right_answer_def)
next
  case (Some a)
  with sign inv show ?thesis
    by (auto simp: batcher_sign_def batcher_inv_def Let_def job_of_mono right_answer_mono job_of_def split: if_splits)
qed

lemma leader_dropped_inv:
  assumes inv: "batcher_inv subs b out" and dropped: "leader_dropped b = (b', out')"
  shows "batcher_inv subs b' (out @ out')"
proof -
  have "right_answer subs (job_complete j, Inl LeaderCancelled)" if "j \<in> set (bt_queue b)" for j
    using inv that by (auto simp: batcher_inv_def job_of_def right_answer_def)
  moreover have "map fst out' = map job_complete (bt_queue b)" using dropped by (auto simp: leader_dropped_def)
  ultimately show ?thesis using inv dropped by (auto simp: leader_dropped_def batcher_inv_def simp flip: mset_map)
qed

lemma addresses_unique_prefix: "addresses_unique (subs @ subs') \<Longrightarrow> addresses_unique subs"
  unfolding addresses_unique_def set_append by blast

lemma batcher_run_inv:
  "addresses_unique (subs @ submissions es) \<Longrightarrow> batcher_inv subs b out \<Longrightarrow> batcher_run b es = (b', out') \<Longrightarrow>
     batcher_inv (subs @ submissions es) b' (out @ out')"
proof (induction es arbitrary: subs b out out')
  case (Cons e es)
  from Cons.prems(3) obtain b1 out1 out2 where step: "batcher_step b e = (b1, out1)"
    and run: "batcher_run b1 es = (b', out2)" and out': "out' = out1 @ out2" by (auto split: prod.splits)
  let ?subs = "subs @ submissions [e]"
  have all: "subs @ submissions (e # es) = ?subs @ submissions es" by (simp add: map_filter_def)
  have "addresses_unique subs" using Cons.prems(1) by (rule addresses_unique_prefix)
  then have "batcher_inv ?subs b1 (out @ out1)"
    using step Cons.prems(2) batcher_sign_inv drain_round_inv leader_dropped_inv
    by (cases e) (auto simp: map_filter_def split: if_splits)
  from Cons.IH [OF _ this run] Cons.prems(1) show ?case unfolding all out' by (simp add: append_assoc [symmetric] del: append_assoc)
qed (simp add: map_filter_def)

lemma draining_empties:
  "addresses_unique subs \<Longrightarrow> batcher_inv subs b out \<Longrightarrow> length (bt_queue b) \<le> n \<Longrightarrow>
     bt_queue (fst (batcher_run b (replicate n DrainRound))) = []"
proof (induction n arbitrary: b out)
  case (Suc n)
  show ?case
  proof (cases "bt_leader b = NoLeader")
    case True
    then have "bt_queue b = []" using Suc.prems(2) by (auto simp: batcher_inv_def)
    with Suc True show ?thesis by (auto simp: split_def Let_def)
  next
    case False
    obtain b' out' where drain: "drain_round b = (b', out')" by (cases "drain_round b")
    note inv = drain_round_inv [OF Suc.prems(1,2) False drain]
    have "length (bt_queue b') \<le> n"
    proof (cases "bt_queue b = []")
      case True
      then show ?thesis using drain by (auto simp: drain_round_def)
    qed (use inv Suc.prems(3) in linarith)
    with Suc.IH [OF Suc.prems(1) conjunct1 [OF inv]] False drain show ?thesis by (simp add: split_def Let_def)
  qed
qed simp

lemma cancelled_by_drop:
  "batcher_run b es = (b', out) \<Longrightarrow> (i, Inl LeaderCancelled) \<in> set out \<Longrightarrow> LeaderDropped \<in> set es"
proof (induction es arbitrary: b out)
  case (Cons e es)
  have "(i, Inl LeaderCancelled) \<notin> set (complete_jobs jobs)" for jobs
    by (auto simp: complete_jobs_def dest: set_zip_rightD split: option.splits sum.splits)
  then have "e = LeaderDropped" if "(i, Inl LeaderCancelled) \<in> set (snd (batcher_step b e))"
    using that by (cases e) (auto simp: batcher_sign_def drain_round_def Let_def split: option.splits list.splits if_splits prod.splits)
  moreover from Cons.prems(1) obtain b1 out1 out2 where "batcher_step b e = (b1, out1)"
    "batcher_run b1 es = (b', out2)" "out = out1 @ out2" by (auto split: prod.splits)
  ultimately show ?case using Cons.IH [of b1 out2] Cons.prems(2) by auto
qed simp

lemma count_map_filter: "count (mset (map f xs)) y = length (filter (\<lambda>x. f x = y) xs)"
  by (induction xs) auto

lemma distinct_submission:
  "distinct (map (\<lambda>(k, s, i). i) subs) \<Longrightarrow> (k, s, i) \<in> set subs \<Longrightarrow> (k', s', i) \<in> set subs \<Longrightarrow> k' = k \<and> s' = s"
  by (induction subs) force+

lemma batcher_inv_new: "batcher_inv [] batcher_default []"
  by (simp add: batcher_inv_def batcher_default_def)

text \<open>
  C7. Batched signing loses no job and mixes no keys. Over every interleaving of arriving jobs,
  drain rounds and cancelled leaders, each job is answered exactly once or still queued, a queued
  job has a leader, and as many rounds as there are queued jobs answer them all. A signature
  that is returned is the CMAC of the job's own message under the job's own key; a failure is
  returned only to a signer that is not CMAC, with a message longer than the address space, or
  because a leader was cancelled.
\<close>

theorem batched_jobs_answered_once:
  assumes unique: "addresses_unique (submissions es)" and ids: "distinct (map (\<lambda>(k, s, i). i) (submissions es))"
    and run: "batcher_run batcher_default es = (b, out)" and job: "(k, segments, i) \<in> set (submissions es)"
  shows "length (filter (\<lambda>a. fst a = i) out) + length (filter (\<lambda>j. job_complete j = i) (bt_queue b)) = 1 \<and>
    (bt_queue b \<noteq> [] \<longrightarrow> bt_leader b \<noteq> NoLeader) \<and>
    bt_queue (fst (batcher_run b (replicate (length (bt_queue b)) DrainRound))) = [] \<and>
    (\<forall>r. (i, r) \<in> set out \<longrightarrow>
       (case r of
          Inr v \<Rightarrow> job_cmac k segments = Some v
        | Inl NotBatchable \<Rightarrow> batch_of k = None
        | Inl BatchCalculationFailed \<Rightarrow> (\<exists>(k', segments', i') \<in> set (submissions es). too_long segments')
        | Inl LeaderCancelled \<Rightarrow> LeaderDropped \<in> set es))"
proof -
  have inv: "batcher_inv (submissions es) b out"
    using batcher_run_inv [of "[]" es, OF _ batcher_inv_new run] unique by simp
  let ?ids = "map (\<lambda>(k, s, i). i) (submissions es)"
  have "i \<in> set ?ids" using job by force
  then have "count (mset ?ids) i = 1" using ids by (simp add: distinct_count_atmost_1 del: set_map mset_map)
  moreover have "count (mset ?ids) i = count (mset (map fst out)) i + count (mset (map job_complete (bt_queue b))) i"
    using inv unfolding batcher_inv_def by (metis count_union)
  ultimately have "length (filter (\<lambda>a. fst a = i) out) + length (filter (\<lambda>j. job_complete j = i) (bt_queue b)) = 1"
    by (simp only: count_map_filter)
  moreover have "case r of Inr v \<Rightarrow> job_cmac k segments = Some v | Inl NotBatchable \<Rightarrow> batch_of k = None
      | Inl BatchCalculationFailed \<Rightarrow> (\<exists>(k', segments', i') \<in> set (submissions es). too_long segments')
      | Inl LeaderCancelled \<Rightarrow> LeaderDropped \<in> set es" if r: "(i, r) \<in> set out" for r
  proof -
    from inv r obtain k' s' where "(k', s', i) \<in> set (submissions es)" and
      right: "case r of Inr v \<Rightarrow> job_cmac k' s' = Some v | Inl NotBatchable \<Rightarrow> batch_of k' = None
        | Inl BatchCalculationFailed \<Rightarrow> (\<exists>(k', segments', i) \<in> set (submissions es). too_long segments')
        | Inl LeaderCancelled \<Rightarrow> True" by (fastforce simp: batcher_inv_def right_answer_def)
    with distinct_submission [OF ids job] have "k' = k" "s' = segments" by blast+
    with right r cancelled_by_drop [OF run] show ?thesis by (auto split: sum.splits batch_failure.splits)
  qed
  moreover have "bt_queue b \<noteq> [] \<longrightarrow> bt_leader b \<noteq> NoLeader" using inv by (auto simp: batcher_inv_def)
  ultimately show ?thesis using draining_empties [OF unique inv] by blast
qed

text \<open>Two jobs of one key, signed in one round.\<close>

definition sample_cmac :: signing_algo where
  "sample_cmac = make_signing_algo_of sample_lib 9 AesCmac [5, 6]"

definition sample_jobs :: "batch_event list" where
  "sample_jobs = [JobSubmitted sample_cmac [[1]] 0, JobSubmitted sample_cmac [[2], [3]] 1, DrainRound, DrainRound]"

theorem batched_jobs_answered_once_witness:
  "\<exists>b v v'. batcher_run batcher_default sample_jobs = (b, [(0, Inr v), (1, Inr v')]) \<and>
     job_cmac sample_cmac [[1]] = Some v \<and> job_cmac sample_cmac [[2], [3]] = Some v'"
proof -
  have subs: "submissions sample_jobs = [(sample_cmac, [[1]], 0), (sample_cmac, [[2], [3]], 1)]"
    by (simp add: sample_jobs_def map_filter_def)
  then have "addresses_unique (submissions sample_jobs)" "distinct (map (\<lambda>(k, s, i). i) (submissions sample_jobs))"
    by (simp_all add: addresses_unique_def)
  moreover obtain b v v' where "batcher_run batcher_default sample_jobs = (b, [(0, Inr v), (1, Inr v')])"
    by (simp add: sample_jobs_def sample_cmac_def make_signing_algo_of_def batcher_default_def batcher_sign_def Let_def
        drain_round_def portable_cmac_lanes_def numeral_3_eq_3 extract_def complete_jobs_def sign_batch_cmac)
  ultimately show ?thesis
    using batched_jobs_answered_once [of sample_jobs b "[(0, Inr v), (1, Inr v')]" sample_cmac "[[1]]" 0]
      batched_jobs_answered_once [of sample_jobs b "[(0, Inr v), (1, Inr v')]" sample_cmac "[[2], [3]]" 1] subs by auto
qed

section \<open>The batched route signs and verifies like the direct one\<close>

definition owned_verification_segments :: "bytes \<Rightarrow> wire_error + bytes list" where
  "owned_verification_segments raw =
     (if length raw < 64 then Inl WireInvalidMessage else Inr [take 48 raw @ replicate 16 0, drop 64 raw])"

text \<open>The CMAC of the library is the one of RFC 4493.\<close>

definition cmac_lib_rfc :: "mac_lib \<Rightarrow> bool" where
  "cmac_lib_rfc lib \<longleftrightarrow>
     (\<forall>key m. le_word (cmac_aes128 lib key m) = cmac (batch_cmac_new (aes128_block lib key)) m)"

lemma cmac_signature:
  assumes "cmac_lib_rfc lib" and "signs_with pr lib algo" and "algo ks = make_signing_algo_of lib address AesCmac key"
    and "first @ concat segments = concat segments'"
  shows "sign_segments pr ks h first segments = job_cmac (algo ks) segments'"
  using assms
  by (simp add: signs_with_def algo_sign_segments_mac make_signing_algo_of_def mac_new_def job_cmac_def cmac_lib_rfc_def)

lemma member_zero_signature:
  assumes wf: "request_wf r"
  shows "\<exists>hb. header_write (zero_signature (req_header r)) = Some hb \<and> length hb = 64 \<and>
    hb @ drop 64 (member_bytes r) = take 48 (member_bytes r) @ replicate 16 0 @ drop 64 (member_bytes r)"
proof -
  obtain bs where bs: "header_write (req_header r) = Some bs" "length bs = 64" using header_write_Some [OF wf] by auto
  show ?thesis using header_write_signature [OF wf bs(1), of 0] bs
    by (simp add: zero_signature_def le_bytes_zero member_bytes_def)
qed

text \<open>
  C22. Whether a message is signed alone or in a batch does not show. Under a CMAC signer, for a
  sealed request with its payload and for an incoming message of at least a header, the segments
  prepared for the batch give the signature that the direct computation gives.
\<close>

theorem batched_route_agrees:
  assumes lib: "cmac_lib_rfc lib" "signs_with pr lib algo" "algo ks = make_signing_algo_of lib address AesCmac key"
  shows "(holds_members b [r] \<and> build_state b = OffsetsFinalized \<longrightarrow>
      (\<exists>segments owned s. signing_segments 0 b = Inr segments \<and> owned_signing_segments 0 b = Inr owned \<and>
        signature_for_segments pr ks (req_header r) segments = Inr s \<and> job_cmac (algo ks) owned = Some s)) \<and>
    (64 \<le> length raw \<longrightarrow>
      (\<exists>owned s. owned_verification_segments raw = Inr owned \<and> calculate_signature_bytes pr ks h raw = Inr s \<and>
        job_cmac (algo ks) owned = Some s))"
proof (intro conjI impI)
  assume "holds_members b [r] \<and> build_state b = OffsetsFinalized"
  then have seg: "signing_segments 0 b = Inr (member_bytes r # payloads b)" and wf: "request_wf r"
    using signing_segments_member [of b "[r]" 0] by (simp_all add: holds_members_def)
  let ?m = "member_bytes r" and ?owned = "(take 48 (member_bytes r) @ replicate 16 0 @ drop 64 (member_bytes r)) # payloads b"
  have long: "64 \<le> length ?m" by (rule member_bytes_long [OF wf])
  then have owned: "owned_signing_segments 0 b = Inr ?owned" by (simp add: owned_signing_segments_def seg)
  from member_zero_signature [OF wf] obtain hb where hb: "header_write (zero_signature (req_header r)) = Some hb" "length hb = 64"
    "hb @ drop 64 ?m = take 48 ?m @ replicate 16 0 @ drop 64 ?m" by blast
  have "sign_segments pr ks (req_header r) hb (drop 64 ?m # payloads b) = job_cmac (algo ks) ?owned"
    by (rule cmac_signature [OF lib]) (simp only: concat.simps append_assoc [symmetric], simp only: append_assoc hb(3))
  moreover obtain s where "job_cmac (algo ks) ?owned = Some s"
    using lib(3) by (simp add: job_cmac_def make_signing_algo_of_def)
  ultimately show "\<exists>segments owned s. signing_segments 0 b = Inr segments \<and> owned_signing_segments 0 b = Inr owned \<and>
      signature_for_segments pr ks (req_header r) segments = Inr s \<and> job_cmac (algo ks) owned = Some s"
    using seg owned long hb by (simp add: signature_for_segments_def)
next
  assume long: "64 \<le> length raw"
  let ?owned = "[take 48 raw @ replicate 16 0, drop 64 raw]"
  have "sign_segments pr ks h (take 48 raw @ replicate 16 0) [drop 64 raw] = job_cmac (algo ks) ?owned"
    by (rule cmac_signature [OF lib]) simp
  moreover obtain s where "job_cmac (algo ks) ?owned = Some s"
    using lib(3) by (simp add: job_cmac_def make_signing_algo_of_def)
  ultimately show "\<exists>owned s. owned_verification_segments raw = Inr owned \<and> calculate_signature_bytes pr ks h raw = Inr s \<and>
      job_cmac (algo ks) owned = Some s"
    using long by (simp add: owned_verification_segments_def calculate_signature_bytes_def)
qed

definition sample_cmac_primitives :: "(bytes, bytes) primitives" where
  "sample_cmac_primitives = sample_primitives\<lparr>sign_segments := (\<lambda>k h s ss.
     map_option snd (algo_sign_segments sample_lib (make_signing_algo_of sample_lib 9 AesCmac k) h s ss))\<rparr>"

theorem batched_route_agrees_witness:
  "\<exists>owned s. owned_verification_segments (replicate 70 1) = Inr owned \<and>
     calculate_signature_bytes sample_cmac_primitives [5, 6] sample_header (replicate 70 1) = Inr s \<and>
     job_cmac sample_cmac owned = Some s"
proof -
  have "cmac_lib_rfc sample_lib" by (simp add: cmac_lib_rfc_def sample_lib_def cmac_def)
  moreover have "signs_with sample_cmac_primitives sample_lib (make_signing_algo_of sample_lib 9 AesCmac)"
    by (simp add: signs_with_def sample_cmac_primitives_def)
  ultimately show ?thesis
    using batched_route_agrees [of sample_lib sample_cmac_primitives _ "[5, 6]" 9 "[5, 6]" _ _ "replicate 70 1" sample_header]
    by (simp add: sample_cmac_def)
qed

end
