(* ===== verification/Encryption_Algorithms.thy ===== *)
theory Encryption_Algorithms
  imports Wire_Signing
begin

text \<open>
  The encryption algorithms (crypto/encryption): AES-CCM and AES-GCM with 128 or 256 bit keys.
  The ciphers come from libraries; this code picks the cipher, trims the nonce to the length the
  cipher takes and turns the authentication tag into the signature of the envelope.
\<close>

section \<open>Model\<close>

record aead_lib =
  ccm_encrypt :: "bytes \<Rightarrow> bytes \<Rightarrow> bytes \<Rightarrow> bytes \<Rightarrow> (bytes \<times> bytes) option"
  ccm_decrypt :: "bytes \<Rightarrow> bytes \<Rightarrow> bytes \<Rightarrow> bytes \<Rightarrow> bytes \<Rightarrow> bytes option"
  gcm_encrypt :: "bytes \<Rightarrow> bytes \<Rightarrow> bytes \<Rightarrow> bytes \<Rightarrow> (bytes \<times> bytes) option"
  gcm_decrypt :: "bytes \<Rightarrow> bytes \<Rightarrow> bytes \<Rightarrow> bytes \<Rightarrow> bytes \<Rightarrow> bytes option"

datatype encrypting_algo = CcmEncryptor bytes | AesGcmEncryptor bytes

definition supported_ciphers :: "cipher list" where
  "supported_ciphers = [Aes128Ccm, Aes256Ccm, Aes128Gcm, Aes256Gcm]"

fun cipher_key_size :: "cipher \<Rightarrow> nat" where
  "cipher_key_size Aes128Ccm = 16"
| "cipher_key_size Aes128Gcm = 16"
| "cipher_key_size Aes256Ccm = 32"
| "cipher_key_size Aes256Gcm = 32"

definition make_encrypting_algo_of :: "cipher \<Rightarrow> bytes \<Rightarrow> encrypting_algo option" where
  "make_encrypting_algo_of c key =
     (if c \<notin> set supported_ciphers then None
      else if length key \<noteq> cipher_key_size c then None
      else Some (if c = Aes128Ccm \<or> c = Aes256Ccm then CcmEncryptor key else AesGcmEncryptor key))"

fun algo_nonce_size :: "encrypting_algo \<Rightarrow> nat" where
  "algo_nonce_size (CcmEncryptor key) = 11"
| "algo_nonce_size (AesGcmEncryptor key) = 12"

definition trim_nonce :: "encrypting_algo \<Rightarrow> bytes \<Rightarrow> bytes" where
  "trim_nonce a nonce = take (algo_nonce_size a) nonce"

definition algo_encrypt :: "aead_lib \<Rightarrow> encrypting_algo \<Rightarrow> bytes \<Rightarrow> bytes \<Rightarrow> bytes \<Rightarrow> (bytes \<times> u128) option" where
  "algo_encrypt lib a payload header_data nonce =
     map_option (\<lambda>(ct, tag). (ct, le_word tag))
       (case a of
          CcmEncryptor key \<Rightarrow> ccm_encrypt lib key (trim_nonce a nonce) header_data payload
        | AesGcmEncryptor key \<Rightarrow> gcm_encrypt lib key (trim_nonce a nonce) header_data payload)"

definition algo_decrypt :: "aead_lib \<Rightarrow> encrypting_algo \<Rightarrow> bytes \<Rightarrow> bytes \<Rightarrow> bytes \<Rightarrow> u128 \<Rightarrow> bytes option" where
  "algo_decrypt lib a payload header_data nonce signature =
     (case a of
        CcmEncryptor key \<Rightarrow> ccm_decrypt lib key (trim_nonce a nonce) header_data payload (le_bytes signature)
      | AesGcmEncryptor key \<Rightarrow> gcm_decrypt lib key (trim_nonce a nonce) header_data payload (le_bytes signature))"

section \<open>Decryption undoes encryption\<close>

text \<open>What the libraries promise of an authenticated cipher with detached tags of sixteen bytes.\<close>

definition aead_round_trip ::
  "(bytes \<Rightarrow> bytes \<Rightarrow> bytes \<Rightarrow> bytes \<Rightarrow> (bytes \<times> bytes) option) \<Rightarrow>
   (bytes \<Rightarrow> bytes \<Rightarrow> bytes \<Rightarrow> bytes \<Rightarrow> bytes \<Rightarrow> bytes option) \<Rightarrow> bool" where
  "aead_round_trip enc dec \<longleftrightarrow>
     (\<forall>key n ad m ct tag. enc key n ad m = Some (ct, tag) \<longrightarrow>
        length ct = length m \<and> length tag = 16 \<and> dec key n ad ct tag = Some m)"

definition aead_lib_faithful :: "aead_lib \<Rightarrow> bool" where
  "aead_lib_faithful lib \<longleftrightarrow>
     aead_round_trip (ccm_encrypt lib) (ccm_decrypt lib) \<and> aead_round_trip (gcm_encrypt lib) (gcm_decrypt lib)"

lemma le_bytes_le_word:
  assumes "length bs = 16"
  shows "le_bytes (le_word bs :: u128) = bs"
proof (rule nth_equalityI)
  fix i assume i: "i < length (le_bytes (le_word bs :: u128))"
  have "bit (ucast (drop_bit (8 * i) (le_word bs :: u128)) :: u8) k = bit (bs ! i) k" if k: "k < 8" for k
  proof -
    have "(8 * i + k) div 8 = i" "(8 * i + k) mod 8 = k" "8 * i + k < 128" using k i by simp_all
    then show ?thesis using k i assms by (simp add: bit_ucast_iff bit_drop_bit_eq bit_le_word)
  qed
  then have "(ucast (drop_bit (8 * i) (le_word bs :: u128)) :: u8) = bs ! i" by (intro bit_word_eqI) simp
  with i show "le_bytes (le_word bs :: u128) ! i = bs ! i" by (simp add: le_bytes_def)
qed (simp add: assms)

lemma algo_round_trip:
  assumes "aead_lib_faithful lib" and "algo_encrypt lib a m ad n = Some (ct, sig)"
  shows "length ct = length m \<and> algo_decrypt lib a ct ad n sig = Some m"
  using assms
  by (cases a) (auto simp: aead_lib_faithful_def aead_round_trip_def algo_encrypt_def algo_decrypt_def trim_nonce_def le_bytes_le_word)

text \<open>The pipeline's encryption primitives are this code.\<close>

definition encrypts_with :: "('s, 'c) primitives \<Rightarrow> aead_lib \<Rightarrow> ('c \<Rightarrow> encrypting_algo) \<Rightarrow> bool" where
  "encrypts_with pr lib algo \<longleftrightarrow>
     (\<forall>c m ad n sig. aead_encrypt pr c m ad n = algo_encrypt lib (algo c) m ad n \<and>
        aead_decrypt pr c m ad n sig = algo_decrypt lib (algo c) m ad n sig \<and> nonce_size pr c = algo_nonce_size (algo c))"

lemma encrypts_with_faithful:
  assumes lib: "aead_lib_faithful lib" and pr: "encrypts_with pr lib algo"
  shows "aead_faithful pr"
proof -
  have "nonce_size pr c \<le> 16" for c using pr by (cases "algo c") (simp_all add: encrypts_with_def)
  then show ?thesis using pr algo_round_trip [OF lib] by (auto simp: aead_faithful_def encrypts_with_def)
qed

section \<open>Encrypted requests\<close>

lemma encrypted_envelope:
  assumes aead: "aead_faithful pr" and random: "length random = 16"
    and enc: "encrypt_message pr c random i m = Inr (eh, ct)"
  shows "encrypted_header_read (encrypted_header_write eh @ ct) = Some eh \<and> eh_session_id eh = i \<and>
    unat (eh_original_size eh) = length m \<and> length ct = length m \<and>
    aead_decrypt pr c ct (aead_bytes eh) (eh_nonce eh) (eh_signature eh) = Some m"
proof -
  let ?h = "\<lparr>eh_signature = 0, eh_nonce = gen_nonce pr c random, eh_original_size = of_nat (length m), eh_session_id = i\<rparr>"
  from enc have len: "length m < 2 ^ 32" by (simp add: encrypt_message_def split: if_splits)
  from enc obtain sig where h: "eh = ?h\<lparr>eh_signature := sig\<rparr>"
    and ct: "aead_encrypt pr c m (aead_bytes ?h) (eh_nonce ?h) = Some (ct, sig)"
    by (auto simp: encrypt_message_def Let_def split: if_splits option.splits)
  from aead ct have dec: "nonce_size pr c \<le> 16" "length ct = length m" "aead_decrypt pr c ct (aead_bytes ?h) (eh_nonce ?h) sig = Some m"
    unfolding aead_faithful_def by blast+
  have "aead_bytes eh = aead_bytes ?h" by (simp only: h aead_bytes_signature)
  moreover have "eh_nonce eh = eh_nonce ?h" "eh_signature eh = sig" "eh_session_id eh = i" by (simp_all add: h)
  moreover have "unat (eh_original_size eh) = length m" using len by (simp add: h unat_of_nat)
  moreover have "length (eh_nonce eh) = 16" using dec(1) random by (simp add: h gen_nonce_def)
  ultimately show ?thesis using dec encrypted_header_read_write [of eh ct] by simp
qed

lemma seal_unsigned_segments: "seal_unsigned b = Inr wire \<Longrightarrow> into_segments wire = metadata b # payloads b"
  by (auto simp: seal_unsigned_def finish_unsigned_def seal_def build_def into_segments_def
    split: sum.splits if_splits option.splits)

lemma protect_encrypted:
  assumes z: "lz4_faithful (lz4_lib pr)" and wire: "sealed wire" and out: "protect_wire pr wire True random i w = Inr frame"
  shows "\<exists>c eh ct inner. get_encryptor i w = Inr (Some c) \<and> encrypt_message pr c random i inner = Inr (eh, ct) \<and>
    frame = [encrypted_header_write eh @ ct] \<and> sent_as (lz4_lib pr) (wp_compress w) (concat (into_segments wire)) inner"
proof -
  let ?comp = "if 1024 < wm_total_len wire then wp_compress w else None"
  from out obtain c where c: "get_encryptor i w = Inr (Some c)" and prot: "protect_wire_with pr wire ?comp (Some c) random i = Inr frame"
    by (auto simp: protect_wire_def Let_def split: sum.splits option.splits)
  show ?thesis
  proof (cases ?comp)
    case None
    then have "sent_as (lz4_lib pr) (wp_compress w) (concat (into_segments wire)) (concat (into_segments wire))"
      using wire by (auto simp: sent_as_def sealed_def split: if_splits)
    moreover obtain eh ct where "encrypt_message pr c random i (concat (into_segments wire)) = Inr (eh, ct)"
      "frame = [encrypted_header_write eh @ ct]" using prot [unfolded None]
      by (auto simp: protect_wire_with_def build_def into_contiguous_def into_segments_def send_frame_from_segments_def
          split: sum.splits option.splits if_splits)
    ultimately show ?thesis using c by blast
  next
    case (Some caps)
    then have caps: "wp_compress w = Some caps" and long: "1024 < length (concat (into_segments wire))"
      using wire by (auto simp: sealed_def split: if_splits)
    obtain t eh ct where t: "compress_transform (lz4_lib pr) caps 52 (concat (into_segments wire)) = Inr t"
      and enc: "encrypt_message pr c random i (drop 52 t) = Inr (eh, ct)" and frame: "frame = [encrypted_header_write eh @ ct]"
      using prot [unfolded Some]
      by (auto simp: protect_wire_with_def into_contiguous_def into_segments_def send_frame_from_segments_def
          split: sum.splits option.splits if_splits)
    from transform_sent_as [OF z t long] c enc frame show ?thesis by (auto simp: caps)
  qed
qed

lemma outgoing_encrypted:
  assumes wf: "request_wf (creq_message m)" and secure: "creq_security m = Some ProtEncrypt"
    and out: "transform_outgoing pr cr random False m w = (w', Inr frame)"
  shows "\<exists>wire. protect_wire pr wire True random (hd_session_id (req_header (creq_message m))) w' = Inr frame \<and>
    wp_compress w' = wp_compress w \<and> wp_sessions w' = wp_sessions w \<and>
    sealed wire \<and> concat (into_segments wire) = member_bytes (set_next_command 0 (creq_message m)) @
      (case creq_additional_data m of None \<Rightarrow> [] | Some p \<Rightarrow> p)"
proof -
  from out secure obtain b rs where enc: "encode_requests [creq_message m] (2 ^ 64 - 1) (creq_additional_data m) = Inr (b, rs)"
    by (auto simp: transform_outgoing_def split: sum.splits)
  note lay = encode_requests_layout [OF _ enc]
  have rs: "rs = [set_next_command 0 (creq_message m)]" and b: "metadata b = member_bytes (set_next_command 0 (creq_message m))"
    "payloads b = (case creq_additional_data m of Some p \<Rightarrow> if p = [] then [] else [p] | None \<Rightarrow> [])"
    using lay wf by (auto simp: holds_members_def)
  have sid: "hd_session_id (req_header (hd rs)) = hd_session_id (req_header (creq_message m))" by (simp add: rs set_next_command_def)
  from out secure enc obtain wire w1 where unsigned: "seal_unsigned b = Inr wire"
    and prot: "protect_wire pr wire True random (hd_session_id (req_header (creq_message m))) w' = Inr frame"
    and w': "w' = w1" and w1: "w1 = w \<or> ingest pr (metadata b) w = Inr w1"
    unfolding transform_outgoing_def sid [symmetric]
    by (auto simp: Let_def outgoing_wire_def setup_response_signer_def split: if_splits sum.splits prod.splits)
  have "concat (into_segments wire) = metadata b @ concat (payloads b)" using seal_unsigned_segments [OF unsigned] by simp
  moreover have "wp_compress w1 = wp_compress w \<and> wp_sessions w1 = wp_sessions w"
    using w1 by (auto simp: ingest_def split: sum.splits)
  ultimately show ?thesis using prot w' b seal_signed_sealed(2) [OF unsigned] by (auto split: option.splits)
qed

text \<open>
  C11. An encrypted request can be decrypted to what was sent. The frame is an envelope that
  parses, names the session of the request and the length of the message, and opens, with the
  cipher of that session, to the request, or, where compression was negotiated and the request is
  above its threshold, to a transform that decompresses to it: its header with no next command,
  its body and its payload, byte for byte.
\<close>

theorem encrypted_request_round_trip:
  assumes lib: "aead_lib_faithful lib" and pr: "encrypts_with pr lib algo" and random: "length random = 16"
    and wf: "request_wf (creq_message m)" and secure: "creq_security m = Some ProtEncrypt" and lz4: "lz4_faithful (lz4_lib pr)"
    and out: "transform_outgoing pr cr random False m w = (w', Inr frame)"
  shows "\<exists>c eh ct inner bs. get_encryptor (hd_session_id (req_header (creq_message m))) w = Inr (Some c) \<and>
    concat frame = encrypted_header_write eh @ ct \<and> encrypted_header_read (concat frame) = Some eh \<and>
    eh_session_id eh = hd_session_id (req_header (creq_message m)) \<and> unat (eh_original_size eh) = length inner \<and>
    algo_decrypt lib (algo c) ct (aead_bytes eh) (eh_nonce eh) (eh_signature eh) = Some inner \<and>
    sent_as (lz4_lib pr) (wp_compress w) bs inner \<and>
    header_read bs = Some ((req_header (creq_message m))\<lparr>hd_next_command := 0\<rparr>) \<and>
    drop 64 bs = req_body (creq_message m) @ (case creq_additional_data m of None \<Rightarrow> [] | Some p \<Rightarrow> p)"
proof -
  let ?r = "set_next_command 0 (creq_message m)" and ?i = "hd_session_id (req_header (creq_message m))"
  let ?extra = "case creq_additional_data m of None \<Rightarrow> [] | Some p \<Rightarrow> p"
  from outgoing_encrypted [OF wf secure out] obtain wire where prot: "protect_wire pr wire True random ?i w' = Inr frame"
    and w': "wp_compress w' = wp_compress w" "wp_sessions w' = wp_sessions w"
    and wire: "sealed wire" and bytes: "concat (into_segments wire) = member_bytes ?r @ ?extra" by blast
  from protect_encrypted [OF lz4 wire prot] obtain c eh ct inner where c: "get_encryptor ?i w' = Inr (Some c)"
    and enc: "encrypt_message pr c random ?i inner = Inr (eh, ct)"
    and frame: "frame = [encrypted_header_write eh @ ct]"
    and sent: "sent_as (lz4_lib pr) (wp_compress w) (member_bytes ?r @ ?extra) inner" by (auto simp: bytes w')
  note env = encrypted_envelope [OF encrypts_with_faithful [OF lib pr] random enc]
  have "get_encryptor ?i w = Inr (Some c)" using c w'(2) by (simp add: get_encryptor_def)
  moreover have "algo_decrypt lib (algo c) ct (aead_bytes eh) (eh_nonce eh) (eh_signature eh) = Some inner"
    using env pr by (simp add: encrypts_with_def)
  moreover have wf': "request_wf ?r" using wf by simp
  moreover have "header_read (member_bytes ?r @ ?extra) = Some ((req_header (creq_message m))\<lparr>hd_next_command := 0\<rparr>)"
    using member_bytes_read [OF wf'] by (simp add: set_next_command_def)
  moreover have "drop 64 (member_bytes ?r @ ?extra) = req_body (creq_message m) @ ?extra"
    using header_write_Some [OF wf'] by (auto simp: member_bytes_def set_next_command_def)
  ultimately show ?thesis using env frame sent
    by (intro exI [of _ c] exI [of _ eh] exI [of _ ct] exI [of _ inner] exI [of _ "member_bytes ?r @ ?extra"] conjI) auto
qed

text \<open>A read sent over the encrypted session of the sample connection.\<close>

definition sample_aead :: aead_lib where
  "sample_aead = \<lparr>ccm_encrypt = (\<lambda>key n ad m. None), ccm_decrypt = (\<lambda>key n ad m tag. None),
     gcm_encrypt = (\<lambda>key n ad m. Some (m, replicate 16 0)), gcm_decrypt = (\<lambda>key n ad m tag. Some m)\<rparr>"

definition sample_encrypted_request :: command_request where
  "sample_encrypted_request = sample_request\<lparr>creq_security := Some ProtEncrypt\<rparr>"

lemma le_word_zeros: "le_word (replicate n 0) = 0"
  by (induction n) simp_all

lemma sample_encrypts_with: "encrypts_with sample_primitives sample_aead AesGcmEncryptor"
  by (simp add: encrypts_with_def sample_primitives_def sample_aead_def algo_encrypt_def algo_decrypt_def le_word_zeros)

lemma sample_request_goes_out:
  "\<exists>frame. transform_outgoing sample_primitives sample_crypto (replicate 16 1) False sample_encrypted_request sample_wire =
     (sample_wire, Inr frame)"
proof -
  have enc: "\<exists>m. length m = 67 \<and> encode_requests [creq_message sample_encrypted_request] (2 ^ 64 - 1) None =
     Inr (\<lparr>metadata = m, payloads = [], member_ranges = [], segment_limit = 2 ^ 64 - 1, build_state = OffsetsFinalized,
       patched_members = 0\<rparr>, [set_next_command 0 (creq_message sample_encrypted_request)])"
    by (simp add: encode_requests_def finalize_offsets_def wire_encode_def sample_encrypted_request_def sample_request_def
        sample_header_def Let_def request_write_def header_write_def set_next_command_def flag_async_command_def
        flag_server_to_redir_def header_magic_def optional_def)
  then obtain m where m: "length m = 67" and enc: "encode_requests [creq_message sample_encrypted_request] (2 ^ 64 - 1) None =
     Inr (\<lparr>metadata = m, payloads = [], member_ranges = [], segment_limit = 2 ^ 64 - 1, build_state = OffsetsFinalized,
       patched_members = 0\<rparr>, [set_next_command 0 (creq_message sample_encrypted_request)])" by blast
  have key: "get_encryptor 7 sample_wire = Inr (Some [1, 2])"
    by (simp add: get_encryptor_def sample_wire_def session_encryptor_def sample_session_ready)
  have extra: "creq_additional_data sample_encrypted_request = None" "creq_security sample_encrypted_request = Some ProtEncrypt"
    "hd_session_id (req_header (creq_message sample_encrypted_request)) = 7"
    "hd_command (req_header (creq_message sample_encrypted_request)) = CmdRead"
    by (simp_all add: sample_encrypted_request_def sample_request_def sample_header_def)
  have "wp_compress sample_wire = None" by (simp add: sample_wire_def wire_default_def)
  then show ?thesis using m key
    by (simp add: transform_outgoing_def extra enc [simplified] Let_def set_next_command_def participates_in_preauth_outgoing_def
        outgoing_wire_def seal_unsigned_def finish_unsigned_def seal_def build_def setup_response_signer_def
        protect_wire_def protect_wire_with_def into_contiguous_def usize_add_def encrypt_message_def sample_primitives_def
        send_frame_from_segments_def gen_nonce_def encrypted_header_write_def encrypted_magic_def)
qed

theorem encrypted_request_round_trip_witness:
  "\<exists>frame eh ct bs. transform_outgoing sample_primitives sample_crypto (replicate 16 1) False sample_encrypted_request sample_wire =
      (sample_wire, Inr frame) \<and> encrypted_header_read (concat frame) = Some eh \<and> concat frame = encrypted_header_write eh @ ct \<and>
     algo_decrypt sample_aead (AesGcmEncryptor [1, 2]) ct (aead_bytes eh) (eh_nonce eh) (eh_signature eh) = Some bs \<and>
     header_read bs = Some sample_header \<and> drop 64 bs = [1, 2, 3]"
proof -
  from sample_request_goes_out obtain frame where out: "transform_outgoing sample_primitives sample_crypto (replicate 16 1) False
    sample_encrypted_request sample_wire = (sample_wire, Inr frame)" by blast
  have lib: "aead_lib_faithful sample_aead"
    by (simp add: aead_lib_faithful_def aead_round_trip_def sample_aead_def)
  have m: "request_wf (creq_message sample_encrypted_request)" "creq_security sample_encrypted_request = Some ProtEncrypt"
    "creq_additional_data sample_encrypted_request = None" "req_body (creq_message sample_encrypted_request) = [1, 2, 3]"
    "req_header (creq_message sample_encrypted_request) = sample_header" "sample_header\<lparr>hd_next_command := 0\<rparr> = sample_header"
    "hd_session_id sample_header = 7" "lz4_faithful (lz4_lib sample_primitives)" "wp_compress sample_wire = None"
    by (simp_all add: sample_encrypted_request_def sample_request_def sample_header_def header_wf_def flag_async_command_def
        sample_wire_def wire_default_def sample_primitives_def sample_lz4_faithful)
  have key: "get_encryptor 7 sample_wire = Inr (Some [1, 2])"
    by (simp add: get_encryptor_def sample_wire_def session_encryptor_def sample_session_ready)
  from encrypted_request_round_trip [OF lib sample_encrypts_with _ m(1,2,8) out] show ?thesis
    using out key by (auto simp: m(3-7) m(9) sent_as_def)
qed

end
