(* ===== verification/Transport.thy ===== *)
theory Transport
  imports Segmented_Bytes Message_Security
begin

text \<open>
  The transport (smb-transport): outgoing frames with their framing header and a cursor that
  survives partial writes (iovec.rs), the loop that writes a frame to a socket (tcp/transport.rs),
  and the receiver that reads one frame off the stream (traits.rs, frame.rs). The socket is a
  script of what its calls return and the bytes that went through it.
\<close>

section \<open>Model\<close>

datatype transport_error =
    InvalidFrame
  | SegmentLimit nat nat
  | FrameTooLarge nat nat
  | CursorOutOfBounds nat nat
  | NotConnected
  | WriteZero
  | SocketError
  | CursorPanic

record send_frame =
  frame_segments :: "bytes list"
  frame_total_len :: nat

definition send_frame_new :: "bytes list \<Rightarrow> nat \<Rightarrow> transport_error + send_frame" where
  "send_frame_new segments maximum =
     (let len = length (concat segments) in
      if segments = [] then Inl InvalidFrame
      else if maximum < length segments then Inl (SegmentLimit (length segments) maximum)
      else if 2 ^ 64 \<le> len then Inl InvalidFrame
      else if len = 0 then Inl InvalidFrame
      else if 2 ^ 32 \<le> len then Inl (FrameTooLarge len (2 ^ 32 - 1))
      else Inr \<lparr>frame_segments = segments, frame_total_len = len\<rparr>)"

text \<open>The framing header: a zero byte and the low 24 bits of the length, the highest byte first.\<close>

definition header_size :: nat where
  "header_size = 4"

definition tcp_header_write :: "u32 \<Rightarrow> bytes" where
  "tcp_header_write len = [0, ucast (drop_bit 16 len), ucast (drop_bit 8 len), ucast len]"

definition tcp_header_read :: "bytes \<Rightarrow> u32 option" where
  "tcp_header_read bs =
     (if length bs < header_size \<or> bs ! 0 \<noteq> 0 then None
      else Some (push_bit 16 (ucast (bs ! 1)) OR push_bit 8 (ucast (bs ! 2)) OR ucast (bs ! 3)))"

record send_cursor =
  sc_header :: bytes
  sc_header_pos :: nat
  sc_frame :: send_frame
  sc_segment_index :: nat
  sc_segment_pos :: nat

definition send_cursor_new :: "send_frame \<Rightarrow> transport_error + send_cursor" where
  "send_cursor_new f =
     (if 2 ^ 32 \<le> frame_total_len f then Inl (FrameTooLarge (frame_total_len f) (2 ^ 32 - 1))
      else Inr \<lparr>sc_header = tcp_header_write (of_nat (frame_total_len f)), sc_header_pos = 0, sc_frame = f,
        sc_segment_index = 0, sc_segment_pos = 0\<rparr>)"

definition cursor_remaining :: "send_cursor \<Rightarrow> nat" where
  "cursor_remaining c =
     (length (sc_header c) - sc_header_pos c) +
     (case drop (sc_segment_index c) (frame_segments (sc_frame c)) of
        [] \<Rightarrow> 0
      | s # ss \<Rightarrow> (length s - sc_segment_pos c) + sum_list (map length ss))"

text \<open>The loop of \<open>try_advance\<close> over the segments; \<open>None\<close> is an index behind the last one.\<close>

function advance_segments :: "bytes list \<Rightarrow> nat \<Rightarrow> nat \<Rightarrow> nat \<Rightarrow> (nat \<times> nat) option" where
  "advance_segments segs i pos amount =
     (if amount = 0 then Some (i, pos)
      else if length segs \<le> i then None
      else let consumed = min amount (length (segs ! i) - pos); pos = pos + consumed in
        if pos = length (segs ! i) then advance_segments segs (i + 1) 0 (amount - consumed)
        else if consumed = 0 then None
        else advance_segments segs i pos (amount - consumed))"
  by pat_completeness auto
termination
  by (relation "measures [\<lambda>(segs, i, pos, amount). length segs - i, \<lambda>(segs, i, pos, amount). amount]") (auto simp: Let_def)

declare advance_segments.simps [simp del]

definition try_advance :: "nat \<Rightarrow> send_cursor \<Rightarrow> transport_error + send_cursor" where
  "try_advance amount c =
     (if cursor_remaining c < amount then Inl (CursorOutOfBounds amount (cursor_remaining c))
      else let header_count = min amount (length (sc_header c) - sc_header_pos c) in
        (case advance_segments (frame_segments (sc_frame c)) (sc_segment_index c) (sc_segment_pos c) (amount - header_count) of
           None \<Rightarrow> Inl CursorPanic
         | Some (i, pos) \<Rightarrow>
             Inr (c\<lparr>sc_header_pos := sc_header_pos c + header_count, sc_segment_index := i, sc_segment_pos := pos\<rparr>)))"

text \<open>The slices of the segments from a position on, without empty ones.\<close>

fun segment_slices :: "nat \<Rightarrow> nat \<Rightarrow> bytes list \<Rightarrow> bytes list" where
  "segment_slices space pos [] = []"
| "segment_slices space pos (s # ss) =
     (if space = 0 then []
      else if pos < length s then drop pos s # segment_slices (space - 1) 0 ss
      else segment_slices space 0 ss)"

definition chunk :: "send_cursor \<Rightarrow> bytes" where
  "chunk c =
     (if sc_header_pos c < length (sc_header c) then drop (sc_header_pos c) (sc_header c)
      else (case segment_slices 1 (sc_segment_pos c) (drop (sc_segment_index c) (frame_segments (sc_frame c))) of
              [] \<Rightarrow> []
            | s # _ \<Rightarrow> s))"

definition chunks_vectored :: "nat \<Rightarrow> send_cursor \<Rightarrow> bytes list" where
  "chunks_vectored space c =
     (if space = 0 then []
      else if sc_header_pos c < length (sc_header c)
      then drop (sc_header_pos c) (sc_header c) #
        segment_slices (space - 1) (sc_segment_pos c) (drop (sc_segment_index c) (frame_segments (sc_frame c)))
      else segment_slices space (sc_segment_pos c) (drop (sc_segment_index c) (frame_segments (sc_frame c))))"

definition max_vectored_segments :: nat where
  "max_vectored_segments = 63"

text \<open>What a call of \<open>write_vectored\<close> returns: how much of the slices it took, or an error.\<close>

datatype write_outcome = Wrote nat | WriteFailed

datatype send_result = SendDone | SendFailed transport_error | SendPending

text \<open>The write loop: what went to the stream, and the progress that was reported.\<close>

fun write_loop :: "send_cursor \<Rightarrow> write_outcome list \<Rightarrow> send_result \<times> bytes \<times> nat list" where
  "write_loop c script =
     (if cursor_remaining c = 0 then (SendDone, [], [])
      else (case script of
          [] \<Rightarrow> (SendPending, [], [])
        | WriteFailed # _ \<Rightarrow> (SendFailed SocketError, [], [])
        | Wrote n # rest \<Rightarrow>
            let out = take n (concat (chunks_vectored (max_vectored_segments + 1) c)) in
            if n = 0 then (SendFailed WriteZero, [], [])
            else (case try_advance n c of
                    Inl e \<Rightarrow> (SendFailed e, out, [])
                  | Inr c \<Rightarrow> (case write_loop c rest of (r, out', ns) \<Rightarrow> (r, out @ out', n # ns)))))"

definition tcp_send_with_progress :: "send_frame \<Rightarrow> bool \<Rightarrow> write_outcome list \<Rightarrow> send_result \<times> bytes \<times> nat list" where
  "tcp_send_with_progress f connected script =
     (if max_vectored_segments < length (frame_segments f)
      then (SendFailed (SegmentLimit (length (frame_segments f)) max_vectored_segments), [], [])
      else (case send_cursor_new f of
              Inl e \<Rightarrow> (SendFailed e, [], [])
            | Inr c \<Rightarrow> if \<not> connected then (SendFailed NotConnected, [], []) else write_loop c script))"

text \<open>Receiving from a stream that will not deliver more than the bytes given.\<close>

definition receive_exact :: "nat \<Rightarrow> bytes \<Rightarrow> transport_error + bytes \<times> bytes" where
  "receive_exact n stream = (if length stream < n then Inl NotConnected else Inr (take n stream, drop n stream))"

definition transport_frame_new :: "bytes \<Rightarrow> nat \<Rightarrow> transport_error + bytes" where
  "transport_frame_new bs max_len = (if max_len < length bs then Inl (FrameTooLarge (length bs) max_len) else Inr bs)"

definition receive_with_limit :: "nat \<Rightarrow> bytes \<Rightarrow> transport_error + bytes \<times> bytes" where
  "receive_with_limit maximum stream =
     (case receive_exact header_size stream of
        Inl e \<Rightarrow> Inl e
      | Inr (header_data, stream) \<Rightarrow>
          (case tcp_header_read header_data of
             None \<Rightarrow> Inl InvalidFrame
           | Some len \<Rightarrow>
               if maximum < unat len then Inl (FrameTooLarge (unat len) maximum)
               else (case receive_exact (unat len) stream of
                       Inl e \<Rightarrow> Inl e
                     | Inr (data, stream) \<Rightarrow>
                         (case transport_frame_new data maximum of Inl e \<Rightarrow> Inl e | Inr f \<Rightarrow> Inr (f, stream)))))"

section \<open>Partial writes\<close>

text \<open>What a cursor still has to send.\<close>

definition cursor_bytes :: "send_cursor \<Rightarrow> bytes" where
  "cursor_bytes c =
     drop (sc_header_pos c) (sc_header c) @
     left_at (frame_segments (sc_frame c)) (sc_segment_index c) (sc_segment_pos c)"

definition cursor_wf :: "send_cursor \<Rightarrow> bool" where
  "cursor_wf c \<longleftrightarrow> position_ok (frame_segments (sc_frame c)) (sc_segment_index c) (sc_segment_pos c) \<and>
     length (frame_segments (sc_frame c)) \<le> max_vectored_segments"

lemma left_at_drop:
  "position_ok segs i pos \<Longrightarrow> left_at segs i pos = (case drop i segs of [] \<Rightarrow> [] | s # ss \<Rightarrow> drop pos s @ concat ss)"
  by (cases "i < length segs") (auto simp: position_ok_def left_at_def simp flip: Cons_nth_drop_Suc)

lemma cursor_remaining_bytes: "cursor_wf c \<Longrightarrow> cursor_remaining c = length (cursor_bytes c)"
  by (auto simp: cursor_wf_def cursor_remaining_def cursor_bytes_def left_at_drop length_concat split: list.split)

lemma advance_segments_ok:
  "position_ok segs i pos \<Longrightarrow> n \<le> length (left_at segs i pos) \<Longrightarrow>
     \<exists>i' pos'. advance_segments segs i pos n = Some (i', pos') \<and> position_ok segs i' pos' \<and>
       left_at segs i' pos' = drop n (left_at segs i pos)"
proof (induction segs i pos n rule: advance_segments.induct)
  case (1 segs i pos n)
  show ?case
  proof (cases "n = 0")
    case True
    then show ?thesis using 1(3) by (simp add: advance_segments.simps [of segs i pos])
  next
    case n: False
    let ?s = "segs ! i" and ?k = "min n (length (segs ! i) - pos)"
    have i: "i < length segs" using 1(3,4) n left_at_past [of segs i pos] by fastforce
    then have pos: "pos \<le> length ?s" using 1(3) by (simp add: position_ok_def)
    have left: "left_at segs i pos = drop pos ?s @ concat (drop (i + 1) segs)" by (rule left_at_segment(2) [OF i pos])
    show ?thesis
    proof (cases "pos + ?k = length ?s")
      case True
      then have next_left: "left_at segs (i + 1) 0 = drop ?k (left_at segs i pos)"
      proof -
        have "drop ?k (drop pos ?s) = []" "?k = length (drop pos ?s)" using True pos by simp_all
        then have "drop ?k (drop pos ?s @ concat (drop (i + 1) segs)) = concat (drop (i + 1) segs)" by (metis append_eq_conv_conj)
        then show ?thesis unfolding left by (simp add: left_at_def)
      qed
      have eq: "advance_segments segs i pos n = advance_segments segs (i + 1) 0 (n - ?k)"
        using n i True by (subst advance_segments.simps) (simp add: Let_def)
      from 1(1) [OF n _ refl refl True] i 1(4) next_left show ?thesis
        unfolding eq by (simp add: position_ok_def)
    next
      case False
      then have k: "?k = n" "pos + n < length ?s" using pos by (auto simp: min_def split: if_splits)
      then have "advance_segments segs i pos n = Some (i, pos + n)"
        using n i by (subst advance_segments.simps) (simp add: Let_def advance_segments.simps [of segs i "pos + n" 0])
      moreover have "left_at segs i (pos + n) = drop n (left_at segs i pos)" by (simp add: left_at_def add.commute)
      ultimately show ?thesis using i k by (simp add: position_ok_def)
    qed
  qed
qed

lemma try_advance_ok:
  assumes wf: "cursor_wf c" and n: "n \<le> cursor_remaining c"
  shows "\<exists>c'. try_advance n c = Inr c' \<and> cursor_wf c' \<and> cursor_bytes c' = drop n (cursor_bytes c)"
proof -
  let ?segs = "frame_segments (sc_frame c)" and ?h = "length (sc_header c) - sc_header_pos c"
  let ?left = "left_at ?segs (sc_segment_index c) (sc_segment_pos c)"
  have "n - min n ?h \<le> length ?left" using n by (simp add: cursor_remaining_bytes [OF wf] cursor_bytes_def)
  from advance_segments_ok [OF _ this] wf obtain i pos
    where adv: "advance_segments ?segs (sc_segment_index c) (sc_segment_pos c) (n - min n ?h) = Some (i, pos)"
      and pos: "position_ok ?segs i pos" "left_at ?segs i pos = drop (n - min n ?h) ?left" by (auto simp: cursor_wf_def)
  have "n - min n ?h = n - ?h" by simp
  moreover have "drop (sc_header_pos c + min n ?h) (sc_header c) = drop n (drop (sc_header_pos c) (sc_header c))"
    by (cases "n \<le> ?h") (simp_all add: add.commute)
  ultimately show ?thesis using n wf pos adv
    by (simp add: try_advance_def Let_def cursor_wf_def cursor_bytes_def)
qed

lemma segment_slices_concat:
  "length ss \<le> space \<Longrightarrow> pos \<le> (case ss of [] \<Rightarrow> 0 | s # _ \<Rightarrow> length s) \<Longrightarrow>
     concat (segment_slices space pos ss) = (case ss of [] \<Rightarrow> [] | s # ss \<Rightarrow> drop pos s @ concat ss)"
proof (induction ss arbitrary: space pos)
  case (Cons s ss)
  have rest: "concat (segment_slices sp 0 ss) = concat ss" if "length ss \<le> sp" for sp
    using Cons.IH [OF that, of 0] by (cases ss) simp_all
  have "length ss \<le> space" "length ss \<le> space - 1" "space \<noteq> 0" using Cons.prems(1) by auto
  then show ?case using Cons.prems(2) rest by simp
qed simp

lemma chunks_vectored_concat:
  assumes wf: "cursor_wf c"
  shows "concat (chunks_vectored (max_vectored_segments + 1) c) = cursor_bytes c"
proof -
  let ?ss = "drop (sc_segment_index c) (frame_segments (sc_frame c))"
  have pos: "sc_segment_pos c \<le> (case ?ss of [] \<Rightarrow> 0 | s # _ \<Rightarrow> length s)"
    using wf by (auto simp: cursor_wf_def position_ok_def simp flip: Cons_nth_drop_Suc split: if_splits)
  have "concat (segment_slices space (sc_segment_pos c) ?ss) = left_at (frame_segments (sc_frame c)) (sc_segment_index c) (sc_segment_pos c)"
    if "max_vectored_segments \<le> space" for space
  proof -
    have "length ?ss \<le> space" using wf that unfolding cursor_wf_def length_drop by linarith
    then show ?thesis using segment_slices_concat [OF _ pos] wf by (simp add: cursor_wf_def left_at_drop)
  qed
  then show ?thesis by (simp add: chunks_vectored_def cursor_bytes_def)
qed

lemma write_loop_prefix:
  "cursor_wf c \<Longrightarrow> write_loop c script = (r, out, ns) \<Longrightarrow>
     (\<exists>rest. cursor_bytes c = out @ rest \<and> (r = SendDone \<longrightarrow> rest = [])) \<and>
     sum_list ns \<le> length out \<and> (r \<in> {SendDone, SendPending, SendFailed SocketError, SendFailed WriteZero} \<longrightarrow> sum_list ns = length out)"
proof (induction script arbitrary: c r out ns)
  case Nil
  then show ?case using cursor_remaining_bytes [OF Nil(1)] by (auto split: if_splits)
next
  case (Cons w script)
  note len = cursor_remaining_bytes [OF Cons.prems(1)]
  show ?case
  proof (cases "cursor_remaining c = 0 \<or> w = WriteFailed \<or> w = Wrote 0")
    case True
    then show ?thesis using Cons.prems(2) len by (auto split: if_splits)
  next
    case False
    then obtain n where w: "w = Wrote n" "0 < n" by (cases w) auto
    let ?out = "take n (cursor_bytes c)"
    show ?thesis
    proof (cases "n \<le> cursor_remaining c")
      case True
      from try_advance_ok [OF Cons.prems(1) True] obtain c' where c': "try_advance n c = Inr c'" "cursor_wf c'"
        "cursor_bytes c' = drop n (cursor_bytes c)" by blast
      obtain r' out' ns' where rest: "write_loop c' script = (r', out', ns')" by (cases "write_loop c' script") auto
      from Cons.prems(2) False w c'(1) rest have "r = r'" "out = ?out @ out'" "ns = n # ns'"
        using chunks_vectored_concat [OF Cons.prems(1)] by (auto simp: Let_def)
      moreover have "length ?out = n" using True len by simp
      moreover obtain tail where "cursor_bytes c' = out' @ tail" "r' = SendDone \<longrightarrow> tail = []"
        using Cons.IH [OF c'(2) rest] by blast
      then have "cursor_bytes c = (?out @ out') @ tail" by (metis append_take_drop_id append_assoc c'(3))
      ultimately show ?thesis using Cons.IH [OF c'(2) rest] \<open>r' = SendDone \<longrightarrow> tail = []\<close> by auto
    next
      case over: False
      then have "try_advance n c = Inl (CursorOutOfBounds n (cursor_remaining c))" by (simp add: try_advance_def)
      with Cons.prems(2) False w show ?thesis
        using chunks_vectored_concat [OF Cons.prems(1)] by (auto simp: Let_def intro!: exI [of _ "drop n (cursor_bytes c)"])
    qed
  qed
qed

lemma send_cursor_new_wf:
  assumes "send_frame_new segments m = Inr f" and "length segments \<le> max_vectored_segments" and "send_cursor_new f = Inr c"
  shows "cursor_wf c \<and> cursor_bytes c = tcp_header_write (of_nat (length (concat segments))) @ concat segments"
  using assms
  by (auto simp: send_frame_new_def send_cursor_new_def cursor_wf_def cursor_bytes_def position_ok_def left_at_def Let_def
      split: if_splits)

lemma tcp_send_prefix:
  assumes new: "send_frame_new segments m = Inr f" and send: "tcp_send_with_progress f connected script = (r, out, ns)"
  shows "(\<exists>rest. tcp_header_write (of_nat (length (concat segments))) @ concat segments = out @ rest \<and> (r = SendDone \<longrightarrow> rest = [])) \<and>
    sum_list ns \<le> length out \<and> (r \<in> {SendDone, SendPending, SendFailed SocketError, SendFailed WriteZero} \<longrightarrow> sum_list ns = length out)"
proof (cases "max_vectored_segments < length (frame_segments f) \<or> isl (send_cursor_new f) \<or> \<not> connected")
  case True
  then show ?thesis using send by (auto simp: tcp_send_with_progress_def isl_def split: if_splits sum.splits)
next
  case False
  then obtain c where c: "send_cursor_new f = Inr c" by (cases "send_cursor_new f") auto
  have "frame_segments f = segments" using new by (auto simp: send_frame_new_def Let_def split: if_splits)
  with False have "length segments \<le> max_vectored_segments" by simp
  note wf = send_cursor_new_wf [OF new this c]
  have "write_loop c script = (r, out, ns)" using send False c by (simp add: tcp_send_with_progress_def del: write_loop.simps)
  from write_loop_prefix [OF conjunct1 [OF wf] this] show ?thesis unfolding conjunct2 [OF wf] .
qed

text \<open>Writes that each take something, and together everything, complete the frame.\<close>

lemma write_loop_completes:
  "cursor_wf c \<Longrightarrow> list_all (\<lambda>n. 0 < n) ns \<Longrightarrow> sum_list ns = cursor_remaining c \<Longrightarrow>
     write_loop c (map Wrote ns) = (SendDone, cursor_bytes c, ns)"
proof (induction ns arbitrary: c)
  case Nil
  then show ?case using cursor_remaining_bytes [OF Nil(1)] by simp
next
  case (Cons n ns)
  have n: "n \<le> cursor_remaining c" "0 < n" "cursor_remaining c \<noteq> 0" using Cons.prems(2,3) by auto
  from try_advance_ok [OF Cons.prems(1) n(1)] obtain c' where c': "try_advance n c = Inr c'" "cursor_wf c'"
    "cursor_bytes c' = drop n (cursor_bytes c)" by blast
  have "sum_list ns = cursor_remaining c'"
    using Cons.prems(1,3) by (simp add: cursor_remaining_bytes c')
  from Cons.IH [OF c'(2) _ this] Cons.prems(2) n c' chunks_vectored_concat [OF Cons.prems(1)] show ?case
    by (simp add: Let_def)
qed

section \<open>Frames survive the stream\<close>

lemma tcp_header_bits: "len < 2 ^ 24 \<Longrightarrow> bit (of_nat len :: u32) k \<Longrightarrow> k < 24"
proof (rule ccontr)
  assume len: "len < 2 ^ 24" and bit: "bit (of_nat len :: u32) k" and "\<not> k < 24"
  then have "len < 2 ^ k" using power_increasing [of 24 k "2 :: nat"] by simp
  then have "\<not> bit len k" by (simp add: bit_iff_odd)
  with bit show False by (simp add: bit_of_nat_iff_bit bit_of_nat_iff [where ?'a = u32])
qed

lemma tcp_header_round_trip:
  assumes "len < 2 ^ 24"
  shows "tcp_header_read (tcp_header_write (of_nat len)) = Some (of_nat len)"
proof -
  let ?w = "of_nat len :: u32"
  have "push_bit 16 (ucast (ucast (drop_bit 16 ?w) :: u8)) OR push_bit 8 (ucast (ucast (drop_bit 8 ?w) :: u8)) OR
      ucast (ucast ?w :: u8) = ?w"
  proof (rule bit_word_eqI)
    fix k assume k: "k < LENGTH(32)"
    consider "k < 8" | "8 \<le> k" "k < 16" | "16 \<le> k" "k < 24" | "24 \<le> k" by linarith
    then show "bit (push_bit 16 (ucast (ucast (drop_bit 16 ?w) :: u8)) OR push_bit 8 (ucast (ucast (drop_bit 8 ?w) :: u8)) OR
        ucast (ucast ?w :: u8) :: u32) k = bit ?w k"
      using k tcp_header_bits [OF assms, of k]
      by cases (auto simp: bit_or_iff bit_push_bit_iff bit_ucast_iff bit_drop_bit_eq)
  qed
  then show ?thesis by (simp add: tcp_header_read_def tcp_header_write_def header_size_def)
qed

fun receive_frames :: "nat \<Rightarrow> bytes \<Rightarrow> transport_error + bytes list \<times> bytes" where
  "receive_frames 0 stream = Inr ([], stream)"
| "receive_frames (Suc n) stream =
     (case receive_with_limit default_max_frame_size stream of
        Inl e \<Rightarrow> Inl e
      | Inr (f, stream) \<Rightarrow>
          (case receive_frames n stream of Inl e \<Rightarrow> Inl e | Inr (fs, stream) \<Rightarrow> Inr (f # fs, stream)))"

lemma receive_one:
  assumes "length body < 2 ^ 24"
  shows "receive_with_limit default_max_frame_size (tcp_header_write (of_nat (length body)) @ body @ rest) = Inr (body, rest)"
proof -
  have h: "length (tcp_header_write (of_nat (length body))) = header_size" by (simp add: tcp_header_write_def header_size_def)
  have "unat (of_nat (length body) :: u32) = length body" using assms by (simp add: unat_of_nat)
  then show ?thesis using assms tcp_header_round_trip [OF assms]
    by (simp add: receive_with_limit_def receive_exact_def h default_max_frame_size_def transport_frame_new_def)
qed

text \<open>
  C17. Frames survive the stream. However the socket cuts the writes, if each of a sequence of
  frames shorter than sixteen megabytes is sent to its end, the receiver at the other end reads
  exactly these payloads, in order, and stops where they end. A send that stops early has written
  a prefix of its frame and reported no more progress than it made.
\<close>

theorem frames_survive_partial_writes:
  assumes "list_all (\<lambda>(segments, f, script, out, ns).
    send_frame_new segments max_vectored_segments = Inr f \<and> length (concat segments) < 2 ^ 24 \<and>
    tcp_send_with_progress f True script = (SendDone, out, ns)) sent"
    and "send_frame_new segments' m = Inr f'" and "tcp_send_with_progress f' connected script' = (r', out', ns')"
  shows "receive_frames (length sent) (concat (map (\<lambda>(segments, f, script, out, ns). out) sent) @ out') =
      Inr (map (\<lambda>(segments, f, script, out, ns). concat segments) sent, out') \<and>
    (\<exists>rest. tcp_header_write (of_nat (length (concat segments'))) @ concat segments' = out' @ rest) \<and> sum_list ns' \<le> length out'"
proof (intro conjI)
  show "receive_frames (length sent) (concat (map (\<lambda>(segments, f, script, out, ns). out) sent) @ out') =
      Inr (map (\<lambda>(segments, f, script, out, ns). concat segments) sent, out')"
    using assms(1)
  proof (induction sent)
    case (Cons x sent)
    obtain segments f script out ns where x: "x = (segments, f, script, out, ns)" by (cases x)
    have new: "send_frame_new segments max_vectored_segments = Inr f" and len: "length (concat segments) < 2 ^ 24"
      and send: "tcp_send_with_progress f True script = (SendDone, out, ns)" using Cons.prems by (simp_all add: x)
    have "out = tcp_header_write (of_nat (length (concat segments))) @ concat segments"
      using tcp_send_prefix [OF new send] by auto
    with receive_one [OF len] Cons show ?case by (simp add: x)
  qed simp
qed (use tcp_send_prefix [OF assms(2,3)] in auto)

definition sample_segments :: "bytes list" where
  "sample_segments = [[1, 2], [], [3]]"

theorem frames_survive_partial_writes_witness:
  "\<exists>f out ns. send_frame_new sample_segments max_vectored_segments = Inr f \<and>
     tcp_send_with_progress f True [Wrote 1, Wrote 4, Wrote 2] = (SendDone, out, ns) \<and>
     receive_frames 1 (out @ [0, 0]) = Inr ([[1, 2, 3]], [0, 0])"
proof -
  let ?f = "\<lparr>frame_segments = sample_segments, frame_total_len = 3\<rparr>"
  have new: "send_frame_new sample_segments max_vectored_segments = Inr ?f"
    by (simp add: send_frame_new_def sample_segments_def max_vectored_segments_def)
  have three: "\<not> max_vectored_segments < length sample_segments" by (simp add: sample_segments_def max_vectored_segments_def)
  obtain c where c: "send_cursor_new ?f = Inr c" by (simp add: send_cursor_new_def)
  from send_cursor_new_wf [OF new _ c] have wf: "cursor_wf c" "length (cursor_bytes c) = 7"
    by (simp_all add: sample_segments_def max_vectored_segments_def tcp_header_write_def)
  have "write_loop c (map Wrote [1, 4, 2]) = (SendDone, cursor_bytes c, [1, 4, 2])"
    by (rule write_loop_completes) (simp_all add: wf cursor_remaining_bytes)
  then have send: "tcp_send_with_progress ?f True [Wrote 1, Wrote 4, Wrote 2] = (SendDone, cursor_bytes c, [1, 4, 2])"
    using wf(1) by (simp add: tcp_send_with_progress_def c cursor_wf_def three del: write_loop.simps)
  have two: "send_frame_new [[9]] 1 = Inr \<lparr>frame_segments = [[9]], frame_total_len = 1\<rparr>" by (simp add: send_frame_new_def)
  have cut: "tcp_send_with_progress \<lparr>frame_segments = [[9]], frame_total_len = 1\<rparr> True [Wrote 2] = (SendPending, [0, 0], [2])"
    by (simp add: tcp_send_with_progress_def max_vectored_segments_def send_cursor_new_def cursor_remaining_def try_advance_def
        chunks_vectored_def tcp_header_write_def Let_def advance_segments.simps)
  from frames_survive_partial_writes [of "[(sample_segments, ?f, [Wrote 1, Wrote 4, Wrote 2], cursor_bytes c, [1, 4, 2])]",
      OF _ two cut] new send show ?thesis by (simp add: sample_segments_def)
qed

section \<open>Too long for its header\<close>

text \<open>A frame of sixteen megabytes or more is accepted, but its header announces the length modulo
  \<open>2 ^ 24\<close>: the receiver takes the rest of it for the next frame.\<close>

lemma oversized_frame_misframed: "tcp_header_write (of_nat (2 ^ 24 + n)) = tcp_header_write (of_nat n)"
proof -
  have "bit (of_nat (2 ^ 24 + n) :: u32) k = bit (of_nat n :: u32) k" if "k < 24" for k
  proof -
    have "take_bit 24 (2 ^ 24 + n) = take_bit 24 n" by (simp add: take_bit_eq_mod)
    then have "bit (2 ^ 24 + n) k = bit n k" using that by (metis bit_take_bit_iff)
    then show ?thesis unfolding bit_of_nat_iff by simp
  qed
  then have "ucast (drop_bit j (of_nat (2 ^ 24 + n) :: u32)) = (ucast (drop_bit j (of_nat n :: u32)) :: u8)" if "j \<le> 16" for j
    using that by (intro bit_word_eqI) (simp add: bit_ucast_iff bit_drop_bit_eq del: of_nat_add)
  from this [of 16] this [of 8] this [of 0] show ?thesis by (simp add: tcp_header_write_def del: of_nat_add)
qed

end
