(* ===== verification/Numerals.thy ===== *)
theory Numerals
  imports Wire_Header
begin

text \<open>
  Numbers as text, the part of Rust's formatting and parsing that the identifiers of the protocol
  use: \<open>{}\<close>, \<open>{:x}\<close> with a fill character and a width, \<open>parse\<close> and \<open>from_str_radix\<close> of unsigned
  integers. Text is the list of its bytes.
\<close>

section \<open>Printing and parsing\<close>

definition digit_char :: "nat \<Rightarrow> char" where
  "digit_char d = char_of (if d < 10 then 48 + d else 87 + d)"

definition char_digit :: "nat \<Rightarrow> char \<Rightarrow> nat option" where
  "char_digit base c =
     (let n = of_char c;
          d = (if 48 \<le> n \<and> n < 58 then n - 48
               else if 97 \<le> n \<and> n < 123 then n - 87
               else if 65 \<le> n \<and> n < 91 then n - 55 else base)
      in if d < base then Some d else None)"

fun digits :: "nat \<Rightarrow> nat \<Rightarrow> nat list" where
  "digits base n = (if base < 2 \<or> n < base then [n] else digits base (n div base) @ [n mod base])"

definition show_radix :: "nat \<Rightarrow> nat \<Rightarrow> string" where
  "show_radix base n = map digit_char (digits base n)"

definition pad :: "char \<Rightarrow> nat \<Rightarrow> string \<Rightarrow> string" where
  "pad c w s = replicate (w - length s) c @ s"

fun parse_digits :: "nat \<Rightarrow> nat \<Rightarrow> nat \<Rightarrow> string \<Rightarrow> nat option" where
  "parse_digits base bound acc [] = Some acc"
| "parse_digits base bound acc (c # s) =
     (case char_digit base c of None \<Rightarrow> None
      | Some d \<Rightarrow> if acc * base + d < bound then parse_digits base bound (acc * base + d) s else None)"

text \<open>A leading plus is skipped unless it is the whole text; a minus is no digit.\<close>

definition parse_radix :: "nat \<Rightarrow> nat \<Rightarrow> string \<Rightarrow> nat option" where
  "parse_radix base bound s =
     (if s = [] \<or> s = ''+'' \<or> s = ''-'' then None
      else parse_digits base bound 0 (if hd s = CHR ''+'' then tl s else s))"

section \<open>What is printed parses\<close>

declare digits.simps [simp del]

lemma of_char_digit_char: "d < 36 \<Longrightarrow> of_char (digit_char d) = (if d < 10 then 48 + d else 87 + d)"
  by (simp add: digit_char_def)

lemma char_digit_digit_char [simp]:
  "d < base \<Longrightarrow> base \<le> 36 \<Longrightarrow> char_digit base (digit_char d) = Some d"
  by (simp add: char_digit_def of_char_digit_char Let_def)

lemma digits_less: "2 \<le> base \<Longrightarrow> \<forall>d \<in> set (digits base n). d < base"
proof (induction base n rule: digits.induct)
  case (1 base n)
  then show ?case by (subst digits.simps) auto
qed

lemma digits_nonempty [simp]: "digits base n \<noteq> []"
  by (subst digits.simps) simp

lemma parse_digits_append:
  "parse_digits base bound acc (s @ t) =
     (case parse_digits base bound acc s of None \<Rightarrow> None | Some a \<Rightarrow> parse_digits base bound a t)"
  by (induction base bound acc s rule: parse_digits.induct) (auto split: option.splits)

lemma parse_digits_show:
  "2 \<le> base \<Longrightarrow> base \<le> 36 \<Longrightarrow> n < bound \<Longrightarrow> parse_digits base bound 0 (show_radix base n) = Some n"
proof (induction base n rule: digits.induct)
  case (1 base n)
  show ?case
  proof (cases "n < base")
    case True
    with "1.prems" show ?thesis by (simp add: show_radix_def digits.simps [of base n])
  next
    case False
    have m: "n mod base < base" using "1.prems" by simp
    have "n div base < bound"
      using "1.prems" by (meson div_le_dividend le_less_trans)
    with "1.IH" "1.prems" False have "parse_digits base bound 0 (show_radix base (n div base)) = Some (n div base)"
      by simp
    with False "1.prems" m show ?thesis
      by (simp add: show_radix_def digits.simps [of base n] parse_digits_append)
  qed
qed

lemma digit_char_not: "d < 36 \<Longrightarrow> c \<in> {CHR ''+'', CHR ''-'', CHR '' '', CHR ''{''} \<Longrightarrow> digit_char d \<noteq> c"
  using of_char_digit_char [of d] by (auto split: if_splits)

lemma show_radix_chars:
  assumes "2 \<le> base" "base \<le> 36" "c \<in> {CHR ''+'', CHR ''-'', CHR '' '', CHR ''{''}"
  shows "c \<notin> set (show_radix base n)"
proof
  assume "c \<in> set (show_radix base n)"
  then obtain d where d: "d \<in> set (digits base n)" and c: "c = digit_char d" by (auto simp: show_radix_def)
  with digits_less [OF assms(1), of n] assms(2) have "d < 36" by fastforce
  with digit_char_not [OF _ assms(3)] c show False by blast
qed

lemma show_radix_nonempty [simp]: "show_radix base n \<noteq> []"
  by (simp add: show_radix_def)

lemma parse_show_radix:
  assumes "2 \<le> base" "base \<le> 36" "n < bound"
  shows "parse_radix base bound (show_radix base n) = Some n"
proof -
  have plus: "CHR ''+'' \<notin> set (show_radix base n)" and minus: "CHR ''-'' \<notin> set (show_radix base n)"
    using show_radix_chars [OF assms(1,2)] by simp_all
  then have "show_radix base n \<noteq> ''+''" "show_radix base n \<noteq> ''-''" by auto
  moreover have "hd (show_radix base n) \<noteq> CHR ''+''"
    using plus by (metis hd_in_set show_radix_nonempty)
  ultimately show ?thesis by (simp add: parse_radix_def parse_digits_show [OF assms])
qed

section \<open>Fixed width\<close>

primrec fixed_digits :: "nat \<Rightarrow> nat \<Rightarrow> nat \<Rightarrow> nat list" where
  "fixed_digits base 0 n = []"
| "fixed_digits base (Suc k) n = fixed_digits base k (n div base) @ [n mod base]"

lemma fixed_digits_zero: "0 < base \<Longrightarrow> fixed_digits base k 0 = replicate k 0"
  by (induction k) (simp_all add: replicate_append_same)

lemma length_digits: "2 \<le> base \<Longrightarrow> n < base ^ Suc k \<Longrightarrow> length (digits base n) \<le> Suc k"
proof (induction k arbitrary: n)
  case 0
  then show ?case by (subst digits.simps) simp
next
  case (Suc k)
  from Suc.prems have "n div base < base ^ Suc k"
    by (simp add: less_mult_imp_div_less mult.commute)
  with Suc show ?case by (subst digits.simps) auto
qed

lemma fixed_digits_pad:
  "2 \<le> base \<Longrightarrow> n < base ^ Suc k \<Longrightarrow>
     fixed_digits base (Suc k) n = replicate (Suc k - length (digits base n)) 0 @ digits base n"
proof (induction k arbitrary: n)
  case 0
  then show ?case by (simp add: digits.simps)
next
  case (Suc k)
  show ?case
  proof (cases "n < base")
    case True
    with Suc.prems show ?thesis
      by (simp add: digits.simps [of base n] fixed_digits_zero replicate_append_same flip: replicate_Suc)
  next
    case False
    from Suc.prems have "n div base < base ^ Suc k"
      by (simp add: less_mult_imp_div_less mult.commute)
    with Suc False show ?thesis by (simp add: digits.simps [of base n])
  qed
qed

lemma digit_char_zero: "digit_char 0 = CHR ''0''"
  by code_simp

lemma pad_show_radix:
  "2 \<le> base \<Longrightarrow> n < base ^ Suc k \<Longrightarrow>
     pad CHR ''0'' (Suc k) (show_radix base n) = map digit_char (fixed_digits base (Suc k) n)"
  by (simp add: pad_def show_radix_def fixed_digits_pad digit_char_zero del: fixed_digits.simps)

lemma length_digits_ge: "2 \<le> base \<Longrightarrow> base ^ k \<le> n \<Longrightarrow> k < length (digits base n)"
proof (induction k arbitrary: n)
  case (Suc k)
  have "base ^ k \<le> n div base"
    using Suc.prems by (simp add: less_eq_div_iff_mult_less_eq mult.commute)
  moreover have "\<not> n < base"
    using Suc.prems by (metis One_nat_def le_trans less_le_not_le linorder_not_less
      mult.right_neutral mult_le_mono2 one_le_power order.trans power_Suc numeral_2_eq_2 Suc_leD)
  ultimately show ?case using Suc by (subst digits.simps) auto
qed simp

end
