(* ===== verification/Binary_Codec.thy ===== *)
theory Binary_Codec
  imports Wire_Header
begin

text \<open>
  Readers and writers of binary structures, as the codec derives them from field lists: a reader
  takes its value off the front of the stream, a writer returns the bytes, and both may fail. The
  locale \<open>codec\<close> is the contract the structures of the wire formats share. An arithmetic overflow
  of the code is the error \<open>Overflowed\<close> (the panic of a build with overflow checks).
\<close>

section \<open>Readers\<close>

datatype bin_error = EndOfData | BadValue | Overflowed

type_synonym 'a reader = "bytes \<Rightarrow> bin_error + 'a \<times> bytes"
type_synonym 'a writer = "'a \<Rightarrow> bin_error + bytes"

definition yield :: "'a \<Rightarrow> 'a reader" where
  "yield x bs = Inr (x, bs)"

definition and_then :: "'a reader \<Rightarrow> ('a \<Rightarrow> 'b reader) \<Rightarrow> 'b reader" where
  "and_then p f bs = (case p bs of Inl e \<Rightarrow> Inl e | Inr (x, rest) \<Rightarrow> f x rest)"

definition require :: "bool \<Rightarrow> 'a reader \<Rightarrow> 'a reader" where
  "require c p bs = (if c then p bs else Inl BadValue)"

definition fail :: "bin_error \<Rightarrow> 'a reader" where
  "fail e bs = Inl e"

definition read_bytes :: "nat \<Rightarrow> bytes reader" where
  "read_bytes n bs = (if length bs < n then Inl EndOfData else Inr (take n bs, drop n bs))"

definition read_le :: "'a::len word reader" where
  "read_le = and_then (read_bytes (LENGTH('a) div 8)) (\<lambda>bs. yield (le_word bs))"

text \<open>What is left of the stream, and a reader confined to the next \<open>n\<close> bytes of it.\<close>

definition read_rest :: "bytes reader" where
  "read_rest bs = Inr (bs, [])"

definition read_window :: "nat \<Rightarrow> 'a reader \<Rightarrow> 'a reader" where
  "read_window n p bs =
     (case p (take n bs) of Inl e \<Rightarrow> Inl e | Inr (x, left) \<Rightarrow> Inr (x, left @ drop n bs))"

primrec read_count :: "nat \<Rightarrow> 'a reader \<Rightarrow> 'a list reader" where
  "read_count 0 p = yield []"
| "read_count (Suc n) p = and_then p (\<lambda>x. and_then (read_count n p) (\<lambda>xs. yield (x # xs)))"

definition read_if :: "bool \<Rightarrow> 'a reader \<Rightarrow> 'a option reader" where
  "read_if c p = (if c then and_then p (\<lambda>x. yield (Some x)) else yield None)"

section \<open>Writers\<close>

definition join :: "bin_error + bytes \<Rightarrow> bin_error + bytes \<Rightarrow> bin_error + bytes" where
  "join a b = (case a of Inl e \<Rightarrow> Inl e | Inr x \<Rightarrow> (case b of Inl e \<Rightarrow> Inl e | Inr y \<Rightarrow> Inr (x @ y)))"

primrec write_all :: "'a writer \<Rightarrow> 'a list writer" where
  "write_all w [] = Inr []"
| "write_all w (x # xs) = join (w x) (write_all w xs)"

definition write_opt :: "'a writer \<Rightarrow> 'a option writer" where
  "write_opt w x = (case x of None \<Rightarrow> Inr [] | Some y \<Rightarrow> w y)"

definition write_le :: "'a::len word writer" where
  "write_le w = Inr (le_bytes w)"

section \<open>Rules\<close>

named_theorems codec_simps \<open>readers on what writers wrote\<close>

lemma yield_apply [codec_simps]: "yield x bs = Inr (x, bs)"
  by (simp add: yield_def)

lemma require_apply [codec_simps]: "require c p bs = (if c then p bs else Inl BadValue)"
  by (simp add: require_def)

lemma and_then_step: "p bs = Inr (x, rest) \<Longrightarrow> and_then p f bs = f x rest"
  by (simp add: and_then_def)

lemma read_bytes_append [codec_simps]: "length xs = n \<Longrightarrow> read_bytes n (xs @ rest) = Inr (xs, rest)"
  by (simp add: read_bytes_def)

lemma read_le_bytes [codec_simps]:
  "8 dvd LENGTH('a) \<Longrightarrow> read_le (le_bytes (w :: 'a::len word) @ rest) = Inr (w, rest)"
  by (simp add: read_le_def and_then_def read_bytes_append yield_def)

lemma and_then_le_bytes [codec_simps]:
  "8 dvd LENGTH('a) \<Longrightarrow> and_then read_le f (le_bytes (w :: 'a::len word) @ rest) = f w rest"
  by (simp add: and_then_def read_le_bytes)

lemma le_bytes_byte: "le_bytes (b :: u8) = [b]"
  by (simp add: le_bytes_def)

lemma and_then_byte [codec_simps]: "and_then (read_le :: u8 reader) f (b # rest) = f b rest"
  using and_then_le_bytes [of f b rest] by (simp add: le_bytes_byte)

lemma and_then_bytes [codec_simps]:
  "length xs = n \<Longrightarrow> and_then (read_bytes n) f (xs @ rest) = f xs rest"
  by (simp add: and_then_def read_bytes_append)

lemma and_then_rest [codec_simps]: "and_then read_rest f bs = f bs []"
  by (simp add: and_then_def read_rest_def)

lemma join_Inr_iff [simp]: "join a b = Inr z \<longleftrightarrow> (\<exists>x y. a = Inr x \<and> b = Inr y \<and> z = x @ y)"
  by (auto simp: join_def split: sum.splits)

lemma join_Inr [simp]: "join (Inr x) (Inr y) = Inr (x @ y)"
  by (simp add: join_def)

lemma write_le_Inr [simp]: "write_le w = Inr bs \<longleftrightarrow> bs = le_bytes w"
  by (auto simp: write_le_def)

lemma write_all_le: "write_all write_le ws = Inr (concat (map le_bytes ws))"
  by (induction ws) (simp_all add: write_le_def)

lemma read_window_exact:
  "length xs = n \<Longrightarrow> p xs = Inr (x, []) \<Longrightarrow> read_window n p (xs @ rest) = Inr (x, rest)"
  by (simp add: read_window_def)

section \<open>The contract of a structure\<close>

text \<open>Reading gives back what was written, and leaves what follows.\<close>

locale codec =
  fixes put :: "'a writer" and get :: "'a reader" and good :: "'a \<Rightarrow> bool"
  assumes get_put: "good x \<Longrightarrow> put x = Inr bs \<Longrightarrow> get (bs @ rest) = Inr (x, rest)"
begin

lemma then_put: "good x \<Longrightarrow> put x = Inr bs \<Longrightarrow> and_then get f (bs @ rest) = f x rest"
  by (simp add: and_then_step get_put)

lemma get_all:
  "\<forall>x \<in> set xs. good x \<Longrightarrow> write_all put xs = Inr bs \<Longrightarrow> read_count (length xs) get (bs @ rest) = Inr (xs, rest)"
proof (induction xs arbitrary: bs)
  case (Cons x xs)
  then obtain b bs' where "put x = Inr b" "write_all put xs = Inr bs'" "bs = b @ bs'" by auto
  with Cons show ?case by (simp add: then_put [of x b] and_then_step yield_def)
qed (simp add: yield_def)

lemma then_all:
  "\<forall>x \<in> set xs. good x \<Longrightarrow> write_all put xs = Inr bs \<Longrightarrow> n = length xs \<Longrightarrow>
     and_then (read_count n get) f (bs @ rest) = f xs rest"
  by (simp add: and_then_step get_all)

lemma then_opt:
  "\<forall>y. x = Some y \<longrightarrow> good y \<Longrightarrow> write_opt put x = Inr bs \<Longrightarrow> c = (x \<noteq> None) \<Longrightarrow>
     and_then (read_if c get) f (bs @ rest) = f x rest"
  by (cases x) (auto simp: read_if_def write_opt_def and_then_def yield_def get_put)

end

text \<open>A structure that ends where its stream ends, as one with an open tail does.\<close>

locale exact_codec =
  fixes put :: "'a writer" and get :: "'a reader" and good :: "'a \<Rightarrow> bool"
  assumes get_exact: "good x \<Longrightarrow> put x = Inr bs \<Longrightarrow> get bs = Inr (x, [])"
begin

lemma then_window:
  "good x \<Longrightarrow> put x = Inr bs \<Longrightarrow> n = length bs \<Longrightarrow> and_then (read_window n get) f (bs @ rest) = f x rest"
  by (simp add: and_then_step read_window_exact get_exact)

end

sublocale codec \<subseteq> closed: exact_codec put get good
  by unfold_locales (use get_put [where rest = "[]"] in simp)

interpretation u32s: codec "write_le :: u32 writer" read_le "\<lambda>_. True"
  by unfold_locales (simp add: read_le_bytes)

end
