(* ===== verification/Guid.thy ===== *)
theory Guid
  imports Numerals Binary_Codec
begin

text \<open>
  GUIDs (smb-dtyp/guid.rs, smb-dtyp/util.rs): sixteen bytes on the wire, and the text form with
  its printer and its parser. The array field is the list of its eight bytes.
\<close>

section \<open>The code\<close>

record guid =
  guid_0 :: u32
  guid_1 :: u16
  guid_2 :: u16
  guid_3 :: bytes

definition guid_write :: "guid writer" where
  "guid_write g = Inr (le_bytes (guid_0 g) @ le_bytes (guid_1 g) @ le_bytes (guid_2 g) @ guid_3 g)"

definition guid_read :: "guid reader" where
  "guid_read = and_then read_le (\<lambda>a. and_then read_le (\<lambda>b. and_then read_le (\<lambda>c.
     and_then (read_bytes 8) (\<lambda>d. yield \<lparr>guid_0 = a, guid_1 = b, guid_2 = c, guid_3 = d\<rparr>))))"

datatype guid_error = InvalidFormat | InvalidHex | IndexPanic

definition parse_hex :: "char \<Rightarrow> guid_error + u8" where
  "parse_hex c = (case char_digit 16 c of Some d \<Rightarrow> Inr (of_nat d) | None \<Rightarrow> Inl InvalidHex)"

definition parse_byte :: "string \<Rightarrow> nat \<Rightarrow> guid_error + u8" where
  "parse_byte s i =
     (case parse_hex (s ! i) of Inl e \<Rightarrow> Inl e
      | Inr hi \<Rightarrow> (case parse_hex (s ! (i + 1)) of Inl e \<Rightarrow> Inl e
        | Inr lo \<Rightarrow> Inr (push_bit 4 hi OR lo)))"

primrec parse_at :: "string \<Rightarrow> nat list \<Rightarrow> guid_error + bytes" where
  "parse_at s [] = Inr []"
| "parse_at s (i # is) =
     (case parse_byte s i of Inl e \<Rightarrow> Inl e
      | Inr b \<Rightarrow> (case parse_at s is of Inl e \<Rightarrow> Inl e | Inr bs \<Rightarrow> Inr (b # bs)))"

definition parse_groups :: "string \<Rightarrow> nat \<Rightarrow> guid_error + guid" where
  "parse_groups s so =
     (if s ! (so + 8) \<noteq> CHR ''-'' \<or> s ! (so + 13) \<noteq> CHR ''-'' \<or> s ! (so + 18) \<noteq> CHR ''-'' \<or> s ! (so + 23) \<noteq> CHR ''-''
      then Inl InvalidFormat
      else (case parse_at s (map ((+) so) [0, 2, 4, 6, 9, 11, 14, 16, 19, 21, 24, 26, 28, 30, 32, 34]) of
        Inl e \<Rightarrow> Inl e
      | Inr bs \<Rightarrow> Inr \<lparr>guid_0 = le_word (rev (take 4 bs)), guid_1 = le_word (rev (field 4 2 bs)),
          guid_2 = le_word (rev (field 6 2 bs)), guid_3 = drop 8 bs\<rparr>))"

definition parse_uuid :: "string \<Rightarrow> guid_error + guid" where
  "parse_uuid s =
     (if s = [] then Inl IndexPanic
      else if hd s = CHR ''{'' \<and> last s = CHR ''}''
      then if length s \<noteq> 38 then Inl InvalidFormat else parse_groups s 1
      else if length s \<noteq> 36 then Inl InvalidFormat else parse_groups s 0)"

definition guid_tail :: "guid \<Rightarrow> u64" where
  "guid_tail g = foldl (\<lambda>acc x. push_bit 8 acc + ucast x) 0 (drop 2 (guid_3 g))"

definition guid_display :: "guid \<Rightarrow> string" where
  "guid_display g =
     pad CHR ''0'' 8 (show_radix 16 (unat (guid_0 g))) @ ''-'' @
     pad CHR ''0'' 4 (show_radix 16 (unat (guid_1 g))) @ ''-'' @
     pad CHR ''0'' 4 (show_radix 16 (unat (guid_2 g))) @ ''-'' @
     pad CHR ''0'' 2 (show_radix 16 (unat (guid_3 g ! 0))) @ pad CHR ''0'' 2 (show_radix 16 (unat (guid_3 g ! 1))) @ ''-'' @
     pad CHR '' '' 12 (show_radix 16 (unat (guid_tail g)))"

section \<open>The wire form\<close>

definition guid_wf :: "guid \<Rightarrow> bool" where
  "guid_wf g \<longleftrightarrow> length (guid_3 g) = 8"

interpretation guids: codec guid_write guid_read guid_wf
  by unfold_locales (auto simp: guid_write_def guid_read_def guid_wf_def codec_simps)

section \<open>The text form\<close>

text \<open>A number read from its bytes, most significant first, prints two digits per byte.\<close>

definition be_value :: "bytes \<Rightarrow> nat" where
  "be_value bs = foldl (\<lambda>a x. a * 256 + unat x) 0 bs"

definition hex_byte :: "u8 \<Rightarrow> string" where
  "hex_byte b = [digit_char (unat b div 16), digit_char (unat b mod 16)]"

lemma be_value_snoc [simp]: "be_value [] = 0" "be_value (bs @ [b]) = be_value bs * 256 + unat b"
  by (simp_all add: be_value_def)

lemma unat_byte: "unat (b :: u8) < 256"
  using unsigned_less [of b, where ?'a = nat] by simp

lemma be_value_less: "be_value bs < 256 ^ length bs"
proof (induction bs rule: rev_induct)
  case (snoc b bs)
  have "be_value bs * 256 + unat b < (be_value bs + 1) * 256" using unat_byte [of b] by simp
  also have "\<dots> \<le> 256 ^ length bs * 256" using snoc by (intro mult_right_mono) simp_all
  finally show ?case by simp
qed simp

lemma fixed_digits_bytes: "map digit_char (fixed_digits 16 (2 * length bs) (be_value bs)) = concat (map hex_byte bs)"
proof (induction bs rule: rev_induct)
  case (snoc b bs)
  have "(be_value bs * 256 + unat b) div 16 = be_value bs * 16 + unat b div 16" by simp
  moreover have "(be_value bs * 16 + unat b div 16) div 16 = be_value bs"
    using unat_byte [of b] by simp
  moreover have "(be_value bs * 16 + unat b div 16) mod 16 = unat b div 16"
    using unat_byte [of b] by simp
  moreover have "(be_value bs * 256 + unat b) mod 16 = unat b mod 16"
    using mod_mult_self3 [of "be_value bs * 16" 16 "unat b"] by (simp add: mult.assoc)
  ultimately show ?case using snoc by (simp add: hex_byte_def)
qed simp

lemma byte_bits: "bit (b :: u8) n \<Longrightarrow> n < 8"
  using bit_imp_le_length [of b n] by simp

lemma unat_le_word:
  "8 * length bs \<le> LENGTH('a) \<Longrightarrow> unat (le_word bs :: 'a::len word) = be_value (rev bs)"
proof (induction bs)
  case (Cons b bs)
  let ?w = "le_word bs :: 'a word"
  from Cons have IH: "unat ?w = be_value (rev bs)" by simp
  have eq: "(256 :: nat) ^ length (b # bs) = 2 ^ (8 * length (b # bs))" unfolding power_mult by simp
  have "unat ?w * 256 < 256 ^ length (b # bs)"
    using be_value_less [of "rev bs"] by (simp add: IH)
  also have "\<dots> \<le> 2 ^ LENGTH('a)" unfolding eq using Cons.prems by (intro power_increasing) simp_all
  finally have shift: "unat (push_bit 8 ?w) = push_bit 8 (unat ?w)"
    unfolding unsigned_push_bit_eq by (simp add: take_bit_nat_eq_self push_bit_eq_mult)
  have "unat (ucast b :: 'a word) = unat b"
  proof -
    have "(256 :: nat) \<le> 2 ^ LENGTH('a)"
      using Cons.prems power_increasing [of 8 "LENGTH('a)" "2 :: nat"] by simp
    with unat_byte [of b] show ?thesis by (simp add: unsigned_ucast_eq take_bit_nat_eq_self_iff)
  qed
  moreover have "unat b OR push_bit 8 (unat ?w) = unat b + push_bit 8 (unat ?w)"
    by (rule sym, rule disjunctive_add_eq_or) (auto simp: bit_eq_iff bit_simps dest: byte_bits)
  ultimately have "unat (le_word (b # bs) :: 'a word) = unat b + push_bit 8 (unat ?w)"
    by (simp only: le_word.simps unsigned_or_eq shift)
  with IH show ?case by (simp add: push_bit_eq_mult)
qed simp

lemma unat_le_bytes: "8 dvd LENGTH('a) \<Longrightarrow> unat (w :: 'a::len word) = be_value (rev (le_bytes w))"
  using unat_le_word [of "le_bytes w", where ?'a = 'a] by (simp add: mult.commute)

lemma pad_hex_word:
  assumes "8 dvd LENGTH('a)"
  shows "pad CHR ''0'' (LENGTH('a) div 4) (show_radix 16 (unat (w :: 'a::len word))) = concat (map hex_byte (rev (le_bytes w)))"
proof -
  from assms obtain m where m: "LENGTH('a) = 8 * m" by (auto elim: dvdE)
  then obtain k where k: "2 * m = Suc k" by (cases m) auto
  have "unat w < 16 ^ Suc k"
    using unsigned_less [of w, where ?'a = nat] unfolding m k [symmetric]
    by (simp add: power_mult)
  then have "pad CHR ''0'' (Suc k) (show_radix 16 (unat w)) = map digit_char (fixed_digits 16 (Suc k) (unat w))"
    by (intro pad_show_radix) simp_all
  moreover have "map digit_char (fixed_digits 16 (2 * length (rev (le_bytes w))) (be_value (rev (le_bytes w)))) =
      concat (map hex_byte (rev (le_bytes w)))" by (rule fixed_digits_bytes)
  ultimately show ?thesis using m k assms by (simp add: unat_le_bytes del: fixed_digits.simps)
qed

lemma parse_hex_digit: "d < 16 \<Longrightarrow> parse_hex (digit_char d) = Inr (of_nat d)"
  by (simp add: parse_hex_def)

lemma nibbles_join: "push_bit 4 (of_nat (unat b div 16)) OR of_nat (unat b mod 16) = (b :: u8)"
proof -
  have "(of_nat (unat b div 16) :: u8) = drop_bit 4 b" "(of_nat (unat b mod 16) :: u8) = take_bit 4 b"
    by (simp_all add: drop_bit_eq_div take_bit_eq_mod word_arith_nat_div word_arith_nat_mod)
  moreover have "push_bit 4 (drop_bit 4 b) OR take_bit 4 b = b"
    by (rule bit_word_eqI) (auto simp: bit_or_iff bit_push_bit_iff bit_drop_bit_eq bit_take_bit_iff)
  ultimately show ?thesis by simp
qed

lemma parse_byte_hex:
  assumes "s ! i = digit_char (unat b div 16)" "s ! (i + 1) = digit_char (unat b mod 16)"
  shows "parse_byte s i = Inr b"
  using assms unat_byte [of b] by (simp add: parse_byte_def parse_hex_digit nibbles_join)

text \<open>The last group is printed with blanks for the leading zeros of its twelve digits.\<close>

lemma guid_tail_value:
  assumes "length (guid_3 g) = 8"
  shows "unat (guid_tail g) = be_value (drop 2 (guid_3 g))"
proof -
  have step: "unat (push_bit 8 acc + ucast x :: u64) = unat acc * 256 + unat (x :: u8)" if "unat acc < 2 ^ 48" for acc x
  proof -
    have "unat (ucast x :: u64) = unat x"
      using unat_byte [of x] by (simp add: unsigned_ucast_eq take_bit_nat_eq_self_iff)
    moreover have "unat (push_bit 8 acc) = unat acc * 256"
      using that unfolding unsigned_push_bit_eq by (simp add: take_bit_nat_eq_self push_bit_eq_mult)
    ultimately show ?thesis using that unat_byte [of x] by (subst unat_add_fits) simp_all
  qed
  have "length bs \<le> 6 \<Longrightarrow> unat (foldl (\<lambda>acc x. push_bit 8 acc + ucast x) (0 :: u64) bs) = be_value bs" for bs
  proof (induction bs rule: rev_induct)
    case (snoc b bs)
    have "be_value bs < 2 ^ 48"
    proof -
      have "(256 :: nat) ^ length bs \<le> 256 ^ 6" using snoc.prems by (intro power_increasing) simp_all
      with be_value_less [of bs] show ?thesis by simp
    qed
    with snoc step show ?case by simp
  qed simp
  with assms show ?thesis by (simp add: guid_tail_def)
qed

lemma pad_tail_full:
  assumes "length (guid_3 g) = 8" "2 ^ 44 \<le> unat (guid_tail g)"
  shows "pad c 12 (show_radix 16 (unat (guid_tail g))) = concat (map hex_byte (drop 2 (guid_3 g)))"
proof -
  let ?n = "unat (guid_tail g)"
  have "?n < 16 ^ Suc 11"
    using be_value_less [of "drop 2 (guid_3 g)"] assms(1) by (simp add: guid_tail_value)
  then have "map digit_char (fixed_digits 16 (Suc 11) ?n) = pad CHR ''0'' (Suc 11) (show_radix 16 ?n)"
    by (intro pad_show_radix [symmetric]) simp_all
  moreover have "11 < length (digits 16 ?n)"
    using assms(2) by (intro length_digits_ge) simp_all
  ultimately have "map digit_char (fixed_digits 16 12 ?n) = show_radix 16 ?n" "12 \<le> length (show_radix 16 ?n)"
    by (simp_all add: pad_def show_radix_def del: fixed_digits.simps)
  moreover have "map digit_char (fixed_digits 16 12 ?n) = concat (map hex_byte (drop 2 (guid_3 g)))"
    using fixed_digits_bytes [of "drop 2 (guid_3 g)"] assms(1) by (simp add: guid_tail_value del: fixed_digits.simps)
  ultimately show ?thesis by (simp add: pad_def)
qed

lemma pad_tail_blank:
  assumes "unat (guid_tail g) < 2 ^ 44"
  shows "\<exists>s. pad CHR '' '' 12 (show_radix 16 (unat (guid_tail g))) = CHR '' '' # s \<and> length s = 11"
proof -
  have "length (digits 16 (unat (guid_tail g))) \<le> Suc 10"
    using assms by (intro length_digits) simp_all
  then show ?thesis
    by (cases "12 - length (digits 16 (unat (guid_tail g)))") (auto simp: pad_def show_radix_def)
qed

lemma parse_groups_shift:
  assumes "length s = 36"
  shows "parse_groups (p @ s @ q) (length p) = parse_groups s 0"
proof -
  have nth: "(p @ s @ q) ! (length p + i) = s ! i" if "i < 36" for i
    using that assms by (simp add: nth_append)
  have byte: "parse_byte (p @ s @ q) (length p + i) = parse_byte s i" if "i < 35" for i
  proof -
    have "(p @ s @ q) ! (length p + i + 1) = s ! (i + 1)" using nth [of "i + 1"] that by simp
    with nth [of i] that show ?thesis unfolding parse_byte_def by (simp add: split: sum.splits)
  qed
  have "list_all (\<lambda>i. i < 35) is \<Longrightarrow> parse_at (p @ s @ q) (map ((+) (length p)) is) = parse_at s (map ((+) 0) is)" for "is"
    by (induction "is") (simp_all add: byte split: sum.splits)
  note at = this [of "[0, 2, 4, 6, 9, 11, 14, 16, 19, 21, 24, 26, 28, 30, 32, 34]"]
  show ?thesis
    using nth [of 8] nth [of 13] nth [of 18] nth [of 23] at unfolding parse_groups_def by (simp del: parse_at.simps)
qed

lemma list_of_length:
  "length xs = 2 \<Longrightarrow> \<exists>a b. xs = [a, b]"
  "length xs = 4 \<Longrightarrow> \<exists>a b c d. xs = [a, b, c, d]"
  "length xs = 8 \<Longrightarrow> \<exists>a b c d e f g h. xs = [a, b, c, d, e, f, g, h]"
  by (auto simp: length_Suc_conv eval_nat_numeral)

lemma display_groups:
  assumes "le_bytes (guid_0 g) = [a0, a1, a2, a3]" "le_bytes (guid_1 g) = [c0, c1]" "le_bytes (guid_2 g) = [d0, d1]"
    and "guid_3 g = b0 # b1 # bs"
  shows "guid_display g = hex_byte a3 @ hex_byte a2 @ hex_byte a1 @ hex_byte a0 @ ''-'' @ hex_byte c1 @ hex_byte c0 @ ''-'' @
     hex_byte d1 @ hex_byte d0 @ ''-'' @ hex_byte b0 @ hex_byte b1 @ ''-'' @ pad CHR '' '' 12 (show_radix 16 (unat (guid_tail g)))"
  using pad_hex_word [of "guid_0 g"] pad_hex_word [of "guid_1 g"] pad_hex_word [of "guid_2 g"]
    pad_hex_word [of b0] pad_hex_word [of b1] assms
  by (simp add: guid_display_def le_bytes_byte)

lemma parse_display:
  assumes wf: "guid_wf g"
  shows "length (guid_display g) = 36"
    and "hd (guid_display g) \<noteq> CHR ''{''"
    and "parse_groups (guid_display g) 0 = (if 2 ^ 44 \<le> unat (guid_tail g) then Inr g else Inl InvalidHex)"
proof -
  obtain a0 a1 a2 a3 where a: "le_bytes (guid_0 g) = [a0, a1, a2, a3]"
    using list_of_length(2) [of "le_bytes (guid_0 g)"] by auto
  obtain c0 c1 where c: "le_bytes (guid_1 g) = [c0, c1]"
    using list_of_length(1) [of "le_bytes (guid_1 g)"] by auto
  obtain d0 d1 where d: "le_bytes (guid_2 g) = [d0, d1]"
    using list_of_length(1) [of "le_bytes (guid_2 g)"] by auto
  obtain b0 b1 b2 b3 b4 b5 b6 b7 where b: "guid_3 g = [b0, b1, b2, b3, b4, b5, b6, b7]"
    using list_of_length(3) [of "guid_3 g"] wf by (auto simp: guid_wf_def)
  note shown = display_groups [OF a c d b]
  have words: "le_word [a0, a1, a2, a3] = guid_0 g" "le_word [c0, c1] = guid_1 g" "le_word [d0, d1] = guid_2 g"
    by (simp_all flip: a c d del: le_word.simps)
  have "length (guid_display g) = 36 \<and>
    parse_groups (guid_display g) 0 = (if 2 ^ 44 \<le> unat (guid_tail g) then Inr g else Inl InvalidHex)"
  proof (cases "2 ^ 44 \<le> unat (guid_tail g)")
    case True
    have "pad CHR '' '' 12 (show_radix 16 (unat (guid_tail g))) =
        hex_byte b2 @ hex_byte b3 @ hex_byte b4 @ hex_byte b5 @ hex_byte b6 @ hex_byte b7"
      using pad_tail_full [OF _ True] b by simp
    with shown True words b show ?thesis
      by (simp add: hex_byte_def parse_groups_def parse_byte_hex field_def del: le_word.simps)
  next
    case False
    then obtain s where s: "pad CHR '' '' 12 (show_radix 16 (unat (guid_tail g))) = CHR '' '' # s" "length s = 11"
      using pad_tail_blank [of g] by auto
    have "parse_byte (guid_display g) 24 = Inl InvalidHex"
      by (simp add: shown s hex_byte_def parse_byte_def parse_hex_def char_digit_def Let_def)
    with shown s False show ?thesis
      by (simp add: hex_byte_def parse_groups_def parse_byte_hex)
  qed
  moreover have "hd (guid_display g) \<noteq> CHR ''{''"
    using digit_char_not [of "unat a3 div 16" "CHR ''{''"] unat_byte [of a3] by (simp add: shown hex_byte_def)
  ultimately show "length (guid_display g) = 36" "hd (guid_display g) \<noteq> CHR ''{''"
    "parse_groups (guid_display g) 0 = (if 2 ^ 44 \<le> unat (guid_tail g) then Inr g else Inl InvalidHex)"
    by simp_all
qed

text \<open>
  The text of a GUID, bare or in braces, parses back to it exactly when its last six bytes start
  with a digit other than zero; otherwise the printed blanks make the parser refuse it. On the
  wire every GUID reads back.
\<close>

theorem guid_text_round_trip:
  assumes "guid_wf g"
  shows "parse_uuid (guid_display g) = (if 2 ^ 44 \<le> unat (guid_tail g) then Inr g else Inl InvalidHex) \<and>
    parse_uuid (''{'' @ guid_display g @ ''}'') = parse_uuid (guid_display g) \<and>
    (\<exists>bs. guid_write g = Inr bs \<and> length bs = 16 \<and> guid_read (bs @ rest) = Inr (g, rest))"
proof (intro conjI)
  note disp = parse_display [OF assms]
  then have ne: "guid_display g \<noteq> []" by auto
  with disp show "parse_uuid (guid_display g) = (if 2 ^ 44 \<le> unat (guid_tail g) then Inr g else Inl InvalidHex)"
    by (simp add: parse_uuid_def)
  with disp show "parse_uuid (''{'' @ guid_display g @ ''}'') = parse_uuid (guid_display g)"
    using parse_groups_shift [OF disp(1), of "''{''" "''}''"] by (simp add: parse_uuid_def)
  show "\<exists>bs. guid_write g = Inr bs \<and> length bs = 16 \<and> guid_read (bs @ rest) = Inr (g, rest)"
    using guids.get_put [OF assms guid_write_def] assms by (simp add: guid_write_def guid_wf_def)
qed

theorem guid_text_round_trip_witness:
  "guid_wf \<lparr>guid_0 = 1, guid_1 = 2, guid_2 = 3, guid_3 = [4, 5, 255, 0, 0, 0, 0, 0]\<rparr> \<and>
   parse_uuid (guid_display \<lparr>guid_0 = 1, guid_1 = 2, guid_2 = 3, guid_3 = [4, 5, 255, 0, 0, 0, 0, 0]\<rparr>) =
     Inr \<lparr>guid_0 = 1, guid_1 = 2, guid_2 = 3, guid_3 = [4, 5, 255, 0, 0, 0, 0, 0]\<rparr>"
proof
  let ?g = "\<lparr>guid_0 = 1, guid_1 = 2, guid_2 = 3, guid_3 = [4, 5, 255, 0, 0, 0, 0, 0]\<rparr>"
  show wf: "guid_wf ?g" by (simp add: guid_wf_def)
  have "2 ^ 44 \<le> unat (guid_tail ?g)" by (simp add: guid_tail_def)
  with guid_text_round_trip [OF wf, of "[]"] show "parse_uuid (guid_display ?g) = Inr ?g" by simp
qed

end
