(* ===== verification/Security_Id.thy ===== *)
theory Security_Id
  imports Guid
begin

text \<open>
  Security identifiers (smb-dtyp/security/sid.rs, the 48-bit integers of
  smb-dtyp/binrw_util/helpers.rs): the binary form and the text form.
\<close>

section \<open>The code\<close>

record sid =
  identifier_authority :: u64
  sub_authority :: "u32 list"

definition write_u48_be :: "u64 \<Rightarrow> bytes" where
  "write_u48_be v = drop 2 (rev (le_bytes v))"

definition read_u48_be :: "u64 reader" where
  "read_u48_be = and_then (read_bytes 6) (\<lambda>bs. yield (le_word (rev ([0, 0] @ bs))))"

definition sid_write :: "sid writer" where
  "sid_write s =
     (if length (sub_authority s) < 256
      then Inr ([1, of_nat (length (sub_authority s))] @ write_u48_be (identifier_authority s) @
        concat (map le_bytes (sub_authority s)))
      else Inl BadValue)"

definition sid_read :: "sid reader" where
  "sid_read = and_then read_le (\<lambda>revision :: u8. require (revision = 1)
     (and_then read_le (\<lambda>n :: u8. and_then read_u48_be (\<lambda>authority.
      and_then (read_count (unat n) read_le) (\<lambda>subs.
      yield \<lparr>identifier_authority = authority, sub_authority = subs\<rparr>)))))"

definition sid_prefix :: string where
  "sid_prefix = ''S-1-''"

definition sid_display :: "sid \<Rightarrow> string" where
  "sid_display s = ''S-1-'' @
     (if drop_bit 32 (identifier_authority s) = 0
      then show_radix 10 (unat (identifier_authority s))
      else ''0x'' @ show_radix 16 (unat (identifier_authority s))) @
     concat (map (\<lambda>a. ''-'' @ show_radix 10 (unat a)) (sub_authority s))"

fun split_on :: "char \<Rightarrow> string \<Rightarrow> string list" where
  "split_on d [] = [[]]"
| "split_on d (c # s) =
     (if c = d then [] # split_on d s else (c # hd (split_on d s)) # tl (split_on d s))"

datatype sid_error = BadPrefix | BadAuthority | BadSubAuthority

primrec parse_subs :: "string list \<Rightarrow> sid_error + u32 list" where
  "parse_subs [] = Inr []"
| "parse_subs (x # xs) =
     (case parse_radix 10 (2 ^ 32) x of None \<Rightarrow> Inl BadSubAuthority
      | Some n \<Rightarrow> (case parse_subs xs of Inl e \<Rightarrow> Inl e | Inr ns \<Rightarrow> Inr (of_nat n # ns)))"

definition finish_sid :: "nat \<Rightarrow> string list \<Rightarrow> sid_error + sid" where
  "finish_sid a rest =
     (case parse_subs rest of Inl e \<Rightarrow> Inl e
      | Inr subs \<Rightarrow> Inr \<lparr>identifier_authority = of_nat a, sub_authority = subs\<rparr>)"

definition sid_from_str :: "string \<Rightarrow> sid_error + sid" where
  "sid_from_str s =
     (if take 4 s \<noteq> sid_prefix then Inl BadPrefix
      else (case split_on CHR ''-'' (drop 4 s) of
        [] \<Rightarrow> Inl BadAuthority
      | x # rest \<Rightarrow>
          if x = ''0x''
          then (case rest of [] \<Rightarrow> Inl BadAuthority
            | y # rest' \<Rightarrow> (case parse_radix 16 (2 ^ 64) y of None \<Rightarrow> Inl BadAuthority
                | Some p \<Rightarrow> if drop_bit 32 (of_nat p :: u64) = 0 then finish_sid p rest' else Inl BadAuthority))
          else (case parse_radix 10 (2 ^ 64) x of None \<Rightarrow> Inl BadAuthority | Some a \<Rightarrow> finish_sid a rest)))"

section \<open>The binary form\<close>

definition sid_wf :: "sid \<Rightarrow> bool" where
  "sid_wf s \<longleftrightarrow> unat (identifier_authority s) < 2 ^ 48"

lemma read_write_u48: "unat v < 2 ^ 48 \<Longrightarrow> and_then read_u48_be f (write_u48_be v @ rest) = f v rest"
proof -
  assume v: "unat v < 2 ^ 48"
  have high: "\<not> bit v k" if "48 \<le> k" for k
  proof -
    have "take_bit 48 (unat v) = unat v" using v by (simp add: take_bit_nat_eq_self_iff)
    then have "take_bit 48 v = v" by (metis unsigned_take_bit_eq unsigned_word_eqI)
    with that show ?thesis by (metis bit_take_bit_iff linorder_not_less)
  qed
  have bytes: "rev (drop 2 (rev (le_bytes v))) = take 6 (le_bytes v)"
    by (simp add: rev_drop)
  have "le_word (take 6 (le_bytes v) @ [0, 0]) = v"
  proof (rule bit_word_eqI)
    fix k assume k: "k < LENGTH(64)"
    show "bit (le_word (take 6 (le_bytes v) @ [0, 0]) :: u64) k = bit v k"
    proof (cases "k < 48")
      case True
      then have "k div 8 < 6" by auto
      with k show ?thesis by (auto simp: bit_le_word nth_append le_bytes_def bit_ucast_iff bit_drop_bit_eq)
    next
      case False
      then have "k div 8 = 6 \<or> k div 8 = 7" using k by auto
      with False high show ?thesis by (auto simp: bit_le_word nth_append)
    qed
  qed
  then show ?thesis
    by (simp add: read_u48_be_def write_u48_be_def and_then_def read_bytes_append yield_def bytes)
qed

interpretation sids: codec sid_write sid_read sid_wf
proof
  fix s bs rest
  assume wf: "sid_wf s" and w: "sid_write s = Inr bs"
  then have n: "length (sub_authority s) < 256"
    and bs: "bs = [1, of_nat (length (sub_authority s))] @ write_u48_be (identifier_authority s) @
      concat (map le_bytes (sub_authority s))"
    by (auto simp: sid_write_def split: if_splits)
  have "unat (of_nat (length (sub_authority s)) :: u8) = length (sub_authority s)"
    using n by (simp add: unat_of_nat)
  with wf show "sid_read (bs @ rest) = Inr (s, rest)"
    by (simp add: sid_read_def bs codec_simps read_write_u48 sid_wf_def u32s.then_all [OF _ write_all_le])
qed

section \<open>The text form\<close>

lemma split_on_free: "d \<notin> set s \<Longrightarrow> split_on d s = [s]"
  by (induction s) auto

lemma split_on_join: "d \<notin> set s \<Longrightarrow> split_on d (s @ d # t) = s # split_on d t"
  by (induction s) auto

lemma split_subs:
  assumes "CHR ''-'' \<notin> set s"
  shows "split_on CHR ''-'' (s @ concat (map (\<lambda>a. ''-'' @ show_radix 10 (unat a)) subs)) =
     s # map (\<lambda>a. show_radix 10 (unat a)) (subs :: u32 list)"
  using assms
proof (induction subs arbitrary: s)
  case (Cons a subs)
  have "CHR ''-'' \<notin> set (show_radix 10 (unat a))" by (rule show_radix_chars) simp_all
  from Cons.IH [OF this] Cons.prems show ?case by (simp add: split_on_join)
qed (simp add: split_on_free)

lemma parse_subs_show: "parse_subs (map (\<lambda>a. show_radix 10 (unat a)) subs) = Inr subs"
proof (induction subs)
  case (Cons a subs)
  have "parse_radix 10 (2 ^ 32) (show_radix 10 (unat a)) = Some (unat a)"
    using unsigned_less [of a, where ?'a = nat] by (intro parse_show_radix) simp_all
  with Cons show ?case by simp
qed simp

lemma high_half_zero: "drop_bit 32 (v :: u64) = 0 \<longleftrightarrow> unat v < 2 ^ 32"
proof -
  have "drop_bit 32 v = 0 \<longleftrightarrow> unat (drop_bit 32 v) = 0" by (simp only: unsigned_eq_0_iff)
  then show ?thesis unfolding unat_drop_bit_eq by (simp add: drop_bit_eq_div div_eq_0_iff)
qed

definition authority_text :: "u64 \<Rightarrow> string" where
  "authority_text a = (if unat a < 2 ^ 32 then show_radix 10 (unat a) else ''0x'' @ show_radix 16 (unat a))"

lemma authority_dash: "CHR ''-'' \<notin> set (authority_text a)"
  using show_radix_chars [of 10 "CHR ''-''"] show_radix_chars [of 16 "CHR ''-''"] by (simp add: authority_text_def)

lemma display_split:
  "split_on CHR ''-'' (drop 4 (sid_display s)) =
     authority_text (identifier_authority s) # map (\<lambda>a. show_radix 10 (unat a)) (sub_authority s)"
  using split_subs [OF authority_dash, of "identifier_authority s" "sub_authority s"]
  by (simp add: sid_display_def authority_text_def high_half_zero split: if_splits)

lemma parse_authority:
  "parse_radix 10 (2 ^ 64) (authority_text a) = (if unat a < 2 ^ 32 then Some (unat a) else None)"
proof (cases "unat a < 2 ^ 32")
  case True
  then show ?thesis using parse_show_radix [of 10 "unat a" "2 ^ 64"] by (simp add: authority_text_def)
next
  case False
  then show ?thesis by (simp add: authority_text_def parse_radix_def char_digit_def Let_def)
qed

lemma authority_text_inject:
  assumes "authority_text a = authority_text b"
  shows "a = b"
proof -
  have small: "unat a < 2 ^ 32 \<longleftrightarrow> unat b < 2 ^ 32"
    using parse_authority [of a] parse_authority [of b] assms by (simp split: if_splits)
  show ?thesis
  proof (cases "unat a < 2 ^ 32")
    case True
    with small assms parse_authority [of a] parse_authority [of b] show ?thesis by (simp add: word_unat_eq_iff)
  next
    case False
    then have "show_radix 16 (unat a) = show_radix 16 (unat b)" using small assms by (simp add: authority_text_def)
    moreover have "parse_radix 16 (2 ^ 64) (show_radix 16 (unat c)) = Some (unat c)" for c :: u64
      using unsigned_less [of c, where ?'a = nat] by (intro parse_show_radix) simp_all
    ultimately show ?thesis by (metis option.inject word_unat_eq_iff)
  qed
qed

lemma sid_display_inject: "sid_display s = sid_display s' \<Longrightarrow> s = s'"
  using display_split [of s] display_split [of s'] parse_subs_show [of "sub_authority s"] parse_subs_show [of "sub_authority s'"]
  by (cases s; cases s') (auto dest: authority_text_inject)

text \<open>
  C40. A security identifier whose authority fits thirty-two bits parses back from its text, two
  different identifiers never have the same text, whatever their authorities, and every
  identifier whose authority fits the forty-eight bits of the format reads back from its bytes.
\<close>

theorem sid_text_round_trip:
  "(unat (identifier_authority s) < 2 ^ 32 \<longrightarrow> sid_from_str (sid_display s) = Inr s) \<and>
   (sid_display s = sid_display s' \<longrightarrow> s = s') \<and>
   (unat (identifier_authority s) < 2 ^ 48 \<longrightarrow> sid_write s = Inr bs \<longrightarrow> sid_read (bs @ rest) = Inr (s, rest))"
proof (intro conjI impI)
  assume small: "unat (identifier_authority s) < 2 ^ 32"
  have "parse_radix 10 (2 ^ 64) ''0x'' = None" by (simp add: parse_radix_def char_digit_def Let_def)
  then have "authority_text (identifier_authority s) \<noteq> ''0x''"
    using parse_authority [of "identifier_authority s"] small by auto
  moreover have "take 4 (sid_display s) = sid_prefix" by (simp add: sid_display_def sid_prefix_def)
  ultimately show "sid_from_str (sid_display s) = Inr s"
    using small by (simp add: sid_from_str_def display_split parse_authority [simplified] finish_sid_def parse_subs_show)
next
  assume "unat (identifier_authority s) < 2 ^ 48" "sid_write s = Inr bs"
  then show "sid_read (bs @ rest) = Inr (s, rest)" by (intro sids.get_put) (simp_all add: sid_wf_def)
qed (rule sid_display_inject)

theorem sid_text_round_trip_witness:
  "let s = \<lparr>identifier_authority = 5, sub_authority = [32, 544]\<rparr> in
     sid_from_str (sid_display s) = Inr s \<and> (\<exists>bs. sid_write s = Inr bs \<and> sid_read bs = Inr (s, []))"
proof -
  let ?s = "\<lparr>identifier_authority = 5, sub_authority = [32, 544]\<rparr>"
  obtain bs where bs: "sid_write ?s = Inr bs" by (simp add: sid_write_def)
  with sid_text_round_trip [of ?s ?s bs "[]"] show ?thesis by (auto simp: Let_def)
qed

text \<open>A larger authority is printed in hexadecimal, in a form the parser refuses.\<close>

lemma large_authority_refused:
  assumes large: "2 ^ 32 \<le> unat (identifier_authority s)"
  shows "sid_from_str (sid_display s) = Inl BadAuthority"
proof -
  have "show_radix 16 (unat (identifier_authority s)) \<noteq> []"
    using parse_show_radix [of 16 "unat (identifier_authority s)" "2 ^ 64"] unsigned_less [of "identifier_authority s", where ?'a = nat]
    by (auto simp: parse_radix_def)
  then have "authority_text (identifier_authority s) \<noteq> ''0x''" using large by (simp add: authority_text_def)
  moreover have "take 4 (sid_display s) = sid_prefix" by (simp add: sid_display_def sid_prefix_def)
  ultimately show ?thesis using large by (simp add: sid_from_str_def display_split parse_authority [simplified])
qed

end
