(* ===== verification/Security_Descriptor.thy ===== *)
theory Security_Descriptor
  imports Security_Id
begin

text \<open>
  Access control entries, access control lists and security descriptors (smb-dtyp/security:
  ace.rs, acl.rs, security_descriptor.rs) in their binary form, with the size and offset fields
  that the position markers (smb-dtyp/binrw_util/pos_marker.rs) fill in after the fact. Access
  masks and flag sets are the words they are stored in.
\<close>

section \<open>Entries\<close>

datatype ace_type = TyAccessAllowed | TyAccessDenied | TySystemAudit | TySystemAlarm | TyAccessAllowedCompound
  | TyAccessAllowedObject | TyAccessDeniedObject | TySystemAuditObject | TySystemAlarmObject
  | TyAccessAllowedCallback | TyAccessDeniedCallback | TyAccessAllowedCallbackObject | TyAccessDeniedCallbackObject
  | TySystemAuditCallback | TySystemAlarmCallback | TySystemAuditCallbackObject | TySystemAlarmCallbackObject
  | TySystemMandatoryLabel | TySystemResourceAttribute | TySystemScopedPolicyId

definition ace_types :: "ace_type list" where
  "ace_types = [TyAccessAllowed, TyAccessDenied, TySystemAudit, TySystemAlarm, TyAccessAllowedCompound,
     TyAccessAllowedObject, TyAccessDeniedObject, TySystemAuditObject, TySystemAlarmObject,
     TyAccessAllowedCallback, TyAccessDeniedCallback, TyAccessAllowedCallbackObject, TyAccessDeniedCallbackObject,
     TySystemAuditCallback, TySystemAlarmCallback, TySystemAuditCallbackObject, TySystemAlarmCallbackObject,
     TySystemMandatoryLabel, TySystemResourceAttribute, TySystemScopedPolicyId]"

text \<open>The codes are the positions in this list.\<close>

fun ace_type_code :: "ace_type \<Rightarrow> u8" where
  "ace_type_code TyAccessAllowed = 0"
| "ace_type_code TyAccessDenied = 1"
| "ace_type_code TySystemAudit = 2"
| "ace_type_code TySystemAlarm = 3"
| "ace_type_code TyAccessAllowedCompound = 4"
| "ace_type_code TyAccessAllowedObject = 5"
| "ace_type_code TyAccessDeniedObject = 6"
| "ace_type_code TySystemAuditObject = 7"
| "ace_type_code TySystemAlarmObject = 8"
| "ace_type_code TyAccessAllowedCallback = 9"
| "ace_type_code TyAccessDeniedCallback = 10"
| "ace_type_code TyAccessAllowedCallbackObject = 11"
| "ace_type_code TyAccessDeniedCallbackObject = 12"
| "ace_type_code TySystemAuditCallback = 13"
| "ace_type_code TySystemAlarmCallback = 14"
| "ace_type_code TySystemAuditCallbackObject = 15"
| "ace_type_code TySystemAlarmCallbackObject = 16"
| "ace_type_code TySystemMandatoryLabel = 17"
| "ace_type_code TySystemResourceAttribute = 18"
| "ace_type_code TySystemScopedPolicyId = 19"

definition ace_type_of_code :: "u8 \<Rightarrow> ace_type option" where
  "ace_type_of_code c = List.find (\<lambda>t. ace_type_code t = c) ace_types"

record access_ace =
  aa_mask :: u32
  aa_sid :: sid

record object_ace =
  oa_mask :: u32
  oa_object_type :: "guid option"
  oa_inherited_object_type :: "guid option"
  oa_sid :: sid

record callback_ace =
  ca_mask :: u32
  ca_sid :: sid
  ca_data :: bytes

record object_callback_ace =
  oc_mask :: u32
  oc_object_type :: "guid option"
  oc_inherited_object_type :: "guid option"
  oc_sid :: sid
  oc_data :: bytes

record label_ace =
  la_mask :: u32
  la_sid :: sid

datatype claim_type = ClaimNone | ClaimInt64 | ClaimUint64 | ClaimString | ClaimSid | ClaimBoolean | ClaimOctetString

fun claim_type_code :: "claim_type \<Rightarrow> u16" where
  "claim_type_code ClaimNone = 0"
| "claim_type_code ClaimInt64 = 1"
| "claim_type_code ClaimUint64 = 2"
| "claim_type_code ClaimString = 3"
| "claim_type_code ClaimSid = 4"
| "claim_type_code ClaimBoolean = 5"
| "claim_type_code ClaimOctetString = 6"

definition claim_type_of_code :: "u16 \<Rightarrow> claim_type option" where
  "claim_type_of_code c = List.find (\<lambda>t. claim_type_code t = c)
     [ClaimNone, ClaimInt64, ClaimUint64, ClaimString, ClaimSid, ClaimBoolean, ClaimOctetString]"

record claim_attribute =
  cl_value_type :: claim_type
  cl_flags :: u16
  cl_value_count :: u32
  cl_value :: bytes

record resource_attribute_ace =
  ra_mask :: u32
  ra_sid :: sid
  ra_attribute :: claim_attribute

datatype ace_value = AccessAllowed access_ace | AccessDenied access_ace | SystemAudit access_ace
  | AccessAllowedObject object_ace | AccessDeniedObject object_ace | SystemAuditObject object_ace
  | AccessAllowedCallback callback_ace | AccessDeniedCallback callback_ace
  | AccessAllowedCallbackObject object_callback_ace | AccessDeniedCallbackObject object_callback_ace
  | SystemAuditCallback callback_ace | SystemAuditCallbackObject object_callback_ace
  | SystemMandatoryLabel label_ace | SystemResourceAttribute resource_attribute_ace
  | SystemScopedPolicyId access_ace

fun get_type :: "ace_value \<Rightarrow> ace_type" where
  "get_type (AccessAllowed _) = TyAccessAllowed"
| "get_type (AccessDenied _) = TyAccessDenied"
| "get_type (SystemAudit _) = TySystemAudit"
| "get_type (AccessAllowedObject _) = TyAccessAllowedObject"
| "get_type (AccessDeniedObject _) = TyAccessDeniedObject"
| "get_type (SystemAuditObject _) = TySystemAuditObject"
| "get_type (AccessAllowedCallback _) = TyAccessAllowedCallback"
| "get_type (AccessDeniedCallback _) = TyAccessDeniedCallback"
| "get_type (AccessAllowedCallbackObject _) = TyAccessAllowedCallbackObject"
| "get_type (AccessDeniedCallbackObject _) = TyAccessDeniedCallbackObject"
| "get_type (SystemAuditCallback _) = TySystemAuditCallback"
| "get_type (SystemAuditCallbackObject _) = TySystemAuditCallbackObject"
| "get_type (SystemMandatoryLabel _) = TySystemMandatoryLabel"
| "get_type (SystemResourceAttribute _) = TySystemResourceAttribute"
| "get_type (SystemScopedPolicyId _) = TySystemScopedPolicyId"

definition is_access_allowed :: "ace_value \<Rightarrow> bool" where
  "is_access_allowed v \<longleftrightarrow> get_type v \<in>
     {TyAccessAllowed, TyAccessAllowedObject, TyAccessAllowedCallback, TyAccessAllowedCallbackObject}"

record ace =
  ace_flags :: u8
  ace_value :: ace_value

section \<open>Entries in binary\<close>

definition access_ace_write :: "access_ace writer" where
  "access_ace_write a = join (write_le (aa_mask a)) (sid_write (aa_sid a))"

definition access_ace_read :: "access_ace reader" where
  "access_ace_read = and_then read_le (\<lambda>m. and_then sid_read (\<lambda>s. yield \<lparr>aa_mask = m, aa_sid = s\<rparr>))"

definition object_ace_flags :: "guid option \<Rightarrow> guid option \<Rightarrow> u32" where
  "object_ace_flags t i = (if t = None then 0 else 1) OR (if i = None then 0 else 2)"

definition object_ace_write :: "object_ace writer" where
  "object_ace_write a =
     join (write_le (oa_mask a)) (join (write_le (object_ace_flags (oa_object_type a) (oa_inherited_object_type a)))
       (join (write_opt guid_write (oa_object_type a)) (join (write_opt guid_write (oa_inherited_object_type a))
         (sid_write (oa_sid a)))))"

definition object_ace_read :: "object_ace reader" where
  "object_ace_read = and_then read_le (\<lambda>m. and_then read_le (\<lambda>f :: u32.
     and_then (read_if (bit f 0) guid_read) (\<lambda>t. and_then (read_if (bit f 1) guid_read) (\<lambda>i.
     and_then sid_read (\<lambda>s.
     yield \<lparr>oa_mask = m, oa_object_type = t, oa_inherited_object_type = i, oa_sid = s\<rparr>)))))"

definition callback_ace_write :: "callback_ace writer" where
  "callback_ace_write a = join (write_le (ca_mask a)) (join (sid_write (ca_sid a)) (Inr (ca_data a)))"

definition callback_ace_read :: "callback_ace reader" where
  "callback_ace_read = and_then read_le (\<lambda>m. and_then sid_read (\<lambda>s. and_then read_rest (\<lambda>d.
     yield \<lparr>ca_mask = m, ca_sid = s, ca_data = d\<rparr>)))"

definition object_callback_ace_write :: "object_callback_ace writer" where
  "object_callback_ace_write a =
     join (write_le (oc_mask a)) (join (write_le (object_ace_flags (oc_object_type a) (oc_inherited_object_type a)))
       (join (write_opt guid_write (oc_object_type a)) (join (write_opt guid_write (oc_inherited_object_type a))
         (join (sid_write (oc_sid a)) (Inr (oc_data a))))))"

definition object_callback_ace_read :: "object_callback_ace reader" where
  "object_callback_ace_read = and_then read_le (\<lambda>m. and_then read_le (\<lambda>f :: u32.
     and_then (read_if (bit f 0) guid_read) (\<lambda>t. and_then (read_if (bit f 1) guid_read) (\<lambda>i.
     and_then sid_read (\<lambda>s. and_then read_rest (\<lambda>d.
     yield \<lparr>oc_mask = m, oc_object_type = t, oc_inherited_object_type = i, oc_sid = s, oc_data = d\<rparr>))))))"

definition label_ace_write :: "label_ace writer" where
  "label_ace_write a = join (write_le (la_mask a)) (sid_write (la_sid a))"

definition label_ace_read :: "label_ace reader" where
  "label_ace_read = and_then read_le (\<lambda>m. and_then sid_read (\<lambda>s. yield \<lparr>la_mask = m, la_sid = s\<rparr>))"

definition claim_write :: "claim_attribute writer" where
  "claim_write c = Inr (le_bytes (0 :: u32) @ le_bytes (claim_type_code (cl_value_type c)) @ le_bytes (0 :: u16) @
     le_bytes (cl_flags c) @ le_bytes (cl_value_count c) @ cl_value c)"

definition claim_read :: "claim_attribute reader" where
  "claim_read = and_then read_le (\<lambda>name :: u32. and_then read_le (\<lambda>t.
     case claim_type_of_code t of None \<Rightarrow> fail BadValue
     | Some ty \<Rightarrow> and_then read_le (\<lambda>reserved :: u16. and_then read_le (\<lambda>f. and_then read_le (\<lambda>n. and_then read_rest (\<lambda>v.
         yield \<lparr>cl_value_type = ty, cl_flags = f, cl_value_count = n, cl_value = v\<rparr>))))))"

definition resource_attribute_ace_write :: "resource_attribute_ace writer" where
  "resource_attribute_ace_write a = join (write_le (ra_mask a)) (join (sid_write (ra_sid a)) (claim_write (ra_attribute a)))"

definition resource_attribute_ace_read :: "resource_attribute_ace reader" where
  "resource_attribute_ace_read = and_then read_le (\<lambda>m. and_then sid_read (\<lambda>s. and_then claim_read (\<lambda>c.
     yield \<lparr>ra_mask = m, ra_sid = s, ra_attribute = c\<rparr>)))"

fun ace_value_write :: "ace_value writer" where
  "ace_value_write (AccessAllowed a) = access_ace_write a"
| "ace_value_write (AccessDenied a) = access_ace_write a"
| "ace_value_write (SystemAudit a) = access_ace_write a"
| "ace_value_write (AccessAllowedObject a) = object_ace_write a"
| "ace_value_write (AccessDeniedObject a) = object_ace_write a"
| "ace_value_write (SystemAuditObject a) = object_ace_write a"
| "ace_value_write (AccessAllowedCallback a) = callback_ace_write a"
| "ace_value_write (AccessDeniedCallback a) = callback_ace_write a"
| "ace_value_write (AccessAllowedCallbackObject a) = object_callback_ace_write a"
| "ace_value_write (AccessDeniedCallbackObject a) = object_callback_ace_write a"
| "ace_value_write (SystemAuditCallback a) = callback_ace_write a"
| "ace_value_write (SystemAuditCallbackObject a) = object_callback_ace_write a"
| "ace_value_write (SystemMandatoryLabel a) = label_ace_write a"
| "ace_value_write (SystemResourceAttribute a) = resource_attribute_ace_write a"
| "ace_value_write (SystemScopedPolicyId a) = access_ace_write a"

definition read_as :: "('a \<Rightarrow> ace_value) \<Rightarrow> 'a reader \<Rightarrow> ace_value reader" where
  "read_as f p = and_then p (\<lambda>x. yield (f x))"

text \<open>Types without a value of their own cannot be read.\<close>

fun ace_value_read :: "ace_type \<Rightarrow> ace_value reader" where
  "ace_value_read TyAccessAllowed = read_as AccessAllowed access_ace_read"
| "ace_value_read TyAccessDenied = read_as AccessDenied access_ace_read"
| "ace_value_read TySystemAudit = read_as SystemAudit access_ace_read"
| "ace_value_read TyAccessAllowedObject = read_as AccessAllowedObject object_ace_read"
| "ace_value_read TyAccessDeniedObject = read_as AccessDeniedObject object_ace_read"
| "ace_value_read TySystemAuditObject = read_as SystemAuditObject object_ace_read"
| "ace_value_read TyAccessAllowedCallback = read_as AccessAllowedCallback callback_ace_read"
| "ace_value_read TyAccessDeniedCallback = read_as AccessDeniedCallback callback_ace_read"
| "ace_value_read TyAccessAllowedCallbackObject = read_as AccessAllowedCallbackObject object_callback_ace_read"
| "ace_value_read TyAccessDeniedCallbackObject = read_as AccessDeniedCallbackObject object_callback_ace_read"
| "ace_value_read TySystemAuditCallback = read_as SystemAuditCallback callback_ace_read"
| "ace_value_read TySystemAuditCallbackObject = read_as SystemAuditCallbackObject object_callback_ace_read"
| "ace_value_read TySystemMandatoryLabel = read_as SystemMandatoryLabel label_ace_read"
| "ace_value_read TySystemResourceAttribute = read_as SystemResourceAttribute resource_attribute_ace_read"
| "ace_value_read TySystemScopedPolicyId = read_as SystemScopedPolicyId access_ace_read"
| "ace_value_read TySystemAlarm = fail BadValue"
| "ace_value_read TyAccessAllowedCompound = fail BadValue"
| "ace_value_read TySystemAlarmObject = fail BadValue"
| "ace_value_read TySystemAlarmCallback = fail BadValue"
| "ace_value_read TySystemAlarmCallbackObject = fail BadValue"

definition ace_write :: "ace writer" where
  "ace_write a =
     (case ace_value_write (ace_value a) of Inl e \<Rightarrow> Inl e
      | Inr bs \<Rightarrow> if length bs + 4 < 2 ^ 16
          then Inr ([ace_type_code (get_type (ace_value a)), ace_flags a] @ le_bytes (of_nat (length bs + 4) :: u16) @ bs)
          else Inl BadValue)"

text \<open>The size of an entry covers its header of four bytes; a smaller one overflows.\<close>

definition ace_read :: "ace reader" where
  "ace_read = and_then read_le (\<lambda>c. case ace_type_of_code c of None \<Rightarrow> fail BadValue
     | Some ty \<Rightarrow> and_then read_le (\<lambda>f. and_then read_le (\<lambda>sz :: u16.
         if unat sz < 4 then fail Overflowed
         else and_then (read_window (unat sz - 4) (ace_value_read ty)) (\<lambda>v.
           yield \<lparr>ace_flags = f, ace_value = v\<rparr>))))"

section \<open>Lists and descriptors\<close>

datatype acl_revision = Nt4 | DS

fun acl_revision_code :: "acl_revision \<Rightarrow> u8" where
  "acl_revision_code Nt4 = 2"
| "acl_revision_code DS = 4"

definition acl_revision_of_code :: "u8 \<Rightarrow> acl_revision option" where
  "acl_revision_of_code c = (if c = 2 then Some Nt4 else if c = 4 then Some DS else None)"

record acl =
  acl_revision :: acl_revision
  acl_aces :: "ace list"

definition acl_write :: "acl writer" where
  "acl_write l =
     (case write_all ace_write (acl_aces l) of Inl e \<Rightarrow> Inl e
      | Inr bs \<Rightarrow> if length bs + 8 < 2 ^ 16
          then Inr ([acl_revision_code (acl_revision l), 0] @ le_bytes (of_nat (length bs + 8) :: u16) @
            le_bytes (of_nat (length (acl_aces l)) :: u16) @ le_bytes (0 :: u16) @ bs)
          else Inl BadValue)"

definition acl_read :: "acl reader" where
  "acl_read = and_then read_le (\<lambda>c. case acl_revision_of_code c of None \<Rightarrow> fail BadValue
     | Some r \<Rightarrow> and_then read_le (\<lambda>sbz1 :: u8. require (sbz1 = 0)
        (and_then read_le (\<lambda>acl_size :: u16. and_then read_le (\<lambda>n :: u16. and_then read_le (\<lambda>sbz2 :: u16.
         require (sbz2 = 0) (and_then (read_count (unat n) ace_read) (\<lambda>aces.
         yield \<lparr>acl_revision = r, acl_aces = aces\<rparr>))))))))"

type_synonym sd_control = u16

definition control_dacl_present :: "sd_control \<Rightarrow> bool" where
  "control_dacl_present c = bit c 2"

definition control_sacl_present :: "sd_control \<Rightarrow> bool" where
  "control_sacl_present c = bit c 4"

definition control_dacl_protected :: "sd_control \<Rightarrow> bool" where
  "control_dacl_protected c = bit c 12"

definition control_self_relative :: "sd_control \<Rightarrow> bool" where
  "control_self_relative c = bit c 15"

record security_descriptor =
  sd_sbz1 :: u8
  sd_control :: sd_control
  sd_owner :: "sid option"
  sd_group :: "sid option"
  sd_sacl :: "acl option"
  sd_dacl :: "acl option"

text \<open>The offset of a part that is there, filled in when the part is written.\<close>

definition offset_field :: "'a option \<Rightarrow> nat \<Rightarrow> bin_error + bytes" where
  "offset_field x pos =
     (case x of None \<Rightarrow> Inr (le_bytes (0 :: u32))
      | Some _ \<Rightarrow> if pos < 2 ^ 32 then Inr (le_bytes (of_nat pos :: u32)) else Inl BadValue)"

definition sd_header_size :: nat where
  "sd_header_size = 20"

definition sd_write :: "security_descriptor writer" where
  "sd_write d =
     (if \<not> control_self_relative (sd_control d) then Inl BadValue
      else (case write_opt sid_write (sd_owner d) of Inl e \<Rightarrow> Inl e
      | Inr ow \<Rightarrow> (case write_opt sid_write (sd_group d) of Inl e \<Rightarrow> Inl e
      | Inr gr \<Rightarrow>
        if (sd_sacl d \<noteq> None) \<noteq> control_sacl_present (sd_control d) then Inl BadValue
        else (case write_opt acl_write (sd_sacl d) of Inl e \<Rightarrow> Inl e
      | Inr sa \<Rightarrow>
        if (sd_dacl d \<noteq> None) \<noteq> control_dacl_present (sd_control d) then Inl BadValue
        else (case write_opt acl_write (sd_dacl d) of Inl e \<Rightarrow> Inl e
      | Inr da \<Rightarrow>
        join (Inr ([1, sd_sbz1 d] @ le_bytes (sd_control d)))
          (join (offset_field (sd_owner d) sd_header_size)
          (join (offset_field (sd_group d) (sd_header_size + length ow))
          (join (offset_field (sd_sacl d) (sd_header_size + length ow + length gr))
          (join (offset_field (sd_dacl d) (sd_header_size + length ow + length gr + length sa))
          (Inr (ow @ gr @ sa @ da))))))))))) "

text \<open>The parts are read one after the other; the offsets only tell which parts are there.\<close>

definition sd_read :: "security_descriptor reader" where
  "sd_read = and_then read_le (\<lambda>revision :: u8. require (revision = 1) (and_then read_le (\<lambda>sbz1. and_then read_le (\<lambda>control.
     require (control_self_relative control)
     (and_then read_le (\<lambda>off_owner :: u32. and_then read_le (\<lambda>off_group :: u32.
      and_then read_le (\<lambda>off_sacl :: u32. and_then read_le (\<lambda>off_dacl :: u32.
      and_then (read_if (off_owner \<noteq> 0) sid_read) (\<lambda>owner. and_then (read_if (off_group \<noteq> 0) sid_read) (\<lambda>group.
      and_then (read_if (off_sacl \<noteq> 0) acl_read) (\<lambda>sacl. require ((off_sacl \<noteq> 0) = control_sacl_present control)
     (and_then (read_if (off_dacl \<noteq> 0) acl_read) (\<lambda>dacl. require ((off_dacl \<noteq> 0) = control_dacl_present control)
     (yield \<lparr>sd_sbz1 = sbz1, sd_control = control, sd_owner = owner, sd_group = group, sd_sacl = sacl, sd_dacl = dacl\<rparr>)))))))))))))))"

section \<open>What is written reads back\<close>

lemma ace_type_of_code_code [simp]: "ace_type_of_code (ace_type_code t) = Some t"
  by (cases t) (simp_all add: ace_type_of_code_def ace_types_def)

lemma claim_type_of_code_code [simp]: "claim_type_of_code (claim_type_code t) = Some t"
  by (cases t) (simp_all add: claim_type_of_code_def)

lemma acl_revision_of_code_code [simp]: "acl_revision_of_code (acl_revision_code r) = Some r"
  by (cases r) (simp_all add: acl_revision_of_code_def)

definition guid_opt_wf :: "guid option \<Rightarrow> bool" where
  "guid_opt_wf g \<longleftrightarrow> (\<forall>x. g = Some x \<longrightarrow> guid_wf x)"

fun ace_value_wf :: "ace_value \<Rightarrow> bool" where
  "ace_value_wf (AccessAllowed a) = sid_wf (aa_sid a)"
| "ace_value_wf (AccessDenied a) = sid_wf (aa_sid a)"
| "ace_value_wf (SystemAudit a) = sid_wf (aa_sid a)"
| "ace_value_wf (AccessAllowedObject a) =
     (sid_wf (oa_sid a) \<and> guid_opt_wf (oa_object_type a) \<and> guid_opt_wf (oa_inherited_object_type a))"
| "ace_value_wf (AccessDeniedObject a) =
     (sid_wf (oa_sid a) \<and> guid_opt_wf (oa_object_type a) \<and> guid_opt_wf (oa_inherited_object_type a))"
| "ace_value_wf (SystemAuditObject a) =
     (sid_wf (oa_sid a) \<and> guid_opt_wf (oa_object_type a) \<and> guid_opt_wf (oa_inherited_object_type a))"
| "ace_value_wf (AccessAllowedCallback a) = sid_wf (ca_sid a)"
| "ace_value_wf (AccessDeniedCallback a) = sid_wf (ca_sid a)"
| "ace_value_wf (AccessAllowedCallbackObject a) =
     (sid_wf (oc_sid a) \<and> guid_opt_wf (oc_object_type a) \<and> guid_opt_wf (oc_inherited_object_type a))"
| "ace_value_wf (AccessDeniedCallbackObject a) =
     (sid_wf (oc_sid a) \<and> guid_opt_wf (oc_object_type a) \<and> guid_opt_wf (oc_inherited_object_type a))"
| "ace_value_wf (SystemAuditCallback a) = sid_wf (ca_sid a)"
| "ace_value_wf (SystemAuditCallbackObject a) =
     (sid_wf (oc_sid a) \<and> guid_opt_wf (oc_object_type a) \<and> guid_opt_wf (oc_inherited_object_type a))"
| "ace_value_wf (SystemMandatoryLabel a) = sid_wf (la_sid a)"
| "ace_value_wf (SystemResourceAttribute a) = sid_wf (ra_sid a)"
| "ace_value_wf (SystemScopedPolicyId a) = sid_wf (aa_sid a)"

lemma object_ace_flags_bits [simp]:
  "bit (object_ace_flags t i) 0 \<longleftrightarrow> t \<noteq> None" "bit (object_ace_flags t i) (Suc 0) \<longleftrightarrow> i \<noteq> None"
  by (cases t; cases i; simp add: object_ace_flags_def)+

interpretation access_aces: codec access_ace_write access_ace_read "\<lambda>a. sid_wf (aa_sid a)"
  by unfold_locales
    (auto simp: access_ace_write_def access_ace_read_def codec_simps sids.then_put)

interpretation label_aces: codec label_ace_write label_ace_read "\<lambda>a. sid_wf (la_sid a)"
  by unfold_locales
    (auto simp: label_ace_write_def label_ace_read_def codec_simps sids.then_put)

interpretation object_aces: codec object_ace_write object_ace_read
  "\<lambda>a. sid_wf (oa_sid a) \<and> guid_opt_wf (oa_object_type a) \<and> guid_opt_wf (oa_inherited_object_type a)"
  by unfold_locales
    (auto simp: object_ace_write_def object_ace_read_def codec_simps guid_opt_wf_def sids.then_put guids.then_opt)

interpretation callback_aces: exact_codec callback_ace_write callback_ace_read "\<lambda>a. sid_wf (ca_sid a)"
  by unfold_locales
    (auto simp: callback_ace_write_def callback_ace_read_def codec_simps sids.then_put)

interpretation object_callback_aces: exact_codec object_callback_ace_write object_callback_ace_read
  "\<lambda>a. sid_wf (oc_sid a) \<and> guid_opt_wf (oc_object_type a) \<and> guid_opt_wf (oc_inherited_object_type a)"
  by unfold_locales
    (auto simp: object_callback_ace_write_def object_callback_ace_read_def codec_simps guid_opt_wf_def
      sids.then_put guids.then_opt)

interpretation claims: exact_codec claim_write claim_read "\<lambda>_. True"
  by unfold_locales (auto simp: claim_write_def claim_read_def codec_simps)

interpretation resource_attribute_aces:
  exact_codec resource_attribute_ace_write resource_attribute_ace_read "\<lambda>a. sid_wf (ra_sid a)"
  by unfold_locales
    (auto simp: resource_attribute_ace_write_def resource_attribute_ace_read_def codec_simps sids.then_put
      and_then_step [OF claims.get_exact])

lemmas value_exact =
  access_aces.closed.get_exact label_aces.closed.get_exact object_aces.closed.get_exact
  callback_aces.get_exact object_callback_aces.get_exact resource_attribute_aces.get_exact

lemma read_as_exact: "p bs = Inr (x, []) \<Longrightarrow> read_as f p bs = Inr (f x, [])"
  by (simp add: read_as_def and_then_step yield_def)

lemma ace_value_exact:
  "ace_value_wf v \<Longrightarrow> ace_value_write v = Inr bs \<Longrightarrow> ace_value_read (get_type v) bs = Inr (v, [])"
  by (cases v) (auto intro!: read_as_exact value_exact)

lemma ace_write_split:
  assumes "ace_write a = Inr bs"
  obtains v where "ace_value_write (ace_value a) = Inr v" "length v + 4 < 2 ^ 16"
    "bs = [ace_type_code (get_type (ace_value a)), ace_flags a] @ le_bytes (of_nat (length v + 4) :: u16) @ v"
  using assms by (auto simp: ace_write_def split: sum.splits if_splits)

interpretation aces: codec ace_write ace_read "\<lambda>a. ace_value_wf (ace_value a)"
proof
  fix a bs rest
  assume wf: "ace_value_wf (ace_value a)" and w: "ace_write a = Inr bs"
  from w obtain v where v: "ace_value_write (ace_value a) = Inr v" "length v + 4 < 2 ^ 16"
    and bs: "bs = [ace_type_code (get_type (ace_value a)), ace_flags a] @ le_bytes (of_nat (length v + 4) :: u16) @ v"
    by (rule ace_write_split)
  have size: "unat (of_nat (length v + 4) :: u16) = length v + 4"
    unfolding unat_of_nat using v(2) by simp
  have "read_window (length v) (ace_value_read (get_type (ace_value a))) (v @ rest) = Inr (ace_value a, rest)"
    using ace_value_exact [OF wf v(1)] by (intro read_window_exact) simp_all
  with size show "ace_read (bs @ rest) = Inr (a, rest)"
    by (simp add: ace_read_def bs codec_simps and_then_step del: of_nat_add)
qed

lemma ace_write_length: "ace_write a = Inr bs \<Longrightarrow> 4 \<le> length bs"
  by (erule ace_write_split) simp

lemma aces_write_length: "write_all ace_write as = Inr bs \<Longrightarrow> 4 * length as \<le> length bs"
  by (induction as arbitrary: bs) (fastforce dest: ace_write_length)+

definition acl_wf :: "acl \<Rightarrow> bool" where
  "acl_wf l \<longleftrightarrow> (\<forall>a \<in> set (acl_aces l). ace_value_wf (ace_value a))"

interpretation acls: codec acl_write acl_read acl_wf
proof
  fix l bs rest
  assume wf: "acl_wf l" and w: "acl_write l = Inr bs"
  from w obtain v where v: "write_all ace_write (acl_aces l) = Inr v" "length v + 8 < 2 ^ 16"
    and bs: "bs = [acl_revision_code (acl_revision l), 0] @ le_bytes (of_nat (length v + 8) :: u16) @
            le_bytes (of_nat (length (acl_aces l)) :: u16) @ le_bytes (0 :: u16) @ v"
    by (auto simp: acl_write_def split: sum.splits if_splits)
  have n: "unat (of_nat (length (acl_aces l)) :: u16) = length (acl_aces l)"
    using aces_write_length [OF v(1)] v(2) unfolding unat_of_nat by simp
  show "acl_read (bs @ rest) = Inr (l, rest)"
    by (simp add: acl_read_def bs codec_simps aces.then_all [OF wf [unfolded acl_wf_def] v(1) n])
qed

definition sd_wf :: "security_descriptor \<Rightarrow> bool" where
  "sd_wf d \<longleftrightarrow> (\<forall>s \<in> set_option (sd_owner d) \<union> set_option (sd_group d). sid_wf s) \<and>
     (\<forall>l \<in> set_option (sd_sacl d) \<union> set_option (sd_dacl d). acl_wf l)"

lemma offset_field_read:
  assumes "offset_field x pos = Inr bs" "0 < pos"
  shows "\<exists>w :: u32. bs = le_bytes w \<and> (w \<noteq> 0 \<longleftrightarrow> x \<noteq> None)"
proof (cases x)
  case None
  with assms show ?thesis by (auto simp: offset_field_def)
next
  case (Some y)
  with assms have p: "pos < 2 ^ 32" and bs: "bs = le_bytes (of_nat pos :: u32)"
    by (auto simp: offset_field_def split: if_splits)
  have "unat (of_nat pos :: u32) = pos" unfolding unat_of_nat using p by simp
  with assms(2) have "(of_nat pos :: u32) \<noteq> 0" by auto
  with bs Some show ?thesis by blast
qed

lemma sd_write_split:
  assumes w: "sd_write d = Inr bs"
  obtains ow gr sa da o1 o2 o3 o4 where
    "write_opt sid_write (sd_owner d) = Inr ow" "write_opt sid_write (sd_group d) = Inr gr"
    "write_opt acl_write (sd_sacl d) = Inr sa" "write_opt acl_write (sd_dacl d) = Inr da"
    "control_self_relative (sd_control d)" "(sd_sacl d \<noteq> None) = control_sacl_present (sd_control d)"
    "(sd_dacl d \<noteq> None) = control_dacl_present (sd_control d)"
    "offset_field (sd_owner d) sd_header_size = Inr o1"
    "offset_field (sd_group d) (sd_header_size + length ow) = Inr o2"
    "offset_field (sd_sacl d) (sd_header_size + length ow + length gr) = Inr o3"
    "offset_field (sd_dacl d) (sd_header_size + length ow + length gr + length sa) = Inr o4"
    "bs = [1, sd_sbz1 d] @ le_bytes (sd_control d) @ o1 @ o2 @ o3 @ o4 @ ow @ gr @ sa @ da"
proof -
  note w = w [unfolded sd_write_def]
  from w have c: "control_self_relative (sd_control d)" by (rule contrapos_pp) simp
  note w = w [simplified c, simplified]
  from w obtain ow where ow: "write_opt sid_write (sd_owner d) = Inr ow"
    by (cases "write_opt sid_write (sd_owner d)") simp_all
  note w = w [unfolded ow, simplified]
  from w obtain gr where gr: "write_opt sid_write (sd_group d) = Inr gr"
    by (cases "write_opt sid_write (sd_group d)") simp_all
  note w = w [unfolded gr sum.case]
  from w have s: "(sd_sacl d \<noteq> None) = control_sacl_present (sd_control d)" by (rule contrapos_pp) simp
  note w = w [unfolded s, simplified]
  from w obtain sa where sa: "write_opt acl_write (sd_sacl d) = Inr sa"
    by (cases "write_opt acl_write (sd_sacl d)") simp_all
  note w = w [unfolded sa sum.case]
  from w have dc: "(sd_dacl d \<noteq> None) = control_dacl_present (sd_control d)" by (rule contrapos_pp) simp
  note w = w [unfolded dc, simplified]
  from w obtain da where da: "write_opt acl_write (sd_dacl d) = Inr da"
    by (cases "write_opt acl_write (sd_dacl d)") simp_all
  note w = w [unfolded da sum.case join_Inr_iff sum.inject]
  from w show thesis
    by (elim exE conjE) (rule that [OF ow gr sa da c s dc], assumption+, simp)
qed

lemma sd_round_trip:
  assumes wf: "sd_wf d" and w: "sd_write d = Inr bs"
  shows "sd_read (bs @ rest) = Inr (d, rest)"
proof -
  obtain ow gr sa da o1 o2 o3 o4 where
    parts: "write_opt sid_write (sd_owner d) = Inr ow" "write_opt sid_write (sd_group d) = Inr gr"
      "write_opt acl_write (sd_sacl d) = Inr sa" "write_opt acl_write (sd_dacl d) = Inr da"
    and control: "control_self_relative (sd_control d)" "(sd_sacl d \<noteq> None) = control_sacl_present (sd_control d)"
      "(sd_dacl d \<noteq> None) = control_dacl_present (sd_control d)"
    and offs: "offset_field (sd_owner d) sd_header_size = Inr o1"
      "offset_field (sd_group d) (sd_header_size + length ow) = Inr o2"
      "offset_field (sd_sacl d) (sd_header_size + length ow + length gr) = Inr o3"
      "offset_field (sd_dacl d) (sd_header_size + length ow + length gr + length sa) = Inr o4"
    and bs: "bs = [1, sd_sbz1 d] @ le_bytes (sd_control d) @ o1 @ o2 @ o3 @ o4 @ ow @ gr @ sa @ da"
    by (rule sd_write_split [OF w])
  have pos: "0 < sd_header_size + n" "0 < sd_header_size" for n by (simp_all add: sd_header_size_def)
  obtain w1 :: u32 where o1: "o1 = le_bytes w1" "(w1 \<noteq> 0) = (sd_owner d \<noteq> None)"
    using offset_field_read [OF offs(1) pos(2)] by blast
  obtain w2 :: u32 where o2: "o2 = le_bytes w2" "(w2 \<noteq> 0) = (sd_group d \<noteq> None)"
    using offset_field_read [OF offs(2) pos(1)] by blast
  obtain w3 :: u32 where o3: "o3 = le_bytes w3" "(w3 \<noteq> 0) = (sd_sacl d \<noteq> None)"
    using offset_field_read [OF offs(3) [unfolded add.assoc] pos(1)] by blast
  obtain w4 :: u32 where o4: "o4 = le_bytes w4" "(w4 \<noteq> 0) = (sd_dacl d \<noteq> None)"
    using offset_field_read [OF offs(4) [unfolded add.assoc] pos(1)] by blast
  have owner: "\<forall>y. sd_owner d = Some y \<longrightarrow> sid_wf y" and group: "\<forall>y. sd_group d = Some y \<longrightarrow> sid_wf y"
    and sacl: "\<forall>y. sd_sacl d = Some y \<longrightarrow> acl_wf y" and dacl: "\<forall>y. sd_dacl d = Some y \<longrightarrow> acl_wf y"
    using wf by (auto simp: sd_wf_def)
  show ?thesis
    using control
    by (simp add: sd_read_def bs o1(1) o2(1) o3(1) o4(1) codec_simps
        sids.then_opt [OF owner parts(1) o1(2)] sids.then_opt [OF group parts(2) o2(2)]
        acls.then_opt [OF sacl parts(3) control(2) [symmetric]] acls.then_opt [OF dacl parts(4) control(3) [symmetric]]
        o3(2) o4(2)
        del: not_None_eq)
qed

end
