(* ===== verification/Security_Policy.thy ===== *)
theory Security_Policy
  imports Security_Descriptor
begin

text \<open>
  What the client does with security descriptors: the order of entries in a list
  (smb-dtyp/security/acl.rs), the entries it keeps (domain/security.rs), and the two operations on
  a path (runtime/port.rs), each of which opens a temporary handle, does one exchange and closes
  the handle. The server's side of an exchange is the record \<open>path_server\<close>; a caller may drop the
  operation while it waits, after any number of its awaits.
\<close>

section \<open>Order of entries\<close>

datatype ordering = Less | Equal | Greater

definition bool_cmp :: "bool \<Rightarrow> bool \<Rightarrow> ordering" where
  "bool_cmp a b = (if a = b then Equal else if b then Less else Greater)"

definition flag_inherited :: "u8 \<Rightarrow> bool" where
  "flag_inherited f = bit f 4"

definition sort_aces_by :: "ace \<Rightarrow> ace \<Rightarrow> ordering" where
  "sort_aces_by a b =
     (let ai = flag_inherited (ace_flags a); bi = flag_inherited (ace_flags b) in
      if ai \<noteq> bi then bool_cmp ai bi
      else if ai then Equal
      else bool_cmp (is_access_allowed (ace_value a)) (is_access_allowed (ace_value b)))"

text \<open>The stable sort of the standard library, by insertion.\<close>

fun insert_by :: "('a \<Rightarrow> 'a \<Rightarrow> ordering) \<Rightarrow> 'a \<Rightarrow> 'a list \<Rightarrow> 'a list" where
  "insert_by cmp x [] = [x]"
| "insert_by cmp x (y # ys) = (if cmp x y = Greater then y # insert_by cmp x ys else x # y # ys)"

definition sort_by :: "('a \<Rightarrow> 'a \<Rightarrow> ordering) \<Rightarrow> 'a list \<Rightarrow> 'a list" where
  "sort_by cmp xs = foldr (insert_by cmp) xs []"

fun is_sorted_by :: "('a \<Rightarrow> 'a \<Rightarrow> bool) \<Rightarrow> 'a list \<Rightarrow> bool" where
  "is_sorted_by le (x # y # ys) = (le x y \<and> is_sorted_by le (y # ys))"
| "is_sorted_by le xs = True"

definition order_aces :: "acl \<Rightarrow> acl" where
  "order_aces l = l\<lparr>acl_aces := sort_by sort_aces_by (acl_aces l)\<rparr>"

definition is_ace_sorted :: "acl \<Rightarrow> bool" where
  "is_ace_sorted l = is_sorted_by (\<lambda>a b. sort_aces_by a b \<noteq> Greater) (acl_aces l)"

definition insert_ace :: "acl \<Rightarrow> ace \<Rightarrow> acl" where
  "insert_ace l a = order_aces (l\<lparr>acl_aces := acl_aces l @ [a]\<rparr>)"

section \<open>Entries that are kept\<close>

fun ace_trustee_sid :: "ace_value \<Rightarrow> sid" where
  "ace_trustee_sid (AccessAllowed v) = aa_sid v"
| "ace_trustee_sid (AccessDenied v) = aa_sid v"
| "ace_trustee_sid (SystemAudit v) = aa_sid v"
| "ace_trustee_sid (SystemScopedPolicyId v) = aa_sid v"
| "ace_trustee_sid (AccessAllowedObject v) = oa_sid v"
| "ace_trustee_sid (AccessDeniedObject v) = oa_sid v"
| "ace_trustee_sid (SystemAuditObject v) = oa_sid v"
| "ace_trustee_sid (AccessAllowedCallback v) = ca_sid v"
| "ace_trustee_sid (AccessDeniedCallback v) = ca_sid v"
| "ace_trustee_sid (SystemAuditCallback v) = ca_sid v"
| "ace_trustee_sid (AccessAllowedCallbackObject v) = oc_sid v"
| "ace_trustee_sid (AccessDeniedCallbackObject v) = oc_sid v"
| "ace_trustee_sid (SystemAuditCallbackObject v) = oc_sid v"
| "ace_trustee_sid (SystemMandatoryLabel v) = la_sid v"
| "ace_trustee_sid (SystemResourceAttribute v) = ra_sid v"

definition is_supported_acl_trustee_sid :: "sid \<Rightarrow> bool" where
  "is_supported_acl_trustee_sid s =
     (let account_domain = (identifier_authority s = 5 \<and> take 1 (sub_authority s) = [21] \<and> 5 \<le> length (sub_authority s));
          posix_mapped = (identifier_authority s = 22 \<and>
            (case sub_authority s of [k, _] \<Rightarrow> k = 1 \<or> k = 2 | _ \<Rightarrow> False));
          everyone = (identifier_authority s = 1 \<and> sub_authority s = [0]);
          local_system = (identifier_authority s = 5 \<and> sub_authority s = [18])
      in account_domain \<or> posix_mapped \<or> everyone \<or> local_system)"

definition retain_supported_aces :: "security_descriptor \<Rightarrow> security_descriptor" where
  "retain_supported_aces d =
     d\<lparr>sd_dacl := map_option
        (\<lambda>l. l\<lparr>acl_aces := filter (\<lambda>a. is_supported_acl_trustee_sid (ace_trustee_sid (ace_value a))) (acl_aces l)\<rparr>)
        (sd_dacl d)\<rparr>"

section \<open>Operations on a path\<close>

definition security_resource_access :: "bool \<Rightarrow> bool \<Rightarrow> u32" where
  "security_resource_access read_control write_dacl =
     (if read_control then 2 ^ 17 else 0) OR (if write_dacl then 2 ^ 18 else 0)"

definition query_security_selection :: "bool \<Rightarrow> u32" where
  "query_security_selection dacl = (if dacl then 2 ^ 2 else 0)"

definition set_security_selection :: "bool \<Rightarrow> bool \<Rightarrow> u32" where
  "set_security_selection dacl dacl_protected =
     (if dacl then 2 ^ 2 else 0) OR (if dacl \<and> dacl_protected then 2 ^ 31 else 0) OR
     (if dacl \<and> \<not> dacl_protected then 2 ^ 29 else 0)"

datatype 'e path_error = ServerError 'e | CodecError bin_error

record 'e path_server =
  ps_open :: "string \<Rightarrow> u32 \<Rightarrow> 'e option"
  ps_query :: "u32 \<Rightarrow> 'e + bytes"
  ps_set :: "bytes \<Rightarrow> u32 \<Rightarrow> 'e option"
  ps_close :: "'e option"

text \<open>What the operation sends; the close runs in a task of its own.\<close>

datatype path_call = CallOpen string u32 | CallQuery u32 | CallSet bytes u32 | SpawnClose

definition query_security :: "'e path_server \<Rightarrow> bool \<Rightarrow> path_call list \<times> ('e path_error + security_descriptor)" where
  "query_security srv dacl =
     (let info = query_security_selection dacl in
      ([CallQuery info],
       case ps_query srv info of Inl e \<Rightarrow> Inl (ServerError e)
       | Inr bs \<Rightarrow> (case sd_read bs of Inl e \<Rightarrow> Inl (CodecError e) | Inr (d, rest) \<Rightarrow> Inr d)))"

definition set_security ::
  "'e path_server \<Rightarrow> security_descriptor \<Rightarrow> bool \<Rightarrow> path_call list \<times> ('e path_error + unit)" where
  "set_security srv d dacl =
     (let info = set_security_selection dacl (control_dacl_protected (sd_control d)) in
      case sd_write d of Inl e \<Rightarrow> ([], Inl (CodecError e))
      | Inr bs \<Rightarrow> ([CallSet bs info], case ps_set srv bs info of None \<Rightarrow> Inr () | Some e \<Rightarrow> Inl (ServerError e)))"

definition close_result :: "'e path_server \<Rightarrow> 'e path_error + unit" where
  "close_result srv = (case ps_close srv of None \<Rightarrow> Inr () | Some e \<Rightarrow> Inl (ServerError e))"

text \<open>
  The operations by the number of awaits that completed before the caller dropped them: opening,
  the exchange, and waiting for the close. \<open>None\<close> is an operation that was dropped. The guard of
  the handle spawns the close when it is dropped and when it is closed.
\<close>

definition query_path_security ::
  "'e path_server \<Rightarrow> nat \<Rightarrow> string \<Rightarrow> bool \<Rightarrow> path_call list \<times> ('e path_error + security_descriptor) option" where
  "query_path_security srv n path dacl =
     (let access = security_resource_access True False; opened = [CallOpen path access] in
      if n = 0 then (opened, None)
      else (case ps_open srv path access of Some e \<Rightarrow> (opened, Some (Inl (ServerError e)))
      | None \<Rightarrow> (let (calls, result) = query_security srv dacl in
          if n = 1 then (opened @ calls @ [SpawnClose], None)
          else if n = 2 then (opened @ calls @ [SpawnClose], None)
          else (opened @ calls @ [SpawnClose], Some (case result of Inl e \<Rightarrow> Inl e
            | Inr d \<Rightarrow> (case close_result srv of Inl e \<Rightarrow> Inl e | Inr _ \<Rightarrow> Inr d))))))"

definition set_path_security ::
  "'e path_server \<Rightarrow> nat \<Rightarrow> string \<Rightarrow> security_descriptor \<Rightarrow> bool \<Rightarrow> path_call list \<times> ('e path_error + unit) option" where
  "set_path_security srv n path d dacl =
     (let access = security_resource_access False dacl; opened = [CallOpen path access] in
      if n = 0 then (opened, None)
      else (case ps_open srv path access of Some e \<Rightarrow> (opened, Some (Inl (ServerError e)))
      | None \<Rightarrow> (let (calls, result) = set_security srv d dacl in
          if n = 1 then (opened @ calls @ [SpawnClose], None)
          else if n = 2 then (opened @ calls @ [SpawnClose], None)
          else (opened @ calls @ [SpawnClose], Some (case result of Inl e \<Rightarrow> Inl e | Inr _ \<Rightarrow> close_result srv)))))"

text \<open>Nothing is sent once the deadline of the operation has passed.\<close>

definition share_query_security ::
  "'e path_server \<Rightarrow> 'e option \<Rightarrow> nat \<Rightarrow> string \<Rightarrow> bool \<Rightarrow> path_call list \<times> ('e path_error + security_descriptor) option" where
  "share_query_security srv expired n path dacl =
     (case expired of Some e \<Rightarrow> ([], Some (Inl (ServerError e)))
      | None \<Rightarrow> (case query_path_security srv n path dacl of (calls, result) \<Rightarrow>
          (calls, map_option (map_sum id retain_supported_aces) result)))"

definition share_set_security ::
  "'e path_server \<Rightarrow> 'e option \<Rightarrow> nat \<Rightarrow> string \<Rightarrow> security_descriptor \<Rightarrow> bool \<Rightarrow> path_call list \<times> ('e path_error + unit) option" where
  "share_set_security srv expired n path d dacl =
     (case expired of Some e \<Rightarrow> ([], Some (Inl (ServerError e)))
      | None \<Rightarrow> set_path_security srv n path (retain_supported_aces d) dacl)"

section \<open>The order is the grouping\<close>

definition ace_rank :: "ace \<Rightarrow> nat" where
  "ace_rank a = (if flag_inherited (ace_flags a) then 2 else if is_access_allowed (ace_value a) then 1 else 0)"

lemma sort_aces_by_rank: "sort_aces_by a b = Greater \<longleftrightarrow> ace_rank b < ace_rank a"
  by (auto simp: sort_aces_by_def ace_rank_def bool_cmp_def Let_def)

lemma ace_rank_cases: "ace_rank a = 0 \<or> ace_rank a = 1 \<or> ace_rank a = 2"
  by (simp add: ace_rank_def)

definition by_rank :: "nat \<Rightarrow> ace list \<Rightarrow> ace list" where
  "by_rank r = filter (\<lambda>a. ace_rank a = r)"

lemma insert_by_skip:
  "\<forall>y \<in> set ys. sort_aces_by x y = Greater \<Longrightarrow> insert_by sort_aces_by x (ys @ zs) = ys @ insert_by sort_aces_by x zs"
  by (induction ys) simp_all

lemma insert_by_stop:
  "\<forall>y \<in> set zs. sort_aces_by x y \<noteq> Greater \<Longrightarrow> insert_by sort_aces_by x zs = x # zs"
  by (cases zs) simp_all

lemma sort_aces_groups: "sort_by sort_aces_by xs = by_rank 0 xs @ by_rank 1 xs @ by_rank 2 xs"
proof (induction xs)
  case (Cons x xs)
  have step: "sort_by sort_aces_by (x # xs) = insert_by sort_aces_by x (by_rank 0 xs @ by_rank 1 xs @ by_rank 2 xs)"
    using Cons by (simp add: sort_by_def)
  consider "ace_rank x = 0" | "ace_rank x = 1" | "ace_rank x = 2" using ace_rank_cases [of x] by metis
  then show ?case
  proof cases
    case 1
    then show ?thesis unfolding step by (subst insert_by_stop) (auto simp: sort_aces_by_rank by_rank_def)
  next
    case 2
    have "insert_by sort_aces_by x (by_rank 1 xs @ by_rank 2 xs) = x # by_rank 1 xs @ by_rank 2 xs"
      using 2 by (intro insert_by_stop) (auto simp: sort_aces_by_rank by_rank_def)
    with 2 show ?thesis unfolding step
      by (subst insert_by_skip) (auto simp: sort_aces_by_rank by_rank_def)
  next
    case 3
    have "insert_by sort_aces_by x (by_rank 2 xs) = x # by_rank 2 xs"
      using 3 by (intro insert_by_stop) (auto simp: sort_aces_by_rank by_rank_def)
    with 3 show ?thesis unfolding step append_assoc [symmetric]
      by (subst insert_by_skip) (auto simp: sort_aces_by_rank by_rank_def)
  qed
qed (simp add: sort_by_def by_rank_def)

lemma is_sorted_by_rank:
  "is_sorted_by (\<lambda>a b. sort_aces_by a b \<noteq> Greater) xs \<longleftrightarrow> sorted (map ace_rank xs)"
proof (induction "\<lambda>a b. sort_aces_by a b \<noteq> Greater" xs rule: is_sorted_by.induct)
  case (1 x y ys)
  then show ?case by (auto simp: sort_aces_by_rank not_less dest: order_trans)
qed simp_all

lemma sorted_groups: "sorted (map ace_rank (by_rank 0 xs @ by_rank 1 xs @ by_rank 2 xs))"
proof -
  have "map ace_rank (by_rank r ys) = replicate (length (by_rank r ys)) r" for r ys
    by (induction ys) (simp_all add: by_rank_def)
  then show ?thesis by (simp add: sorted_append)
qed

lemma sorted_is_grouped: "sorted (map ace_rank xs) \<Longrightarrow> by_rank 0 xs @ by_rank 1 xs @ by_rank 2 xs = xs"
proof (induction xs)
  case (Cons x xs)
  then have le: "\<forall>y \<in> set xs. ace_rank x \<le> ace_rank y" by simp
  from Cons have IH: "by_rank 0 xs @ by_rank 1 xs @ by_rank 2 xs = xs" by simp
  consider "ace_rank x = 0" | "ace_rank x = 1" | "ace_rank x = 2" using ace_rank_cases [of x] by metis
  then show ?case
  proof cases
    case 1
    with IH show ?thesis by (simp add: by_rank_def)
  next
    case 2
    with le have "by_rank 0 xs = []" by (auto simp: by_rank_def filter_empty_conv)
    with 2 IH show ?thesis by (simp add: by_rank_def)
  next
    case 3
    with le have "by_rank 0 xs = []" "by_rank 1 xs = []" by (force simp: by_rank_def filter_empty_conv)+
    with 3 IH show ?thesis by (simp add: by_rank_def)
  qed
qed (simp add: by_rank_def)

text \<open>The three groups: explicit entries that do not allow access, explicit ones that do, inherited ones.\<close>

inductive allows_access :: "ace_value \<Rightarrow> bool" where
  "allows_access (AccessAllowed v)"
| "allows_access (AccessAllowedObject v)"
| "allows_access (AccessAllowedCallback v)"
| "allows_access (AccessAllowedCallbackObject v)"

inductive_simps allows_access_simps [simp]: "allows_access v"

lemma is_access_allowed_iff: "is_access_allowed v \<longleftrightarrow> allows_access v"
  by (cases v) (simp_all add: is_access_allowed_def)

definition ace_groups :: "(ace \<Rightarrow> bool) list" where
  "ace_groups = [\<lambda>a. \<not> bit (ace_flags a) 4 \<and> \<not> allows_access (ace_value a),
     \<lambda>a. \<not> bit (ace_flags a) 4 \<and> allows_access (ace_value a), \<lambda>a. bit (ace_flags a) 4]"

lemma by_rank_groups: "by_rank 0 xs @ by_rank 1 xs @ by_rank 2 xs = concat (map (\<lambda>group. filter group xs) ace_groups)"
proof -
  have "by_rank 0 = filter (\<lambda>a. \<not> bit (ace_flags a) 4 \<and> \<not> allows_access (ace_value a))"
    "by_rank 1 = filter (\<lambda>a. \<not> bit (ace_flags a) 4 \<and> allows_access (ace_value a))"
    "by_rank 2 = filter (\<lambda>a. bit (ace_flags a) 4)"
    by (auto simp: by_rank_def ace_rank_def flag_inherited_def is_access_allowed_iff simp del: allows_access_simps
        intro!: ext filter_cong)
  then show ?thesis by (simp add: ace_groups_def del: allows_access_simps)
qed

text \<open>
  C38. Ordering a list puts the explicit entries that do not allow access first, then the explicit
  entries that do, then the inherited ones, each group in its former order. The result counts as
  sorted, a list counts as sorted exactly when ordering leaves it alone, and inserting an entry
  gives the groups in that order with the entry at the end of its own.
\<close>

theorem aces_ordered_in_groups:
  "acl_aces (order_aces l) = concat (map (\<lambda>group. filter group (acl_aces l)) ace_groups) \<and>
   acl_aces (insert_ace l a) =
     concat (map (\<lambda>group. filter group (acl_aces l) @ (if group a then [a] else [])) ace_groups) \<and>
   is_ace_sorted (order_aces l) \<and> is_ace_sorted (insert_ace l a) \<and> (is_ace_sorted l \<longleftrightarrow> order_aces l = l)"
proof (intro conjI)
  have order: "acl_aces (order_aces l) = concat (map (\<lambda>group. filter group (acl_aces l)) ace_groups)" for l
    unfolding order_aces_def sort_aces_groups by_rank_groups by simp
  show "acl_aces (order_aces l) = concat (map (\<lambda>group. filter group (acl_aces l)) ace_groups)" by (rule order)
  show "acl_aces (insert_ace l a) =
     concat (map (\<lambda>group. filter group (acl_aces l) @ (if group a then [a] else [])) ace_groups)"
    unfolding insert_ace_def order by (simp add: ace_groups_def del: allows_access_simps)
  have sorted: "is_ace_sorted (order_aces l)" for l
    using sorted_groups [of "acl_aces l"] by (simp add: is_ace_sorted_def is_sorted_by_rank order_aces_def sort_aces_groups)
  show "is_ace_sorted (order_aces l)" "is_ace_sorted (insert_ace l a)"
    by (simp_all add: sorted insert_ace_def)
  have "order_aces l = l" if "is_ace_sorted l"
  proof -
    from that have "sort_by sort_aces_by (acl_aces l) = acl_aces l"
      unfolding is_ace_sorted_def is_sorted_by_rank sort_aces_groups by (rule sorted_is_grouped)
    then show ?thesis by (simp add: order_aces_def)
  qed
  with sorted [of l] show "is_ace_sorted l \<longleftrightarrow> order_aces l = l" by metis
qed

section \<open>What is sent and what is closed\<close>

text \<open>The trustees an entry may name: accounts of a domain, mapped POSIX users and groups, everyone, the local system.\<close>

inductive supported_trustee :: "sid \<Rightarrow> bool" where
  domain_account: "supported_trustee \<lparr>identifier_authority = 5, sub_authority = 21 # a # b # c # d # rest\<rparr>"
| posix_user: "supported_trustee \<lparr>identifier_authority = 22, sub_authority = [1, uid]\<rparr>"
| posix_group: "supported_trustee \<lparr>identifier_authority = 22, sub_authority = [2, gid]\<rparr>"
| everyone: "supported_trustee \<lparr>identifier_authority = 1, sub_authority = [0]\<rparr>"
| local_system: "supported_trustee \<lparr>identifier_authority = 5, sub_authority = [18]\<rparr>"

lemma at_least_five: "5 \<le> length xs \<and> take 1 xs = [x] \<longleftrightarrow> (\<exists>a b c d rest. xs = x # a # b # c # d # rest)"
  by (auto simp: Suc_le_length_iff numeral_eq_Suc)

lemma is_supported_iff: "is_supported_acl_trustee_sid s \<longleftrightarrow> supported_trustee s"
proof (cases s)
  case (fields authority subs)
  then show ?thesis
    using at_least_five [of subs 21]
    by (auto simp: is_supported_acl_trustee_sid_def supported_trustee.simps Let_def split: list.splits)
qed

definition supported_part :: "security_descriptor \<Rightarrow> security_descriptor" where
  "supported_part d = d\<lparr>sd_dacl := map_option
     (\<lambda>l. l\<lparr>acl_aces := filter (\<lambda>a. supported_trustee (ace_trustee_sid (ace_value a))) (acl_aces l)\<rparr>) (sd_dacl d)\<rparr>"

lemma retain_is_supported_part: "retain_supported_aces d = supported_part d"
  by (simp add: retain_supported_aces_def supported_part_def is_supported_iff)

lemma retain_wf: "sd_wf d \<Longrightarrow> sd_wf (retain_supported_aces d)"
  by (cases "sd_dacl d") (auto simp: sd_wf_def retain_supported_aces_def acl_wf_def)

lemma retain_control [simp]: "sd_control (retain_supported_aces d) = sd_control d"
  by (simp add: retain_supported_aces_def)

lemma set_selection_bits:
  "bit (set_security_selection dacl p) 2 \<longleftrightarrow> dacl" "bit (set_security_selection dacl p) 31 \<longleftrightarrow> dacl \<and> p"
  "bit (set_security_selection dacl p) 29 \<longleftrightarrow> dacl \<and> \<not> p"
  by (cases dacl; cases p; simp add: set_security_selection_def bit_or_iff)+

definition closes :: "path_call list \<Rightarrow> nat" where
  "closes calls = occurrences (\<lambda>c. c = SpawnClose) calls"

lemma set_security_calls:
  "set_security srv d dacl = (calls, result) \<Longrightarrow>
     (\<forall>bs info. CallSet bs info \<in> set calls \<longrightarrow>
        sd_write d = Inr bs \<and> info = set_security_selection dacl (control_dacl_protected (sd_control d))) \<and>
     closes calls = 0 \<and> length calls \<le> 1 \<and> (\<forall>p m. CallOpen p m \<notin> set calls)"
  by (auto simp: set_security_def Let_def closes_def split: sum.splits)

lemma stored_before_deadline:
  assumes "sd_wf d" and run: "set_path_security srv n path (retain_supported_aces d) dacl = (calls, result)"
  shows "(\<exists>mid. calls = CallOpen path (security_resource_access False dacl) # mid \<and>
      closes mid = (if 0 < n \<and> ps_open srv path (security_resource_access False dacl) = None then 1 else 0) \<and>
      (closes mid = 1 \<longrightarrow> last mid = SpawnClose) \<and> length mid \<le> 1 + closes mid) \<and>
    (\<forall>bs info. CallSet bs info \<in> set calls \<longrightarrow>
      sd_read bs = Inr (retain_supported_aces d, []) \<and>
      (bit info 31 \<longleftrightarrow> dacl \<and> control_dacl_protected (sd_control d)) \<and>
      (bit info 29 \<longleftrightarrow> dacl \<and> \<not> control_dacl_protected (sd_control d)) \<and> (bit info 2 \<longleftrightarrow> dacl)) \<and>
    (result = Some (Inr ()) \<longrightarrow> 2 < n \<and> ps_open srv path (security_resource_access False dacl) = None \<and>
      ps_close srv = None \<and> (\<exists>bs info. CallSet bs info \<in> set calls \<and> ps_set srv bs info = None))"
proof -
  let ?d = "retain_supported_aces d" and ?access = "security_resource_access False dacl"
  note run = run [unfolded set_path_security_def Let_def]
  obtain cs r where set: "set_security srv ?d dacl = (cs, r)" by (cases "set_security srv ?d dacl")
  note calls = set_security_calls [OF set]
  have read: "sd_write ?d = Inr bs \<Longrightarrow> sd_read bs = Inr (?d, [])" for bs
    using sd_round_trip [OF retain_wf [OF assms(1)], of bs "[]"] by simp
  show ?thesis
  proof (cases "0 < n \<and> ps_open srv path ?access = None")
    case False
    with run show ?thesis by (auto simp: closes_def split: if_splits option.splits)
  next
    case True
    with run set have eq: "calls = CallOpen path ?access # cs @ [SpawnClose]"
      and res: "result = (if n \<le> 2 then None else Some (case r of Inl e \<Rightarrow> Inl e | Inr _ \<Rightarrow> close_result srv))"
      by (auto split: if_splits)
    have one: "closes (cs @ [SpawnClose]) = 1" using calls by (simp add: closes_def)
    show ?thesis
    proof (intro conjI)
      show "\<exists>mid. calls = CallOpen path ?access # mid \<and>
          closes mid = (if 0 < n \<and> ps_open srv path ?access = None then 1 else 0) \<and>
          (closes mid = 1 \<longrightarrow> last mid = SpawnClose) \<and> length mid \<le> 1 + closes mid"
        using True one eq calls by (intro exI [of _ "cs @ [SpawnClose]"]) simp
      show "\<forall>bs info. CallSet bs info \<in> set calls \<longrightarrow> sd_read bs = Inr (?d, []) \<and>
          (bit info 31 \<longleftrightarrow> dacl \<and> control_dacl_protected (sd_control d)) \<and>
          (bit info 29 \<longleftrightarrow> dacl \<and> \<not> control_dacl_protected (sd_control d)) \<and> (bit info 2 \<longleftrightarrow> dacl)"
      proof (intro allI impI)
        fix bs info
        assume "CallSet bs info \<in> set calls"
        with calls eq have "sd_write ?d = Inr bs" "info = set_security_selection dacl (control_dacl_protected (sd_control d))"
          by simp_all
        then show "sd_read bs = Inr (?d, []) \<and> (bit info 31 \<longleftrightarrow> dacl \<and> control_dacl_protected (sd_control d)) \<and>
            (bit info 29 \<longleftrightarrow> dacl \<and> \<not> control_dacl_protected (sd_control d)) \<and> (bit info 2 \<longleftrightarrow> dacl)"
          by (simp add: read set_selection_bits)
      qed
      have "\<exists>bs info. CallSet bs info \<in> set cs \<and> ps_set srv bs info = None" if "r = Inr ()"
        using set that by (auto simp: set_security_def Let_def split: sum.splits option.splits)
      then show "result = Some (Inr ()) \<longrightarrow> 2 < n \<and> ps_open srv path ?access = None \<and> ps_close srv = None \<and>
          (\<exists>bs info. CallSet bs info \<in> set calls \<and> ps_set srv bs info = None)"
        using True res by (cases r) (auto simp: eq close_result_def split: if_splits option.splits)
    qed
  qed
qed

text \<open>
  C12. Storing a descriptor on a path: whatever the server answers and whenever the caller gives up,
  the temporary handle is closed exactly once if the open has completed (a caller that gives up
  before has no handle to close), and what is sent in between is one
  request whose bytes read back as the descriptor with exactly its supported entries, in their
  order, and whose flags protect the list as the descriptor says. Success is reported only when
  opening, storing and closing all succeeded; after the deadline nothing is sent.
\<close>

theorem stored_security_is_the_supported_part:
  assumes "sd_wf d" and run: "share_set_security srv expired n path d dacl = (calls, result)"
  shows "case expired of Some e \<Rightarrow> calls = [] \<and> result = Some (Inl (ServerError e)) | None \<Rightarrow>
    (\<exists>mid. calls = CallOpen path (security_resource_access False dacl) # mid \<and>
        closes mid = (if 0 < n \<and> ps_open srv path (security_resource_access False dacl) = None then 1 else 0) \<and>
        (closes mid = 1 \<longrightarrow> last mid = SpawnClose) \<and> length mid \<le> 1 + closes mid) \<and>
      (\<forall>bs info. CallSet bs info \<in> set calls \<longrightarrow>
        sd_read bs = Inr (supported_part d, []) \<and>
        (bit info 31 \<longleftrightarrow> dacl \<and> control_dacl_protected (sd_control d)) \<and>
        (bit info 29 \<longleftrightarrow> dacl \<and> \<not> control_dacl_protected (sd_control d)) \<and> (bit info 2 \<longleftrightarrow> dacl)) \<and>
      (result = Some (Inr ()) \<longrightarrow> 2 < n \<and> ps_open srv path (security_resource_access False dacl) = None \<and>
        ps_close srv = None \<and> (\<exists>bs info. CallSet bs info \<in> set calls \<and> ps_set srv bs info = None))"
  using assms stored_before_deadline [OF assms(1), of srv n path dacl calls result]
  by (cases expired) (simp_all add: share_set_security_def retain_is_supported_part)

definition sample_ace :: "u32 list \<Rightarrow> ace" where
  "sample_ace subs = \<lparr>ace_flags = 0,
     ace_value = AccessAllowed \<lparr>aa_mask = 0x1F01FF, aa_sid = \<lparr>identifier_authority = 5, sub_authority = subs\<rparr>\<rparr>\<rparr>"

definition sample_descriptor :: security_descriptor where
  "sample_descriptor = \<lparr>sd_sbz1 = 0, sd_control = 0x8004, sd_owner = None, sd_group = None, sd_sacl = None,
     sd_dacl = Some \<lparr>acl_revision = Nt4, acl_aces = [sample_ace [18], sample_ace [32, 544]]\<rparr>\<rparr>"

definition sample_server :: "unit path_server" where
  "sample_server = \<lparr>ps_open = (\<lambda>_ _. None), ps_query = (\<lambda>_. Inl ()), ps_set = (\<lambda>_ _. None), ps_close = None\<rparr>"

lemma sample_retained:
  "retain_supported_aces sample_descriptor =
     sample_descriptor\<lparr>sd_dacl := Some \<lparr>acl_revision = Nt4, acl_aces = [sample_ace [18]]\<rparr>\<rparr>"
  by (simp add: retain_supported_aces_def sample_descriptor_def sample_ace_def is_supported_acl_trustee_sid_def)

lemma sample_stored:
  "\<exists>calls. share_set_security sample_server None 3 ''a'' sample_descriptor True = (calls, Some (Inr ()))"
proof -
  have bits: "bit (0x8004 :: u16) 15" "bit (0x8004 :: u16) 2" "\<not> bit (0x8004 :: u16) 4" by simp_all
  have "\<exists>bs. sd_write (retain_supported_aces sample_descriptor) = Inr bs"
    unfolding sample_retained
    by (simp add: sd_write_def sample_descriptor_def sample_ace_def write_opt_def control_self_relative_def
      control_sacl_present_def control_dacl_present_def bits acl_write_def ace_write_def access_ace_write_def
      write_le_def sid_write_def write_u48_be_def offset_field_def sd_header_size_def)
  then show ?thesis
    by (auto simp: share_set_security_def set_path_security_def set_security_def sample_server_def close_result_def Let_def)
qed

theorem stored_security_is_the_supported_part_witness:
  "\<exists>bs info. sd_read bs = Inr (sample_descriptor\<lparr>sd_dacl := Some \<lparr>acl_revision = Nt4, acl_aces = [sample_ace [18]]\<rparr>\<rparr>, []) \<and>
     bit info 29 \<and> \<not> bit info 31 \<and> ps_set sample_server bs info = None"
proof -
  obtain calls where run: "share_set_security sample_server None 3 ''a'' sample_descriptor True = (calls, Some (Inr ()))"
    using sample_stored by blast
  have wf: "sd_wf sample_descriptor"
    by (simp add: sd_wf_def sample_descriptor_def acl_wf_def sample_ace_def sid_wf_def)
  have "\<not> control_dacl_protected (sd_control sample_descriptor)"
    by (simp add: control_dacl_protected_def sample_descriptor_def)
  with stored_security_is_the_supported_part [OF wf run, unfolded option.case] show ?thesis
    unfolding retain_is_supported_part [symmetric] sample_retained by blast
qed

section \<open>Where the reader is narrower than the format\<close>

text \<open>
  The format lets the parts of a descriptor stand in any order; the reader takes them in its own.
  Here an empty list at offset 20 comes before the owner at offset 28, and is read as the owner.
\<close>

lemma descriptor_offsets_ignored:
  "sd_read ([1, 0, 4, 0x80, 28, 0, 0, 0, 0, 0, 0, 0, 0, 0, 0, 0, 20, 0, 0, 0] @
     [2, 0, 8, 0, 0, 0, 0, 0] @ [1, 1, 0, 0, 0, 0, 0, 1, 0, 0, 0, 0]) = Inl BadValue"
  by (simp add: sd_read_def and_then_def read_le_def read_bytes_def yield_def require_def read_if_def sid_read_def
    control_self_relative_def control_dacl_present_def control_sacl_present_def)

text \<open>An entry whose size is below its header overflows, and bytes that pad an entry are read as the next one.\<close>

lemma short_ace_overflows: "ace_read [0, 0, 3, 0] = Inl Overflowed"
  by (simp add: ace_read_def and_then_def read_le_def read_bytes_def yield_def ace_type_of_code_def ace_types_def fail_def)

lemma padded_ace_left_behind:
  "ace_read ([0, 0, 20, 0, 0, 0, 0, 0] @ [1, 0, 0, 0, 0, 0, 0, 1] @ [9, 9, 9, 9] @ rest) =
     Inr (\<lparr>ace_flags = 0, ace_value = AccessAllowed \<lparr>aa_mask = 0, aa_sid = \<lparr>identifier_authority = 1, sub_authority = []\<rparr>\<rparr>\<rparr>,
          [9, 9, 9, 9] @ rest)"
  by (simp add: ace_read_def and_then_def read_le_def read_bytes_def yield_def ace_type_of_code_def ace_types_def
    read_window_def read_as_def access_ace_read_def sid_read_def require_def read_u48_be_def)

end
