(* ===== verification/Unc_Path.thy ===== *)
theory Unc_Path
  imports Prelude
begin

text \<open>
  UNC paths (client/unc_path.rs): building, parsing, printing and comparing them. Text is the list
  of its bytes; the separators are ASCII, so that bytes and characters split alike. Unicode lower
  case, which only the hash uses, is a parameter.
\<close>

section \<open>The code\<close>

record unc_path =
  unc_server :: string
  unc_share :: "string option"
  unc_dir :: "string option"

definition backslash :: char where
  "backslash = CHR 92"

definition is_sep :: "char \<Rightarrow> bool" where
  "is_sep c \<longleftrightarrow> c = backslash \<or> c = CHR ''/''"

datatype unc_error = InvalidArgument

definition check_no_separators :: "string \<Rightarrow> bool" where
  "check_no_separators s = list_all (\<lambda>c. \<not> is_sep c) s"

definition normalize_char :: "char \<Rightarrow> char" where
  "normalize_char c = (if c = CHR ''/'' then backslash else c)"

definition normalize_directory_separators :: "string \<Rightarrow> string" where
  "normalize_directory_separators s = map normalize_char s"

definition unc_new :: "string \<Rightarrow> unc_error + unc_path" where
  "unc_new server =
     (if check_no_separators server then Inr \<lparr>unc_server = server, unc_share = None, unc_dir = None\<rparr>
      else Inl InvalidArgument)"

definition with_share :: "unc_path \<Rightarrow> string \<Rightarrow> unc_error + unc_path" where
  "with_share u share =
     (if check_no_separators share then Inr (u\<lparr>unc_share := Some share\<rparr>) else Inl InvalidArgument)"

definition ipc_share :: "string \<Rightarrow> unc_error + unc_path" where
  "ipc_share server = (case unc_new server of Inl e \<Rightarrow> Inl e | Inr u \<Rightarrow> with_share u ''IPC$'')"

definition with_path :: "unc_path \<Rightarrow> string \<Rightarrow> unc_path" where
  "with_path u p = u\<lparr>unc_dir := Some (normalize_directory_separators p)\<rparr>"

definition with_no_path :: "unc_path \<Rightarrow> unc_path" where
  "with_no_path u = u\<lparr>unc_dir := None\<rparr>"

definition trim_start :: "string \<Rightarrow> string" where
  "trim_start s = dropWhile (\<lambda>c. c = backslash) s"

definition trim_end :: "string \<Rightarrow> string" where
  "trim_end s = rev (dropWhile (\<lambda>c. c = backslash) (rev s))"

definition with_add_path :: "unc_path \<Rightarrow> string \<Rightarrow> unc_path" where
  "with_add_path u p =
     (let add = normalize_directory_separators p in
      case unc_dir u of None \<Rightarrow> u\<lparr>unc_dir := Some add\<rparr>
      | Some existing \<Rightarrow> if existing = [] then u\<lparr>unc_dir := Some add\<rparr>
          else u\<lparr>unc_dir := Some (trim_end existing @ [backslash] @ trim_start add)\<rparr>)"

fun splitn :: "nat \<Rightarrow> string \<Rightarrow> string list" where
  "splitn 0 s = []"
| "splitn (Suc 0) s = [s]"
| "splitn (Suc (Suc n)) s =
     (case dropWhile (\<lambda>c. \<not> is_sep c) s of [] \<Rightarrow> [s]
      | _ # t \<Rightarrow> takeWhile (\<lambda>c. \<not> is_sep c) s # splitn (Suc n) t)"

definition unc_from_str :: "string \<Rightarrow> unc_error + unc_path" where
  "unc_from_str s =
     (if take 2 s \<noteq> [backslash, backslash] \<and> take 2 s \<noteq> ''//'' then Inl InvalidArgument
      else (let parts = splitn 3 (drop 2 s) in
        if parts = [] then Inl InvalidArgument
        else Inr \<lparr>unc_server = normalize_directory_separators (parts ! 0),
          unc_share = (if 1 < length parts then Some (normalize_directory_separators (parts ! 1)) else None),
          unc_dir = (if 2 < length parts then Some (normalize_directory_separators (parts ! 2)) else None)\<rparr>))"

definition unc_display :: "unc_path \<Rightarrow> string" where
  "unc_display u = [backslash, backslash] @ unc_server u @
     (case unc_share u of None \<Rightarrow> [] | Some s \<Rightarrow> backslash # s) @
     (case unc_dir u of None \<Rightarrow> [] | Some p \<Rightarrow> backslash # p)"

definition ascii_lower :: "char \<Rightarrow> char" where
  "ascii_lower c = (let n = of_char c :: nat in if 65 \<le> n \<and> n \<le> 90 then char_of (n + 32) else c)"

definition eq_ignore_ascii_case :: "string \<Rightarrow> string \<Rightarrow> bool" where
  "eq_ignore_ascii_case s t \<longleftrightarrow> map ascii_lower s = map ascii_lower t"

definition compare_option_case_insensitive :: "string option \<Rightarrow> string option \<Rightarrow> bool" where
  "compare_option_case_insensitive a b =
     (case (a, b) of (Some s, Some t) \<Rightarrow> eq_ignore_ascii_case s t | (None, None) \<Rightarrow> True | _ \<Rightarrow> False)"

definition unc_eq :: "unc_path \<Rightarrow> unc_path \<Rightarrow> bool" where
  "unc_eq u v =
     (if \<not> eq_ignore_ascii_case (unc_server u) (unc_server v) then False
      else if \<not> compare_option_case_insensitive (unc_share u) (unc_share v) then False
      else compare_option_case_insensitive (unc_dir u) (unc_dir v))"

definition normalized :: "(string \<Rightarrow> string) \<Rightarrow> unc_path \<Rightarrow> unc_path" where
  "normalized lower u = \<lparr>unc_server = lower (unc_server u), unc_share = map_option lower (unc_share u),
     unc_dir = map_option lower (unc_dir u)\<rparr>"

section \<open>Paths a program can build\<close>

datatype unc_op = WithShare string | WithPath string | WithNoPath | WithAddPath string

fun apply_unc_op :: "unc_path \<Rightarrow> unc_op \<Rightarrow> unc_error + unc_path" where
  "apply_unc_op u (WithShare s) = with_share u s"
| "apply_unc_op u (WithPath p) = Inr (with_path u p)"
| "apply_unc_op u WithNoPath = Inr (with_no_path u)"
| "apply_unc_op u (WithAddPath p) = Inr (with_add_path u p)"

fun apply_unc_ops :: "unc_path \<Rightarrow> unc_op list \<Rightarrow> unc_error + unc_path" where
  "apply_unc_ops u [] = Inr u"
| "apply_unc_ops u (x # xs) = (case apply_unc_op u x of Inl e \<Rightarrow> Inl e | Inr v \<Rightarrow> apply_unc_ops v xs)"

definition unc_inv :: "unc_path \<Rightarrow> bool" where
  "unc_inv u \<longleftrightarrow> check_no_separators (unc_server u) \<and> (\<forall>s \<in> set_option (unc_share u). check_no_separators s) \<and>
     (\<forall>p \<in> set_option (unc_dir u). CHR ''/'' \<notin> set p)"

lemma slash_backslash [simp]: "CHR ''/'' \<noteq> backslash" "backslash \<noteq> CHR ''/''"
  by (simp_all add: backslash_def)

lemma normalized_free: "CHR ''/'' \<notin> set (normalize_directory_separators s)"
  by (auto simp: normalize_directory_separators_def normalize_char_def split: if_splits)

lemma set_trims: "set (trim_end s) \<subseteq> set s" "set (trim_start s) \<subseteq> set s"
  by (auto simp: trim_end_def trim_start_def dest: set_dropWhileD)

lemma apply_unc_op_inv: "unc_inv u \<Longrightarrow> apply_unc_op u x = Inr v \<Longrightarrow> unc_inv v"
  using set_trims normalized_free
  by (cases x) (fastforce simp: unc_inv_def with_share_def with_path_def with_no_path_def with_add_path_def Let_def
      split: if_splits option.splits)+

lemma apply_unc_ops_inv: "unc_inv u \<Longrightarrow> apply_unc_ops u xs = Inr v \<Longrightarrow> unc_inv v"
  by (induction u xs rule: apply_unc_ops.induct) (auto split: sum.splits dest: apply_unc_op_inv)

section \<open>Parsing and printing\<close>

lemma is_sep_backslash [simp]: "is_sep backslash"
  by (simp add: is_sep_def)

lemma split_at_sep:
  "check_no_separators s \<Longrightarrow> is_sep d \<Longrightarrow> dropWhile (\<lambda>c. \<not> is_sep c) (s @ d # t) = d # t"
  "check_no_separators s \<Longrightarrow> is_sep d \<Longrightarrow> takeWhile (\<lambda>c. \<not> is_sep c) (s @ d # t) = s"
  "check_no_separators s \<Longrightarrow> dropWhile (\<lambda>c. \<not> is_sep c) s = []"
  by (induction s) (simp_all add: check_no_separators_def)

lemma normalize_id: "CHR ''/'' \<notin> set s \<Longrightarrow> normalize_directory_separators s = s"
  by (induction s) (auto simp: normalize_directory_separators_def normalize_char_def)

lemma no_separators_no_slash: "check_no_separators s \<Longrightarrow> CHR ''/'' \<notin> set s"
  by (auto simp: check_no_separators_def list_all_iff is_sep_def)

definition unc_complete :: "unc_path \<Rightarrow> bool" where
  "unc_complete u \<longleftrightarrow> (unc_share u = None \<longrightarrow> unc_dir u = None)"

lemma splitn_3:
  "splitn 3 s = (case dropWhile (\<lambda>c. \<not> is_sep c) s of [] \<Rightarrow> [s]
     | _ # t \<Rightarrow> takeWhile (\<lambda>c. \<not> is_sep c) s # (case dropWhile (\<lambda>c. \<not> is_sep c) t of [] \<Rightarrow> [t]
       | _ # r \<Rightarrow> [takeWhile (\<lambda>c. \<not> is_sep c) t, r]))"
  unfolding numeral_3_eq_3 splitn.simps by (rule refl)

lemma from_str_display:
  assumes inv: "unc_inv u" and complete: "unc_complete u"
  shows "unc_from_str (unc_display u) = Inr u"
proof -
  have server: "check_no_separators (unc_server u)" using inv by (simp add: unc_inv_def)
  note norm = normalize_id no_separators_no_slash
  show ?thesis
  proof (cases "unc_share u")
    case None
    with complete have "unc_dir u = None" by (simp add: unc_complete_def)
    with None server show ?thesis
      by (cases u) (simp add: unc_from_str_def unc_display_def splitn_3 split_at_sep norm Let_def)
  next
    case (Some share)
    with inv have share: "check_no_separators share" by (simp add: unc_inv_def)
    show ?thesis
    proof (cases "unc_dir u")
      case None
      with Some server share show ?thesis
        by (cases u) (simp add: unc_from_str_def unc_display_def splitn_3 split_at_sep norm Let_def)
    next
      case (Some p)
      with inv have "CHR ''/'' \<notin> set p" by (simp add: unc_inv_def)
      with Some \<open>unc_share u = Some share\<close> server share show ?thesis
        by (cases u) (simp add: unc_from_str_def unc_display_def splitn_3 split_at_sep norm Let_def)
    qed
  qed
qed

lemma rejoin:
  "dropWhile (\<lambda>c. \<not> is_sep c) s = d # t \<Longrightarrow> is_sep d \<and> s = takeWhile (\<lambda>c. \<not> is_sep c) s @ d # t"
  by (metis hd_dropWhile list.sel(1) list.distinct(1) takeWhile_dropWhile_id)

lemma normalize_append [simp]:
  "normalize_directory_separators (s @ t) = normalize_directory_separators s @ normalize_directory_separators t"
  "normalize_directory_separators (c # t) = normalize_char c # normalize_directory_separators t"
  "normalize_directory_separators [] = []"
  by (simp_all add: normalize_directory_separators_def)

lemma normalize_sep [simp]: "is_sep d \<Longrightarrow> normalize_char d = backslash"
  by (auto simp: is_sep_def normalize_char_def)

lemma takeWhile_no_separators: "check_no_separators (normalize_directory_separators (takeWhile (\<lambda>c. \<not> is_sep c) s))"
  by (auto simp: check_no_separators_def list_all_iff normalize_directory_separators_def normalize_char_def is_sep_def
      dest!: set_takeWhileD)

lemma no_sep_no_separators:
  "dropWhile (\<lambda>c. \<not> is_sep c) s = [] \<Longrightarrow> check_no_separators (normalize_directory_separators s)"
  using takeWhile_no_separators [of s] by (metis append_Nil2 takeWhile_dropWhile_id)

lemma from_str_cases:
  assumes "unc_from_str s = Inr u"
  shows "unc_display u = normalize_directory_separators s \<and> unc_inv u \<and> unc_complete u"
proof -
  let ?rest = "drop 2 s"
  have start: "normalize_directory_separators s = [backslash, backslash] @ normalize_directory_separators ?rest"
  proof -
    have "take 2 s = [backslash, backslash] \<or> take 2 s = ''//''" using assms by (auto simp: unc_from_str_def split: if_splits)
    then have "normalize_directory_separators (take 2 s) = [backslash, backslash]"
      by (auto simp: normalize_char_def)
    then show ?thesis by (metis append_take_drop_id normalize_append(1))
  qed
  have u: "u = \<lparr>unc_server = normalize_directory_separators (splitn 3 ?rest ! 0),
      unc_share = (if 1 < length (splitn 3 ?rest) then Some (normalize_directory_separators (splitn 3 ?rest ! 1)) else None),
      unc_dir = (if 2 < length (splitn 3 ?rest) then Some (normalize_directory_separators (splitn 3 ?rest ! 2)) else None)\<rparr>"
    using assms by (auto simp: unc_from_str_def Let_def split: if_splits)
  note parts = unc_display_def unc_inv_def unc_complete_def no_sep_no_separators takeWhile_no_separators normalized_free
  show ?thesis
  proof (cases "dropWhile (\<lambda>c. \<not> is_sep c) ?rest")
    case Nil
    then have "splitn 3 ?rest = [?rest]" by (simp add: splitn_3 del: dropWhile_eq_Nil_conv)
    with Nil show ?thesis by (simp add: u start parts del: dropWhile_eq_Nil_conv)
  next
    case (Cons d t)
    have server: "normalize_directory_separators ?rest =
        normalize_directory_separators (takeWhile (\<lambda>c. \<not> is_sep c) ?rest) @ backslash # normalize_directory_separators t"
      using rejoin [OF Cons] by (metis normalize_append(1,2) normalize_sep)
    show ?thesis
    proof (cases "dropWhile (\<lambda>c. \<not> is_sep c) t")
      case Nil
      with Cons have "splitn 3 ?rest = [takeWhile (\<lambda>c. \<not> is_sep c) ?rest, t]"
        by (simp add: splitn_3 del: dropWhile_eq_Nil_conv)
      with Nil server show ?thesis by (simp add: u start parts del: dropWhile_eq_Nil_conv)
    next
      case (Cons d' r)
      then have "splitn 3 ?rest = [takeWhile (\<lambda>c. \<not> is_sep c) ?rest, takeWhile (\<lambda>c. \<not> is_sep c) t, r]"
        using \<open>dropWhile (\<lambda>c. \<not> is_sep c) ?rest = d # t\<close> by (simp add: splitn_3)
      moreover have "normalize_directory_separators t =
          normalize_directory_separators (takeWhile (\<lambda>c. \<not> is_sep c) t) @ backslash # normalize_directory_separators r"
        using rejoin [OF Cons] by (metis normalize_append(1,2) normalize_sep)
      ultimately show ?thesis using server by (simp add: u start parts)
    qed
  qed
qed

text \<open>Case-insensitive equality is equality of the printed forms up to case.\<close>

lemma ascii_lower_fixed: "of_char d < (65 :: nat) \<or> of_char d = (92 :: nat) \<Longrightarrow> ascii_lower c = d \<longleftrightarrow> c = d"
  by (auto simp: ascii_lower_def Let_def)

lemma ascii_lower_seps: "ascii_lower c = CHR ''/'' \<longleftrightarrow> c = CHR ''/''" "ascii_lower c = backslash \<longleftrightarrow> c = backslash"
  by (simp_all add: ascii_lower_fixed backslash_def)

abbreviation lower_unc :: "unc_path \<Rightarrow> unc_path" where
  "lower_unc \<equiv> normalized (map ascii_lower)"

lemma unc_eq_lower: "unc_eq u v \<longleftrightarrow> lower_unc u = lower_unc v"
  by (cases "unc_share u"; cases "unc_share v"; cases "unc_dir u"; cases "unc_dir v")
    (simp_all add: unc_eq_def normalized_def eq_ignore_ascii_case_def compare_option_case_insensitive_def)

lemma display_lower: "unc_display (lower_unc u) = map ascii_lower (unc_display u)"
proof -
  have "ascii_lower backslash = backslash" by (simp add: ascii_lower_seps)
  then show ?thesis
    by (cases "unc_share u"; cases "unc_dir u") (simp_all add: unc_display_def normalized_def)
qed

lemma lower_separators:
  "check_no_separators (map ascii_lower s) = check_no_separators s"
  "CHR ''/'' \<in> set (map ascii_lower s) \<longleftrightarrow> CHR ''/'' \<in> set s"
  by (induction s) (simp_all add: check_no_separators_def is_sep_def ascii_lower_seps eq_commute [of "CHR ''/''"])

lemma lower_inv: "unc_inv u \<Longrightarrow> unc_inv (lower_unc u)"
  unfolding unc_inv_def normalized_def by (simp add: lower_separators option.set_map del: set_map)

lemma lower_complete: "unc_complete u \<Longrightarrow> unc_complete (lower_unc u)"
  by (simp add: unc_complete_def normalized_def)

text \<open>Among the paths that name a share, and among those that do not, the text determines the path.\<close>

definition starts_part :: "string \<Rightarrow> bool" where
  "starts_part x \<longleftrightarrow> (case x of [] \<Rightarrow> True | c # _ \<Rightarrow> c = backslash)"

lemma part_unique:
  assumes "check_no_separators s" "check_no_separators s'" "starts_part x" "starts_part y" "s @ x = s' @ y"
  shows "s = s' \<and> x = y"
proof -
  have "takeWhile (\<lambda>c. \<not> is_sep c) (s @ x) = s" "takeWhile (\<lambda>c. \<not> is_sep c) (s' @ y) = s'"
    using assms(1-4) split_at_sep
    by (cases x; cases y; auto simp: starts_part_def check_no_separators_def list_all_iff takeWhile_eq_all_conv)+
  with assms(5) show ?thesis by (metis same_append_eq)
qed

lemma display_unique:
  assumes inv: "unc_inv u" "unc_inv v" and share: "unc_share u = None \<longleftrightarrow> unc_share v = None"
    and same: "unc_display u = unc_display v"
  shows "u = v"
proof -
  let ?dir = "\<lambda>u. case unc_dir u of None \<Rightarrow> [] | Some p \<Rightarrow> backslash # p"
  let ?rest = "\<lambda>u. (case unc_share u of None \<Rightarrow> [] | Some s \<Rightarrow> backslash # s) @ ?dir u"
  have parts: "starts_part (?dir w)" "starts_part (?rest w)" for w
    by (auto simp: starts_part_def split: option.splits)
  have "unc_server u = unc_server v \<and> ?rest u = ?rest v"
    using inv same parts(2) by (intro part_unique) (simp_all add: unc_display_def unc_inv_def)
  moreover have "unc_share u = unc_share v \<and> ?dir u = ?dir v"
  proof (cases "unc_share u")
    case None
    with share calculation show ?thesis by simp
  next
    case (Some s)
    with share obtain s' where s': "unc_share v = Some s'" by auto
    have "s = s' \<and> ?dir u = ?dir v"
      using calculation inv Some s' parts(1) by (intro part_unique) (simp_all add: unc_inv_def)
    with Some s' show ?thesis by simp
  qed
  ultimately show ?thesis by (cases u; cases v) (auto split: option.splits)
qed

lemma unc_eq_display:
  assumes "unc_inv u" "unc_inv v"
  shows "unc_eq u v \<longleftrightarrow> (unc_share u = None \<longleftrightarrow> unc_share v = None) \<and>
    map ascii_lower (unc_display u) = map ascii_lower (unc_display v)"
proof
  assume "unc_eq u v"
  then have eq: "lower_unc u = lower_unc v" by (simp add: unc_eq_lower)
  then have "map_option (map ascii_lower) (unc_share u) = map_option (map ascii_lower) (unc_share v)"
    by (simp add: normalized_def)
  moreover from eq have "map ascii_lower (unc_display u) = map ascii_lower (unc_display v)"
    by (metis display_lower)
  ultimately show "(unc_share u = None \<longleftrightarrow> unc_share v = None) \<and> map ascii_lower (unc_display u) = map ascii_lower (unc_display v)"
    by (metis option.map_disc_iff)
next
  assume "(unc_share u = None \<longleftrightarrow> unc_share v = None) \<and> map ascii_lower (unc_display u) = map ascii_lower (unc_display v)"
  then have "lower_unc u = lower_unc v"
    using assms by (intro display_unique lower_inv) (simp_all add: display_lower, simp add: normalized_def)
  then show "unc_eq u v" by (simp add: unc_eq_lower)
qed

lemma built_inv:
  "unc_from_str s = Inr u \<or> unc_new s = Inr u \<Longrightarrow> apply_unc_ops u xs = Inr v \<Longrightarrow> unc_inv v"
  by (rule apply_unc_ops_inv) (auto simp: unc_new_def unc_inv_def split: if_splits dest: from_str_cases)

text \<open>
  C37. A path that a program builds, by any calls from a parsed one or from a new one, prints to a text
  that parses back to it exactly when it names a share or no directory. Parsing succeeds exactly
  on texts that start with two equal separators, and what it gives prints as that text with
  backslashes. Two paths that a program builds are equal exactly when both name a share or
  neither does, and their texts agree up to ASCII case.
\<close>

theorem unc_path_round_trip:
  assumes "unc_from_str s = Inr u \<or> unc_new s = Inr u" "apply_unc_ops u xs = Inr v"
    and "unc_from_str s' = Inr u' \<or> unc_new s' = Inr u'" "apply_unc_ops u' xs' = Inr v'"
  shows "(unc_from_str (unc_display v) = Inr v \<longleftrightarrow> (unc_share v = None \<longrightarrow> unc_dir v = None)) \<and>
    ((\<exists>w. unc_from_str t = Inr w) \<longleftrightarrow> take 2 t \<in> {[backslash, backslash], ''//''}) \<and>
    (\<forall>w. unc_from_str t = Inr w \<longrightarrow> unc_display w = normalize_directory_separators t) \<and>
    (unc_eq v v' \<longleftrightarrow> (unc_share v = None \<longleftrightarrow> unc_share v' = None) \<and>
       map ascii_lower (unc_display v) = map ascii_lower (unc_display v'))"
proof (intro conjI)
  have inv: "unc_inv v" "unc_inv v'" using assms by (blast intro: built_inv)+
  show "unc_from_str (unc_display v) = Inr v \<longleftrightarrow> (unc_share v = None \<longrightarrow> unc_dir v = None)"
    using from_str_display [OF inv(1)] from_str_cases [of "unc_display v" v] by (auto simp: unc_complete_def)
  show "(\<exists>w. unc_from_str t = Inr w) \<longleftrightarrow> take 2 t \<in> {[backslash, backslash], ''//''}"
    by (auto simp: unc_from_str_def splitn_3 Let_def split: list.splits)
  show "\<forall>w. unc_from_str t = Inr w \<longrightarrow> unc_display w = normalize_directory_separators t"
    using from_str_cases by blast
  show "unc_eq v v' \<longleftrightarrow> (unc_share v = None \<longleftrightarrow> unc_share v' = None) \<and>
      map ascii_lower (unc_display v) = map ascii_lower (unc_display v')"
    by (rule unc_eq_display [OF inv])
qed

text \<open>A path with a directory, and two paths that print alike but differ in having a share.\<close>

theorem unc_path_round_trip_witness:
  "(\<exists>u v. unc_from_str ''//srv/share'' = Inr u \<and> apply_unc_ops u [WithPath ''a'', WithAddPath ''/b''] = Inr v \<and>
     unc_dir v = Some (''a'' @ [backslash] @ ''b'') \<and> unc_from_str (unc_display v) = Inr v) \<and>
   (\<exists>u v v'. unc_new ''srv'' = Inr u \<and> apply_unc_ops u [WithShare ''a''] = Inr v \<and> apply_unc_ops u [WithPath ''a''] = Inr v' \<and>
     unc_display v = unc_display v' \<and> \<not> unc_eq v v')"
proof -
  let ?u = "\<lparr>unc_server = ''srv'', unc_share = Some ''share'', unc_dir = None\<rparr>"
  let ?v = "?u\<lparr>unc_dir := Some (''a'' @ [backslash] @ ''b'')\<rparr>"
  have u: "unc_from_str ''//srv/share'' = Inr ?u"
    by (simp add: unc_from_str_def splitn_3 is_sep_def backslash_def normalize_directory_separators_def normalize_char_def Let_def)
  have v: "apply_unc_ops ?u [WithPath ''a'', WithAddPath ''/b''] = Inr ?v"
    by (simp add: with_path_def with_add_path_def normalize_char_def backslash_def trim_end_def trim_start_def Let_def)
  from unc_path_round_trip [OF disjI1 [OF u] v disjI1 [OF u] v] have "unc_from_str (unc_display ?v) = Inr ?v" by simp
  with u v have first: "\<exists>u v. unc_from_str ''//srv/share'' = Inr u \<and> apply_unc_ops u [WithPath ''a'', WithAddPath ''/b''] = Inr v \<and>
     unc_dir v = Some (''a'' @ [backslash] @ ''b'') \<and> unc_from_str (unc_display v) = Inr v" by fastforce
  let ?n = "\<lparr>unc_server = ''srv'', unc_share = None, unc_dir = None\<rparr>"
  let ?s = "?n\<lparr>unc_share := Some ''a''\<rparr>" and ?d = "?n\<lparr>unc_dir := Some ''a''\<rparr>"
  have n: "unc_new ''srv'' = Inr ?n" "apply_unc_ops ?n [WithShare ''a''] = Inr ?s" "apply_unc_ops ?n [WithPath ''a''] = Inr ?d"
    by (simp_all add: unc_new_def with_share_def with_path_def check_no_separators_def is_sep_def backslash_def
        normalize_char_def)
  from unc_path_round_trip [OF disjI2 [OF n(1)] n(2) disjI2 [OF n(1)] n(3)] have "\<not> unc_eq ?s ?d" by simp
  with n have "\<exists>u v v'. unc_new ''srv'' = Inr u \<and> apply_unc_ops u [WithShare ''a''] = Inr v \<and>
     apply_unc_ops u [WithPath ''a''] = Inr v' \<and> unc_display v = unc_display v' \<and> \<not> unc_eq v v'"
    by (intro exI [of _ ?n] exI [of _ ?s] exI [of _ ?d]) (simp add: unc_display_def)
  with first show ?thesis by blast
qed

end
