(* ===== verification/Chained_List.thy ===== *)
theory Chained_List
  imports Binary_Codec
begin

text \<open>
  Chained lists (smb-fscc/chained_list.rs), the form in which a server returns directory listings
  and change notifications: each entry is preceded by the distance to the next one, entries are
  aligned, and the last distance is zero. The entries here are those of
  smb-fscc/directory_info.rs and smb-fscc/notify.rs; names are lists of UTF-16 units
  (smb-dtyp/binrw_util/sized_string.rs).
\<close>

section \<open>The list\<close>

fun chained_write :: "nat \<Rightarrow> 'a writer \<Rightarrow> nat \<Rightarrow> 'a list writer" where
  "chained_write pad put pos [] = Inr []"
| "chained_write pad put pos [x] = join (write_le (0 :: u32)) (put x)"
| "chained_write pad put pos (x # y # ys) =
     (case put x of Inl e \<Rightarrow> Inl e
      | Inr b \<Rightarrow>
        let after = pos + 4 + length b; padding = (pad - after mod pad) mod pad; dist = 4 + length b + padding in
        join (Inr (le_bytes (of_nat dist :: u32) @ b @ replicate padding 0)) (chained_write pad put (pos + dist) (y # ys)))"

lemma unat_pos: "(w :: 'a::len word) \<noteq> 0 \<Longrightarrow> 0 < unat w"
  by (metis bot_nat_0.not_eq_extremum unsigned_eq_0_iff)

function chained_loop :: "nat \<Rightarrow> 'a reader \<Rightarrow> bytes \<Rightarrow> nat \<Rightarrow> bin_error + 'a list" where
  "chained_loop pad get bs pos =
     (if pos mod pad \<noteq> 0 then Inl BadValue
      else if length bs < pos + 4 then Inl EndOfData
      else (case get (drop (pos + 4) bs) of Inl e \<Rightarrow> Inl e
        | Inr (x, _) \<Rightarrow>
            let dist = le_word (field pos 4 bs) :: u32 in
            if dist = 0 then Inr [x]
            else (case chained_loop pad get bs (pos + unat dist) of Inl e \<Rightarrow> Inl e | Inr xs \<Rightarrow> Inr (x # xs))))"
  by pat_completeness auto

termination
proof (relation "measure (\<lambda>(_, _, bs, pos). length bs - pos)")
  fix pad :: nat and get :: "'a reader" and bs :: bytes and pos z x y and dist :: u32
  assume "\<not> length bs < pos + 4" and "dist \<noteq> 0"
  then show "((pad, get, bs, pos + unat dist), (pad, get, bs, pos)) \<in> measure (\<lambda>(_, _, bs, pos). length bs - pos)"
    using unat_pos [of dist] by simp
qed simp

declare chained_loop.simps [simp del]

definition chained_read :: "nat \<Rightarrow> 'a reader \<Rightarrow> bytes \<Rightarrow> nat \<Rightarrow> bin_error + 'a list" where
  "chained_read pad get bs pos = (if pos = length bs then Inr [] else chained_loop pad get bs pos)"

section \<open>Names and entries\<close>

type_synonym wide_string = "u16 list"

definition wide_size :: "wide_string \<Rightarrow> nat" where
  "wide_size s = 2 * length s"

definition wide_write :: "wide_string \<Rightarrow> bytes" where
  "wide_write s = concat (map le_bytes s)"

text \<open>A name is read by its size in bytes, which has to be even and cannot be zero.\<close>

definition wide_read :: "nat \<Rightarrow> wide_string reader" where
  "wide_read sz = (if sz mod 2 \<noteq> 0 \<or> sz = 0 then fail BadValue else read_count (sz div 2) read_le)"

definition name_length :: "wide_string \<Rightarrow> bin_error + bytes" where
  "name_length s = (if wide_size s < 2 ^ 32 then Inr (le_bytes (of_nat (wide_size s) :: u32)) else Inl BadValue)"

datatype notify_action = Added | Removed | Modified | RenamedOldName | RenamedNewName | AddedStream | RemovedStream
  | ModifiedStream | RemovedByDelete | IdNotTunnelled | TunnelledIdCollision

fun notify_action_code :: "notify_action \<Rightarrow> u32" where
  "notify_action_code Added = 1"
| "notify_action_code Removed = 2"
| "notify_action_code Modified = 3"
| "notify_action_code RenamedOldName = 4"
| "notify_action_code RenamedNewName = 5"
| "notify_action_code AddedStream = 6"
| "notify_action_code RemovedStream = 7"
| "notify_action_code ModifiedStream = 8"
| "notify_action_code RemovedByDelete = 9"
| "notify_action_code IdNotTunnelled = 10"
| "notify_action_code TunnelledIdCollision = 11"

definition notify_action_of_code :: "u32 \<Rightarrow> notify_action option" where
  "notify_action_of_code c = List.find (\<lambda>a. notify_action_code a = c)
     [Added, Removed, Modified, RenamedOldName, RenamedNewName, AddedStream, RemovedStream,
      ModifiedStream, RemovedByDelete, IdNotTunnelled, TunnelledIdCollision]"

record file_notify =
  fn_action :: notify_action
  fn_name :: wide_string

definition file_notify_write :: "file_notify writer" where
  "file_notify_write n =
     join (write_le (notify_action_code (fn_action n))) (join (name_length (fn_name n)) (Inr (wide_write (fn_name n))))"

definition file_notify_read :: "file_notify reader" where
  "file_notify_read = and_then read_le (\<lambda>c. case notify_action_of_code c of None \<Rightarrow> fail BadValue
     | Some a \<Rightarrow> and_then read_le (\<lambda>n :: u32. and_then (wide_read (unat n)) (\<lambda>s. yield \<lparr>fn_action = a, fn_name = s\<rparr>)))"

record directory_entry =
  de_file_index :: u32
  de_creation_time :: u64
  de_last_access_time :: u64
  de_last_write_time :: u64
  de_change_time :: u64
  de_end_of_file :: u64
  de_allocation_size :: u64
  de_attributes :: u32
  de_name :: wide_string

definition directory_entry_write :: "directory_entry writer" where
  "directory_entry_write e =
     join (Inr (le_bytes (de_file_index e) @ le_bytes (de_creation_time e) @ le_bytes (de_last_access_time e) @
        le_bytes (de_last_write_time e) @ le_bytes (de_change_time e) @ le_bytes (de_end_of_file e) @
        le_bytes (de_allocation_size e) @ le_bytes (de_attributes e)))
       (join (name_length (de_name e)) (Inr (wide_write (de_name e))))"

definition directory_entry_read :: "directory_entry reader" where
  "directory_entry_read = and_then read_le (\<lambda>i. and_then read_le (\<lambda>c. and_then read_le (\<lambda>a. and_then read_le (\<lambda>w.
     and_then read_le (\<lambda>ch. and_then read_le (\<lambda>eof. and_then read_le (\<lambda>al. and_then read_le (\<lambda>at.
     and_then read_le (\<lambda>n :: u32. and_then (wide_read (unat n)) (\<lambda>s.
     yield \<lparr>de_file_index = i, de_creation_time = c, de_last_access_time = a, de_last_write_time = w,
       de_change_time = ch, de_end_of_file = eof, de_allocation_size = al, de_attributes = at, de_name = s\<rparr>))))))))))"

definition directory_alignment :: nat where
  "directory_alignment = 8"

definition default_offset_pad :: nat where
  "default_offset_pad = 4"

definition query_directory_output :: "bytes \<Rightarrow> bin_error + directory_entry list" where
  "query_directory_output bs = chained_read directory_alignment directory_entry_read bs 0"

section \<open>What is written reads back\<close>

interpretation u16s: codec "write_le :: u16 writer" read_le "\<lambda>_. True"
  by unfold_locales (simp add: read_le_bytes)

lemma notify_action_of_code_code [simp]: "notify_action_of_code (notify_action_code a) = Some a"
  by (cases a) (simp_all add: notify_action_of_code_def)

lemma then_wide:
  assumes "name_length s = Inr n" "s \<noteq> []"
  shows "and_then read_le (\<lambda>k :: u32. and_then (wide_read (unat k)) f) (n @ wide_write s @ rest) = f s rest"
proof -
  from assms(1) have fits: "wide_size s < 2 ^ 32" and n: "n = le_bytes (of_nat (wide_size s) :: u32)"
    by (auto simp: name_length_def split: if_splits)
  have "unat (of_nat (wide_size s) :: u32) = wide_size s" unfolding unat_of_nat using fits by simp
  moreover have "wide_read (wide_size s) = read_count (length s) read_le"
    using assms(2) by (simp add: wide_read_def wide_size_def)
  ultimately show ?thesis
    using u16s.then_all [OF _ write_all_le refl, of s f rest]
    by (simp add: n codec_simps wide_write_def)
qed

interpretation file_notifies: codec file_notify_write file_notify_read "\<lambda>n. fn_name n \<noteq> []"
  by unfold_locales (auto simp: file_notify_write_def file_notify_read_def codec_simps then_wide)

interpretation directory_entries: codec directory_entry_write directory_entry_read "\<lambda>e. de_name e \<noteq> []"
  by unfold_locales (auto simp: directory_entry_write_def directory_entry_read_def codec_simps then_wide)

context codec
begin

lemma loop_write:
  "\<forall>x \<in> set xs. good x \<Longrightarrow> xs \<noteq> [] \<Longrightarrow> 0 < pad \<Longrightarrow> length pre mod pad = 0 \<Longrightarrow>
     chained_write pad put (length pre) xs = Inr bs \<Longrightarrow> length bs < 2 ^ 32 \<Longrightarrow>
     chained_loop pad get (pre @ bs @ rest) (length pre) = Inr xs"
proof (induction xs arbitrary: pre bs rule: induct_list012)
  case (2 x)
  then obtain b where b: "put x = Inr b" "bs = le_bytes (0 :: u32) @ b" by auto
  from 2 b show ?case
    by (subst chained_loop.simps) (simp add: field_def get_put [of x b])
next
  case (3 x y ys)
  then obtain b where b: "put x = Inr b" by (auto split: sum.splits)
  define padding where "padding = (pad - (length pre + 4 + length b) mod pad) mod pad"
  define dist where "dist = 4 + length b + padding"
  define item where "item = le_bytes (of_nat dist :: u32) @ b @ replicate padding 0"
  have len: "length item = dist" by (simp add: item_def dist_def)
  from 3 b obtain more where more: "chained_write pad put (length pre + dist) (y # ys) = Inr more"
    and bs: "bs = item @ more" by (auto simp: Let_def item_def dist_def padding_def)
  have dist: "unat (of_nat dist :: u32) = dist"
    unfolding unat_of_nat using "3.prems"(6) bs len by simp
  have aligned: "(length pre + dist) mod pad = 0"
  proof -
    let ?after = "length pre + 4 + length b"
    have "(?after + (pad - ?after mod pad)) mod pad = 0"
      using \<open>0 < pad\<close> by (metis add.commute le_add_diff_inverse2 mod_add_left_eq mod_le_divisor mod_self)
    moreover have "length pre + dist = ?after + (pad - ?after mod pad) mod pad" by (simp add: dist_def padding_def)
    ultimately show ?thesis by (simp only: mod_add_right_eq)
  qed
  have "chained_loop pad get ((pre @ item) @ more @ rest) (length (pre @ item)) = Inr (y # ys)"
    using "3.prems" bs more aligned len by (intro "3.IH"(2)) simp_all
  then have later: "chained_loop pad get (pre @ bs @ rest) (length pre + dist) = Inr (y # ys)"
    using bs len by simp
  have "(of_nat dist :: u32) \<noteq> 0" using dist by (metis add_is_0 dist_def unsigned_0 zero_neq_numeral)
  moreover have "le_word (field (length pre) 4 (pre @ bs @ rest)) = (of_nat dist :: u32)"
    by (simp add: field_def bs item_def)
  moreover have "get (drop (length pre + 4) (pre @ bs @ rest)) = Inr (x, replicate padding 0 @ more @ rest)"
    using "3.prems" get_put [OF _ b] by (simp add: bs item_def)
  moreover have "\<not> length (pre @ bs @ rest) < length pre + 4" using len by (simp add: bs dist_def)
  ultimately show ?case
    using "3.prems"(4) later dist by (subst chained_loop.simps) (simp add: Let_def)
qed simp

end

section \<open>Listings\<close>

text \<open>Every further entry lies at least one alignment unit behind the one before it.\<close>

lemma chained_loop_bound:
  "chained_loop pad get bs pos = Inr xs \<Longrightarrow> 0 < pad \<Longrightarrow> pos + pad * (length xs - 1) + 4 \<le> length bs \<and> xs \<noteq> []"
proof (induction pad get bs pos arbitrary: xs rule: chained_loop.induct)
  case (1 pad get bs pos)
  from "1.prems"(1) have pos: "pos mod pad = 0" "pos + 4 \<le> length bs"
    by (subst (asm) chained_loop.simps, simp split: if_splits)+
  from "1.prems"(1) obtain x r where x: "get (drop (pos + 4) bs) = Inr (x, r)"
    by (subst (asm) chained_loop.simps) (auto split: if_splits sum.splits)
  define dist where "dist = (le_word (field pos 4 bs) :: u32)"
  show ?case
  proof (cases "dist = 0")
    case True
    with "1.prems" x pos have "xs = [x]"
      by (subst (asm) chained_loop.simps) (simp add: dist_def Let_def)
    with pos show ?thesis by simp
  next
    case False
    with "1.prems" x pos obtain ys where ys: "chained_loop pad get bs (pos + unat dist) = Inr ys" "xs = x # ys"
      by (subst (asm) chained_loop.simps) (auto simp: dist_def Let_def split: sum.splits)
    have IH: "pos + unat dist + pad * (length ys - 1) + 4 \<le> length bs \<and> ys \<noteq> []"
      using "1.IH" [OF _ _ x refl refl] ys(1) pos False "1.prems"(2) by (simp add: dist_def)
    from ys(1) have "(pos + unat dist) mod pad = 0"
      by (subst (asm) chained_loop.simps) (simp split: if_splits)
    with pos(1) have "pad dvd unat dist" by (metis dvd_add_right_iff mod_0_imp_dvd)
    then have "pad \<le> unat dist" using unat_pos [OF False] by (auto dest: dvd_imp_le)
    with IH ys(2) show ?thesis by (cases ys) auto
  qed
qed

text \<open>
  C29. A directory listing (of the class \<open>FileDirectoryInformation\<close>) and a list of change
  notifications, if no name in them is empty and they are shorter than four gigabytes, read back as
  they were written, whatever their number and however the entries are padded. Reading any bytes
  a server may send as a listing or as notifications returns, and never gives more entries than
  the bytes have room for.
\<close>

theorem listing_round_trip:
  assumes "\<forall>e \<in> set es. de_name e \<noteq> []" "chained_write directory_alignment directory_entry_write 0 es = Inr bs"
      "length bs < 2 ^ 32"
    and "\<forall>n \<in> set ns. fn_name n \<noteq> []" "chained_write default_offset_pad file_notify_write 0 ns = Inr cs"
      "length cs < 2 ^ 32"
  shows "query_directory_output bs = Inr es \<and> chained_read default_offset_pad file_notify_read cs 0 = Inr ns \<and>
    (\<forall>any xs. query_directory_output any = Inr xs \<longrightarrow> 8 * length xs \<le> length any + 7) \<and>
    (\<forall>any xs. chained_read default_offset_pad file_notify_read any 0 = Inr xs \<longrightarrow> 4 * length xs \<le> length any + 3)"
proof (intro conjI allI impI)
  show "query_directory_output bs = Inr es"
  proof (cases es)
    case Nil
    with assms(2) show ?thesis by (simp add: query_directory_output_def chained_read_def)
  next
    case (Cons e es')
    have "chained_loop directory_alignment directory_entry_read ([] @ bs @ []) (length ([] :: bytes)) = Inr es"
      using assms(1-3) Cons by (intro directory_entries.loop_write) (simp_all add: directory_alignment_def)
    moreover from this have "bs \<noteq> []"
      using chained_loop_bound [of directory_alignment directory_entry_read bs 0 es] by (auto simp: directory_alignment_def)
    ultimately show ?thesis by (simp add: query_directory_output_def chained_read_def)
  qed
  show "chained_read default_offset_pad file_notify_read cs 0 = Inr ns"
  proof (cases ns)
    case Nil
    with assms(5) show ?thesis by (simp add: chained_read_def)
  next
    case (Cons n ns')
    have "chained_loop default_offset_pad file_notify_read ([] @ cs @ []) (length ([] :: bytes)) = Inr ns"
      using assms(4-6) Cons by (intro file_notifies.loop_write) (simp_all add: default_offset_pad_def)
    moreover from this have "cs \<noteq> []"
      using chained_loop_bound [of default_offset_pad file_notify_read cs 0 ns] by (auto simp: default_offset_pad_def)
    ultimately show ?thesis by (simp add: chained_read_def)
  qed
  fix any xs
  assume "query_directory_output any = Inr xs"
  then show "8 * length xs \<le> length any + 7"
    using chained_loop_bound [of directory_alignment directory_entry_read any 0 xs]
    by (auto simp: query_directory_output_def chained_read_def directory_alignment_def split: if_splits)
next
  fix any xs
  assume "chained_read default_offset_pad file_notify_read any 0 = Inr xs"
  then show "4 * length xs \<le> length any + 3"
    using chained_loop_bound [of default_offset_pad file_notify_read any 0 xs]
    by (auto simp: chained_read_def default_offset_pad_def split: if_splits)
qed

definition sample_entry :: "wide_string \<Rightarrow> directory_entry" where
  "sample_entry s = \<lparr>de_file_index = 0, de_creation_time = 1, de_last_access_time = 2, de_last_write_time = 3,
     de_change_time = 4, de_end_of_file = 5, de_allocation_size = 6, de_attributes = 16, de_name = s\<rparr>"

theorem listing_round_trip_witness:
  "\<exists>bs cs. query_directory_output bs = Inr [sample_entry [46], sample_entry [46, 46]] \<and>
     chained_read default_offset_pad file_notify_read cs 0 = Inr [\<lparr>fn_action = Added, fn_name = [97]\<rparr>] \<and> length bs = 140"
proof -
  let ?es = "[sample_entry [46], sample_entry [46, 46]]" and ?ns = "[\<lparr>fn_action = Added, fn_name = [97]\<rparr>]"
  have "\<exists>bs. chained_write directory_alignment directory_entry_write 0 ?es = Inr bs \<and> length bs = 140"
    by (simp add: directory_alignment_def directory_entry_write_def sample_entry_def name_length_def wide_size_def
      wide_write_def Let_def write_le_def)
  then obtain bs where bs: "chained_write directory_alignment directory_entry_write 0 ?es = Inr bs" "length bs = 140"
    by blast
  have "\<exists>cs. chained_write default_offset_pad file_notify_write 0 ?ns = Inr cs \<and> length cs = 14"
    by (simp add: file_notify_write_def name_length_def wide_size_def wide_write_def write_le_def)
  then obtain cs where cs: "chained_write default_offset_pad file_notify_write 0 ?ns = Inr cs" "length cs = 14"
    by blast
  have "query_directory_output bs = Inr ?es \<and> chained_read default_offset_pad file_notify_read cs 0 = Inr ?ns"
    using listing_round_trip [OF _ bs(1) _ _ cs(1)] bs(2) cs(2) by (simp add: sample_entry_def)
  with bs(2) show ?thesis by blast
qed

text \<open>A name of length zero, which a notification for the watched directory itself may carry, is refused.\<close>

lemma empty_name_refused: "file_notify_read (le_bytes (1 :: u32) @ le_bytes (0 :: u32) @ rest) = Inl BadValue"
  by (simp add: file_notify_read_def codec_simps notify_action_of_code_def wide_read_def fail_def and_then_def)

end
