(* ===== verification/Directory_Stream.thy ===== *)
theory Directory_Stream
  imports Prelude
begin

text \<open>
  The two streams of a directory (resource/directory.rs). A listing is fetched page by page by a
  task of its own, which parks until the consumer has emptied the channel and asks for more; a
  watch publishes batches of change notifications into a bounded channel. An event is one step of
  the task, one reply of the server, or one call of the consumer; the channel and the one stored
  permit of the notifier are those of the runtime library. A result is \<open>Inl\<close> of an error or \<open>Inr\<close>
  of an entry.
\<close>

section \<open>Listing\<close>

definition channel_capacity :: nat where
  "channel_capacity = 1024"

text \<open>
  The fetching task is about to call \<open>send_query\<close>, has called it and waits for the reply, has
  items of a page left to send, waits for demand, or has ended.
\<close>

datatype ('a, 'e) fetch_phase = Querying | Fetching | Sending "('e + 'a) list" | Parked | Ended

record ('a, 'e) listing =
  li_phase :: "('a, 'e) fetch_phase"
  li_channel :: "('e + 'a) list"
  li_permit :: bool
  li_dropped :: bool
  li_delivered :: "('e + 'a) list"
  li_closed :: bool
  li_queries :: "bool list"
  li_replies :: "('e + 'a list) list"

text \<open>Creating the stream spawns the task; nothing is queried before the task runs.\<close>

definition listing_new :: "('a, 'e) listing" where
  "listing_new = \<lparr>li_phase = Querying, li_channel = [], li_permit = False, li_dropped = False, li_delivered = [],
     li_closed = False, li_queries = [], li_replies = []\<rparr>"

text \<open>
  A call of \<open>send_query\<close>, with its \<open>restart\<close> argument: the loop passes \<open>is_first\<close>, which it clears
  after the first call. The loop does not look at the cancellation here.
\<close>

definition send_query :: "('a, 'e) listing \<Rightarrow> ('a, 'e) listing" where
  "send_query s =
     (if li_phase s = Querying then s\<lparr>li_phase := Fetching, li_queries := li_queries s @ [li_queries s = []]\<rparr> else s)"

definition page_items :: "'e + 'a list \<Rightarrow> ('e + 'a) list" where
  "page_items r = (case r of Inl e \<Rightarrow> [Inl e] | Inr xs \<Rightarrow> map Inr xs)"

definition on_page :: "('a, 'e) listing \<Rightarrow> 'e + 'a list \<Rightarrow> ('a, 'e) listing" where
  "on_page s r =
     (if li_phase s = Fetching
      then s\<lparr>li_replies := li_replies s @ [r], li_phase := (if page_items r = [] then Ended else Sending (page_items r))\<rparr>
      else s)"

definition push_item :: "('a, 'e) listing \<Rightarrow> ('a, 'e) listing" where
  "push_item s =
     (case li_phase s of
        Sending (x # xs) \<Rightarrow>
          if li_dropped s then s\<lparr>li_phase := Ended\<rparr>
          else if length (li_channel s) < channel_capacity
          then s\<lparr>li_channel := li_channel s @ [x], li_phase := (if xs = [] then Parked else Sending xs)\<rparr>
          else s
      | _ \<Rightarrow> s)"

definition wait_for_demand :: "('a, 'e) listing \<Rightarrow> ('a, 'e) listing" where
  "wait_for_demand s =
     (if li_phase s \<noteq> Parked then s
      else if li_dropped s then s\<lparr>li_phase := Ended\<rparr>
      else if li_permit s then s\<lparr>li_permit := False, li_phase := Querying\<rparr>
      else s)"

definition poll_next :: "('a, 'e) listing \<Rightarrow> ('a, 'e) listing" where
  "poll_next s =
     (if li_dropped s then s
      else (case li_channel s of
        x # xs \<Rightarrow> s\<lparr>li_channel := xs, li_delivered := li_delivered s @ [x], li_permit := (li_permit s \<or> xs = [])\<rparr>
      | [] \<Rightarrow> if li_phase s = Ended then s\<lparr>li_closed := True\<rparr> else s))"

definition drop_listing :: "('a, 'e) listing \<Rightarrow> ('a, 'e) listing" where
  "drop_listing s = s\<lparr>li_dropped := True, li_permit := True, li_channel := []\<rparr>"

datatype ('a, 'e) listing_event = Query | Page "'e + 'a list" | Push | Wake | Poll | Drop

fun listing_step :: "('a, 'e) listing \<Rightarrow> ('a, 'e) listing_event \<Rightarrow> ('a, 'e) listing" where
  "listing_step s Query = send_query s"
| "listing_step s (Page r) = on_page s r"
| "listing_step s Push = push_item s"
| "listing_step s Wake = wait_for_demand s"
| "listing_step s Poll = poll_next s"
| "listing_step s Drop = drop_listing s"

definition listing_run :: "('a, 'e) listing_event list \<Rightarrow> ('a, 'e) listing" where
  "listing_run es = foldl listing_step listing_new es"

section \<open>Watching\<close>

datatype ('n, 'e) watch_result = Notifications "'n list" | NotifyEnumDir | Cleanup | WatchCancelled | WatchError 'e

datatype 'e watch_failure = EventQueueOverflow | CancelledUnexpectedly | BufferTooSmall | RequestFailed 'e

datatype ('n, 'e) watch_phase = Watching | Publishing "'n list" | Failing "'e watch_failure" | WatchEnded

record ('n, 'e) watch =
  wa_phase :: "('n, 'e) watch_phase"
  wa_channel :: "('e watch_failure + 'n) list"
  wa_cancelled :: bool
  wa_dropped :: bool
  wa_delivered :: "('e watch_failure + 'n) list"
  wa_seen :: "'n list"

definition watch_new :: "('n, 'e) watch" where
  "watch_new = \<lparr>wa_phase = Watching, wa_channel = [], wa_cancelled = False, wa_dropped = False,
     wa_delivered = [], wa_seen = []\<rparr>"

definition on_watch_result :: "('n, 'e) watch \<Rightarrow> ('n, 'e) watch_result \<Rightarrow> ('n, 'e) watch" where
  "on_watch_result s r =
     (if wa_phase s \<noteq> Watching then s
      else (case r of
        Notifications xs \<Rightarrow> s\<lparr>wa_seen := wa_seen s @ xs, wa_phase := (if xs = [] then Watching else Publishing xs)\<rparr>
      | WatchCancelled \<Rightarrow>
          s\<lparr>wa_phase := (if \<not> wa_cancelled s \<and> \<not> wa_dropped s then Failing CancelledUnexpectedly else WatchEnded)\<rparr>
      | Cleanup \<Rightarrow> s\<lparr>wa_phase := WatchEnded\<rparr>
      | NotifyEnumDir \<Rightarrow> s\<lparr>wa_phase := Failing BufferTooSmall\<rparr>
      | WatchError e \<Rightarrow> s\<lparr>wa_phase := Failing (RequestFailed e)\<rparr>))"

text \<open>One \<open>try_send\<close> of the batch, or the blocking send of a failure.\<close>

definition publish_step :: "('n, 'e) watch \<Rightarrow> ('n, 'e) watch" where
  "publish_step s =
     (case wa_phase s of
        Publishing (x # xs) \<Rightarrow>
          if wa_dropped s then s\<lparr>wa_cancelled := True, wa_phase := WatchEnded\<rparr>
          else if length (wa_channel s) < channel_capacity
          then s\<lparr>wa_channel := wa_channel s @ [Inr x], wa_phase := (if xs = [] then Watching else Publishing xs)\<rparr>
          else s\<lparr>wa_cancelled := True, wa_phase := Failing EventQueueOverflow\<rparr>
      | Failing e \<Rightarrow>
          if wa_dropped s then s\<lparr>wa_phase := WatchEnded\<rparr>
          else if length (wa_channel s) < channel_capacity
          then s\<lparr>wa_channel := wa_channel s @ [Inl e], wa_phase := WatchEnded\<rparr>
          else s
      | _ \<Rightarrow> s)"

definition poll_watch :: "('n, 'e) watch \<Rightarrow> ('n, 'e) watch" where
  "poll_watch s =
     (if wa_dropped s then s
      else (case wa_channel s of [] \<Rightarrow> s | x # xs \<Rightarrow> s\<lparr>wa_channel := xs, wa_delivered := wa_delivered s @ [x]\<rparr>))"

definition drop_watch :: "('n, 'e) watch \<Rightarrow> ('n, 'e) watch" where
  "drop_watch s = s\<lparr>wa_cancelled := True, wa_dropped := True, wa_channel := []\<rparr>"

definition cancel_watch :: "('n, 'e) watch \<Rightarrow> ('n, 'e) watch" where
  "cancel_watch s = s\<lparr>wa_cancelled := True\<rparr>"

datatype ('n, 'e) watch_event = WatchReply "('n, 'e) watch_result" | Publish | PollWatch | CancelWatch | DropWatch

fun watch_step :: "('n, 'e) watch \<Rightarrow> ('n, 'e) watch_event \<Rightarrow> ('n, 'e) watch" where
  "watch_step s (WatchReply r) = on_watch_result s r"
| "watch_step s Publish = publish_step s"
| "watch_step s PollWatch = poll_watch s"
| "watch_step s CancelWatch = cancel_watch s"
| "watch_step s DropWatch = drop_watch s"

definition watch_run :: "('n, 'e) watch_event list \<Rightarrow> ('n, 'e) watch" where
  "watch_run es = foldl watch_step watch_new es"

section \<open>The listing delivers what the server sent\<close>

definition pending :: "('a, 'e) listing \<Rightarrow> ('e + 'a) list" where
  "pending s = (case li_phase s of Sending xs \<Rightarrow> xs | _ \<Rightarrow> [])"

definition restarts_once :: "bool list \<Rightarrow> bool" where
  "restarts_once qs \<longleftrightarrow> qs = [] \<or> qs = True # replicate (length qs - 1) False"

lemma restarts_once_snoc:
  assumes "restarts_once qs"
  shows "restarts_once (qs @ [qs = []])"
proof (cases "qs = []")
  case False
  then have "Suc (length qs - 1) = length qs" by (cases qs) auto
  moreover from False assms have "qs = True # replicate (length qs - 1) False" by (simp add: restarts_once_def)
  then have "qs @ [False] = True # replicate (Suc (length qs - 1)) False"
    by (metis append_Cons replicate_Suc replicate_append_same)
  ultimately have "qs @ [False] = True # replicate (length (qs @ [False]) - 1) False" by simp
  with False show ?thesis by (simp add: restarts_once_def)
qed (simp add: restarts_once_def)

text \<open>Only an empty page ends the task while the consumer is there.\<close>

definition listing_inv :: "('a, 'e) listing \<Rightarrow> bool" where
  "listing_inv s \<longleftrightarrow>
     li_phase s \<noteq> Sending [] \<and>
     length (li_channel s) \<le> channel_capacity \<and>
     restarts_once (li_queries s) \<and>
     length (li_queries s) = length (li_replies s) + (if li_phase s = Fetching then 1 else 0) \<and>
     (\<not> li_dropped s \<longrightarrow>
        li_delivered s @ li_channel s @ pending s = concat (map page_items (li_replies s)) \<and>
        (li_phase s = Parked \<and> li_channel s = [] \<longrightarrow> li_permit s) \<and>
        (li_phase s = Ended \<longleftrightarrow> li_replies s \<noteq> [] \<and> last (li_replies s) = Inr []) \<and>
        (li_closed s \<longrightarrow> li_phase s = Ended \<and> li_channel s = []))"

lemma listing_new_inv: "listing_inv listing_new"
  by (simp add: listing_inv_def listing_new_def pending_def channel_capacity_def restarts_once_def)

lemma page_items_nil: "page_items r = [] \<longleftrightarrow> r = Inr []"
  by (cases r) (simp_all add: page_items_def)

lemma page_items_empty [simp]: "page_items (Inr []) = []"
  by (simp add: page_items_def)

lemma send_query_inv: "listing_inv s \<Longrightarrow> listing_inv (send_query s)"
  using restarts_once_snoc by (auto simp: listing_inv_def send_query_def pending_def)

lemma on_page_inv: "listing_inv s \<Longrightarrow> listing_inv (on_page s r)"
  by (auto simp: listing_inv_def on_page_def pending_def page_items_nil)

lemma push_item_inv: "listing_inv s \<Longrightarrow> listing_inv (push_item s)"
  by (auto simp: listing_inv_def push_item_def pending_def split: fetch_phase.splits list.splits if_splits)

lemma wait_for_demand_inv: "listing_inv s \<Longrightarrow> listing_inv (wait_for_demand s)"
  by (auto simp: listing_inv_def wait_for_demand_def pending_def split: if_splits)

lemma poll_next_inv: "listing_inv s \<Longrightarrow> listing_inv (poll_next s)"
  by (auto simp: listing_inv_def poll_next_def pending_def split: fetch_phase.splits list.splits if_splits)

lemma drop_listing_inv: "listing_inv s \<Longrightarrow> listing_inv (drop_listing s)"
  by (simp add: listing_inv_def drop_listing_def)

lemma listing_step_inv: "listing_inv s \<Longrightarrow> listing_inv (listing_step s e)"
  by (cases e) (simp_all add: send_query_inv on_page_inv push_item_inv wait_for_demand_inv poll_next_inv drop_listing_inv)

interpretation listings: reducer "\<lambda>s e. (listing_step s e, [] :: unit list)" listing_inv
  by unfold_locales (simp add: listing_step_inv)

lemma foldl_run: "foldl listing_step s es = fst (run_reducer (\<lambda>s e. (listing_step s e, [] :: unit list)) s es)"
  by (induction es arbitrary: s) (simp_all add: run_reducer_Cons)

lemma listing_run_inv: "listing_inv (listing_run es)"
  unfolding listing_run_def foldl_run by (rule listings.run_inv [OF listing_new_inv])

lemma not_stuck:
  assumes inv: "listing_inv s" and here: "\<not> li_dropped s"
  shows "li_phase s = Ended \<or> li_phase s = Fetching \<or> li_channel s \<noteq> [] \<or>
    send_query s \<noteq> s \<or> push_item s \<noteq> s \<or> wait_for_demand s \<noteq> s"
proof (cases "li_phase s")
  case Querying
  then have "li_phase (send_query s) = Fetching" by (simp add: send_query_def)
  with Querying have "send_query s \<noteq> s" by auto
  then show ?thesis by blast
next
  case (Sending xs)
  with inv obtain y ys where "xs = y # ys" by (cases xs) (auto simp: listing_inv_def)
  moreover have "push_item s \<noteq> s" if "li_channel s = []"
  proof -
    have "li_channel (push_item s) = [y]"
      using that Sending here \<open>xs = y # ys\<close> by (simp add: push_item_def channel_capacity_def)
    with that show ?thesis by auto
  qed
  ultimately show ?thesis by blast
next
  case Parked
  have "wait_for_demand s \<noteq> s" if "li_channel s = []"
  proof -
    have "li_phase (wait_for_demand s) = Querying"
      using that Parked here inv by (simp add: wait_for_demand_def listing_inv_def)
    with Parked show ?thesis by auto
  qed
  then show ?thesis by blast
qed simp_all

text \<open>Once the consumer is gone the task makes the one call it was about to make, if any.\<close>

definition calls_left :: "('a, 'e) listing \<Rightarrow> bool list" where
  "calls_left s = (if li_phase s = Querying then [li_queries s = []] else [])"

lemma dropped_step:
  "li_dropped s \<Longrightarrow> li_dropped (listing_step s e) \<and> li_delivered (listing_step s e) = li_delivered s \<and>
     (li_queries (listing_step s e) = li_queries s \<and> calls_left (listing_step s e) = calls_left s \<or>
      li_queries (listing_step s e) = li_queries s @ calls_left s \<and> calls_left (listing_step s e) = [])"
  by (cases e) (auto simp: send_query_def on_page_def push_item_def wait_for_demand_def poll_next_def drop_listing_def
      calls_left_def split: fetch_phase.splits list.splits)

lemma dropped_queries:
  "li_dropped s \<Longrightarrow> li_delivered (foldl listing_step s es) = li_delivered s \<and>
     li_queries (foldl listing_step s es) \<in> {li_queries s, li_queries s @ calls_left s}"
proof (induction es arbitrary: s)
  case (Cons e es)
  from Cons.IH [of "listing_step s e"] dropped_step [OF Cons.prems, of e] show ?case by auto
qed simp

text \<open>
  C13. Over every schedule of the fetching task, the server and the consumer of one stream: what
  the consumer has received, followed by what is on its way, is exactly what the server sent, in
  order, as long as the consumer is there, and only the first query restarts the scan. The stream
  is closed only after an empty page and with everything delivered. As long as the consumer is
  there and the task has not ended, the task can step, the consumer has an entry to take, or a
  query is at the server: no schedule gets stuck. Once the consumer is gone nothing more is
  delivered, and no further query is made than the single one that the task was about to make when
  the consumer left: a task that was fetching, sending or waiting for demand makes none.
\<close>

theorem listing_streams_all_pages:
  fixes es
  defines "s \<equiv> listing_run es"
  shows "(\<not> li_dropped s \<longrightarrow>
      li_delivered s @ li_channel s @ pending s = concat (map page_items (li_replies s)) \<and>
      (li_closed s \<longrightarrow> last (li_replies s) = Inr [] \<and> li_delivered s = concat (map page_items (li_replies s))) \<and>
      (li_phase s = Ended \<or> li_phase s = Fetching \<or> li_channel s \<noteq> [] \<or>
       send_query s \<noteq> s \<or> push_item s \<noteq> s \<or> wait_for_demand s \<noteq> s)) \<and>
    (li_queries s = [] \<or> li_queries s = True # replicate (length (li_queries s) - 1) False) \<and>
    (li_dropped s \<longrightarrow> li_delivered (foldl listing_step s later) = li_delivered s \<and>
       length (li_queries (foldl listing_step s later)) \<le> length (li_queries s) + (if li_phase s = Querying then 1 else 0))"
proof (intro conjI impI)
  have inv: "listing_inv s" unfolding s_def by (rule listing_run_inv)
  then show "li_queries s = [] \<or> li_queries s = True # replicate (length (li_queries s) - 1) False"
    unfolding listing_inv_def restarts_once_def by blast
  show "li_delivered (foldl listing_step s later) = li_delivered s"
    "length (li_queries (foldl listing_step s later)) \<le> length (li_queries s) + (if li_phase s = Querying then 1 else 0)"
    if "li_dropped s" using dropped_queries [OF that, of later] by (auto simp: calls_left_def split: if_splits)
  assume here: "\<not> li_dropped s"
  with inv show items: "li_delivered s @ li_channel s @ pending s = concat (map page_items (li_replies s))"
    by (simp add: listing_inv_def)
  show "last (li_replies s) = Inr []" "li_delivered s = concat (map page_items (li_replies s))" if "li_closed s"
    using that inv here items by (auto simp: listing_inv_def pending_def)
  show "li_phase s = Ended \<or> li_phase s = Fetching \<or> li_channel s \<noteq> [] \<or>
      send_query s \<noteq> s \<or> push_item s \<noteq> s \<or> wait_for_demand s \<noteq> s"
    by (rule not_stuck [OF inv here])
qed

text \<open>
  A page with two entries, an early wake-up, a second page and the end, with the consumer taking
  entries in between. A consumer that leaves between the wake-up and the call of the task sees
  that call made.
\<close>

theorem listing_streams_all_pages_witness:
  "let s = listing_run [Query, Page (Inr [1 :: nat, 2]), Push, Poll, Push, Wake, Query, Page (Inr [3]), Poll, Push, Poll,
       Wake, Query, Page (Inr []), Poll] :: (nat, unit) listing;
     d = listing_run [Query, Page (Inr [1]), Push, Poll, Wake, Drop] :: (nat, unit) listing in
     li_closed s \<and> li_delivered s = [Inr 1, Inr 2, Inr 3] \<and> li_queries s = [True, False, False] \<and>
     li_dropped d \<and> li_queries (foldl listing_step d [Query]) = [True, False] \<and>
     length (li_queries (foldl listing_step d [Query, Page (Inr [2]), Push, Wake, Query])) \<le> 2"
proof -
  let ?es = "[Query, Page (Inr [1 :: nat, 2]), Push, Poll, Push, Wake, Query, Page (Inr [3]), Poll, Push, Poll, Wake, Query,
    Page (Inr []), Poll] :: (nat, unit) listing_event list"
  let ?ds = "[Query, Page (Inr [1 :: nat]), Push, Poll, Wake, Drop] :: (nat, unit) listing_event list"
  let ?later = "[Query, Page (Inr [2 :: nat]), Push, Wake, Query] :: (nat, unit) listing_event list"
  note defs = listing_run_def listing_new_def send_query_def on_page_def push_item_def poll_next_def wait_for_demand_def
    drop_listing_def page_items_def channel_capacity_def
  have run: "\<not> li_dropped (listing_run ?es)" "li_closed (listing_run ?es)"
    "li_replies (listing_run ?es) = [Inr [1, 2], Inr [3], Inr []]" "length (li_queries (listing_run ?es)) = 3"
    by (simp_all add: defs)
  with listing_streams_all_pages [of ?es "[]"] have one: "li_closed (listing_run ?es)"
    "li_delivered (listing_run ?es) = [Inr 1, Inr 2, Inr 3]" "li_queries (listing_run ?es) = [True, False, False]"
    by (auto simp: page_items_def numeral_3_eq_3)
  have gone: "li_dropped (listing_run ?ds)" "li_queries (listing_run ?ds) = [True]"
    "li_queries (foldl listing_step (listing_run ?ds) [Query]) = [True, False]" by (simp_all add: defs)
  with listing_streams_all_pages [of ?ds ?later]
  have "length (li_queries (foldl listing_step (listing_run ?ds) ?later)) \<le> 2"
    by (auto simp del: foldl.simps split: if_splits)
  with one gone show ?thesis unfolding Let_def by blast
qed

text \<open>An error does not end a listing: a consumer that goes on polling gets it again and again.\<close>

lemma listing_error_repeats:
  "li_delivered (listing_run (concat (replicate n [Query, Page (Inl e), Push, Poll, Wake])) :: ('a, 'e) listing) = replicate n (Inl e)"
proof -
  have step: "foldl listing_step s [Query, Page (Inl e), Push, Poll, Wake] =
      s\<lparr>li_delivered := li_delivered s @ [Inl e], li_queries := li_queries s @ [li_queries s = []], li_replies := li_replies s @ [Inl e]\<rparr>"
    if "li_phase s = Querying" "li_channel s = []" "\<not> li_dropped s" "\<not> li_permit s" for s :: "('a, 'e) listing"
    using that by (simp add: send_query_def on_page_def push_item_def poll_next_def wait_for_demand_def page_items_def channel_capacity_def)
  have "li_phase s = Querying \<Longrightarrow> li_channel s = [] \<Longrightarrow> \<not> li_dropped s \<Longrightarrow> \<not> li_permit s \<Longrightarrow>
      li_delivered (foldl listing_step s (concat (replicate n [Query, Page (Inl e), Push, Poll, Wake]))) =
        li_delivered s @ replicate n (Inl e)" for s :: "('a, 'e) listing"
  proof (induction n arbitrary: s)
    case (Suc n)
    note now = step [OF Suc.prems]
    have "foldl listing_step s (concat (replicate (Suc n) [Query, Page (Inl e), Push, Poll, Wake])) =
        foldl listing_step (foldl listing_step s [Query, Page (Inl e), Push, Poll, Wake])
          (concat (replicate n [Query, Page (Inl e), Push, Poll, Wake]))"
      by (simp only: replicate_Suc concat.simps foldl_append)
    with Suc now show ?case by (simp del: foldl.simps)
  qed simp
  then show ?thesis by (simp add: listing_run_def listing_new_def)
qed

section \<open>A watch loses nothing silently\<close>

definition watch_inv :: "('n, 'e) watch \<Rightarrow> bool" where
  "watch_inv s \<longleftrightarrow> length (wa_channel s) \<le> channel_capacity \<and> wa_phase s \<noteq> Publishing [] \<and>
     (\<not> wa_dropped s \<longrightarrow>
       (case wa_phase s of
          Watching \<Rightarrow> wa_delivered s @ wa_channel s = map Inr (wa_seen s)
        | Publishing xs \<Rightarrow> wa_delivered s @ wa_channel s @ map Inr xs = map Inr (wa_seen s)
        | Failing e \<Rightarrow> \<exists>k. wa_delivered s @ wa_channel s = map Inr (take k (wa_seen s)) \<and>
            (k < length (wa_seen s) \<longrightarrow> e = EventQueueOverflow \<and> wa_cancelled s)
        | WatchEnded \<Rightarrow> \<exists>k errs. wa_delivered s @ wa_channel s = map Inr (take k (wa_seen s)) @ map Inl errs \<and> length errs \<le> 1 \<and>
            (k < length (wa_seen s) \<longrightarrow> errs = [EventQueueOverflow] \<and> wa_cancelled s)))"

lemma watch_new_inv: "watch_inv watch_new"
  by (simp add: watch_inv_def watch_new_def channel_capacity_def)

lemma on_watch_result_inv:
  assumes "watch_inv s"
  shows "watch_inv (on_watch_result s r)"
proof (cases "wa_phase s = Watching")
  case True
  with assms have eq: "\<not> wa_dropped s \<Longrightarrow> wa_delivered s @ wa_channel s = map Inr (wa_seen s)"
    by (simp add: watch_inv_def)
  show ?thesis
  proof (cases r)
    case (Notifications xs)
    with assms True eq show ?thesis by (auto simp: watch_inv_def on_watch_result_def)
  next
    case NotifyEnumDir
    with assms True eq show ?thesis
      by (auto simp: watch_inv_def on_watch_result_def intro!: exI [of _ "length (wa_seen s)"])
  next
    case Cleanup
    with assms True eq show ?thesis
      by (auto simp: watch_inv_def on_watch_result_def intro!: exI [of _ "length (wa_seen s)"])
  next
    case WatchCancelled
    with assms True eq show ?thesis
      by (auto simp: watch_inv_def on_watch_result_def intro!: exI [of _ "length (wa_seen s)"])
  next
    case (WatchError e)
    with assms True eq show ?thesis
      by (auto simp: watch_inv_def on_watch_result_def intro!: exI [of _ "length (wa_seen s)"])
  qed
next
  case False
  with assms show ?thesis by (simp add: on_watch_result_def)
qed

lemma map_Inr_prefix: "xs @ map Inr ys = map Inr zs \<Longrightarrow> \<exists>k. xs = map Inr (take k zs)"
  by (metis append_eq_conv_conj take_map)

lemma publish_step_inv:
  assumes "watch_inv s"
  shows "watch_inv (publish_step s)"
proof (cases "wa_phase s")
  case (Publishing xs)
  with assms obtain y ys where xs: "xs = y # ys" by (cases xs) (auto simp: watch_inv_def)
  show ?thesis
  proof (cases "wa_dropped s \<or> length (wa_channel s) < channel_capacity")
    case True
    with assms Publishing xs show ?thesis by (auto simp: watch_inv_def publish_step_def)
  next
    case False
    with assms Publishing have "(wa_delivered s @ wa_channel s) @ map Inr xs = map Inr (wa_seen s)"
      by (simp add: watch_inv_def)
    then obtain k where "wa_delivered s @ wa_channel s = map Inr (take k (wa_seen s))"
      using map_Inr_prefix by blast
    with False assms Publishing xs show ?thesis
      by (auto simp: watch_inv_def publish_step_def)
  qed
next
  case (Failing e)
  show ?thesis
  proof (cases "\<not> wa_dropped s \<and> length (wa_channel s) < channel_capacity")
    case True
    with assms Failing obtain k where k: "wa_delivered s @ wa_channel s = map Inr (take k (wa_seen s))"
      "k < length (wa_seen s) \<longrightarrow> e = EventQueueOverflow \<and> wa_cancelled s" by (auto simp: watch_inv_def)
    have "wa_delivered s @ wa_channel s @ [Inl e] = map Inr (take k (wa_seen s)) @ map Inl [e]"
      using k(1) by (metis append_assoc list.simps(8) list.simps(9))
    with True k(2) Failing show ?thesis
      unfolding watch_inv_def publish_step_def
      by (auto intro!: exI [of _ k] exI [of _ "[e]"])
  next
    case False
    with assms Failing show ?thesis by (auto simp: watch_inv_def publish_step_def)
  qed
qed (use assms in \<open>simp_all add: publish_step_def\<close>)

lemma poll_watch_inv: "watch_inv s \<Longrightarrow> watch_inv (poll_watch s)"
  by (cases "wa_channel s") (auto simp: watch_inv_def poll_watch_def split: watch_phase.splits)

lemma cancel_watch_inv: "watch_inv s \<Longrightarrow> watch_inv (cancel_watch s)"
  by (auto simp: watch_inv_def cancel_watch_def split: watch_phase.splits)

lemma drop_watch_inv: "watch_inv s \<Longrightarrow> watch_inv (drop_watch s)"
  by (simp add: watch_inv_def drop_watch_def)

lemma watch_step_inv: "watch_inv s \<Longrightarrow> watch_inv (watch_step s e)"
  by (cases e) (simp_all add: on_watch_result_inv publish_step_inv poll_watch_inv cancel_watch_inv drop_watch_inv)

lemma watch_run_inv: "watch_inv (watch_run es)"
proof -
  have "watch_inv s \<Longrightarrow> watch_inv (foldl watch_step s es)" for s
    by (induction es arbitrary: s) (simp_all add: watch_step_inv)
  then show ?thesis by (simp add: watch_run_def watch_new_inv)
qed

text \<open>
  C14. Over every schedule, what a watch has delivered and holds ready for its consumer is a prefix of
  the notifications the server sent, followed by at most one failure. If a notification is
  missing after the watch has ended, that failure is the queue overflow and the watch was
  cancelled: nothing is lost silently.
\<close>

theorem watch_loses_nothing_silently:
  fixes es
  defines "s \<equiv> watch_run es"
  shows "\<not> wa_dropped s \<longrightarrow>
    (\<exists>k errs. wa_delivered s @ wa_channel s = map Inr (take k (wa_seen s)) @ map Inl errs \<and> length errs \<le> 1 \<and>
      (errs \<noteq> [] \<longrightarrow> wa_phase s = WatchEnded) \<and>
      (wa_phase s = Watching \<longrightarrow> length (wa_seen s) \<le> k) \<and>
      (wa_phase s = WatchEnded \<and> k < length (wa_seen s) \<longrightarrow> errs = [EventQueueOverflow] \<and> wa_cancelled s))"
proof
  assume here: "\<not> wa_dropped s"
  have inv: "watch_inv s" unfolding s_def by (rule watch_run_inv)
  show "\<exists>k errs. wa_delivered s @ wa_channel s = map Inr (take k (wa_seen s)) @ map Inl errs \<and> length errs \<le> 1 \<and>
      (errs \<noteq> [] \<longrightarrow> wa_phase s = WatchEnded) \<and> (wa_phase s = Watching \<longrightarrow> length (wa_seen s) \<le> k) \<and>
      (wa_phase s = WatchEnded \<and> k < length (wa_seen s) \<longrightarrow> errs = [EventQueueOverflow] \<and> wa_cancelled s)"
  proof (cases "wa_phase s")
    case Watching
    with inv here show ?thesis
      by (intro exI [of _ "length (wa_seen s)"] exI [of _ "[]"]) (simp add: watch_inv_def)
  next
    case (Publishing xs)
    with inv here have "(wa_delivered s @ wa_channel s) @ map Inr xs = map Inr (wa_seen s)"
      by (simp add: watch_inv_def)
    from map_Inr_prefix [OF this] obtain k where "wa_delivered s @ wa_channel s = map Inr (take k (wa_seen s))" by blast
    with Publishing show ?thesis by (intro exI [of _ k] exI [of _ "[]"]) simp
  next
    case (Failing e)
    with inv here obtain k where "wa_delivered s @ wa_channel s = map Inr (take k (wa_seen s))"
      by (auto simp: watch_inv_def)
    with Failing show ?thesis by (intro exI [of _ k] exI [of _ "[]"]) simp
  next
    case WatchEnded
    with inv here show ?thesis by (simp add: watch_inv_def)
  qed
qed

theorem watch_loses_nothing_silently_witness:
  "let s = watch_run [WatchReply (Notifications [1, 2]), Publish, PollWatch, Publish, WatchReply (WatchError ()), Publish,
       PollWatch, PollWatch] :: (nat, unit) watch in
     wa_delivered s = [Inr 1, Inr 2, Inl (RequestFailed ())] \<and>
     (\<exists>k errs. wa_delivered s @ wa_channel s = map Inr (take k (wa_seen s)) @ map Inl errs \<and> length errs \<le> 1)"
proof -
  let ?es = "[WatchReply (Notifications [1, 2]), Publish, PollWatch, Publish, WatchReply (WatchError ()), Publish,
    PollWatch, PollWatch] :: (nat, unit) watch_event list"
  have run: "\<not> wa_dropped (watch_run ?es)" "wa_delivered (watch_run ?es) = [Inr 1, Inr 2, Inl (RequestFailed ())]"
    by (simp_all add: watch_run_def watch_new_def on_watch_result_def publish_step_def poll_watch_def channel_capacity_def)
  from watch_loses_nothing_silently [of ?es] run show ?thesis unfolding Let_def by blast
qed

end
