(* ===== verification/Rpc_Pipe.thy ===== *)
theory Rpc_Pipe
  imports Guid
begin

text \<open>
  DCE/RPC over a named pipe: the packets (smb-rpc/pdu.rs) and the connection that binds an
  interface and makes calls (domain/rpc.rs). The pipe is the environment: what it returns for a
  write, a read or a transaction is an argument.
\<close>

section \<open>Packets\<close>

record syntax_id =
  sy_uuid :: guid
  sy_version :: u32

record context_element =
  ce_context_id :: u16
  ce_abstract_syntax :: syntax_id
  ce_transfer_syntaxes :: "syntax_id list"

record bind_body =
  bi_max_xmit_frag :: u16
  bi_max_recv_frag :: u16
  bi_assoc_group_id :: u32
  bi_contexts :: "context_element list"

record request_body =
  rq_alloc_hint :: u32
  rq_context_id :: u16
  rq_opnum :: u16
  rq_stub_data :: bytes

datatype rpc_request = RequestPdu request_body | BindPdu bind_body

datatype bind_result = Acceptance | UserRejection | ProviderRejection | NegotiateAck

datatype bind_reason = NotSpecified | AbstractSyntaxNotSupported | ProposedTransferSyntaxesNotSupported | LocalLimitExceeded

record ack_result =
  ar_result :: bind_result
  ar_reason :: bind_reason
  ar_syntax :: syntax_id

record bind_ack =
  ba_max_xmit_frag :: u16
  ba_max_recv_frag :: u16
  ba_assoc_group_id :: u32
  ba_port_spec :: bytes
  ba_results :: "ack_result list"

record response_body =
  rs_context_id :: u16
  rs_cancel_count :: u8
  rs_stub_data :: bytes

record fault_body =
  fa_alloc_hint :: u32
  fa_context_id :: u16
  fa_cancel_count :: u8
  fa_reserved :: u8
  fa_status :: u32
  fa_reserved2 :: u32

record bind_nak =
  bn_reason :: u16
  bn_protocols :: "(u8 \<times> u8) list"

datatype rpc_response = ResponsePdu response_body | FaultPdu fault_body | BindAckPdu bind_ack | BindNakPdu bind_nak

type_synonym pkt_flags = u8

definition flag_first_frag :: "pkt_flags \<Rightarrow> bool" where
  "flag_first_frag f = bit f 0"

definition flag_last_frag :: "pkt_flags \<Rightarrow> bool" where
  "flag_last_frag f = bit f 1"

definition flag_object_uuid :: "pkt_flags \<Rightarrow> bool" where
  "flag_object_uuid f = bit f 7"

record 'c packet =
  pk_flags :: pkt_flags
  pk_drep :: u32
  pk_call_id :: u32
  pk_content :: 'c

definition syntax_write :: "syntax_id writer" where
  "syntax_write s = join (guid_write (sy_uuid s)) (write_le (sy_version s))"

definition syntax_read :: "syntax_id reader" where
  "syntax_read = and_then guid_read (\<lambda>g. and_then read_le (\<lambda>v. yield \<lparr>sy_uuid = g, sy_version = v\<rparr>))"

text \<open>The counts are the lengths cut to eight bits.\<close>

definition context_write :: "context_element writer" where
  "context_write c =
     join (write_le (ce_context_id c)) (join (Inr [of_nat (length (ce_transfer_syntaxes c)), 0])
       (join (syntax_write (ce_abstract_syntax c)) (write_all syntax_write (ce_transfer_syntaxes c))))"

definition context_read :: "context_element reader" where
  "context_read = and_then read_le (\<lambda>i. and_then read_le (\<lambda>n :: u8. and_then read_le (\<lambda>reserved :: u8.
     and_then syntax_read (\<lambda>a. and_then (read_count (unat n) syntax_read) (\<lambda>ts.
     yield \<lparr>ce_context_id = i, ce_abstract_syntax = a, ce_transfer_syntaxes = ts\<rparr>)))))"

definition bind_write :: "bind_body writer" where
  "bind_write b =
     join (Inr (le_bytes (bi_max_xmit_frag b) @ le_bytes (bi_max_recv_frag b) @ le_bytes (bi_assoc_group_id b) @
        [of_nat (length (bi_contexts b)), 0] @ le_bytes (0 :: u16)))
       (write_all context_write (bi_contexts b))"

definition bind_read :: "bind_body reader" where
  "bind_read = and_then read_le (\<lambda>x. and_then read_le (\<lambda>r. and_then read_le (\<lambda>g. and_then read_le (\<lambda>n :: u8.
     and_then read_le (\<lambda>reserved :: u8. and_then read_le (\<lambda>reserved2 :: u16.
     and_then (read_count (unat n) context_read) (\<lambda>cs.
     yield \<lparr>bi_max_xmit_frag = x, bi_max_recv_frag = r, bi_assoc_group_id = g, bi_contexts = cs\<rparr>)))))))"

definition call_write :: "request_body writer" where
  "call_write r = Inr (le_bytes (rq_alloc_hint r) @ le_bytes (rq_context_id r) @ le_bytes (rq_opnum r) @ rq_stub_data r)"

definition call_read :: "request_body reader" where
  "call_read = and_then read_le (\<lambda>h. and_then read_le (\<lambda>c. and_then read_le (\<lambda>op. and_then read_rest (\<lambda>d.
     yield \<lparr>rq_alloc_hint = h, rq_context_id = c, rq_opnum = op, rq_stub_data = d\<rparr>))))"

fun rpc_request_write :: "rpc_request writer" where
  "rpc_request_write (RequestPdu r) = call_write r"
| "rpc_request_write (BindPdu b) = bind_write b"

fun request_type :: "rpc_request \<Rightarrow> u8" where
  "request_type (RequestPdu _) = 0"
| "request_type (BindPdu _) = 11"

definition rpc_request_read :: "u8 \<Rightarrow> rpc_request reader" where
  "rpc_request_read ty =
     (if ty = 0 then and_then call_read (\<lambda>r. yield (RequestPdu r))
      else if ty = 11 then and_then bind_read (\<lambda>b. yield (BindPdu b)) else fail BadValue)"

definition reply_read :: "response_body reader" where
  "reply_read = and_then read_le (\<lambda>hint :: u32. and_then read_le (\<lambda>c. and_then read_le (\<lambda>n.
     and_then read_le (\<lambda>reserved :: u8. and_then read_rest (\<lambda>d.
     yield \<lparr>rs_context_id = c, rs_cancel_count = n, rs_stub_data = d\<rparr>)))))"

definition fault_read :: "fault_body reader" where
  "fault_read = and_then read_le (\<lambda>h. and_then read_le (\<lambda>c. and_then read_le (\<lambda>n. and_then read_le (\<lambda>r.
     and_then read_le (\<lambda>st. and_then read_le (\<lambda>r2.
     yield \<lparr>fa_alloc_hint = h, fa_context_id = c, fa_cancel_count = n, fa_reserved = r, fa_status = st, fa_reserved2 = r2\<rparr>))))))"

definition bind_result_of_code :: "u16 \<Rightarrow> bind_result option" where
  "bind_result_of_code c = (if c = 0 then Some Acceptance else if c = 1 then Some UserRejection
     else if c = 2 then Some ProviderRejection else if c = 3 then Some NegotiateAck else None)"

definition bind_reason_of_code :: "u16 \<Rightarrow> bind_reason option" where
  "bind_reason_of_code c = (if c = 0 then Some NotSpecified else if c = 1 then Some AbstractSyntaxNotSupported
     else if c = 2 then Some ProposedTransferSyntaxesNotSupported else if c = 3 then Some LocalLimitExceeded else None)"

definition ack_result_read :: "ack_result reader" where
  "ack_result_read = and_then read_le (\<lambda>r. case bind_result_of_code r of None \<Rightarrow> fail BadValue
     | Some res \<Rightarrow> and_then read_le (\<lambda>w. case bind_reason_of_code w of None \<Rightarrow> fail BadValue
        | Some why \<Rightarrow> and_then syntax_read (\<lambda>s. yield \<lparr>ar_result = res, ar_reason = why, ar_syntax = s\<rparr>)))"

definition skip :: "nat \<Rightarrow> unit reader" where
  "skip n bs = Inr ((), drop n bs)"

text \<open>An empty port specification is refused; the results start at a multiple of four.\<close>

definition bind_ack_read :: "bind_ack reader" where
  "bind_ack_read = and_then read_le (\<lambda>x. and_then read_le (\<lambda>r. and_then read_le (\<lambda>g. and_then read_le (\<lambda>n :: u16.
     require (n \<noteq> 0) (and_then (read_bytes (unat n)) (\<lambda>port. and_then (skip ((4 - (10 + unat n) mod 4) mod 4)) (\<lambda>_.
     and_then read_le (\<lambda>k :: u8. and_then read_le (\<lambda>reserved :: u8. and_then read_le (\<lambda>reserved2 :: u16.
     and_then (read_count (unat k) ack_result_read) (\<lambda>rs.
     yield \<lparr>ba_max_xmit_frag = x, ba_max_recv_frag = r, ba_assoc_group_id = g, ba_port_spec = port, ba_results = rs\<rparr>)))))))))))"

definition version_read :: "(u8 \<times> u8) reader" where
  "version_read = and_then read_le (\<lambda>a. and_then read_le (\<lambda>b. yield (a, b)))"

definition bind_nak_read :: "bind_nak reader" where
  "bind_nak_read = and_then read_le (\<lambda>r :: u16. require (unat r < 10) (and_then read_le (\<lambda>n :: u8.
     and_then (read_count (unat n) version_read) (\<lambda>ps. yield \<lparr>bn_reason = r, bn_protocols = ps\<rparr>))))"

definition rpc_response_read :: "u8 \<Rightarrow> rpc_response reader" where
  "rpc_response_read ty =
     (if ty = 2 then and_then reply_read (\<lambda>r. yield (ResponsePdu r))
      else if ty = 3 then and_then fault_read (\<lambda>f. yield (FaultPdu f))
      else if ty = 12 then and_then bind_ack_read (\<lambda>b. yield (BindAckPdu b))
      else if ty = 13 then and_then bind_nak_read (\<lambda>b. yield (BindNakPdu b)) else fail BadValue)"

definition common_size :: nat where
  "common_size = 16"

text \<open>The fragment length is filled in after the content; it does not fit for packets of 64 KiB and more.\<close>

definition packet_write :: "('c \<Rightarrow> u8) \<Rightarrow> 'c writer \<Rightarrow> 'c packet writer" where
  "packet_write ty put p =
     (case put (pk_content p) of Inl e \<Rightarrow> Inl e
      | Inr c \<Rightarrow> if common_size + length c < 2 ^ 16
          then Inr ([5, 0, ty (pk_content p), pk_flags p] @ le_bytes (pk_drep p) @
            le_bytes (of_nat (common_size + length c) :: u16) @ le_bytes (0 :: u16) @ le_bytes (pk_call_id p) @ c)
          else Inl BadValue)"

text \<open>The content is confined to as many bytes as the whole packet has.\<close>

definition packet_read :: "(u8 \<Rightarrow> bool) \<Rightarrow> (u8 \<Rightarrow> 'c reader) \<Rightarrow> 'c packet reader" where
  "packet_read known get = and_then read_le (\<lambda>major :: u8. and_then read_le (\<lambda>minor :: u8.
     require (major = 5 \<and> minor = 0) (and_then read_le (\<lambda>ty. require (known ty) (and_then read_le (\<lambda>f.
     require (\<not> flag_object_uuid f) (and_then read_le (\<lambda>drep. and_then read_le (\<lambda>frag :: u16.
     and_then read_le (\<lambda>auth :: u16. require (auth = 0) (and_then read_le (\<lambda>call.
     and_then (read_window (unat frag) (get ty)) (\<lambda>c.
     yield \<lparr>pk_flags = f, pk_drep = drep, pk_call_id = call, pk_content = c\<rparr>)))))))))))))"

definition request_packet_write :: "rpc_request packet writer" where
  "request_packet_write = packet_write request_type rpc_request_write"

definition request_packet_read :: "rpc_request packet reader" where
  "request_packet_read = packet_read (\<lambda>ty. ty \<in> {0, 11}) rpc_request_read"

definition response_packet_read :: "rpc_response packet reader" where
  "response_packet_read = packet_read (\<lambda>ty. ty \<in> {2, 3, 12, 13}) rpc_response_read"

section \<open>The connection\<close>

definition packed_drep :: u32 where
  "packed_drep = 0x10"

definition start_call_id :: u32 where
  "start_call_id = 2"

definition default_fragment_limit :: u16 where
  "default_fragment_limit = 4280"

definition whole_packet_flags :: pkt_flags where
  "whole_packet_flags = 3"

datatype 'e rpc_error = ReplayNotPermitted | PipeError 'e | CodecFailed bin_error | RemoteFault u32 | UnexpectedContent | WrongResultCount
  | SyntaxNotAccepted | NoContextAccepted | PartiallyWritten | UnsupportedDrep | Fragmented | CallIdsExhausted | ContextMismatch

definition ndr64_syntax :: syntax_id where
  "ndr64_syntax = \<lparr>sy_uuid = \<lparr>guid_0 = 0x71710533, guid_1 = 0xbeba, guid_2 = 0x4937,
     guid_3 = [0x83, 0x19, 0xb5, 0xdb, 0xef, 0x9c, 0xcc, 0x36]\<rparr>, sy_version = 1\<rparr>"

definition bind_time_negotiation :: syntax_id where
  "bind_time_negotiation = \<lparr>sy_uuid = \<lparr>guid_0 = 0x6cb71c2c, guid_1 = 0x9812, guid_2 = 0x4540,
     guid_3 = [3, 0, 0, 0, 0, 0, 0, 0]\<rparr>, sy_version = 2\<rparr>"

definition bind_time_negotiation_prefix :: string where
  "bind_time_negotiation_prefix = ''6cb71c2c-9812-4540-''"

definition make_bind_contexts :: "syntax_id \<Rightarrow> syntax_id list \<Rightarrow> context_element list" where
  "make_bind_contexts syntax transfer =
     map (\<lambda>(i, t). \<lparr>ce_context_id = of_nat i, ce_abstract_syntax = syntax, ce_transfer_syntaxes = [t]\<rparr>)
       (zip [0 ..< length transfer] transfer)"

fun accept_loop :: "nat \<Rightarrow> (ack_result \<times> syntax_id) list \<Rightarrow> u16 option \<Rightarrow> 'e rpc_error + u16 option" where
  "accept_loop i [] selected = Inr selected"
| "accept_loop i ((r, t) # rest) selected =
     (if take (length bind_time_negotiation_prefix) (guid_display (sy_uuid t)) = bind_time_negotiation_prefix
      then accept_loop (i + 1) rest selected
      else if ar_result r \<noteq> Acceptance \<or> ar_syntax r \<noteq> t then Inl SyntaxNotAccepted
      else accept_loop (i + 1) rest (Some (of_nat i)))"

definition accepted_context :: "bind_ack \<Rightarrow> syntax_id list \<Rightarrow> 'e rpc_error + u16" where
  "accepted_context ack transfer =
     (if length (ba_results ack) \<noteq> length transfer then Inl WrongResultCount
      else (case accept_loop 0 (zip (ba_results ack) transfer) None of Inl e \<Rightarrow> Inl e
        | Inr None \<Rightarrow> Inl NoContextAccepted | Inr (Some c) \<Rightarrow> Inr c))"

definition validate_envelope :: "rpc_response packet \<Rightarrow> 'e rpc_error option" where
  "validate_envelope p =
     (if pk_drep p \<noteq> packed_drep then Some UnsupportedDrep
      else if \<not> flag_first_frag (pk_flags p) \<or> \<not> flag_last_frag (pk_flags p) then Some Fragmented
      else None)"

definition parse_reply :: "bytes \<Rightarrow> 'e rpc_error + rpc_response packet" where
  "parse_reply bs =
     (case response_packet_read bs of Inl e \<Rightarrow> Inl (CodecFailed e)
      | Inr (p, rest) \<Rightarrow> (case validate_envelope p of Some e \<Rightarrow> Inl e | None \<Rightarrow> Inr p))"

definition request_packet :: "u32 \<Rightarrow> rpc_request \<Rightarrow> rpc_request packet" where
  "request_packet call c = \<lparr>pk_flags = whole_packet_flags, pk_drep = packed_drep, pk_call_id = call, pk_content = c\<rparr>"

definition rpc_write_read ::
  "'e option \<Rightarrow> (bytes \<Rightarrow> 'e + nat) \<Rightarrow> 'e + bytes \<Rightarrow> u32 \<Rightarrow> rpc_request \<Rightarrow> 'e rpc_error + rpc_response packet" where
  "rpc_write_read expired pipe_write pipe_read call c =
     (case request_packet_write (request_packet call c) of Inl e \<Rightarrow> Inl (CodecFailed e)
      | Inr bs \<Rightarrow> (case expired of Some e \<Rightarrow> Inl (PipeError e)
        | None \<Rightarrow> (case pipe_write bs of Inl e \<Rightarrow> Inl (PipeError e)
          | Inr n \<Rightarrow> if n \<noteq> length bs then Inl PartiallyWritten
              else (case pipe_read of Inl e \<Rightarrow> Inl (PipeError e) | Inr reply \<Rightarrow> parse_reply reply))))"

record rpc_connection =
  rc_next_call_id :: u32
  rc_context_id :: u16
  rc_server_max_xmit_frag :: u16

definition transfer_syntaxes :: "syntax_id list" where
  "transfer_syntaxes = [ndr64_syntax, bind_time_negotiation]"

text \<open>On a fault the pipe is closed before the fault is reported; a failed close is reported instead.\<close>

definition rpc_bind ::
  "'e option \<Rightarrow> (bytes \<Rightarrow> 'e + nat) \<Rightarrow> 'e + bytes \<Rightarrow> 'e option \<Rightarrow> syntax_id \<Rightarrow> 'e rpc_error + rpc_connection" where
  "rpc_bind expired pipe_write pipe_read pipe_close syntax =
     (case rpc_write_read expired pipe_write pipe_read start_call_id
        (BindPdu \<lparr>bi_max_xmit_frag = default_fragment_limit, bi_max_recv_frag = default_fragment_limit,
          bi_assoc_group_id = 0, bi_contexts = make_bind_contexts syntax transfer_syntaxes\<rparr>) of
        Inl e \<Rightarrow> Inl e
      | Inr reply \<Rightarrow> (case pk_content reply of
          BindAckPdu ack \<Rightarrow> (case accepted_context ack transfer_syntaxes of Inl e \<Rightarrow> Inl e
            | Inr c \<Rightarrow> Inr \<lparr>rc_next_call_id = start_call_id + 1, rc_context_id = c,
                rc_server_max_xmit_frag = ba_max_xmit_frag ack\<rparr>)
        | FaultPdu f \<Rightarrow> (case pipe_close of Some e \<Rightarrow> Inl (PipeError e) | None \<Rightarrow> Inl (RemoteFault (fa_status f)))
        | _ \<Rightarrow> Inl UnexpectedContent))"

definition bind_rpc ::
  "bool \<Rightarrow> 'e option \<Rightarrow> (bytes \<Rightarrow> 'e + nat) \<Rightarrow> 'e + bytes \<Rightarrow> 'e option \<Rightarrow> syntax_id \<Rightarrow> 'e rpc_error + rpc_connection" where
  "bind_rpc never_replayed expired pipe_write pipe_read pipe_close syntax =
     (if \<not> never_replayed then Inl ReplayNotPermitted
      else rpc_bind expired pipe_write pipe_read pipe_close syntax)"

text \<open>A call returns the connection, the request it put on the pipe, if any, and the result.\<close>

definition send_receive_raw ::
  "(bytes \<Rightarrow> u32 \<Rightarrow> 'e + bytes) \<Rightarrow> rpc_connection \<Rightarrow> u16 \<Rightarrow> bytes \<Rightarrow>
     rpc_connection \<times> bytes option \<times> ('e rpc_error + bytes)" where
  "send_receive_raw transact c opnum stub =
     (case request_packet_write (request_packet (rc_next_call_id c)
        (RequestPdu \<lparr>rq_alloc_hint = 0, rq_context_id = rc_context_id c, rq_opnum = opnum, rq_stub_data = stub\<rparr>)) of
        Inl e \<Rightarrow> (c, None, Inl (CodecFailed e))
      | Inr bs \<Rightarrow> (case checked_add (rc_next_call_id c) 1 of
          None \<Rightarrow> (c, None, Inl CallIdsExhausted)
        | Some k \<Rightarrow> (c\<lparr>rc_next_call_id := k\<rparr>, Some bs,
            case transact bs (ucast (rc_server_max_xmit_frag c)) of Inl e \<Rightarrow> Inl (PipeError e)
            | Inr reply \<Rightarrow> (case parse_reply reply of Inl e \<Rightarrow> Inl e
              | Inr p \<Rightarrow> (case pk_content p of
                  ResponsePdu r \<Rightarrow> if rs_context_id r \<noteq> rc_context_id c then Inl ContextMismatch else Inr (rs_stub_data r)
                | FaultPdu f \<Rightarrow> Inl (RemoteFault (fa_status f))
                | _ \<Rightarrow> Inl UnexpectedContent)))))"

section \<open>Packets read back\<close>

definition syntax_wf :: "syntax_id \<Rightarrow> bool" where
  "syntax_wf s \<longleftrightarrow> guid_wf (sy_uuid s)"

definition context_wf :: "context_element \<Rightarrow> bool" where
  "context_wf c \<longleftrightarrow> syntax_wf (ce_abstract_syntax c) \<and> length (ce_transfer_syntaxes c) < 256 \<and>
     (\<forall>t \<in> set (ce_transfer_syntaxes c). syntax_wf t)"

fun rpc_request_wf :: "rpc_request \<Rightarrow> bool" where
  "rpc_request_wf (RequestPdu r) = True"
| "rpc_request_wf (BindPdu b) = (length (bi_contexts b) < 256 \<and> (\<forall>c \<in> set (bi_contexts b). context_wf c))"

interpretation syntaxes: codec syntax_write syntax_read syntax_wf
  by unfold_locales (auto simp: syntax_write_def syntax_read_def syntax_wf_def codec_simps guids.then_put)

lemma unat_count: "n < 256 \<Longrightarrow> unat (of_nat n :: u8) = n"
  unfolding unat_of_nat by simp

lemma unat_frag: "n < 2 ^ 16 \<Longrightarrow> unat (of_nat n :: u16) = n"
  unfolding unat_of_nat by simp

interpretation contexts: codec context_write context_read context_wf
  by unfold_locales
    (auto simp: context_write_def context_read_def context_wf_def codec_simps syntaxes.then_put syntaxes.then_all unat_count)

interpretation binds: codec bind_write bind_read "\<lambda>b. rpc_request_wf (BindPdu b)"
  by unfold_locales (auto simp: bind_write_def bind_read_def codec_simps contexts.then_all unat_count)

interpretation requests: exact_codec call_write call_read "\<lambda>_. True"
  by unfold_locales (auto simp: call_write_def call_read_def codec_simps)

lemma rpc_request_exact:
  "rpc_request_wf c \<Longrightarrow> rpc_request_write c = Inr bs \<Longrightarrow> rpc_request_read (request_type c) bs = Inr (c, [])"
  using binds.closed.get_exact requests.get_exact
  by (cases c) (auto simp: rpc_request_read_def and_then_step yield_def)

text \<open>The packet around any content that reads back when the window ends with it.\<close>

lemma packet_round_trip:
  assumes w: "packet_write ty put p = Inr bs"
    and exact: "\<And>c. put (pk_content p) = Inr c \<Longrightarrow> get (ty (pk_content p)) c = Inr (pk_content p, [])"
    and known: "known (ty (pk_content p))" and flags: "\<not> flag_object_uuid (pk_flags p)"
  shows "packet_read known get bs = Inr (p, []) \<and> length bs < 2 ^ 16 \<and> le_word (field 8 2 bs) = (of_nat (length bs) :: u16)"
proof -
  from w obtain c where c: "put (pk_content p) = Inr c" "common_size + length c < 2 ^ 16"
    and bs: "bs = [5, 0, ty (pk_content p), pk_flags p] @ le_bytes (pk_drep p) @
      le_bytes (of_nat (common_size + length c) :: u16) @ le_bytes (0 :: u16) @ le_bytes (pk_call_id p) @ c"
    by (auto simp: packet_write_def split: sum.splits if_splits)
  have "read_window (common_size + length c) (get (ty (pk_content p))) c = Inr (pk_content p, [])"
    using exact [OF c(1)] by (simp add: read_window_def)
  then have "packet_read known get bs = Inr (p, [])"
    using known flags c(2) by (simp add: bs packet_read_def codec_simps and_then_step unat_frag del: of_nat_add)
  moreover have "length bs = common_size + length c" by (simp add: bs common_size_def)
  moreover have "field 8 2 bs = le_bytes (of_nat (common_size + length c) :: u16)"
    by (simp add: bs field_def)
  ultimately show ?thesis using c(2) by (simp del: of_nat_add)
qed

lemma write_all_total: "(\<And>x. \<exists>b. w x = Inr b) \<Longrightarrow> \<exists>bs. write_all w xs = Inr bs"
proof (induction xs)
  case (Cons x xs)
  then obtain b bs where "w x = Inr b" "write_all w xs = Inr bs" by blast
  then show ?case by simp
qed simp

lemma syntax_write_total: "\<exists>b. syntax_write s = Inr b"
  by (simp add: syntax_write_def guid_write_def write_le_def)

lemma context_write_total: "\<exists>b. context_write c = Inr b"
  using syntax_write_total [of "ce_abstract_syntax c"]
    write_all_total [of syntax_write "ce_transfer_syntaxes c", OF syntax_write_total]
  by (auto simp: context_write_def)

lemma rpc_request_total: "\<exists>b. rpc_request_write c = Inr b"
proof (cases c)
  case (BindPdu b)
  with write_all_total [of context_write "bi_contexts b", OF context_write_total] show ?thesis
    by (auto simp: bind_write_def)
qed (simp add: call_write_def)

lemma request_packet_flags: "\<not> flag_object_uuid (pk_flags (request_packet call c))"
  by (simp add: request_packet_def whole_packet_flags_def flag_object_uuid_def bit_iff_odd)

lemma request_packet_parses:
  assumes "rpc_request_wf c" "request_packet_write (request_packet call c) = Inr bs"
  shows "request_packet_read bs = Inr (request_packet call c, []) \<and> length bs < 2 ^ 16 \<and>
    le_word (field 8 2 bs) = (of_nat (length bs) :: u16)"
  unfolding request_packet_read_def
proof (rule packet_round_trip [OF assms(2) [unfolded request_packet_write_def]])
  show "rpc_request_read (request_type (pk_content (request_packet call c))) b = Inr (pk_content (request_packet call c), [])"
    if "rpc_request_write (pk_content (request_packet call c)) = Inr b" for b
    using that assms(1) by (intro rpc_request_exact) (simp_all add: request_packet_def)
  show "request_type (pk_content (request_packet call c)) \<in> {0, 11}"
    by (cases "pk_content (request_packet call c)") simp_all
qed (rule request_packet_flags)

text \<open>
  Every request packet the client builds either reads back exactly and announces its own length
  as the fragment length, or is refused because it would not fit sixteen bits.
\<close>

theorem rpc_requests_round_trip:
  assumes "rpc_request_wf c"
  shows "\<exists>b. rpc_request_write c = Inr b \<and>
    (case request_packet_write (request_packet call c) of
       Inl e \<Rightarrow> e = BadValue \<and> 2 ^ 16 \<le> common_size + length b
     | Inr bs \<Rightarrow> common_size + length b < 2 ^ 16 \<and> request_packet_read bs = Inr (request_packet call c, []) \<and>
         length bs = common_size + length b \<and> le_word (field 8 2 bs) = (of_nat (length bs) :: u16))"
proof -
  obtain b where b: "rpc_request_write c = Inr b" using rpc_request_total by blast
  have "request_packet_write (request_packet call c) = Inr bs \<Longrightarrow> common_size + length b < 2 ^ 16 \<and> length bs = common_size + length b" for bs
    using b by (auto simp: request_packet_write_def packet_write_def request_packet_def common_size_def split: if_splits)
  moreover have "request_packet_write (request_packet call c) = Inl e \<Longrightarrow> e = BadValue \<and> 2 ^ 16 \<le> common_size + length b" for e
    using b by (auto simp: request_packet_write_def packet_write_def request_packet_def split: if_splits)
  ultimately show ?thesis
    using b request_packet_parses [OF assms] by (auto split: sum.splits)
qed

theorem rpc_requests_round_trip_witness:
  "rpc_request_wf (BindPdu \<lparr>bi_max_xmit_frag = 4280, bi_max_recv_frag = 4280, bi_assoc_group_id = 0,
      bi_contexts = make_bind_contexts ndr64_syntax transfer_syntaxes\<rparr>) \<and>
   (\<exists>bs. request_packet_write (request_packet 2 (BindPdu \<lparr>bi_max_xmit_frag = 4280, bi_max_recv_frag = 4280,
      bi_assoc_group_id = 0, bi_contexts = make_bind_contexts ndr64_syntax transfer_syntaxes\<rparr>)) = Inr bs \<and> length bs = 116)"
proof
  let ?c = "BindPdu \<lparr>bi_max_xmit_frag = 4280, bi_max_recv_frag = 4280, bi_assoc_group_id = 0,
      bi_contexts = make_bind_contexts ndr64_syntax transfer_syntaxes\<rparr>"
  show wf: "rpc_request_wf ?c"
    by (simp add: make_bind_contexts_def transfer_syntaxes_def context_wf_def syntax_wf_def guid_wf_def ndr64_syntax_def
        bind_time_negotiation_def)
  have "\<forall>b. rpc_request_write ?c = Inr b \<longrightarrow> length b = 100"
    by (auto simp: bind_write_def make_bind_contexts_def transfer_syntaxes_def context_write_def syntax_write_def
        guid_write_def ndr64_syntax_def bind_time_negotiation_def write_le_def)
  then show "\<exists>bs. request_packet_write (request_packet 2 ?c) = Inr bs \<and> length bs = 116"
    using rpc_requests_round_trip [OF wf, of 2]
    by (cases "request_packet_write (request_packet 2 ?c)") (auto simp: common_size_def simp del: rpc_request_write.simps)
qed

section \<open>A bound connection and its calls\<close>

definition call_body :: "u16 \<Rightarrow> u16 \<Rightarrow> bytes \<Rightarrow> rpc_request" where
  "call_body ctx opnum stub =
     RequestPdu \<lparr>rq_alloc_hint = 0, rq_context_id = ctx, rq_opnum = opnum, rq_stub_data = stub\<rparr>"

type_synonym 'e call = "(bytes \<Rightarrow> u32 \<Rightarrow> 'e + bytes) \<times> u16 \<times> bytes"

fun rpc_run :: "rpc_connection \<Rightarrow> 'e call list \<Rightarrow> rpc_connection \<times> (bytes option \<times> ('e rpc_error + bytes)) list" where
  "rpc_run c [] = (c, [])"
| "rpc_run c ((transact, opnum, stub) # calls) =
     (let (c1, out) = send_receive_raw transact c opnum stub; (c2, outs) = rpc_run c1 calls in (c2, out # outs))"

text \<open>A reply that answers_call in a context: one whole packet of the fixed representation.\<close>

definition answers_call :: "u16 \<Rightarrow> bytes \<Rightarrow> bytes \<Rightarrow> bool" where
  "answers_call ctx reply d \<longleftrightarrow> (\<exists>p rest r. response_packet_read reply = Inr (p, rest) \<and> pk_drep p = packed_drep \<and>
     flag_first_frag (pk_flags p) \<and> flag_last_frag (pk_flags p) \<and> pk_content p = ResponsePdu r \<and>
     rs_context_id r = ctx \<and> rs_stub_data r = d)"

text \<open>Whether a call goes out, given the identifier it would use.\<close>

definition goes_out :: "nat \<Rightarrow> bytes \<Rightarrow> bool" where
  "goes_out i stub \<longleftrightarrow> length stub < 65512 \<and> i + 1 < 2 ^ 32"

lemma parse_reply_answers:
  "parse_reply reply = Inr p \<Longrightarrow> pk_content p = ResponsePdu r \<Longrightarrow> rs_context_id r = ctx \<Longrightarrow>
     answers_call ctx reply (rs_stub_data r)"
  by (auto simp: parse_reply_def validate_envelope_def answers_call_def split: sum.splits option.splits if_splits)

lemma call_packet_write:
  "(\<exists>bs. request_packet_write (request_packet i (call_body ctx opnum stub)) = Inr bs) \<longleftrightarrow> length stub < 65512"
  by (auto simp: request_packet_write_def packet_write_def request_packet_def call_body_def call_write_def common_size_def)

lemma one_call:
  assumes "send_receive_raw transact c opnum stub = (c', s, r)"
  shows "rc_context_id c' = rc_context_id c \<and> (s \<noteq> None \<longleftrightarrow> goes_out (unat (rc_next_call_id c)) stub) \<and>
    (case s of None \<Rightarrow> c' = c \<and> (\<exists>e. r = Inl e)
     | Some bs \<Rightarrow> unat (rc_next_call_id c') = unat (rc_next_call_id c) + 1 \<and>
         request_packet_read bs = Inr (request_packet (rc_next_call_id c) (call_body (rc_context_id c) opnum stub), []) \<and>
         (\<forall>d. r = Inr d \<longrightarrow> (\<exists>size reply. transact bs size = Inr reply \<and> answers_call (rc_context_id c) reply d)))"
proof (cases "request_packet_write (request_packet (rc_next_call_id c) (call_body (rc_context_id c) opnum stub))")
  case (Inl e)
  with assms call_packet_write [of "rc_next_call_id c" "rc_context_id c" opnum stub] show ?thesis
    by (auto simp: send_receive_raw_def call_body_def goes_out_def)
next
  case (Inr bs)
  then have stub: "length stub < 65512" using call_packet_write by blast
  have parsed: "request_packet_read bs = Inr (request_packet (rc_next_call_id c) (call_body (rc_context_id c) opnum stub), [])"
    using request_packet_parses [OF _ Inr] by (simp add: call_body_def)
  show ?thesis
  proof (cases "checked_add (rc_next_call_id c) 1")
    case None
    with assms Inr stub show ?thesis
      by (auto simp: send_receive_raw_def call_body_def goes_out_def checked_add_def split: if_splits)
  next
    case (Some k)
    then have "unat k = unat (rc_next_call_id c) + 1" "unat (rc_next_call_id c) + 1 < 2 ^ 32"
      using checked_add_unat [OF Some] by (auto simp: checked_add_def split: if_splits)
    moreover have "\<exists>size reply. transact bs size = Inr reply \<and> answers_call (rc_context_id c) reply d" if "r = Inr d" for d
      using assms Inr Some that parse_reply_answers [of _ _ _ "rc_context_id c"]
      by (fastforce simp: send_receive_raw_def call_body_def split: sum.splits rpc_response.splits if_splits)
    ultimately show ?thesis
      using assms Inr Some stub parsed by (auto simp: send_receive_raw_def call_body_def goes_out_def)
  qed
qed

text \<open>What a sequence of calls may do, given the identifier the first of them would use.\<close>

fun calls_in_order :: "u16 \<Rightarrow> nat \<Rightarrow> 'e call list \<Rightarrow> (bytes option \<times> ('e rpc_error + bytes)) list \<Rightarrow> bool" where
  "calls_in_order ctx i [] outs \<longleftrightarrow> outs = []"
| "calls_in_order ctx i ((transact, opnum, stub) # calls) outs \<longleftrightarrow>
     (\<exists>s r rest. outs = (s, r) # rest \<and> (s \<noteq> None \<longleftrightarrow> goes_out i stub) \<and>
       (case s of None \<Rightarrow> (\<exists>e. r = Inl e) \<and> calls_in_order ctx i calls rest
        | Some bs \<Rightarrow> request_packet_read bs = Inr (request_packet (of_nat i) (call_body ctx opnum stub), []) \<and>
            (\<forall>d. r = Inr d \<longrightarrow> (\<exists>size reply. transact bs size = Inr reply \<and> answers_call ctx reply d)) \<and>
            calls_in_order ctx (i + 1) calls rest))"

lemma run_in_order:
  "rpc_run c calls = (c', outs) \<Longrightarrow> calls_in_order (rc_context_id c) (unat (rc_next_call_id c)) calls outs"
proof (induction calls arbitrary: c c' outs)
  case (Cons call calls)
  obtain transact opnum stub where call: "call = (transact, opnum, stub)" by (cases call) auto
  obtain c1 s r where one: "send_receive_raw transact c opnum stub = (c1, s, r)" by (metis prod_cases3)
  obtain c2 rest where run: "rpc_run c1 calls = (c2, rest)" by (cases "rpc_run c1 calls") auto
  from Cons.prems call one run have outs: "outs = (s, r) # rest" by simp
  note ih = Cons.IH [OF run] and facts = one_call [OF one]
  show ?case
  proof (cases s)
    case None
    with facts ih show ?thesis by (auto simp: call outs)
  next
    case (Some bs)
    with facts ih have "calls_in_order (rc_context_id c) (unat (rc_next_call_id c) + 1) calls rest" by simp
    with Some facts show ?thesis by (auto simp: call outs)
  qed
qed simp

lemma ndr64_is_no_negotiation:
  "take (length bind_time_negotiation_prefix) (guid_display (sy_uuid ndr64_syntax)) \<noteq> bind_time_negotiation_prefix"
proof -
  have bytes: "le_bytes (0x71710533 :: u32) = [0x33, 5, 0x71, 0x71]" "le_bytes (0xbeba :: u16) = [0xba, 0xbe]"
    "le_bytes (0x4937 :: u16) = [0x37, 0x49]" by code_simp+
  have char: "digit_char 7 = CHR ''7''" by code_simp
  have "hd (guid_display (sy_uuid ndr64_syntax)) = CHR ''7''"
    by (subst display_groups [of _ "0x33" 5 "0x71" "0x71" "0xba" "0xbe" "0x37" "0x49"])
      (simp_all add: ndr64_syntax_def bytes hex_byte_def char)
  then show ?thesis
    by (cases "guid_display (sy_uuid ndr64_syntax)") (simp_all add: bind_time_negotiation_prefix_def)
qed

lemma bind_time_is_negotiation:
  "take (length bind_time_negotiation_prefix) (guid_display (sy_uuid bind_time_negotiation)) = bind_time_negotiation_prefix"
proof -
  have bytes: "le_bytes (0x6cb71c2c :: u32) = [0x2c, 0x1c, 0xb7, 0x6c]" "le_bytes (0x9812 :: u16) = [0x12, 0x98]"
    "le_bytes (0x4540 :: u16) = [0x40, 0x45]" by code_simp+
  have chars: "digit_char 0 = CHR ''0''" "digit_char 1 = CHR ''1''" "digit_char 2 = CHR ''2''" "digit_char 4 = CHR ''4''"
    "digit_char 5 = CHR ''5''" "digit_char 6 = CHR ''6''" "digit_char 7 = CHR ''7''" "digit_char 8 = CHR ''8''"
    "digit_char 9 = CHR ''9''" "digit_char 11 = CHR ''b''" "digit_char 12 = CHR ''c''" by code_simp+
  show ?thesis
    by (subst display_groups [of _ "0x2c" "0x1c" "0xb7" "0x6c" "0x12" "0x98" "0x40" "0x45"])
      (simp_all add: bind_time_negotiation_def bytes hex_byte_def bind_time_negotiation_prefix_def chars chars [simplified])
qed

lemma accepted_ndr64:
  assumes "accepted_context ack transfer_syntaxes = Inr ctx"
  shows "ctx = 0 \<and> length (ba_results ack) = 2 \<and> ar_result (ba_results ack ! 0) = Acceptance \<and>
    ar_syntax (ba_results ack ! 0) = ndr64_syntax"
proof -
  have len: "length (ba_results ack) = 2"
    using assms by (auto simp: accepted_context_def transfer_syntaxes_def split: if_splits)
  then obtain a b where "ba_results ack = [a, b]" by (auto simp: length_Suc_conv eval_nat_numeral)
  with assms ndr64_is_no_negotiation bind_time_is_negotiation show ?thesis
    by (auto simp: accepted_context_def transfer_syntaxes_def split: if_splits sum.splits option.splits)
qed

lemma bound_connection:
  assumes "bind_rpc never expired pipe_write pipe_read pipe_close syntax = Inr c"
  shows "never \<and> rc_next_call_id c = 3 \<and> rc_context_id c = 0 \<and>
    (\<exists>reply p rest ack. pipe_read = Inr reply \<and> response_packet_read reply = Inr (p, rest) \<and> validate_envelope p = (None :: 'e rpc_error option) \<and>
      pk_content p = BindAckPdu ack \<and> length (ba_results ack) = 2 \<and> ar_result (ba_results ack ! 0) = Acceptance \<and>
      ar_syntax (ba_results ack ! 0) = ndr64_syntax \<and> rc_server_max_xmit_frag c = ba_max_xmit_frag ack)"
proof -
  from assms obtain p where never: never
    and wr: "rpc_write_read expired pipe_write pipe_read start_call_id
        (BindPdu \<lparr>bi_max_xmit_frag = default_fragment_limit, bi_max_recv_frag = default_fragment_limit,
          bi_assoc_group_id = 0, bi_contexts = make_bind_contexts syntax transfer_syntaxes\<rparr>) = Inr p"
    by (auto simp: bind_rpc_def rpc_bind_def split: if_splits sum.splits)
  with assms obtain ack where ack: "pk_content p = BindAckPdu ack" "accepted_context ack transfer_syntaxes = (Inr (rc_context_id c) :: 'a rpc_error + u16)"
    "rc_next_call_id c = start_call_id + 1" "rc_server_max_xmit_frag c = ba_max_xmit_frag ack"
    by (auto simp: bind_rpc_def rpc_bind_def split: sum.splits rpc_response.splits option.splits)
  from wr obtain reply where "pipe_read = Inr reply" "parse_reply reply = (Inr p :: 'a rpc_error + _)"
    by (auto simp: rpc_write_read_def split: sum.splits option.splits if_splits)
  moreover then obtain rest where "response_packet_read reply = Inr (p, rest)" "validate_envelope p = (None :: 'e rpc_error option)"
    by (auto simp: parse_reply_def validate_envelope_def split: sum.splits option.splits if_splits)
  ultimately show ?thesis using never ack accepted_ndr64 [OF ack(2)] by (auto simp: start_call_id_def)
qed

text \<open>
  C15. A bind succeeds only without replay and on one whole BindAck that accepts NDR64 exactly, and the
  calls on the connection then use that context: each call whose stub fits and for which an
  identifier is left puts one request on the pipe, with identifiers 3, 4, 5 and so on, none used
  twice; any other call sends nothing and fails; and a stub is returned only out of a whole
  Response in the bound context that the pipe gave for this very request.
\<close>

theorem rpc_calls_in_order:
  fixes calls :: "'e call list"
  assumes "bind_rpc never expired pipe_write pipe_read pipe_close syntax = (Inr c :: 'e rpc_error + rpc_connection)"
  shows "never \<and> (\<exists>reply p rest ack. pipe_read = Inr reply \<and> response_packet_read reply = Inr (p, rest) \<and>
      validate_envelope p = (None :: 'e rpc_error option) \<and> pk_content p = BindAckPdu ack \<and> length (ba_results ack) = 2 \<and>
      ar_result (ba_results ack ! 0) = Acceptance \<and> ar_syntax (ba_results ack ! 0) = ndr64_syntax) \<and>
    calls_in_order 0 3 calls (snd (rpc_run c calls))"
proof -
  obtain c' outs where run: "rpc_run c calls = (c', outs)" by (cases "rpc_run c calls") auto
  from bound_connection [OF assms] run_in_order [OF run] run show ?thesis by auto
qed

definition sample_ack :: bytes where
  "sample_ack = [5, 0, 12, 3, 0x10, 0, 0, 0, 80, 0, 0, 0, 2, 0, 0, 0, 0xb8, 0x10, 0xb8, 0x10, 0x29, 0x3b, 0, 0, 2, 0, 0x41, 0,
     2, 0, 0, 0, 0, 0, 0, 0, 0x33, 5, 0x71, 0x71, 0xba, 0xbe, 0x37, 0x49, 0x83, 0x19, 0xb5, 0xdb, 0xef, 0x9c, 0xcc, 0x36, 1, 0, 0, 0,
     3, 0, 3, 0, 0, 0, 0, 0, 0, 0, 0, 0, 0, 0, 0, 0, 0, 0, 0, 0, 0, 0, 0, 0]"

definition sample_rpc_reply :: bytes where
  "sample_rpc_reply = [5, 0, 2, 3, 0x10, 0, 0, 0, 25, 0, 0, 0, 99, 0, 0, 0, 0, 0, 0, 0, 0, 0, 0, 0, 7]"

lemma and_then_words:
  "and_then (read_le :: u16 reader) f (a # b # rest) = f (le_word [a, b]) rest"
  "and_then (read_le :: u32 reader) g (a # b # c # d # rest) = g (le_word [a, b, c, d]) rest"
  by (simp_all add: read_le_def and_then_def read_bytes_def yield_def)

lemma and_then_byte_list:
  "and_then (read_bytes n) f bs = (if length bs < n then Inl EndOfData else f (take n bs) (drop n bs))"
  by (simp add: and_then_def read_bytes_def)

lemmas reads_concrete = and_then_words and_then_byte_list and_then_byte and_then_rest yield_apply require_apply

lemma response_window:
  "and_then (read_window n p) f bs = (case p (take n bs) of Inl e \<Rightarrow> Inl e | Inr (x, left) \<Rightarrow> f x (left @ drop n bs))"
  by (simp add: and_then_def read_window_def split: sum.splits prod.splits)

lemma and_then_assoc:
  "and_then (and_then p q) f bs = and_then p (\<lambda>x. and_then (q x) f) bs"
  "and_then (yield x) f bs = f x bs"
  by (simp_all add: and_then_def yield_def split: sum.splits prod.splits)

lemma sample_ack_body:
  "bind_ack_read (drop 16 sample_ack) = Inr (\<lparr>ba_max_xmit_frag = 4280, ba_max_recv_frag = 4280, ba_assoc_group_id = 0x3b29,
      ba_port_spec = [0x41, 0],
      ba_results = [\<lparr>ar_result = Acceptance, ar_reason = NotSpecified, ar_syntax = ndr64_syntax\<rparr>,
        \<lparr>ar_result = NegotiateAck, ar_reason = LocalLimitExceeded,
         ar_syntax = \<lparr>sy_uuid = \<lparr>guid_0 = 0, guid_1 = 0, guid_2 = 0, guid_3 = replicate 8 0\<rparr>, sy_version = 0\<rparr>\<rparr>]\<rparr>, [])"
proof -
  have skip: "and_then (skip n) f bs = f () (drop n bs)" for n and f :: "unit \<Rightarrow> bind_ack reader" and bs
    by (simp add: and_then_def skip_def)
  have two: "read_count 2 p = read_count (Suc (Suc 0)) p" for p :: "ack_result reader" by (simp add: numeral_2_eq_2)
  have zeros: "replicate 8 (0 :: u8) = [0, 0, 0, 0, 0, 0, 0, 0]" by (simp add: eval_nat_numeral)
  show ?thesis
    by (simp add: sample_ack_def bind_ack_read_def ack_result_read_def syntax_read_def guid_read_def reads_concrete skip two zeros
        and_then_assoc bind_result_of_code_def bind_reason_of_code_def ndr64_syntax_def)
qed

lemma sample_ack_parses:
  "\<exists>p ack. parse_reply sample_ack = (Inr p :: unit rpc_error + rpc_response packet) \<and> pk_content p = BindAckPdu ack \<and>
     accepted_context ack transfer_syntaxes = (Inr 0 :: unit rpc_error + u16) \<and> ba_max_xmit_frag ack = 4280"
proof -
  have "and_then bind_ack_read f (drop 16 sample_ack) = f ack rest"
    if "bind_ack_read (drop 16 sample_ack) = Inr (ack, rest)" for ack rest and f :: "bind_ack \<Rightarrow> rpc_response reader"
    using that by (rule and_then_step)
  note body = this [OF sample_ack_body, unfolded sample_ack_def, simplified]
  show ?thesis
    using ndr64_is_no_negotiation bind_time_is_negotiation
    by (simp add: parse_reply_def sample_ack_def response_packet_read_def packet_read_def reads_concrete flag_object_uuid_def
        bit_iff_odd response_window rpc_response_read_def body validate_envelope_def packed_drep_def flag_first_frag_def
        flag_last_frag_def accepted_context_def transfer_syntaxes_def)
qed

lemma sample_rpc_reply_parses:
  "parse_reply sample_rpc_reply = (Inr \<lparr>pk_flags = 3, pk_drep = 0x10, pk_call_id = 99,
     pk_content = ResponsePdu \<lparr>rs_context_id = 0, rs_cancel_count = 0, rs_stub_data = [7]\<rparr>\<rparr> :: unit rpc_error + rpc_response packet)"
  by (simp add: parse_reply_def sample_rpc_reply_def response_packet_read_def packet_read_def reads_concrete flag_object_uuid_def
      bit_iff_odd response_window rpc_response_read_def reply_read_def and_then_assoc validate_envelope_def packed_drep_def
      flag_first_frag_def flag_last_frag_def)

text \<open>A reply that carries the identifier of another call is accepted as the answer.\<close>

lemma reply_of_another_call_accepted:
  "\<exists>c' bs. send_receive_raw (\<lambda>_ _. Inr sample_rpc_reply) \<lparr>rc_next_call_id = 3, rc_context_id = 0, rc_server_max_xmit_frag = 4280\<rparr> 1 [8] =
     (c', Some bs, Inr [7] :: unit rpc_error + bytes)"
proof -
  obtain bs where "request_packet_write (request_packet 3 (call_body 0 1 [8])) = Inr bs"
    using call_packet_write [of 3 0 1 "[8]"] by auto
  then show ?thesis
    by (simp add: send_receive_raw_def call_body_def checked_add_def sample_rpc_reply_parses)
qed

lemma sample_bind:
  "bind_rpc True None (\<lambda>bs. Inr (length bs)) (Inr sample_ack) None ndr64_syntax =
     (Inr \<lparr>rc_next_call_id = 3, rc_context_id = 0, rc_server_max_xmit_frag = 4280\<rparr> :: unit rpc_error + rpc_connection)"
proof -
  let ?c = "BindPdu \<lparr>bi_max_xmit_frag = 4280, bi_max_recv_frag = 4280, bi_assoc_group_id = 0,
      bi_contexts = make_bind_contexts ndr64_syntax transfer_syntaxes\<rparr>"
  have "rpc_request_write ?c = Inr b \<Longrightarrow> length b = 100" for b
    by (auto simp: bind_write_def make_bind_contexts_def transfer_syntaxes_def context_write_def syntax_write_def
        guid_write_def ndr64_syntax_def bind_time_negotiation_def write_le_def)
  then obtain bs where "request_packet_write (request_packet 2 ?c) = Inr bs"
    using rpc_request_total [of ?c]
    by (auto simp: request_packet_write_def packet_write_def request_packet_def common_size_def)
  with sample_ack_parses show ?thesis
    by (auto simp: bind_rpc_def rpc_bind_def rpc_write_read_def default_fragment_limit_def start_call_id_def)
qed

theorem rpc_calls_in_order_witness:
  "\<exists>c bs. bind_rpc True None (\<lambda>bs. Inr (length bs)) (Inr sample_ack) None ndr64_syntax = (Inr c :: unit rpc_error + rpc_connection) \<and>
     snd (rpc_run c [((\<lambda>_ _. Inr sample_rpc_reply :: unit + bytes), 1, [8])]) = [(Some bs, Inr [7])] \<and>
     request_packet_read bs = Inr (request_packet 3 (call_body 0 1 [8]), [])"
proof -
  obtain c' bs where "send_receive_raw (\<lambda>_ _. Inr sample_rpc_reply)
      \<lparr>rc_next_call_id = 3, rc_context_id = 0, rc_server_max_xmit_frag = 4280\<rparr> 1 [8] = (c', Some bs, Inr [7] :: unit rpc_error + bytes)"
    using reply_of_another_call_accepted by blast
  then show ?thesis
    using sample_bind rpc_calls_in_order [OF sample_bind, of "[((\<lambda>_ _. Inr sample_rpc_reply :: unit + bytes), 1, [8])]"] by simp
qed

end
