(* ===== verification/Session_Setup.thy ===== *)
theory Session_Setup
  imports Session_Channel
begin

text \<open>
  Setting up a session (session/setup.rs): the exchange of security tokens that creates a session
  or binds a channel to an existing one. The authentication mechanism is a parameter, given by
  the three calls of the trait \<open>GssState\<close>. What the runtime and the server do during one turn of
  the loop is a record of its own, and a list of such records drives the loop; a result \<open>None\<close>
  means that the list ended while the exchange was still going on.
\<close>

section \<open>The mechanism and the environment\<close>

record ('g, 'e) gss =
  g_authenticated :: "'g \<Rightarrow> 'e + bool"
  g_next :: "'g \<Rightarrow> bytes \<Rightarrow> 'e + bytes \<times> 'g"
  g_key :: "'g \<Rightarrow> 'e + bytes"

datatype setup_kind = NewSession | BindChannel

datatype 'e setup_error = GssFailed 'e | RuntimeFailed 'e | SessionFailed session_error | NoRuntime | UnsignedFinalResponse
  | SetupTimeout | UnexpectedStatus | NotASetupResponse | NoSessionBeforeFinal | AuthenticationIncomplete | ResultMissing | SetupPanic

record setup_request =
  sr_token :: bytes
  sr_binding :: bool
  sr_signing_required :: bool
  sr_protection :: protection
  sr_signed :: bool
  sr_session_id :: u64

datatype 'e setup_reply = ReplyTimeout | ReplyError 'e | Reply wire_response "(session_flags \<times> bytes) option"

record 'e turn =
  tn_prepare :: "'e option"
  tn_send :: "'e option"
  tn_runtime :: bool
  tn_key_hash :: "'e + bytes option"
  tn_channel_hash :: "'e + bytes option"
  tn_started :: "'e option"
  tn_reply :: "'e setup_reply"

datatype setup_note = SessionStarted u64 | SessionEnded u64

record ('s, 'c) setup_state =
  su_last_token :: "bytes option"
  su_flags :: "session_flags option"
  su_session :: "'c session_info option"
  su_channel :: "'s channel_info option"
  su_requests :: "setup_request list"
  su_notes :: "setup_note list"

section \<open>The steps\<close>

definition status_success :: u32 where
  "status_success = 0"

definition status_more_processing :: u32 where
  "status_more_processing = 0xC0000016"

text \<open>Registering the session with the runtime; for a binding the primary session and its channel come first.\<close>

definition set_session ::
  "'e turn \<Rightarrow> 'c session_info \<Rightarrow> ('s, 'c) setup_state \<Rightarrow> ('s, 'c) setup_state \<times> 'e setup_error option" where
  "set_session t s st =
     (if \<not> tn_runtime t then (st, Some NoRuntime)
      else (case tn_started t of Some e \<Rightarrow> (st, Some (RuntimeFailed e))
        | None \<Rightarrow> (st\<lparr>su_session := Some s, su_channel := None, su_notes := su_notes st @ [SessionStarted (si_session_id s)]\<rparr>, None)))"

definition setup_empty :: "('s, 'c) setup_state" where
  "setup_empty = \<lparr>su_last_token = None, su_flags = None, su_session = None, su_channel = None, su_requests = [], su_notes = []\<rparr>"

definition with_gss ::
  "'e turn \<Rightarrow> ('c session_info \<times> 's channel_info) option \<Rightarrow> 'e setup_error + ('s, 'c) setup_state" where
  "with_gss t primary =
     (case primary of None \<Rightarrow> Inr setup_empty
      | Some (s, ch) \<Rightarrow>
          (case set_session t s setup_empty of
             (st, Some e) \<Rightarrow> Inl e
           | (st, None) \<Rightarrow> Inr (st\<lparr>su_channel := Some (ch\<lparr>chan_binding := True\<rparr>)\<rparr>)))"

definition make_request :: "connection_info \<Rightarrow> setup_kind \<Rightarrow> bytes \<Rightarrow> setup_request" where
  "make_request info kind token =
     \<lparr>sr_token = token, sr_binding = (kind = BindChannel),
      sr_signing_required = policy_required (signing_policy (ci_config info)) (np_signing_required (ci_negotiation info)),
      sr_protection = ProtNone, sr_signed = False, sr_session_id = 0\<rparr>"

definition on_session_key_exchanged ::
  "('s, 'c) crypto \<Rightarrow> ('g, 'e) gss \<Rightarrow> connection_info \<Rightarrow> setup_kind \<Rightarrow> 'e turn \<Rightarrow> 'g \<Rightarrow>
     ('s, 'c) setup_state \<Rightarrow> ('s, 'c) setup_state \<times> 'e setup_error option" where
  "on_session_key_exchanged cr mech info kind t g st =
     (if kind = BindChannel then (st, None)
      else (case g_key mech g of Inl e \<Rightarrow> (st, Some (GssFailed e))
        | Inr key \<Rightarrow>
            if \<not> tn_runtime t then (st, Some NoRuntime)
            else (case tn_key_hash t of Inl e \<Rightarrow> (st, Some (RuntimeFailed e))
              | Inr h \<Rightarrow> (case su_session st of None \<Rightarrow> (st, Some (SessionFailed InvalidState))
                | Some s \<Rightarrow> (case session_setup cr key h info s of Inl e \<Rightarrow> (st, Some (SessionFailed e))
                  | Inr s' \<Rightarrow> (st\<lparr>su_session := Some s'\<rparr>, None))))))"

definition make_channel ::
  "('s, 'c) crypto \<Rightarrow> ('g, 'e) gss \<Rightarrow> connection_info \<Rightarrow> setup_kind \<Rightarrow> u32 \<Rightarrow> 'e turn \<Rightarrow> 'g \<Rightarrow>
     ('s, 'c) setup_state \<Rightarrow> ('s, 'c) setup_state \<times> 'e setup_error option" where
  "make_channel cr mech info kind cid t g st =
     (case on_session_key_exchanged cr mech info kind t g st of
        (st, Some e) \<Rightarrow> (st, Some e)
      | (st, None) \<Rightarrow>
          if \<not> tn_runtime t then (st, Some NoRuntime)
          else (case tn_channel_hash t of Inl e \<Rightarrow> (st, Some (RuntimeFailed e))
            | Inr h \<Rightarrow> (case g_key mech g of Inl e \<Rightarrow> (st, Some (GssFailed e))
              | Inr key \<Rightarrow> (case channel_new cr cid key h info of Inl e \<Rightarrow> (st, Some (SessionFailed e))
                | Inr ch \<Rightarrow> (case su_session st of None \<Rightarrow> (st, Some ResultMissing)
                  | Some _ \<Rightarrow> (st\<lparr>su_channel := Some ch\<rparr>, None))))))"

definition send_intermediate_setup_request ::
  "'e turn \<Rightarrow> setup_request \<Rightarrow> ('s, 'c) setup_state \<Rightarrow> ('s, 'c) setup_state \<times> 'e setup_error option" where
  "send_intermediate_setup_request t r st =
     (let r = (case su_session st of None \<Rightarrow> r | Some s \<Rightarrow> r\<lparr>sr_session_id := si_session_id s\<rparr>) in
      case tn_send t of Some e \<Rightarrow> (st, Some (RuntimeFailed e))
      | None \<Rightarrow> (st\<lparr>su_requests := su_requests st @ [r]\<rparr>, None))"

definition send_final_setup_request ::
  "('s, 'c) crypto \<Rightarrow> ('g, 'e) gss \<Rightarrow> connection_info \<Rightarrow> setup_kind \<Rightarrow> u32 \<Rightarrow> 'e turn \<Rightarrow> 'g \<Rightarrow> setup_request \<Rightarrow>
     ('s, 'c) setup_state \<Rightarrow> ('s, 'c) setup_state \<times> 'e setup_error option" where
  "send_final_setup_request cr mech info kind cid t g r st =
     (case tn_prepare t of Some e \<Rightarrow> (st, Some (RuntimeFailed e))
      | None \<Rightarrow> (case su_session st of None \<Rightarrow> (st, Some NoSessionBeforeFinal)
        | Some s \<Rightarrow>
          (case (if kind = NewSession then Inr (r\<lparr>sr_protection := ProtNone\<rparr>)
                 else (case g_key mech g of Inl e \<Rightarrow> Inl (GssFailed e)
                   | Inr key \<Rightarrow> Inr (r\<lparr>sr_protection := SnapshotKdfSign key, sr_signed := True\<rparr>))) of
             Inl e \<Rightarrow> (st, Some e)
           | Inr r \<Rightarrow> (case tn_send t of Some e \<Rightarrow> (st, Some (RuntimeFailed e))
             | None \<Rightarrow> make_channel cr mech info kind cid t g
                 (st\<lparr>su_requests := su_requests st @ [r\<lparr>sr_session_id := si_session_id s\<rparr>]\<rparr>)))))"

text \<open>The check that the channel context makes of a reply, and how its refusal is reported.\<close>

definition verify_setup_reply ::
  "connection_info \<Rightarrow> bool \<Rightarrow> 'c session_info \<Rightarrow> wire_response \<Rightarrow> 'e setup_error option" where
  "verify_setup_reply info auth_done s r =
     (case verify_incoming (Some info) (si_session_id s) s r of
        Inr _ \<Rightarrow> None
      | Inl e \<Rightarrow>
          if auth_done \<and> e = InvalidMessage \<and>
            verify_incoming (Some info) (si_session_id s) s (r\<lparr>wr_form := (wr_form r)\<lparr>form_signed := True\<rparr>\<rparr>) = Inr ()
          then Some UnsignedFinalResponse else Some (SessionFailed e))"

definition receive_setup_response ::
  "connection_info \<Rightarrow> setup_kind \<Rightarrow> bool \<Rightarrow> bool \<Rightarrow> 'e turn \<Rightarrow> ('s, 'c) setup_state \<Rightarrow>
     'e setup_error + wire_response \<times> (session_flags \<times> bytes) option" where
  "receive_setup_response info kind auth_done final t st =
     (case tn_reply t of ReplyTimeout \<Rightarrow> Inl SetupTimeout | ReplyError e \<Rightarrow> Inl (RuntimeFailed e)
      | Reply r c \<Rightarrow>
          if hd_status (wr_header r) \<noteq> (if final then status_success else status_more_processing) then Inl UnexpectedStatus
          else let skip_validation = (kind = NewSession \<and> su_channel st = None) in
          case su_session st of
            None \<Rightarrow> if skip_validation then Inr (r, c) else Inl SetupPanic
          | Some s \<Rightarrow>
              if skip_validation then if is_initial s then Inr (r, c) else Inl SetupPanic
              else (case verify_setup_reply info auth_done s r of Some e \<Rightarrow> Inl e | None \<Rightarrow> Inr (r, c)))"

section \<open>The loop\<close>

datatype 'e turn_result = Continue | Leave | Stop "'e setup_error"

text \<open>One turn, after the mechanism was found not to be authenticated yet.\<close>

definition setup_turn ::
  "('s, 'c) crypto \<Rightarrow> ('g, 'e) gss \<Rightarrow> connection_info \<Rightarrow> setup_kind \<Rightarrow> u32 \<Rightarrow> 'e turn \<Rightarrow> 'g \<Rightarrow> ('s, 'c) setup_state \<Rightarrow>
     'g \<times> ('s, 'c) setup_state \<times> 'e turn_result" where
  "setup_turn cr mech info kind cid t g st =
     (case g_next mech g (case su_last_token st of Some b \<Rightarrow> b | None \<Rightarrow> []) of
        Inl e \<Rightarrow> (g, st, Stop (GssFailed e))
      | Inr (token, g) \<Rightarrow>
          (case g_authenticated mech g of Inl e \<Rightarrow> (g, st, Stop (GssFailed e))
           | Inr auth_done \<Rightarrow>
               if auth_done \<and> token = [] then (g, st, Leave)
               else let final = (auth_done \<or> (case g_key mech g of Inr _ \<Rightarrow> True | Inl _ \<Rightarrow> False));
                        r = make_request info kind token in
               case (if final then send_final_setup_request cr mech info kind cid t g r st
                     else send_intermediate_setup_request t r st) of
                 (st, Some e) \<Rightarrow> (g, st, Stop e)
               | (st, None) \<Rightarrow>
                   (case receive_setup_response info kind auth_done final t st of
                      Inl e \<Rightarrow> (g, st, Stop e)
                    | Inr (resp, None) \<Rightarrow> (g, st, Stop NotASetupResponse)
                    | Inr (resp, Some (flags, buffer)) \<Rightarrow>
                        (case (if su_session st \<noteq> None then (st, None)
                               else if kind = BindChannel then (st, Some SetupPanic)
                               else set_session t (session_new (hd_session_id (wr_header resp))) st) of
                           (st, Some e) \<Rightarrow> (g, st, Stop e)
                         | (st, None) \<Rightarrow>
                             if final \<and> \<not> is_guest_or_null_session flags \<and> \<not> signed_or_encrypted (wr_form resp)
                             then (g, st, Stop UnsignedFinalResponse)
                             else (g, st\<lparr>su_flags := Some flags, su_last_token := Some buffer\<rparr>,
                                   if final then Leave else Continue)))))"

text \<open>What follows the loop; the last record is what the runtime does then.\<close>

definition setup_finish ::
  "('s, 'c) crypto \<Rightarrow> ('g, 'e) gss \<Rightarrow> connection_info \<Rightarrow> setup_kind \<Rightarrow> u32 \<Rightarrow> 'e turn \<Rightarrow> 'g \<Rightarrow> ('s, 'c) setup_state \<Rightarrow>
     ('s, 'c) setup_state \<times> 'e setup_error option" where
  "setup_finish cr mech info kind cid t g st =
     (case su_flags st of None \<Rightarrow> (st, Some AuthenticationIncomplete)
      | Some flags \<Rightarrow>
          (case (if su_session st \<noteq> None \<and> su_channel st = None then make_channel cr mech info kind cid t g st else (st, None)) of
             (st, Some e) \<Rightarrow> (st, Some e)
           | (st, None) \<Rightarrow>
               if kind = BindChannel then (st, None)
               else (case su_session st of None \<Rightarrow> (st, Some (SessionFailed InvalidState))
                 | Some s \<Rightarrow> (case session_ready flags info s of Inl e \<Rightarrow> (st, Some (SessionFailed e))
                   | Inr s' \<Rightarrow> (st\<lparr>su_session := Some s'\<rparr>, None)))))"

fun setup_loop ::
  "('s, 'c) crypto \<Rightarrow> ('g, 'e) gss \<Rightarrow> connection_info \<Rightarrow> setup_kind \<Rightarrow> u32 \<Rightarrow> 'e turn \<Rightarrow> 'e turn list \<Rightarrow> 'g \<Rightarrow> ('s, 'c) setup_state \<Rightarrow>
     ('s, 'c) setup_state \<times> 'e setup_error option option" where
  "setup_loop cr mech info kind cid fin turns g st =
     (case g_authenticated mech g of Inl e \<Rightarrow> (st, Some (Some (GssFailed e)))
      | Inr True \<Rightarrow> (case setup_finish cr mech info kind cid fin g st of (st, r) \<Rightarrow> (st, Some r))
      | Inr False \<Rightarrow>
          (case turns of [] \<Rightarrow> (st, None)
           | t # ts \<Rightarrow>
               (case setup_turn cr mech info kind cid t g st of
                  (g, st, Stop e) \<Rightarrow> (st, Some (Some e))
                | (g, st, Leave) \<Rightarrow> (case setup_finish cr mech info kind cid fin g st of (st, r) \<Rightarrow> (st, Some r))
                | (g, st, Continue) \<Rightarrow> setup_loop cr mech info kind cid fin ts g st)))"

declare setup_loop.simps [simp del]

definition error_cleanup :: "setup_kind \<Rightarrow> bool \<Rightarrow> ('s, 'c) setup_state \<Rightarrow> ('s, 'c) setup_state" where
  "error_cleanup kind runtime st =
     (case su_session st of None \<Rightarrow> st
      | Some s \<Rightarrow>
          let st = (if kind = NewSession then st\<lparr>su_session := Some (invalidate s)\<rparr> else st) in
          if runtime then st\<lparr>su_notes := su_notes st @ [SessionEnded (si_session_id s)]\<rparr> else st)"

text \<open>The whole of \<open>setup\<close>: the state it leaves, and what it returns if it has come to an end.\<close>

definition setup_run ::
  "('s, 'c) crypto \<Rightarrow> ('g, 'e) gss \<Rightarrow> connection_info \<Rightarrow> setup_kind \<Rightarrow> u32 \<Rightarrow> 'e turn \<Rightarrow> 'e turn list \<Rightarrow> 'g \<Rightarrow> ('s, 'c) setup_state \<Rightarrow>
     ('s, 'c) setup_state \<times> ('e setup_error + 'c session_info \<times> 's channel_info option) option" where
  "setup_run cr mech info kind cid fin turns g st =
     (case setup_loop cr mech info kind cid fin turns g st of
        (st, None) \<Rightarrow> (st, None)
      | (st, Some (Some e)) \<Rightarrow> (error_cleanup kind (tn_runtime fin) st, Some (Inl e))
      | (st, Some None) \<Rightarrow>
          (st, Some (case su_session st of None \<Rightarrow> Inl ResultMissing | Some s \<Rightarrow> Inr (s, su_channel st))))"

section \<open>A new session\<close>

text \<open>The key material of a finished setup.\<close>

definition keyed ::
  "('s, 'c) crypto \<Rightarrow> ('g, 'e) gss \<Rightarrow> connection_info \<Rightarrow> u32 \<Rightarrow> 's channel_info option \<Rightarrow> bool" where
  "keyed cr mech info cid ch \<longleftrightarrow> (\<exists>g key h c. g_key mech g = Inr key \<and> channel_new cr cid key h info = Inr c \<and> ch = Some c)"

lemma keyedI: "g_key mech g = Inr key \<Longrightarrow> channel_new cr cid key h info = Inr c \<Longrightarrow> keyed cr mech info cid (Some c)"
  by (auto simp: keyed_def)

text \<open>Between two turns of a new session there is no key yet.\<close>

definition unkeyed :: "'e turn list \<Rightarrow> ('s, 'c) setup_state \<Rightarrow> bool" where
  "unkeyed turns st \<longleftrightarrow> su_channel st = None \<and>
     (case su_session st of
        None \<Rightarrow> su_flags st = None \<and> su_notes st = []
      | Some s \<Rightarrow> si_state s = SessionInitial \<and> su_notes st = [SessionStarted (si_session_id s)] \<and>
          (\<exists>flags t r b. su_flags st = Some flags \<and> t \<in> set turns \<and> tn_reply t = Reply r (Some (flags, b)) \<and>
            hd_status (wr_header r) = status_more_processing))"

definition own_notes :: "('s, 'c) setup_state \<Rightarrow> bool" where
  "own_notes st \<longleftrightarrow> su_notes st = (case su_session st of None \<Rightarrow> [] | Some s \<Rightarrow> [SessionStarted (si_session_id s)])"

lemma unkeyed_own_notes: "unkeyed turns st \<Longrightarrow> own_notes st"
  by (auto simp: unkeyed_def own_notes_def split: option.splits)

lemma session_setup_fields:
  "session_setup cr key h info s = Inr s' \<Longrightarrow>
     si_session_id s' = si_session_id s \<and> (\<exists>algos allow. si_state s' = SettingUp algos allow \<and> algos_typed info algos)"
  by (auto simp: session_setup_def new_session_algos_typed split: if_splits sum.splits)

lemma key_exchange_fields:
  assumes "on_session_key_exchanged cr mech info kind t g st = (st', r)"
  shows "su_flags st' = su_flags st \<and> su_notes st' = su_notes st \<and> su_requests st' = su_requests st \<and> su_channel st' = su_channel st \<and>
    map_option si_session_id (su_session st') = map_option si_session_id (su_session st) \<and>
    (kind = BindChannel \<longrightarrow> st' = st \<and> r = None) \<and>
    (kind = NewSession \<longrightarrow> r = None \<longrightarrow>
      (\<exists>s algos allow. su_session st' = Some s \<and> si_state s = SettingUp algos allow \<and> algos_typed info algos))"
  using assms by (auto simp: on_session_key_exchanged_def split: if_splits sum.splits option.splits dest!: session_setup_fields)

lemma make_channel_fields:
  assumes "make_channel cr mech info kind cid t g st = (st', r)"
  shows "su_flags st' = su_flags st \<and> su_notes st' = su_notes st \<and> su_requests st' = su_requests st \<and>
    map_option si_session_id (su_session st') = map_option si_session_id (su_session st) \<and>
    (kind = BindChannel \<longrightarrow> su_session st' = su_session st) \<and>
    (r = None \<longrightarrow> su_session st' \<noteq> None \<and> keyed cr mech info cid (su_channel st') \<and>
      (kind = NewSession \<longrightarrow>
        (\<exists>s algos allow. su_session st' = Some s \<and> si_state s = SettingUp algos allow \<and> algos_typed info algos)))"
proof -
  obtain st1 r1 where ex: "on_session_key_exchanged cr mech info kind t g st = (st1, r1)"
    by (cases "on_session_key_exchanged cr mech info kind t g st") auto
  show ?thesis
  proof (cases r1)
    case (Some e)
    with assms ex key_exchange_fields [OF ex] show ?thesis by (auto simp: make_channel_def)
  next
    case None
    note fields = key_exchange_fields [OF ex]
    from None assms ex show ?thesis
      using fields by (auto simp: make_channel_def intro: keyedI split: if_splits sum.splits option.splits)
  qed
qed

lemma set_session_fields:
  assumes "set_session t s st = (st', r)"
  shows "su_flags st' = su_flags st \<and> su_requests st' = su_requests st \<and>
    (case r of Some _ \<Rightarrow> st' = st
     | None \<Rightarrow> su_session st' = Some s \<and> su_channel st' = None \<and> su_notes st' = su_notes st @ [SessionStarted (si_session_id s)])"
  using assms by (auto simp: set_session_def split: if_splits option.splits)

lemma intermediate_fields:
  "send_intermediate_setup_request t q st = (st', r) \<Longrightarrow>
     su_flags st' = su_flags st \<and> su_notes st' = su_notes st \<and> su_session st' = su_session st \<and> su_channel st' = su_channel st"
  by (auto simp: send_intermediate_setup_request_def Let_def split: option.splits)

lemma final_fields:
  assumes "send_final_setup_request cr mech info kind cid t g q st = (st', r)"
  shows "su_flags st' = su_flags st \<and> su_notes st' = su_notes st \<and>
    map_option si_session_id (su_session st') = map_option si_session_id (su_session st) \<and>
    (kind = BindChannel \<longrightarrow> su_session st' = su_session st) \<and>
    (r = None \<longrightarrow> su_session st \<noteq> None \<and> keyed cr mech info cid (su_channel st') \<and>
      (kind = NewSession \<longrightarrow>
        (\<exists>s algos allow. su_session st' = Some s \<and> si_state s = SettingUp algos allow \<and> algos_typed info algos)))"
  using assms
  by (auto simp: send_final_setup_request_def split: option.splits sum.splits if_splits dest!: make_channel_fields)

definition accepted_final :: "'e turn list \<Rightarrow> u64 \<Rightarrow> session_flags \<Rightarrow> bool" where
  "accepted_final turns i flags \<longleftrightarrow>
     (\<exists>t \<in> set turns. \<exists>r b. tn_reply t = Reply r (Some (flags, b)) \<and> hd_status (wr_header r) = status_success \<and>
        hd_session_id (wr_header r) = i \<and> (is_guest_or_null_session flags \<or> signed_or_encrypted (wr_form r)))"

definition accepted_intermediate :: "'e turn list \<Rightarrow> session_flags \<Rightarrow> bool" where
  "accepted_intermediate turns flags \<longleftrightarrow>
     (\<exists>t \<in> set turns. \<exists>r b. tn_reply t = Reply r (Some (flags, b)) \<and> hd_status (wr_header r) = status_more_processing)"

definition completes_silently :: "('g, 'e) gss \<Rightarrow> bool" where
  "completes_silently mech \<longleftrightarrow> (\<exists>g x g'. g_next mech g x = Inr ([], g') \<and> g_authenticated mech g' = Inr True)"

definition finalized ::
  "('s, 'c) crypto \<Rightarrow> ('g, 'e) gss \<Rightarrow> connection_info \<Rightarrow> u32 \<Rightarrow> 'e turn list \<Rightarrow> ('s, 'c) setup_state \<Rightarrow> bool" where
  "finalized cr mech info cid turns st \<longleftrightarrow> own_notes st \<and> keyed cr mech info cid (su_channel st) \<and>
     (\<exists>s algos allow flags. su_session st = Some s \<and> si_state s = SettingUp algos allow \<and> algos_typed info algos \<and>
        su_flags st = Some flags \<and> accepted_final turns (si_session_id s) flags)"

lemma verified_session_id:
  "verify_incoming conn i s r = Inr u \<Longrightarrow> hd_session_id (wr_header r) = i"
  by (auto simp: verify_incoming_def split: option.splits if_splits sum.splits bool.splits)

lemma received_reply:
  assumes "receive_setup_response info kind auth final t st = Inr (r, c)"
  shows "tn_reply t = Reply r c \<and> hd_status (wr_header r) = (if final then status_success else status_more_processing) \<and>
    (su_channel st \<noteq> None \<longrightarrow> (\<exists>s. su_session st = Some s \<and> hd_session_id (wr_header r) = si_session_id s \<and>
      verify_incoming (Some info) (si_session_id s) s r = Inr ()))"
  using assms
  by (auto simp: receive_setup_response_def verify_setup_reply_def Let_def verified_session_id
      split: setup_reply.splits if_splits option.splits sum.splits)

lemma unkeyed_own: "unkeyed turns st \<longleftrightarrow>
  su_channel st = None \<and> own_notes st \<and>
  (case su_session st of None \<Rightarrow> su_flags st = None
   | Some s \<Rightarrow> si_state s = SessionInitial \<and> (\<exists>flags. su_flags st = Some flags \<and> accepted_intermediate turns flags))"
  by (auto simp: unkeyed_def own_notes_def accepted_intermediate_def split: option.splits)

lemma own_notes_cong:
  "own_notes st \<Longrightarrow> su_notes st' = su_notes st \<Longrightarrow> map_option si_session_id (su_session st') = map_option si_session_id (su_session st) \<Longrightarrow>
     own_notes st'"
  by (auto simp: own_notes_def split: option.splits)

lemma make_request_token [simp]: "sr_token (make_request info kind token) = token"
  by (simp add: make_request_def)

text \<open>What a turn does to the state, by the branch it takes.\<close>

lemma turn_cases:
  assumes "setup_turn cr mech info kind cid t g st = (g', st', res)"
  obtains (stopped) e where "res = Stop e"
  | (silent) "res = Leave" "st' = st" "completes_silently mech"
  | (replied) final auth q st1 st2 r flags b where
      "(if final then send_final_setup_request cr mech info kind cid t g' q st
        else send_intermediate_setup_request t q st) = (st1, None)"
      "receive_setup_response info kind auth final t st1 = Inr (r, Some (flags, b))"
      "(if su_session st1 \<noteq> None then (st1, None)
        else if kind = BindChannel then (st1, Some SetupPanic)
        else set_session t (session_new (hd_session_id (wr_header r))) st1) = (st2, None)"
      "final \<longrightarrow> is_guest_or_null_session flags \<or> signed_or_encrypted (wr_form r)"
      "st' = st2\<lparr>su_flags := Some flags, su_last_token := Some b\<rparr>" "res = (if final then Leave else Continue)"
      "q = make_request info kind (sr_token q)" "final \<or> g_authenticated mech g' = Inr False"
proof (cases "g_next mech g (case su_last_token st of Some b \<Rightarrow> b | None \<Rightarrow> [])")
  case (Inl e)
  with assms show thesis by (intro stopped) (auto simp: setup_turn_def)
next
  case (Inr p)
  then obtain token g1 where n: "g_next mech g (case su_last_token st of Some b \<Rightarrow> b | None \<Rightarrow> []) = Inr (token, g1)"
    by (cases p) auto
  note a = assms [unfolded setup_turn_def n sum.case prod.case]
  show thesis
  proof (cases "g_authenticated mech g1")
    case (Inl e)
    with a show thesis by (intro stopped) auto
  next
    case (Inr auth)
    let ?final = "auth \<or> (case g_key mech g1 of Inr _ \<Rightarrow> True | Inl _ \<Rightarrow> False)" and ?q = "make_request info kind token"
    note a = a [unfolded Inr sum.case Let_def]
    show thesis
    proof (cases "auth \<and> token = []")
      case True
      with a n Inr show thesis by (intro silent) (auto simp: completes_silently_def)
    next
      case False
      obtain st1 r1 where send: "(if ?final then send_final_setup_request cr mech info kind cid t g1 ?q st
          else send_intermediate_setup_request t ?q st) = (st1, r1)" by (meson surj_pair)
      note a = a [unfolded if_not_P [OF False] send prod.case]
      show thesis
      proof (cases r1)
        case (Some e)
        with a show thesis by (intro stopped) auto
      next
        case None
        note a = a [unfolded None option.case]
        show thesis
        proof (cases "receive_setup_response info kind auth ?final t st1")
          case (Inl e)
          with a show thesis by (intro stopped) auto
        next
          case (Inr rc)
          then obtain r c where rc: "receive_setup_response info kind auth ?final t st1 = Inr (r, c)" by (cases rc) auto
          note a = a [unfolded rc sum.case prod.case]
          show thesis
          proof (cases c)
            case c: None
            with a show thesis by (intro stopped) auto
          next
            case (Some fb)
            then obtain flags b where c: "c = Some (flags, b)" by (cases fb) auto
            obtain st2 r2 where start: "(if su_session st1 \<noteq> None then (st1, None)
                else if kind = BindChannel then (st1, Some SetupPanic)
                else set_session t (session_new (hd_session_id (wr_header r))) st1) = (st2, r2)" by (meson surj_pair)
            note a = a [unfolded c option.case prod.case start]
            show thesis
            proof (cases "r2 = None \<and> (?final \<longrightarrow> is_guest_or_null_session flags \<or> signed_or_encrypted (wr_form r))")
              case False
              with a show thesis by (cases r2) (auto intro: stopped)
            next
              case True
              with a have eqs: "g' = g1" "st' = st2\<lparr>su_flags := Some flags, su_last_token := Some b\<rparr>"
                "res = (if ?final then Leave else Continue)" by (auto split: if_splits)
              show thesis
                by (rule replied [unfolded eqs(1), of ?final ?q st1 auth r flags b st2])
                  (use True send None rc c start eqs \<open>g_authenticated mech g1 = Inr auth\<close> in \<open>(simp_all split del: if_split, blast)\<close>)
            qed
          qed
        qed
      qed
    qed
  qed
qed

lemma turn_preserves:
  assumes turn: "setup_turn cr mech info kind cid t g st = (g', st', res)" and start: "P st"
    and final: "\<And>g token st1 r. send_final_setup_request cr mech info kind cid t g (make_request info kind token) st = (st1, r) \<Longrightarrow> P st1"
    and inter: "\<And>token st1 r. send_intermediate_setup_request t (make_request info kind token) st = (st1, r) \<Longrightarrow> P st1"
    and started: "\<And>s st1 st2 r. P st1 \<Longrightarrow> su_session st1 = None \<Longrightarrow> set_session t s st1 = (st2, r) \<Longrightarrow> P st2"
    and fields: "\<And>st1 flags b. P st1 \<Longrightarrow> P (st1\<lparr>su_flags := Some flags, su_last_token := Some b\<rparr>)"
  shows "P st'"
  using turn start
  by (auto simp: setup_turn_def Let_def split: sum.splits prod.splits option.splits if_splits
      dest: final inter started intro: fields) (metis final inter)+

lemma turn_own_notes:
  assumes "setup_turn cr mech info kind cid t g st = (g', st', res)" and own: "own_notes st"
  shows "own_notes st'"
proof (rule turn_preserves [where P = own_notes, OF assms])
  fix g token st1 r
  assume "send_final_setup_request cr mech info kind cid t g (make_request info kind token) st = (st1, r)"
  with own_notes_cong [OF own] show "own_notes st1" by (auto dest: final_fields)
next
  fix token st1 r
  assume "send_intermediate_setup_request t (make_request info kind token) st = (st1, r)"
  from own_notes_cong [OF own, of st1] intermediate_fields [OF this] show "own_notes st1" by simp
next
  fix s st1 st2 r
  assume "own_notes st1" "su_session st1 = None" "set_session t s st1 = (st2, r)"
  then show "own_notes st2" by (auto simp: own_notes_def dest: set_session_fields split: option.splits)
qed (simp add: own_notes_def)

lemma turn_new:
  assumes inv: "unkeyed turns st" and t: "t \<in> set turns"
    and turn: "setup_turn cr mech info NewSession cid t g st = (g', st', res)"
  shows "case res of Continue \<Rightarrow> unkeyed turns st' \<and> g_authenticated mech g' = Inr False
    | Leave \<Rightarrow> unkeyed turns st' \<and> completes_silently mech \<or> finalized cr mech info cid turns st'
    | Stop _ \<Rightarrow> True"
  using turn
proof (cases rule: turn_cases)
  case (replied final auth q st1 st2 r flags b)
  have own: "own_notes st'" using turn_own_notes [OF turn] inv by (simp add: unkeyed_own)
  note reply = received_reply [OF replied(2)]
  show ?thesis
  proof (cases final)
    case True
    note sent = final_fields [OF replied(1) [unfolded if_P [OF True]], simplified]
    then obtain s algos allow where s: "su_session st1 = Some s" "si_state s = SettingUp algos allow" "algos_typed info algos"
      and ch: "keyed cr mech info cid (su_channel st1)" by auto
    from ch have "su_channel st1 \<noteq> None" by (auto simp: keyed_def)
    with reply s have "accepted_final turns (si_session_id s) flags"
      using t replied(4) True by (auto simp: accepted_final_def intro!: bexI [of _ t])
    with s ch own replied True show ?thesis by (auto simp: finalized_def)
  next
    case False
    note sent = intermediate_fields [OF replied(1) [unfolded if_not_P [OF False]]]
    have "accepted_intermediate turns flags"
      using reply t False by (auto simp: accepted_intermediate_def intro!: bexI [of _ t])
    moreover have "su_channel st2 = None \<and> (\<exists>s. su_session st2 = Some s \<and> si_state s = SessionInitial)"
    proof (cases "su_session st1")
      case None
      with replied(3) have "set_session t (session_new (hd_session_id (wr_header r))) st1 = (st2, None)" by simp
      from set_session_fields [OF this] show ?thesis by (simp add: session_new_def)
    next
      case (Some s)
      with replied(3) have "st2 = st1" by simp
      with Some sent inv show ?thesis by (simp add: unkeyed_own)
    qed
    ultimately show ?thesis using own replied False by (auto simp: unkeyed_own)
  qed
qed (use inv in simp_all)

lemma session_ready_typed:
  assumes "si_state s = SettingUp algos allow" "algos_typed info algos" "session_ready flags info s = Inr s'"
  shows "\<exists>force signing. si_state s' = SessionReady algos flags force signing \<and> session_typed info (si_state s') \<and>
    si_session_id s' = si_session_id s"
  using assms by (auto simp: session_ready_def algos_typed_def split: if_splits)

lemma finish_new:
  assumes "setup_finish cr mech info NewSession cid t g st = (st', r)" and st: "unkeyed turns st \<or> finalized cr mech info cid turns st"
  shows "own_notes st' \<and> (r = None \<longrightarrow> keyed cr mech info cid (su_channel st') \<and>
    (\<exists>s algos flags force signing. su_session st' = Some s \<and> si_state s = SessionReady algos flags force signing \<and>
      session_typed info (si_state s) \<and> su_flags st' = Some flags \<and>
      (if unkeyed turns st then accepted_intermediate turns flags else accepted_final turns (si_session_id s) flags)))"
proof (cases "su_flags st")
  case None
  with assms show ?thesis by (auto simp: setup_finish_def finalized_def unkeyed_own)
next
  case (Some flags)
  obtain st1 r1 where mk: "(if su_session st \<noteq> None \<and> su_channel st = None
      then make_channel cr mech info NewSession cid t g st else (st, None)) = (st1, r1)" by (meson surj_pair)
  have own: "own_notes st" using st by (auto simp: finalized_def unkeyed_own)
  have fields: "su_flags st1 = Some flags \<and> own_notes st1 \<and>
    map_option si_session_id (su_session st1) = map_option si_session_id (su_session st)"
    using mk Some own own_notes_cong [OF own, of st1] by (auto split: if_splits dest!: make_channel_fields)
  have keyed: "keyed cr mech info cid (su_channel st1) \<and>
      (\<exists>s algos allow. su_session st1 = Some s \<and> si_state s = SettingUp algos allow \<and> algos_typed info algos)" if "r1 = None"
    using st
  proof
    assume "unkeyed turns st"
    with Some mk that show ?thesis by (auto simp: unkeyed_own split: option.splits dest!: make_channel_fields)
  next
    assume f: "finalized cr mech info cid turns st"
    then have "su_channel st \<noteq> None" by (auto simp: finalized_def keyed_def)
    with f mk that show ?thesis by (auto simp: finalized_def)
  qed
  note fin = assms(1) [unfolded setup_finish_def Some option.case mk prod.case]
  show ?thesis
  proof (cases r1)
    case (Some e)
    with fin fields show ?thesis by auto
  next
    case None
    with keyed obtain s algos allow where k: "keyed cr mech info cid (su_channel st1)" and s: "su_session st1 = Some s"
      "si_state s = SettingUp algos allow" "algos_typed info algos" by auto
    show ?thesis
    proof (cases "session_ready flags info s")
      case (Inl e)
      with fin fields s None show ?thesis by auto
    next
      case (Inr s')
      then obtain force signing where s': "si_state s' = SessionReady algos flags force signing" "session_typed info (si_state s')"
        "si_session_id s' = si_session_id s" using session_ready_typed [OF s(2,3)] by blast
      from fin s Inr None have st': "st' = st1\<lparr>su_session := Some s'\<rparr>" "r = None" by auto
      have "if unkeyed turns st then accepted_intermediate turns flags else accepted_final turns (si_session_id s') flags"
        using st Some fields s s' by (auto simp: unkeyed_own finalized_def split: option.splits)
      moreover have "own_notes st'" using own_notes_cong [of st1 st'] fields s s' by (simp add: st')
      ultimately show ?thesis using fields k s' by (auto simp: st')
    qed
  qed
qed

lemma loop_new:
  assumes "unkeyed turns st" "set ts \<subseteq> set turns" "su_flags st = None \<or> g_authenticated mech g = Inr False"
    and "setup_loop cr mech info NewSession cid fin ts g st = (st', r)"
  shows "own_notes st' \<and> (r = None \<longrightarrow> unkeyed turns st') \<and> (r = Some None \<longrightarrow> keyed cr mech info cid (su_channel st') \<and>
    (\<exists>s algos flags force signing. su_session st' = Some s \<and> si_state s = SessionReady algos flags force signing \<and>
      session_typed info (si_state s) \<and> su_flags st' = Some flags \<and>
      (accepted_final turns (si_session_id s) flags \<or> accepted_intermediate turns flags \<and> completes_silently mech)))"
  using assms
proof (induction ts arbitrary: g st)
  case Nil
  have "own_notes st" using Nil by (simp add: unkeyed_own)
  with Nil show ?case
    by (auto simp: setup_loop.simps setup_finish_def split: sum.splits bool.splits)
next
  case (Cons t ts)
  have own: "own_notes st" using Cons.prems by (simp add: unkeyed_own)
  show ?case
  proof (cases "g_authenticated mech g = Inr False")
    case False
    with Cons.prems own show ?thesis
      by (auto simp: setup_loop.simps [of _ _ _ _ _ _ "t # ts"] setup_finish_def split: sum.splits bool.splits)
  next
    case True
    obtain g1 st1 res where turn: "setup_turn cr mech info NewSession cid t g st = (g1, st1, res)" by (metis prod_cases3)
    have t: "t \<in> set turns" "set ts \<subseteq> set turns" using Cons.prems by auto
    note new = turn_new [OF Cons.prems(1) t(1) turn] and loop = Cons.prems(4) [unfolded setup_loop.simps [of _ _ _ _ _ _ "t # ts"] True sum.case
      bool.case list.case turn prod.case]
    show ?thesis
    proof (cases res)
      case Continue
      with new loop show ?thesis by (intro Cons.IH) (auto simp: t)
    next
      case Leave
      obtain st2 r2 where f: "setup_finish cr mech info NewSession cid fin g1 st1 = (st2, r2)" by (meson surj_pair)
      from Leave new have "unkeyed turns st1 \<or> finalized cr mech info cid turns st1" by auto
      note finish_new [OF f this]
      moreover have "unkeyed turns st1 \<longrightarrow> completes_silently mech"
        using Leave new by (auto simp: unkeyed_own finalized_def keyed_def)
      ultimately show ?thesis using loop Leave f by (auto split: if_splits)
    next
      case (Stop e)
      with loop turn_own_notes [OF turn own] show ?thesis by auto
    qed
  qed
qed

text \<open>
  C10. A new session becomes ready only as its policy admits, with a channel whose key the
  mechanism gave, and only after a final reply of the server for this session, successful, signed
  or encrypted unless it makes the session a guest, or, if the mechanism can complete without a
  token to send, after an intermediate reply. It is started with the runtime exactly once. A setup
  that fails leaves its session invalid, and has it ended once with the runtime, whatever the
  step that failed; a setup that has not come to an end is not ready.
\<close>

theorem new_session_is_authenticated:
  assumes run: "setup_run cr mech info NewSession cid fin turns g setup_empty = (st, result)"
  shows "case result of
      Some (Inr (s, ch)) \<Rightarrow> keyed cr mech info cid ch \<and> su_notes st = [SessionStarted (si_session_id s)] \<and>
        (\<exists>algos flags force signing. si_state s = SessionReady algos flags force signing \<and> session_typed info (si_state s) \<and>
          (accepted_final turns (si_session_id s) flags \<or> accepted_intermediate turns flags \<and> completes_silently mech))
    | Some (Inl e) \<Rightarrow> (case su_session st of None \<Rightarrow> su_notes st = []
        | Some s \<Rightarrow> si_state s = SessionInvalid \<and>
            su_notes st = SessionStarted (si_session_id s) # (if tn_runtime fin then [SessionEnded (si_session_id s)] else []))
    | None \<Rightarrow> (case su_session st of None \<Rightarrow> su_notes st = []
        | Some s \<Rightarrow> \<not> is_ready s \<and> su_notes st = [SessionStarted (si_session_id s)])"
proof -
  obtain st1 r where loop: "setup_loop cr mech info NewSession cid fin turns g setup_empty = (st1, r)" by (meson surj_pair)
  have "unkeyed turns setup_empty" "su_flags setup_empty = None"
    by (simp_all add: unkeyed_own own_notes_def setup_empty_def)
  note out = loop_new [OF this(1) subset_refl disjI1 [OF this(2)] loop]
  note run = run [unfolded setup_run_def loop prod.case, symmetric]
  show ?thesis
  proof (cases r)
    case None
    with run out show ?thesis
      by (auto simp: unkeyed_own own_notes_def is_ready_def split: option.splits session_info_state.splits)
  next
    case (Some outcome)
    show ?thesis
    proof (cases outcome)
      case None
      with Some run out show ?thesis by (auto simp: own_notes_def)
    next
      case (Some e)
      with \<open>r = Some outcome\<close> run out show ?thesis
        by (auto simp: error_cleanup_def own_notes_def invalidate_def Let_def split: option.splits)
    qed
  qed
qed

section \<open>Binding a channel\<close>

definition bind_inv :: "'c session_info \<Rightarrow> ('s, 'c) setup_state \<Rightarrow> bool" where
  "bind_inv s st \<longleftrightarrow> su_session st = Some s \<and> su_notes st = [SessionStarted (si_session_id s)] \<and>
     list_all (\<lambda>q. sr_binding q \<and> sr_session_id q = si_session_id s) (su_requests st)"

lemma final_requests:
  assumes "send_final_setup_request cr mech info kind cid t g (make_request info kind token) st = (st', r)" "su_session st = Some s"
  shows "(r \<noteq> None \<and> su_requests st' = su_requests st) \<or>
    (\<exists>q. su_requests st' = su_requests st @ [q] \<and> sr_session_id q = si_session_id s \<and> sr_binding q = (kind = BindChannel) \<and>
      sr_token q = token \<and> (kind = BindChannel \<longrightarrow> sr_signed q \<and> (\<exists>key. g_key mech g = Inr key \<and> sr_protection q = SnapshotKdfSign key)))"
  using assms
  by (auto simp: send_final_setup_request_def make_request_def split: option.splits sum.splits if_splits dest!: make_channel_fields)

lemma intermediate_requests:
  assumes "send_intermediate_setup_request t (make_request info kind token) st = (st', r)" "su_session st = Some s"
  shows "su_requests st' = su_requests st \<or>
    (\<exists>q. su_requests st' = su_requests st @ [q] \<and> sr_session_id q = si_session_id s \<and> sr_binding q = (kind = BindChannel))"
  using assms by (auto simp: send_intermediate_setup_request_def make_request_def Let_def split: option.splits)

lemma turn_bind_inv:
  assumes "setup_turn cr mech info BindChannel cid t g st = (g', st', res)" and inv: "bind_inv s st"
  shows "bind_inv s st'"
proof (rule turn_preserves [where P = "bind_inv s", OF assms])
  fix g token st1 r
  assume f: "send_final_setup_request cr mech info BindChannel cid t g (make_request info BindChannel token) st = (st1, r)"
  from final_fields [OF f] final_requests [OF f] inv show "bind_inv s st1" by (auto simp: bind_inv_def)
next
  fix token st1 r
  assume f: "send_intermediate_setup_request t (make_request info BindChannel token) st = (st1, r)"
  from intermediate_fields [OF f] intermediate_requests [OF f] inv show "bind_inv s st1" by (auto simp: bind_inv_def)
qed (auto simp: bind_inv_def)

definition bound ::
  "('s, 'c) crypto \<Rightarrow> ('g, 'e) gss \<Rightarrow> connection_info \<Rightarrow> u32 \<Rightarrow> 'e turn list \<Rightarrow> u64 \<Rightarrow> ('s, 'c) setup_state \<Rightarrow> bool" where
  "bound cr mech info cid turns i st \<longleftrightarrow> keyed cr mech info cid (su_channel st) \<and>
     (\<exists>flags. su_flags st = Some flags \<and> accepted_final turns i flags) \<and>
     (\<exists>qs q g key. su_requests st = qs @ [q] \<and> sr_signed q \<and> g_key mech g = Inr key \<and> sr_protection q = SnapshotKdfSign key)"

lemma turn_bind:
  assumes inv: "bind_inv s st" "su_channel st = Some ch" and t: "t \<in> set turns"
    and turn: "setup_turn cr mech info BindChannel cid t g st = (g', st', res)"
  shows "case res of Continue \<Rightarrow> su_channel st' = Some ch \<and> g_authenticated mech g' = Inr False
    | Leave \<Rightarrow> su_channel st' = Some ch \<and> completes_silently mech \<or> bound cr mech info cid turns (si_session_id s) st'
    | Stop _ \<Rightarrow> True"
  using turn
proof (cases rule: turn_cases)
  case (replied final auth q st1 st2 r flags b)
  have s: "su_session st = Some s" using inv by (simp add: bind_inv_def)
  note reply = received_reply [OF replied(2)]
  show ?thesis
  proof (cases final)
    case True
    note f = replied(1) [unfolded if_P [OF True]]
    from final_fields [OF f] s have k: "keyed cr mech info cid (su_channel st1)" and s1: "su_session st1 = Some s" by auto
    from k have "su_channel st1 \<noteq> None" by (auto simp: keyed_def)
    with reply s1 have acc: "accepted_final turns (si_session_id s) flags"
      using t replied(4) True by (auto simp: accepted_final_def intro!: bexI [of _ t])
    from replied(3) s1 have "st2 = st1" by simp
    moreover have "\<exists>qs q g key. su_requests st1 = qs @ [q] \<and> sr_signed q \<and> g_key mech g = Inr key \<and> sr_protection q = SnapshotKdfSign key"
    proof -
      from replied(7) obtain token where "q = make_request info BindChannel token" by blast
      from final_requests [OF f [unfolded this] s] show ?thesis by auto
    qed
    ultimately have "bound cr mech info cid turns (si_session_id s) st'"
      using acc k replied(5) by (simp add: bound_def)
    with True replied show ?thesis by simp
  next
    case False
    from intermediate_fields [OF replied(1) [unfolded if_not_P [OF False]]] s inv have "su_session st1 = Some s" "su_channel st1 = Some ch" by auto
    with replied False show ?thesis by auto
  qed
qed (use inv in simp_all)

lemma loop_bind:
  assumes "bind_inv s st" "su_channel st = Some ch" "set ts \<subseteq> set turns" "su_flags st = None \<or> g_authenticated mech g = Inr False"
    and "setup_loop cr mech info BindChannel cid fin ts g st = (st', r)"
  shows "bind_inv s st' \<and> (r = Some None \<longrightarrow>
    su_channel st' = Some ch \<and> completes_silently mech \<or> bound cr mech info cid turns (si_session_id s) st')"
  using assms
proof (induction ts arbitrary: g st)
  case Nil
  then show ?case
    by (auto simp: setup_loop.simps setup_finish_def split: sum.splits bool.splits)
next
  case (Cons t ts)
  show ?case
  proof (cases "g_authenticated mech g = Inr False")
    case False
    with Cons.prems show ?thesis
      by (auto simp: setup_loop.simps [of _ _ _ _ _ _ "t # ts"] setup_finish_def split: sum.splits bool.splits)
  next
    case True
    obtain g1 st1 res where turn: "setup_turn cr mech info BindChannel cid t g st = (g1, st1, res)" by (metis prod_cases3)
    have t: "t \<in> set turns" "set ts \<subseteq> set turns" using Cons.prems by auto
    note new = turn_bind [OF Cons.prems(1,2) t(1) turn] and inv = turn_bind_inv [OF turn Cons.prems(1)]
      and loop = Cons.prems(5) [unfolded setup_loop.simps [of _ _ _ _ _ _ "t # ts"] True sum.case bool.case list.case turn prod.case]
    show ?thesis
    proof (cases res)
      case Continue
      with new loop inv show ?thesis by (intro Cons.IH) (auto simp: t)
    next
      case Leave
      then have "su_channel st1 \<noteq> None" using new by (auto simp: bound_def keyed_def)
      then have f: "setup_finish cr mech info BindChannel cid fin g1 st1 =
          (st1, if su_flags st1 = None then Some AuthenticationIncomplete else None)"
        by (auto simp: setup_finish_def split: option.splits)
      from loop Leave f inv new show ?thesis by (auto split: if_splits)
    next
      case (Stop e)
      with loop inv show ?thesis by auto
    qed
  qed
qed

text \<open>
  C16. Binding a channel leaves the session it is bound to as it was, whether it succeeds or
  fails, and tells the runtime of its start once and, if it fails, of its end once. Every request
  carries the binding flag and the identifier of the session. It succeeds only with the channel
  whose key the mechanism gave, after a last request signed with that key and a final reply for
  this session, successful, signed or encrypted unless it names a guest, or, if the mechanism can
  complete without a token to send, with the channel it was given.
\<close>

theorem bound_channel_leaves_session:
  assumes start: "with_gss t0 (Some (s0, ch0)) = Inr st0"
    and run: "setup_run cr mech info BindChannel cid fin turns g st0 = (st, result)"
  shows "su_session st = Some s0 \<and>
    list_all (\<lambda>q. sr_binding q \<and> sr_session_id q = si_session_id s0) (su_requests st) \<and>
    su_notes st = SessionStarted (si_session_id s0) #
      (case result of Some (Inl _) \<Rightarrow> if tn_runtime fin then [SessionEnded (si_session_id s0)] else [] | _ \<Rightarrow> []) \<and>
    (case result of Some (Inr (s, ch)) \<Rightarrow> s = s0 \<and> ch = su_channel st \<and>
        (bound cr mech info cid turns (si_session_id s0) st \<or>
         ch = Some (ch0\<lparr>chan_binding := True\<rparr>) \<and> completes_silently mech)
     | _ \<Rightarrow> True)"
proof -
  obtain st1 r where loop: "setup_loop cr mech info BindChannel cid fin turns g st0 = (st1, r)" by (meson surj_pair)
  have "bind_inv s0 st0" "su_channel st0 = Some (ch0\<lparr>chan_binding := True\<rparr>)" "su_flags st0 = None"
    using start by (auto simp: with_gss_def set_session_def setup_empty_def bind_inv_def split: if_splits option.splits)
  note out = loop_bind [OF this(1,2) subset_refl disjI1 [OF this(3)] loop]
  note run = run [unfolded setup_run_def loop prod.case]
  show ?thesis
  proof (cases r)
    case None
    with run out show ?thesis by (auto simp: bind_inv_def)
  next
    case (Some outcome)
    with run out show ?thesis
      by (cases outcome) (auto simp: bind_inv_def bound_def error_cleanup_def)
  qed
qed

section \<open>Sample exchanges\<close>

text \<open>
  A mechanism that takes two rounds and has its key after the second one, and one whose second
  round has nothing to send.
\<close>

definition sample_gss :: "bytes \<Rightarrow> (nat, unit) gss" where
  "sample_gss token = \<lparr>g_authenticated = (\<lambda>g. Inr (2 \<le> g)), g_next = (\<lambda>g x. Inr (if g = 0 then [1] else token, Suc g)),
     g_key = (\<lambda>g. if 2 \<le> g then Inr [1, 2] else Inl ())\<rparr>"

definition sample_turn :: "u32 \<Rightarrow> bool \<Rightarrow> bool \<Rightarrow> unit turn" where
  "sample_turn status sign enc =
     \<lparr>tn_prepare = None, tn_send = None, tn_runtime = True, tn_key_hash = Inr (Some [0]), tn_channel_hash = Inr (Some [0]), tn_started = None,
      tn_reply = Reply \<lparr>wr_header = sample_header\<lparr>hd_status := status\<rparr>, wr_raw = [],
        wr_form = \<lparr>form_compressed = False, form_encrypted = enc, form_signed = sign, form_recovery_hint = False\<rparr>\<rparr>
        (Some (sample_flags, [9]))\<rparr>"

definition sample_channel :: "bytes channel_info" where
  "sample_channel = \<lparr>chan_id = 0, chan_signer_algo = [1, 2], chan_valid = True, chan_binding = False\<rparr>"

definition sample_setup ::
  "bytes \<Rightarrow> unit turn list \<Rightarrow> (bytes, bytes) setup_state \<times> (unit setup_error + bytes session_info \<times> bytes channel_info option) option" where
  "sample_setup token turns =
     setup_run sample_crypto (sample_gss token) sample_info NewSession 1 (sample_turn 0 True True) turns 0 setup_empty"

lemmas sample_setup_defs = setup_run_def setup_loop.simps setup_turn_def setup_finish_def make_channel_def on_session_key_exchanged_def
  send_final_setup_request_def send_intermediate_setup_request_def receive_setup_response_def verify_setup_reply_def set_session_def
  make_request_def setup_empty_def sample_gss_def sample_turn_def status_success_def status_more_processing_def Let_def
  verify_incoming_def sample_header_def sample_info_def sample_crypto_def sample_flags_def signed_or_encrypted_def

lemmas sample_session_defs = session_new_def session_setup_def session_ready_def is_initial_def is_ready_def is_setting_up_def
  new_session_algos_def smb3xx_make_ciphers_def smb3xx_make_cipher_pair_def supports_encryption_def is_smb3_cases
  c2s_encrypt_key_derive_label_def s2c_encrypt_key_derive_label_def is_guest_or_null_session_def policy_required_def
  channel_new_def smb3xx_make_signer_def allow_unsigned_def requires_signing_def should_encrypt_def status_try_from_def status_codes_def
  get_signing_derive_label_def

lemma sample_gss_loud: "\<not> completes_silently (sample_gss [3])"
  by (auto simp: completes_silently_def sample_gss_def)

lemma sample_setup_runs:
  "\<exists>st s ch. sample_setup [3] [sample_turn status_more_processing False False, sample_turn status_success True False] =
       (st, Some (Inr (s, ch))) \<and>
     si_state s = SessionReady \<lparr>encryptor = Some [1, 2], decryptor = Some [1, 2]\<rparr> sample_flags True True"
  by (simp add: sample_setup_def sample_setup_defs sample_session_defs)

text \<open>
  The other way to leave the loop. If the second round of the mechanism has nothing to send, the
  session is ready, on a connection that demands signing and encryption, after a single reply
  that was neither signed nor encrypted.
\<close>

lemma silent_completion_is_unsigned:
  "\<exists>st s ch. sample_setup [] [sample_turn status_more_processing False False, sample_turn status_success True False] =
       (st, Some (Inr (s, ch))) \<and>
     si_state s = SessionReady \<lparr>encryptor = Some [1, 2], decryptor = Some [1, 2]\<rparr> sample_flags True True \<and>
     length (su_requests st) = 1"
  by (simp add: sample_setup_def sample_setup_defs sample_session_defs)

theorem new_session_is_authenticated_witness:
  "\<exists>st s ch algos flags force signing.
     sample_setup [3] [sample_turn status_more_processing False False, sample_turn status_success True False] =
       (st, Some (Inr (s, ch))) \<and> su_notes st = [SessionStarted (si_session_id s)] \<and>
     keyed sample_crypto (sample_gss [3]) sample_info 1 ch \<and> si_state s = SessionReady algos flags force signing \<and>
     accepted_final [sample_turn status_more_processing False False, sample_turn status_success True False] (si_session_id s) flags"
proof -
  from sample_setup_runs obtain st s ch where run:
    "sample_setup [3] [sample_turn status_more_processing False False, sample_turn status_success True False] = (st, Some (Inr (s, ch)))"
    by blast
  from new_session_is_authenticated [OF run [unfolded sample_setup_def]] sample_gss_loud run show ?thesis by auto
qed

lemma sample_session_id: "si_session_id sample_session = 7"
  by (simp add: sample_session_def session_life_def session_new_def session_setup_def session_ready_def is_initial_def
      new_session_algos_def smb3xx_make_ciphers_def smb3xx_make_cipher_pair_def sample_info_def sample_crypto_def
      supports_encryption_def is_smb3_cases c2s_encrypt_key_derive_label_def s2c_encrypt_key_derive_label_def
      sample_flags_def is_guest_or_null_session_def policy_required_def)

lemma sample_bind_runs:
  "\<exists>st0 st ch. with_gss (sample_turn 0 True True) (Some (sample_session, sample_channel)) = Inr st0 \<and>
     setup_run sample_crypto (sample_gss [3]) sample_info BindChannel 1 (sample_turn 0 True True)
       [sample_turn status_more_processing False True, sample_turn status_success False True] 0 st0 = (st, Some (Inr (sample_session, ch)))"
  by (simp add: with_gss_def sample_setup_defs sample_session_defs sample_session_id sample_session_ready sample_channel_def)

theorem bound_channel_leaves_session_witness:
  "\<exists>st0 st ch. with_gss (sample_turn 0 True True) (Some (sample_session, sample_channel)) = Inr st0 \<and>
     setup_run sample_crypto (sample_gss [3]) sample_info BindChannel 1 (sample_turn 0 True True)
       [sample_turn status_more_processing False True, sample_turn status_success False True] 0 st0 = (st, Some (Inr (sample_session, ch))) \<and>
     su_session st = Some sample_session \<and> su_notes st = [SessionStarted (si_session_id sample_session)] \<and>
     bound sample_crypto (sample_gss [3]) sample_info 1
       [sample_turn status_more_processing False True, sample_turn status_success False True] (si_session_id sample_session) st"
proof -
  from sample_bind_runs obtain st0 st ch where run: "with_gss (sample_turn 0 True True) (Some (sample_session, sample_channel)) = Inr st0"
    "setup_run sample_crypto (sample_gss [3]) sample_info BindChannel 1 (sample_turn 0 True True)
       [sample_turn status_more_processing False True, sample_turn status_success False True] 0 st0 = (st, Some (Inr (sample_session, ch)))"
    by blast
  from bound_channel_leaves_session [OF run] sample_gss_loud run show ?thesis by auto
qed

end
