(* ===== verification/Spec2Isabelle.thy ===== *)
theory Spec2Isabelle
  imports Generation_Contract Object_Contract Recovery_Driver Engine_Responses
    File_Transfer Domain_Operation Domain_Batch Domain_Cursor Wire_Contract
    Cmac_Batcher Encryption_Algorithms Transport Security_Policy Unc_Path Chained_List
    Directory_Stream Rpc_Pipe Session_Setup
begin

text \<open>
  A verification development of an SMB 2/3 client library written in Rust (the crates \<open>smb\<close>,
  \<open>smb-msg\<close>, \<open>smb-transport\<close>, \<open>smb-dtyp\<close>, \<open>smb-fscc\<close>, \<open>smb-rpc\<close>; paths below are relative to
  \<open>src/crates\<close>).

  \<^bold>\<open>The program.\<close> A connection lives through generations, one per transport connection. Each
  generation is owned by one task, the engine (\<open>smb/src/runtime/engine.rs\<close>). Callers submit typed
  operations; the engine admits them against a ledger of credits, message ids, bytes and slots
  (\<open>runtime/state.rs\<close>), has them prepared, writes them, matches responses and deadlines and
  answers each caller. Preparation runs through the wire pipeline (\<open>runtime/wire.rs\<close>): requests
  are laid out (\<open>smb-msg/wire_out.rs\<close>), then signed, compressed or encrypted as the session demands
  (\<open>session/*.rs\<close>, \<open>compression.rs\<close>, \<open>crypto\<close>), and the frame is handed to the transport
  (\<open>smb-transport\<close>); responses take the way back. When a generation is lost, the recovery driver
  (\<open>runtime/recovery_driver.rs\<close>) builds the next one, and the object registry
  (\<open>runtime/object_state.rs\<close>) decides which sessions, shares and files survive. On top are the
  domain interfaces: lazy operations, batches, the file cursor, the copy scheduler, the security
  of paths and RPC over pipes (\<open>domain\<close>), and the streams of a directory (\<open>resource/directory.rs\<close>).

  \<^bold>\<open>Theories and code.\<close>
  \<^item> \<open>Prelude\<close>: integer widths, checked and saturating arithmetic, hash maps as association lists,
    results, and the locales that say what a reducer promises (a step with an invariant or a
    measure, run over a list of events). \<open>Clock\<close>: \<open>clock.rs\<close>.
  \<^item> \<open>Reducer\<close>: \<open>runtime/reducer.rs\<close>, the life of one request. \<open>Deadline_Heap\<close>, \<open>Generation_State\<close>:
    \<open>runtime/state.rs\<close>, every handler of \<open>GenerationState\<close>. \<open>Generation_Ledger\<close>,
    \<open>Generation_Callers\<close>, \<open>Generation_Credits\<close> hold the invariants each handler keeps, and
    \<open>Generation_Contract\<close> what follows over any sequence of owner events.
  \<^item> \<open>Object_Registry\<close>, \<open>Object_Hierarchy\<close>, \<open>Object_Revocation\<close>, \<open>Object_Contract\<close>: the tokens of
    \<open>runtime/object_state.rs\<close>; \<open>Recovery_Queue\<close>: its queue of waits. \<open>Recovery\<close>:
    \<open>runtime/recovery.rs\<close>. \<open>Recovery_Driver\<close>: \<open>runtime/recovery_driver.rs\<close>.
  \<^item> \<open>Operation\<close>: \<open>runtime/operation.rs\<close>. \<open>Preparation_Order\<close>: \<open>runtime/preparation_order.rs\<close>.
    \<open>Engine_State\<close>, \<open>Engine_Admission\<close>, \<open>Engine\<close>: \<open>runtime/engine.rs\<close>, one definition per handler
    and one event per arm of the loop; \<open>Engine_Answers\<close>, \<open>Engine_Deliveries\<close>, \<open>Engine_Contract\<close>:
    what every schedule of the arms keeps; \<open>Engine_Responses\<close>: that a delivered result obeys the
    response policy of its operation.
  \<^item> \<open>Wire_Header\<close>, \<open>Wire_Out\<close>: \<open>smb-msg/header.rs\<close>, \<open>smb-msg/wire_out.rs\<close>. \<open>Dialects\<close>:
    \<open>dialects.rs\<close>, \<open>connection/preauth_hash.rs\<close> and the configuration. \<open>Session_State\<close>,
    \<open>Session_Channel\<close>: \<open>session/state.rs\<close>, \<open>session/channel.rs\<close>. \<open>Session_Setup\<close>:
    \<open>session/setup.rs\<close>, the exchange that creates a session or binds a channel, over any
    mechanism with the calls of \<open>session/gss.rs\<close>. \<open>Compression\<close>: \<open>compression.rs\<close>,
    \<open>smb-msg/compressed.rs\<close>. \<open>Message_Security\<close>: \<open>session/signer.rs\<close>,
    \<open>session/encryptor_decryptor.rs\<close>, \<open>smb-msg/encrypted.rs\<close>. \<open>Wire_Pipeline\<close>: \<open>runtime/wire.rs\<close>;
    \<open>Wire_Signing\<close> and \<open>Wire_Contract\<close>: what the pipeline and the channel guarantee together.
  \<^item> \<open>Segmented_Bytes\<close>, \<open>Cmac_Batch\<close>: \<open>crypto/cmac_batch.rs\<close>. \<open>Signing_Algorithms\<close>:
    \<open>crypto/signing.rs\<close>. \<open>Encryption_Algorithms\<close>: \<open>crypto/encryption\<close>. \<open>Cmac_Batcher\<close>:
    \<open>runtime/cmac_batcher.rs\<close>. \<open>Transport\<close>: \<open>smb-transport/src\<close> (\<open>iovec.rs\<close>, \<open>frame.rs\<close>,
    \<open>traits.rs\<close>, \<open>tcp\<close>).
  \<^item> \<open>File_Transfer\<close>, \<open>Domain_Operation\<close>, \<open>Domain_Batch\<close>, \<open>Domain_Cursor\<close>: the files of the same
    names under \<open>domain\<close>.
  \<^item> \<open>Binary_Codec\<close>, \<open>Numerals\<close>: readers, writers and number texts as the codec and the standard
    library define them, with the locale of what reads back. \<open>Guid\<close>, \<open>Security_Id\<close>,
    \<open>Security_Descriptor\<close>: \<open>guid.rs\<close> and \<open>security\<close> of \<open>smb-dtyp\<close>. \<open>Security_Policy\<close>: the order of
    access lists (\<open>acl.rs\<close>), \<open>domain/security.rs\<close> and its part of \<open>runtime/port.rs\<close>.
  \<^item> \<open>Unc_Path\<close>: \<open>client/unc_path.rs\<close>. \<open>Chained_List\<close>: \<open>chained_list.rs\<close>, \<open>directory_info.rs\<close> and
    \<open>notify.rs\<close> of \<open>smb-fscc\<close>. \<open>Directory_Stream\<close>: the tasks and streams of
    \<open>resource/directory.rs\<close>. \<open>Rpc_Pipe\<close>: \<open>smb-rpc/pdu.rs\<close> and \<open>domain/rpc.rs\<close>.

  \<^bold>\<open>How code becomes definitions.\<close> A struct is a record, an enum a datatype, a handler a function
  from the state to the new state and its effects, with the error as a value; a state that a
  failing call has already changed is returned with the error. Integers keep their width where
  the code computes with them. A \<open>HashMap\<close> is an association list; its iteration order is the
  order of that list, and no property depends on it. Waiting is not modelled as such: a task is
  a function of events, and a property about a task quantifies over all sequences of events.
  Libraries outside the repository are parameters: the authentication mechanism, MACs, ciphers, hashes and LZ4 are fields
  of the records \<open>gss\<close>, \<open>crypto\<close>, \<open>primitives\<close>, \<open>mac_lib\<close>, \<open>aead_lib\<close> and \<open>lz4\<close>, and what is relied on is
  a named hypothesis (\<open>lz4_faithful\<close>, \<open>aead_lib_faithful\<close>, \<open>cmac_lib_rfc\<close>, \<open>signs_with\<close>).

  \<^bold>\<open>What is shown.\<close> For a generation: exact ledgers, disjoint message ids, admission that is all
  or nothing, at most one outcome per request and nobody waiting after a disconnect; for the
  engine: every caller is answered at most once and as recorded, and with a response its policy
  admits, over every schedule. For the
  registry and recovery: tokens that die for good, subtrees that are revoked exactly, waits
  that complete exactly once, loops that return. For the wire: layouts that parse back,
  signatures that verify and envelopes that open (behind compression where it applies), responses that are accepted only when
  authenticated, sessions that become ready only at the end of an accepted exchange, bindings
  that leave their session alone, batched MACs equal to the RFC 4493 ones, frames that survive partial writes.
  For the domain layer: transfers that copy, batches that follow their dependencies, cursors
  that equal an ideal position, operations that start and answer once, listings and watches
  that lose nothing, path security that closes its handle and stores the supported part, calls
  whose identifiers are never reused. For the types: which texts and bytes read back, and which
  do not.

  \<^bold>\<open>Bounds.\<close> Sequences of events, numbers of requests, objects, segments and messages are
  unbounded, and there is no fuel. Loops are structural recursion, functions with a measure (the
  due deadlines of a generation, the chain of a list of entries), or option-valued recursion
  with a theorem that it returns: the walks of the object registry on well-formed registries,
  the lanes of the batched CMAC always, a file transfer whatever its reads and writes give, the
  attempt loop of recovery within \<open>2 * max_attempts\<close> turns.

  \<^bold>\<open>Not modelled.\<close> The task plumbing (channels, futures, timers, sockets, threads) is the
  environment. Bodies of requests and responses other than those named above are byte strings:
  their codecs (\<open>smb-msg\<close>, the information classes of \<open>smb-fscc\<close>, the NDR64 stubs of \<open>smb-rpc\<close>)
  are tables of fields for a derive macro whose code is not part of the repository. Connecting,
  negotiating and the authentication mechanism (\<open>connection.rs\<close>, \<open>session/authenticator.rs\<close>, the
  NetBIOS handshake) are exchanges with libraries and sockets; the state they produce is the
  start of the models of \<open>Dialects\<close> and \<open>Session_Setup\<close>, which takes the mechanism as a
  parameter. Handles, trees and the typed wrappers of the domain (\<open>resource.rs\<close>, \<open>tree.rs\<close>, \<open>domain/mod.rs\<close>) pass bodies to the runtime. Tests and
  test support are not modelled.
\<close>

end
